(* ===== verification/Prelude.thy ===== *)
theory Prelude
  imports Complex_Main "HOL-Library.Word" "HOL-Library.Char_ord" "HOL-Library.List_Lexorder"
begin

text \<open>
  The vocabulary every other theory shares: the collections of simplification rules and
  introduction rules, Go's wrapping 64-bit integers, decimal printing, and the pure meaning of
  the four table statements the manager issues (a filter, an update under a condition, a delete
  under a condition, an insert that refuses a key already taken), with the lemmas about them.
\<close>

named_theorems tm_defs \<open>unfolding rules of the manager's monad\<close>
named_theorems keeps_intros \<open>introduction rules for preservation of a table invariant\<close>
named_theorems succ \<open>what a successful run of an operation says of its parts\<close>
named_theorems errs \<open>what a failed run of an operation says of its parts\<close>
named_theorems surely_intros \<open>operations that never return an error\<close>
named_theorems fine_intros \<open>operations that return a value while no statement fails\<close>
named_theorems silent_intros \<open>operations that publish nothing\<close>
named_theorems calm \<open>what an operation returns when no statement fails\<close>

section \<open>Integers of a fixed width\<close>

text \<open>
  Go's \<open>int\<close> is 64 bits wide and wraps. The model keeps ranks as \<open>int\<close> and writes the wrap
  out where the code does arithmetic on them.
\<close>

definition wrap64 :: "int \<Rightarrow> int" where
  "wrap64 x = sint (word_of_int x :: 64 word)"

lemma wrap64_id: "- (2 ^ 63) \<le> x \<Longrightarrow> x < 2 ^ 63 \<Longrightarrow> wrap64 x = x"
  by (simp add: wrap64_def sint_sbintrunc' signed_take_bit_int_eq_self)

text \<open>Go's integer division truncates towards zero.\<close>

definition quot :: "int \<Rightarrow> int \<Rightarrow> int" where
  "quot a b = sgn a * sgn b * (\<bar>a\<bar> div \<bar>b\<bar>)"

lemma quot_nonneg: "0 \<le> a \<Longrightarrow> 0 < b \<Longrightarrow> quot a b = a div b"
  by (cases "a = 0") (simp_all add: quot_def)

section \<open>Decimal printing\<close>

definition digit :: "nat \<Rightarrow> char" where
  "digit n = char_of (48 + n)"

fun dec :: "nat \<Rightarrow> string" where
  "dec n = (if n < 10 then [digit n] else dec (n div 10) @ [digit (n mod 10)])"

declare dec.simps [simp del]

definition padded :: "nat \<Rightarrow> nat \<Rightarrow> string" where
  "padded w n = replicate (w - length (dec n)) (CHR ''0'') @ dec n"

definition decInt :: "int \<Rightarrow> string" where
  "decInt n = (if n < 0 then CHR ''-'' # dec (nat (- n)) else dec (nat n))"

text \<open>\<open>%06x\<close>, and the two lower-case digits per byte of \<open>hex.EncodeToString\<close>.\<close>

definition hexDigit :: "nat \<Rightarrow> char" where
  "hexDigit n = (if n < 10 then char_of (48 + n) else char_of (87 + n))"

fun hexWidth :: "nat \<Rightarrow> nat \<Rightarrow> string" where
  "hexWidth 0 n = []"
| "hexWidth (Suc w) n = hexWidth w (n div 16) @ [hexDigit (n mod 16)]"

text \<open>Reading a decimal back.\<close>

definition undigit :: "char \<Rightarrow> nat" where
  "undigit c = of_char c - 48"

definition undec :: "string \<Rightarrow> nat" where
  "undec = foldl (\<lambda>n c. 10 * n + undigit c) 0"

lemma undigit_digit: "n < 10 \<Longrightarrow> undigit (digit n) = n"
  by (simp add: undigit_def digit_def)

lemma undec_dec: "undec (dec n) = n"
proof (induction n rule: dec.induct)
  case (1 n)
  show ?case
  proof (cases "n < 10")
    case True
    then show ?thesis by (simp add: dec.simps [of n] undec_def undigit_digit)
  next
    case False
    with 1 have "undec (dec (n div 10)) = n div 10" by simp
    with False show ?thesis
      by (simp add: dec.simps [of n] undec_def undigit_digit)
  qed
qed

lemma dec_inject [simp]: "dec m = dec n \<longleftrightarrow> m = n"
  by (metis undec_dec)

lemma dec_nonempty [simp]: "dec n \<noteq> []"
  by (simp add: dec.simps)

definition isDigit :: "char \<Rightarrow> bool" where
  "isDigit c \<longleftrightarrow> 48 \<le> (of_char c :: nat) \<and> (of_char c :: nat) \<le> 57"

lemma isDigit_digit: "n < 10 \<Longrightarrow> isDigit (digit n)"
  by (simp add: isDigit_def digit_def)

lemma dec_isDigit: "c \<in> set (dec n) \<Longrightarrow> isDigit c"
proof (induction n rule: dec.induct)
  case (1 n)
  then show ?case
    by (auto simp: dec.simps [of n] isDigit_digit split: if_splits)
qed

text \<open>
  A decimal followed by something that does not start with a digit is read off uniquely: the
  reason a length prefix makes a concatenation injective.
\<close>

lemma digits_prefix_unique:
  assumes "xs @ a # us = ys @ b # vs"
    and "\<forall>c \<in> set xs. isDigit c" and "\<forall>c \<in> set ys. isDigit c"
    and "\<not> isDigit a" and "\<not> isDigit b"
  shows "xs = ys \<and> a # us = b # vs"
  using assms
proof (induction xs arbitrary: ys)
  case Nil
  then show ?case by (cases ys) auto
next
  case (Cons x xs)
  then show ?case by (cases ys) auto
qed

section \<open>Tables as lists of rows\<close>

text \<open>
  A table is the list of its rows in storage order. These are the pure meanings of
  \<open>SELECT \<dots> WHERE\<close> (\<open>filter\<close>), \<open>SELECT \<dots> LIMIT 1\<close> (\<open>List.find\<close>), \<open>UPDATE \<dots> WHERE\<close>,
  \<open>DELETE \<dots> WHERE\<close> and \<open>INSERT\<close>.
\<close>

definition updWhere :: "('r \<Rightarrow> bool) \<Rightarrow> ('r \<Rightarrow> 'r) \<Rightarrow> 'r list \<Rightarrow> 'r list" where
  "updWhere P f rs = map (\<lambda>r. if P r then f r else r) rs"

definition affected :: "('r \<Rightarrow> bool) \<Rightarrow> 'r list \<Rightarrow> nat" where
  "affected P rs = length (filter P rs)"

definition delWhere :: "('r \<Rightarrow> bool) \<Rightarrow> 'r list \<Rightarrow> 'r list" where
  "delWhere P rs = filter (\<lambda>r. \<not> P r) rs"

lemma updWhere_simps [simp]:
  "updWhere P f [] = []"
  "updWhere P f (r # rs) = (if P r then f r else r) # updWhere P f rs"
  by (simp_all add: updWhere_def)

lemma length_updWhere [simp]: "length (updWhere P f rs) = length rs"
  by (simp add: updWhere_def)

lemma set_updWhere: "set (updWhere P f rs) = (\<lambda>r. if P r then f r else r) ` set rs"
  by (simp add: updWhere_def)

lemma map_updWhere: "(\<And>r. k (f r) = k r) \<Longrightarrow> map k (updWhere P f rs) = map k rs"
  by (simp add: updWhere_def)

lemma map_updWhere_on: "(\<And>r. P r \<Longrightarrow> k (f r) = k r) \<Longrightarrow> map k (updWhere P f rs) = map k rs"
  by (simp add: updWhere_def)

lemma updWhere_none: "\<forall>r \<in> set rs. \<not> P r \<Longrightarrow> updWhere P f rs = rs"
  by (induction rs) auto

lemma affected_0_iff: "affected P rs = 0 \<longleftrightarrow> (\<forall>r \<in> set rs. \<not> P r)"
  by (auto simp: affected_def filter_empty_conv)

lemma updWhere_affected_0: "affected P rs = 0 \<Longrightarrow> updWhere P f rs = rs"
  by (simp add: affected_0_iff updWhere_none)

lemma find_updWhere:
  "(\<And>r. P r \<Longrightarrow> Q (f r) = Q r) \<Longrightarrow>
   List.find Q (updWhere P f rs) = map_option (\<lambda>r. if P r then f r else r) (List.find Q rs)"
  by (induction rs) auto

lemma filter_updWhere:
  "(\<And>r. P r \<Longrightarrow> Q (f r) = Q r) \<Longrightarrow> filter Q (updWhere P f rs) = updWhere P f (filter Q rs)"
  by (induction rs) auto

lemma find_append: "List.find P (xs @ ys) = (case List.find P xs of None \<Rightarrow> List.find P ys | Some x \<Rightarrow> Some x)"
  by (induction xs) auto

lemma find_Some_in: "List.find P xs = Some x \<Longrightarrow> x \<in> set xs \<and> P x"
  by (auto simp: find_Some_iff)

lemma find_None_all: "List.find P xs = None \<Longrightarrow> x \<in> set xs \<Longrightarrow> \<not> P x"
  by (auto simp: find_None_iff)

lemma find_distinct:
  assumes "distinct (map k rs)" and "r \<in> set rs" and "P r" and "\<And>r'. P r' \<Longrightarrow> k r' = k r"
  shows "List.find P rs = Some r"
  using assms(1,2)
proof (induction rs)
  case Nil
  then show ?case by simp
next
  case (Cons a rs)
  show ?case
  proof (cases "P a")
    case True
    then have "k a = k r" by (rule assms(4))
    with Cons.prems have "a = r" by (metis distinct.simps(2) image_eqI list.simps(9) list.set_map set_ConsD)
    with True show ?thesis by simp
  next
    case False
    with Cons.prems(2) assms(3) have "r \<in> set rs" by auto
    with Cons.IH Cons.prems(1) False show ?thesis by simp
  qed
qed

lemma distinct_key_eq: "distinct (map k rs) \<Longrightarrow> r \<in> set rs \<Longrightarrow> r' \<in> set rs \<Longrightarrow> k r = k r' \<Longrightarrow> r = r'"
  by (auto simp: distinct_map inj_on_def)

lemma affected_key_le_1:
  "distinct (map k rs) \<Longrightarrow> affected (\<lambda>r. k r = x \<and> P r) rs \<le> 1"
proof (induction rs)
  case (Cons a rs)
  show ?case
  proof (cases "k a = x")
    case True
    with Cons.prems have "\<forall>r \<in> set rs. k r \<noteq> x" by (metis distinct.simps(2) image_eqI list.simps(9) list.set_map)
    then have "filter (\<lambda>r. k r = x \<and> P r) rs = []" by (auto simp: filter_empty_conv)
    then show ?thesis by (simp add: affected_def)
  qed (use Cons in \<open>simp add: affected_def\<close>)
qed (simp add: affected_def)

text \<open>The first \<open>n\<close> rows of a page: \<open>LIMIT n\<close>.\<close>

lemma set_take_filter: "x \<in> set (take n (filter P xs)) \<Longrightarrow> x \<in> set xs \<and> P x"
  by (drule in_set_takeD) simp

section \<open>Sorting by a comparison\<close>

text \<open>
  \<open>sort.Slice\<close> and \<open>ORDER BY\<close> take a strict comparison; elements it does not order keep their
  places here (\<open>sort.SliceStable\<close>; the other two leave such ties open).
\<close>

fun insertBy :: "('a \<Rightarrow> 'a \<Rightarrow> bool) \<Rightarrow> 'a \<Rightarrow> 'a list \<Rightarrow> 'a list" where
  "insertBy lt x [] = [x]"
| "insertBy lt x (y # ys) = (if lt y x then y # insertBy lt x ys else x # y # ys)"

definition sortBy :: "('a \<Rightarrow> 'a \<Rightarrow> bool) \<Rightarrow> 'a list \<Rightarrow> 'a list" where
  "sortBy lt xs = foldr (insertBy lt) xs []"

lemma set_insertBy [simp]: "set (insertBy lt x ys) = insert x (set ys)"
  by (induction ys) auto

lemma set_sortBy [simp]: "set (sortBy lt xs) = set xs"
  unfolding sortBy_def by (induction xs) auto

lemma length_insertBy [simp]: "length (insertBy lt x ys) = Suc (length ys)"
  by (induction ys) auto

lemma length_sortBy [simp]: "length (sortBy lt xs) = length xs"
  unfolding sortBy_def by (induction xs) auto

lemma distinct_insertBy: "distinct (map k (insertBy lt x ys)) = distinct (k x # map k ys)"
  by (induction ys) auto

lemma distinct_sortBy: "distinct (map k (sortBy lt xs)) = distinct (map k xs)"
  unfolding sortBy_def by (induction xs) (auto simp: distinct_insertBy simp flip: sortBy_def)

lemma sorted_insertBy:
  assumes trans: "\<And>a b c. \<not> lt b a \<Longrightarrow> \<not> lt c b \<Longrightarrow> \<not> lt c a"
    and asym: "\<And>a b. lt a b \<Longrightarrow> \<not> lt b a"
    and "sorted_wrt (\<lambda>a b. \<not> lt b a) ys"
  shows "sorted_wrt (\<lambda>a b. \<not> lt b a) (insertBy lt x ys)"
  using assms(3)
proof (induction ys)
  case (Cons y ys)
  then have sorted: "sorted_wrt (\<lambda>a b. \<not> lt b a) ys" and after: "\<forall>z \<in> set ys. \<not> lt z y" by simp_all
  show ?case
  proof (cases "lt y x")
    case True
    with Cons.IH [OF sorted] after asym [OF True] show ?thesis by simp
  next
    case False
    then have "\<forall>z \<in> set ys. \<not> lt z x" using after trans by blast
    with False sorted after show ?thesis by simp
  qed
qed simp

lemma sorted_sortBy:
  assumes "\<And>a b c. \<not> lt b a \<Longrightarrow> \<not> lt c b \<Longrightarrow> \<not> lt c a" and "\<And>a b. lt a b \<Longrightarrow> \<not> lt b a"
  shows "sorted_wrt (\<lambda>a b. \<not> lt b a) (sortBy lt xs)"
  unfolding sortBy_def
proof (induction xs)
  case (Cons x xs)
  show ?case unfolding foldr.simps comp_apply by (rule sorted_insertBy) (fact assms Cons.IH)+
qed simp

end
