(* ===== verification/Civil_Time.thy ===== *)
theory Civil_Time
  imports Prelude "HOL-Library.Monad_Syntax"
begin

text \<open>
  The part of Go's package \<open>time\<close> the manager uses. An instant is a number of nanoseconds since
  1970-01-01T00:00:00Z; \<open>fmtRFC3339\<close> is \<open>t.UTC().Format(time.RFC3339)\<close> and \<open>parseRFC3339\<close> is
  \<open>time.Parse(time.RFC3339, s)\<close>. The rows store instants as these strings and the SQL conditions
  of the sweeps compare them as strings.
\<close>

type_synonym instant = int

definition nsPerSec :: int where "nsPerSec = 1000000000"

section \<open>The civil calendar\<close>

text \<open>
  A day number counts from 0000-03-01, so that the leap day is the last day of a year: 146097 days
  in 400 years, 36524 in a century, 1461 in four years. The year found starts in March.
\<close>

definition marchDate :: "int \<Rightarrow> int \<times> int" where
  "marchDate z =
     (let era = z div 146097; d = z mod 146097;
          c = min 3 (d div 36524); d1 = d - c * 36524;
          q = min 24 (d1 div 1461); d2 = d1 - q * 1461;
          y = min 3 (d2 div 365)
      in (400 * era + 100 * c + 4 * q + y, d2 - 365 * y))"

definition civil :: "int \<Rightarrow> int \<times> int \<times> int" where
  "civil days =
     (let (y, doy) = marchDate (days + 719468);
          mp = (5 * doy + 2) div 153;
          day = doy - (153 * mp + 2) div 5 + 1;
          month = (if mp < 10 then mp + 3 else mp - 9)
      in (if month \<le> 2 then y + 1 else y, month, day))"

definition daysOf :: "int \<Rightarrow> int \<Rightarrow> int \<Rightarrow> int" where
  "daysOf year month day =
     (let y = (if month \<le> 2 then year - 1 else year);
          mp = (if month > 2 then month - 3 else month + 9);
          doy = (153 * mp + 2) div 5 + day - 1
      in 365 * y + y div 4 - y div 100 + y div 400 + doy - 719468)"

definition isLeap :: "int \<Rightarrow> bool" where
  "isLeap y \<longleftrightarrow> y mod 4 = 0 \<and> (y mod 100 \<noteq> 0 \<or> y mod 400 = 0)"

definition daysIn :: "int \<Rightarrow> int \<Rightarrow> int" where
  "daysIn month year =
     (if month = 2 then (if isLeap year then 29 else 28)
      else if month \<in> {4, 6, 9, 11} then 30 else 31)"

section \<open>Formatting\<close>

definition fmtSeconds :: "instant \<Rightarrow> string" where
  "fmtSeconds t =
     (let s = t div nsPerSec; days = s div 86400; sod = s mod 86400; (y, m, d) = civil days
      in padded 4 (nat y) @ ''-'' @ padded 2 (nat m) @ ''-'' @ padded 2 (nat d) @ ''T'' @
         padded 2 (nat (sod div 3600)) @ '':'' @ padded 2 (nat (sod div 60 mod 60)) @ '':'' @
         padded 2 (nat (sod mod 60)))"

definition fmtRFC3339 :: "instant \<Rightarrow> string" where
  "fmtRFC3339 t = fmtSeconds t @ ''Z''"

text \<open>The layout \<open>2006-01-02-150405\<close> of a generated run name.\<close>

definition fmtStamp :: "instant \<Rightarrow> string" where
  "fmtStamp t =
     (let s = t div nsPerSec; days = s div 86400; sod = s mod 86400; (y, m, d) = civil days
      in padded 4 (nat y) @ ''-'' @ padded 2 (nat m) @ ''-'' @ padded 2 (nat d) @ ''-'' @
         padded 2 (nat (sod div 3600)) @ padded 2 (nat (sod div 60 mod 60)) @
         padded 2 (nat (sod mod 60)))"

definition dropTrailingZeros :: "string \<Rightarrow> string" where
  "dropTrailingZeros s = rev (dropWhile (\<lambda>c. c = CHR ''0'') (rev s))"

definition fmtRFC3339Nano :: "instant \<Rightarrow> string" where
  "fmtRFC3339Nano t =
     (let n = nat (t mod nsPerSec)
      in fmtSeconds t @
         (if n = 0 then [] else CHR ''.'' # dropTrailingZeros (padded 9 n)) @ ''Z'')"

lemma fmtRFC3339_nonempty [simp]: "fmtRFC3339 t \<noteq> []"
  by (simp add: fmtRFC3339_def)

lemma fmtRFC3339Nano_nonempty [simp]: "fmtRFC3339Nano t \<noteq> []"
  by (simp add: fmtRFC3339Nano_def Let_def)

text \<open>\<open>t.UnixMilli()\<close>.\<close>

definition unixMilli :: "instant \<Rightarrow> int" where
  "unixMilli t = t div 1000000"

definition minutesNs :: "int \<Rightarrow> int" where
  "minutesNs n = n * 60 * nsPerSec"

section \<open>Parsing\<close>

text \<open>
  \<open>getnum\<close> reads two digits, or one where the layout does not fix the width (only the hour).
  \<open>lit\<close> consumes one literal character of the layout.
\<close>

fun getnum :: "bool \<Rightarrow> string \<Rightarrow> (int \<times> string) option" where
  "getnum fixed (a # b # s) =
     (if \<not> isDigit a then None
      else if isDigit b then Some (int (10 * undigit a + undigit b), s)
      else if fixed then None else Some (int (undigit a), b # s))"
| "getnum fixed [a] = (if isDigit a \<and> \<not> fixed then Some (int (undigit a), []) else None)"
| "getnum fixed [] = None"

fun lit :: "char \<Rightarrow> string \<Rightarrow> string option" where
  "lit c (a # s) = (if a = c then Some s else None)"
| "lit c [] = None"

fun year4 :: "string \<Rightarrow> (int \<times> string) option" where
  "year4 (a # b # c # d # s) =
     (if isDigit a \<and> isDigit b \<and> isDigit c \<and> isDigit d then Some (int (undec [a, b, c, d]), s) else None)"
| "year4 _ = None"

text \<open>Nanoseconds: at most nine digits count, the rest are dropped.\<close>

definition fraction :: "string \<Rightarrow> int \<times> string" where
  "fraction s =
     (case s of
        c # d # _ \<Rightarrow>
          if (c = CHR ''.'' \<or> c = CHR '','') \<and> isDigit d then
            (let ds = takeWhile isDigit (tl s); n = take 9 ds
             in (int (undec (n @ replicate (9 - length n) (CHR ''0''))), dropWhile isDigit (tl s)))
          else (0, s)
      | _ \<Rightarrow> (0, s))"

fun zone :: "string \<Rightarrow> (int \<times> string) option" where
  "zone (a # s) =
     (if a = CHR ''Z'' then Some (0, s)
      else if a = CHR ''+'' \<or> a = CHR ''-'' then
        do { (h, s1) \<leftarrow> getnum True s; s2 \<leftarrow> lit (CHR '':'') s1; (m, s3) \<leftarrow> getnum True s2;
             if h \<le> 24 \<and> m \<le> 60
             then Some ((if a = CHR ''-'' then - 1 else 1) * (h * 3600 + m * 60), s3) else None }
      else None)"
| "zone [] = None"

definition parseRFC3339 :: "string \<Rightarrow> instant option" where
  "parseRFC3339 s = do {
     (y, s) \<leftarrow> year4 s; s \<leftarrow> lit (CHR ''-'') s;
     (mo, s) \<leftarrow> getnum True s; s \<leftarrow> lit (CHR ''-'') s;
     (d, s) \<leftarrow> getnum True s; s \<leftarrow> lit (CHR ''T'') s;
     (h, s) \<leftarrow> getnum False s; s \<leftarrow> lit (CHR '':'') s;
     (mi, s) \<leftarrow> getnum True s; s \<leftarrow> lit (CHR '':'') s;
     (sec, s) \<leftarrow> getnum True s;
     let (ns, s) = fraction s in do {
     (off, s) \<leftarrow> zone s;
     if s = [] \<and> 1 \<le> mo \<and> mo \<le> 12 \<and> 1 \<le> d \<and> d \<le> daysIn mo y \<and> h < 24 \<and> mi < 60 \<and> sec < 60
     then Some ((daysOf y mo d * 86400 + h * 3600 + mi * 60 + sec - off) * nsPerSec + ns)
     else None } }"

end
