(* ===== verification/Time_Roundtrip.thy ===== *)
theory Time_Roundtrip
  imports Civil_Time
begin

text \<open>
  Reading back an instant the code has written: \<open>time.Parse(time.RFC3339, t.UTC().Format(time.RFC3339))\<close>
  is \<open>t\<close> cut to the second, for the years 0 to 9999 the format can hold. The calendar is inverted first,
  then the text.
\<close>

section \<open>The calendar\<close>

lemma min_div_bounds:
  fixes b d n k :: int
  assumes "0 < b" "0 \<le> d" "0 \<le> n" and "k = min n (d div b)"
  shows "0 \<le> k \<and> k \<le> n \<and> 0 \<le> d - k * b \<and> (k < n \<longrightarrow> d - k * b < b)"
proof -
  have b: "d = d div b * b + d mod b" "0 \<le> d mod b" "d mod b < b" "0 \<le> d div b"
    using assms(1,2) by (simp_all add: pos_imp_zdiv_nonneg_iff)
  show ?thesis
  proof (cases "n \<le> d div b")
    case True
    then have "n * b \<le> d div b * b" using assms(1) by (intro mult_right_mono) simp_all
    moreover have kn: "k = n" using assms(4) True by (simp add: min_def)
    ultimately show ?thesis unfolding kn using b assms(3) by (intro conjI impI; linarith)
  next
    case False
    then have kn: "k = d div b" using assms(4) by (simp add: min_def)
    from b False show ?thesis unfolding kn by (intro conjI impI; linarith)
  qed
qed

lemma marchDate_parts:
  obtains e c q y doy where "marchDate z = (400 * e + 100 * c + 4 * q + y, doy)"
    and "z = 146097 * e + 36524 * c + 1461 * q + 365 * y + doy"
    and "0 \<le> c" "c \<le> 3" "0 \<le> q" "q \<le> 24" "0 \<le> y" "y \<le> 3" "0 \<le> doy" "doy \<le> 365"
    and "doy = 365 \<Longrightarrow> y = 3 \<and> (q = 24 \<longrightarrow> c = 3)"
proof -
  define e d where "e = z div 146097" and "d = z mod 146097"
  define c where "c = min 3 (d div 36524)"
  define d1 where "d1 = d - c * 36524"
  define q where "q = min 24 (d1 div 1461)"
  define d2 where "d2 = d1 - q * 1461"
  define y where "y = min 3 (d2 div 365)"
  have m: "marchDate z = (400 * e + 100 * c + 4 * q + y, d2 - 365 * y)"
    unfolding marchDate_def Let_def y_def d2_def q_def d1_def c_def d_def e_def by (rule refl)
  have z: "z = 146097 * e + d" "0 \<le> d" "d < 146097" by (simp_all add: e_def d_def)
  have step: "0 \<le> k" "k \<le> n" "0 \<le> x - k * b" "x - k * b \<le> r" "x - k * b = r \<Longrightarrow> b \<le> r \<Longrightarrow> k = n"
    if "k = min n (x div b)" "0 \<le> x" "0 < b" "0 \<le> n" "x \<le> n * b + r" "b \<le> r + 1" for k n x b r :: int
  proof -
    note k = min_div_bounds [OF that(3,2,4,1)]
    show "0 \<le> k" "k \<le> n" "0 \<le> x - k * b" using k by blast+
    show "x - k * b \<le> r"
    proof (cases "k = n")
      case True
      then show ?thesis using that(5) by simp
    next
      case False
      then have "x - k * b < b" using k by auto
      then show ?thesis using that(6) by linarith
    qed
    assume eq: "x - k * b = r" "b \<le> r"
    show "k = n"
    proof (rule ccontr)
      assume "k \<noteq> n"
      then have "x - k * b < b" using k by auto
      then show False using eq by linarith
    qed
  qed
  have d: "d \<le> 3 * 36524 + 36524" using z(3) by simp
  have c: "0 \<le> c" "c \<le> 3" "0 \<le> d1" "d1 \<le> 36524" "d1 = 36524 \<Longrightarrow> c = 3"
    unfolding d1_def by (rule step [OF c_def z(2) _ _ d]; simp)+
  have d1: "d1 \<le> 24 * 1461 + 1460" using c(4) by simp
  have q: "0 \<le> q" "q \<le> 24" "0 \<le> d2" "d2 \<le> 1460"
    unfolding d2_def by (rule step [OF q_def c(3) _ _ d1]; simp)+
  have d2: "d2 \<le> 3 * 365 + 365" using q(4) by simp
  have y: "0 \<le> y" "y \<le> 3" "0 \<le> d2 - y * 365" "d2 - y * 365 \<le> 365" "d2 - y * 365 = 365 \<Longrightarrow> y = 3"
    by (rule step [OF y_def q(3) _ _ d2]; simp)+
  show ?thesis
  proof (rule that [OF m])
    show "z = 146097 * e + 36524 * c + 1461 * q + 365 * y + (d2 - 365 * y)" using z(1) by (simp add: d1_def d2_def)
    show "0 \<le> d2 - 365 * y" "d2 - 365 * y \<le> 365" using y(3,4) by (simp_all add: mult.commute)
    assume "d2 - 365 * y = 365"
    then have "d2 - y * 365 = 365" by (simp add: mult.commute)
    with y(5) have "y = 3" "d2 = 1460" by auto
    moreover have "c = 3" if "q = 24" using c(5) that \<open>d2 = 1460\<close> by (simp add: d2_def)
    ultimately show "y = 3 \<and> (q = 24 \<longrightarrow> c = 3)" by blast
  qed (fact c q y)+
qed

text \<open>The day number of the date a day number was turned into, and its date is one of the calendar.\<close>

lemma march_year_days:
  fixes e c q y :: int
  assumes "0 \<le> c" "c \<le> 3" "0 \<le> q" "q \<le> 24" "0 \<le> y" "y \<le> 3" and "Y = 400 * e + 100 * c + 4 * q + y"
  shows "365 * Y + Y div 4 - Y div 100 + Y div 400 = 146097 * e + 36524 * c + 1461 * q + 365 * y"
    and "(Y + 1) mod 4 = 0 \<longleftrightarrow> y = 3" and "(Y + 1) mod 100 = 0 \<longleftrightarrow> y = 3 \<and> q = 24"
    and "(Y + 1) mod 400 = 0 \<longleftrightarrow> y = 3 \<and> q = 24 \<and> c = 3"
proof -
  have "Y div 4 = 100 * e + 25 * c + q" using assms by linarith
  moreover have "Y div 100 = 4 * e + c" using assms by linarith
  moreover have "Y div 400 = e" using assms by linarith
  ultimately show "365 * Y + Y div 4 - Y div 100 + Y div 400 = 146097 * e + 36524 * c + 1461 * q + 365 * y"
    using assms(7) by simp
  have small: "(x + m * k) mod m = 0 \<longleftrightarrow> x = m" if "0 < x" "x \<le> m" for x m k :: int
  proof (cases "x = m")
    case False
    with that have "(x + m * k) mod m = x" by simp
    with that False show ?thesis by simp
  qed simp
  have y4: "Y + 1 = (y + 1) + 4 * (100 * e + 25 * c + q)" using assms(7) by simp
  have "(Y + 1) mod 4 = 0 \<longleftrightarrow> y + 1 = 4" unfolding y4 by (rule small) (use assms(5,6) in simp_all)
  then show "(Y + 1) mod 4 = 0 \<longleftrightarrow> y = 3" by simp
  have y100: "Y + 1 = (4 * q + y + 1) + 100 * (4 * e + c)" using assms(7) by simp
  have "(Y + 1) mod 100 = 0 \<longleftrightarrow> 4 * q + y + 1 = 100" unfolding y100 by (rule small) (use assms(3-6) in simp_all)
  also have "\<dots> \<longleftrightarrow> y = 3 \<and> q = 24" using assms(3-6) by presburger
  finally show "(Y + 1) mod 100 = 0 \<longleftrightarrow> y = 3 \<and> q = 24" .
  have y400: "Y + 1 = (100 * c + 4 * q + y + 1) + 400 * e" using assms(7) by simp
  have "(Y + 1) mod 400 = 0 \<longleftrightarrow> 100 * c + 4 * q + y + 1 = 400" unfolding y400 by (rule small) (use assms(1-6) in simp_all)
  also have "\<dots> \<longleftrightarrow> y = 3 \<and> q = 24 \<and> c = 3"
  proof
    assume sum: "100 * c + 4 * q + y + 1 = 400"
    then have c: "c = 3" using assms(1-6) by linarith
    with sum have "q = 24" using assms(3-6) by linarith
    with sum c show "y = 3 \<and> q = 24 \<and> c = 3" by simp
  qed simp
  finally show "(Y + 1) mod 400 = 0 \<longleftrightarrow> y = 3 \<and> q = 24 \<and> c = 3" .
qed

text \<open>The twelve months of a year that starts in March.\<close>

lemma march_months:
  fixes doy :: int
  assumes "0 \<le> doy" "doy \<le> 365"
  defines "mp \<equiv> (5 * doy + 2) div 153"
  shows "0 \<le> mp" "mp \<le> 11" "1 \<le> doy - (153 * mp + 2) div 5 + 1"
    and "doy - (153 * mp + 2) div 5 + 1 \<le>
      (if mp = 11 then (if doy = 365 then 29 else 28) else if mp \<in> {1, 3, 6, 8} then 30 else 31)"
proof -
  show mp: "0 \<le> mp" "mp \<le> 11" using assms by (simp_all add: mp_def)
  have b: "153 * mp \<le> 5 * doy + 2" "5 * doy + 2 < 153 * mp + 153" unfolding mp_def by linarith+
  from mp have cases: "mp \<in> {0, 1, 2, 3, 4, 5, 6, 7, 8, 9, 10, 11}" by (simp, presburger)
  show "1 \<le> doy - (153 * mp + 2) div 5 + 1" using b by linarith
  show "doy - (153 * mp + 2) div 5 + 1 \<le>
      (if mp = 11 then (if doy = 365 then 29 else 28) else if mp \<in> {1, 3, 6, 8} then 30 else 31)"
    using cases b assms(2) by (auto split: if_splits)
qed

lemma civil_valid:
  assumes "civil days = (y, m, d)"
  shows "daysOf y m d = days" and "1 \<le> m" and "m \<le> 12" and "1 \<le> d" and "d \<le> daysIn m y"
proof -
  obtain e c q y0 doy where md: "marchDate (days + 719468) = (400 * e + 100 * c + 4 * q + y0, doy)"
    and z: "days + 719468 = 146097 * e + 36524 * c + 1461 * q + 365 * y0 + doy"
    and bounds: "0 \<le> c" "c \<le> 3" "0 \<le> q" "q \<le> 24" "0 \<le> y0" "y0 \<le> 3" and doy: "0 \<le> doy" "doy \<le> 365"
    and leap: "doy = 365 \<Longrightarrow> y0 = 3 \<and> (q = 24 \<longrightarrow> c = 3)"
    using marchDate_parts [of "days + 719468"] by metis
  define Y where "Y = 400 * e + 100 * c + 4 * q + y0"
  define mp where "mp = (5 * doy + 2) div 153"
  note year = march_year_days [OF bounds Y_def] and months = march_months [OF doy, folded mp_def]
  have parts: "m = (if mp < 10 then mp + 3 else mp - 9)" "d = doy - (153 * mp + 2) div 5 + 1"
    "y = (if m \<le> 2 then Y + 1 else Y)"
    using assms by (auto simp: civil_def md Let_def mp_def Y_def)
  have early: "m \<le> 2 \<longleftrightarrow> 10 \<le> mp" using parts(1) months(1,2) by auto
  show "1 \<le> m" "m \<le> 12" using parts(1) months(1,2) by auto
  show "1 \<le> d" using parts(2) months(3) by simp
  have "(if m \<le> 2 then y - 1 else y) = Y" using parts(3) by simp
  moreover have "(if m > 2 then m - 3 else m + 9) = mp" using parts(1) months(1,2) by auto
  ultimately have "daysOf y m d = 365 * Y + Y div 4 - Y div 100 + Y div 400 + ((153 * mp + 2) div 5 + d - 1) - 719468"
    by (simp only: daysOf_def Let_def)
  then show "daysOf y m d = days" using year(1) z parts(2) by simp
  have feb: "m = 2 \<longleftrightarrow> mp = 11" and short: "m \<in> {4, 6, 9, 11} \<longleftrightarrow> mp \<in> {1, 3, 6, 8}"
    using parts(1) months(1,2) by auto
  show "d \<le> daysIn m y"
  proof (cases "mp = 11")
    case True
    then have "y = Y + 1" "m = 2" using parts(3) early feb by auto
    moreover have "isLeap y" if "doy = 365"
      using leap [OF that] year(2-4) \<open>y = Y + 1\<close> by (auto simp: isLeap_def)
    ultimately show ?thesis using months(4) parts(2) True by (auto simp: daysIn_def split: if_splits)
  next
    case False
    then show ?thesis using months(4) parts(2) feb short by (simp add: daysIn_def split: if_splits)
  qed
qed

section \<open>The text\<close>

lemma zero_digit: "CHR ''0'' = digit 0"
  by code_simp

lemma padded2:
  assumes "n < 100"
  shows "padded 2 n = [digit (n div 10), digit (n mod 10)]"
proof (cases "n < 10")
  case True
  then show ?thesis by (simp add: padded_def dec.simps [of n] zero_digit)
next
  case False
  with assms show ?thesis by (simp add: padded_def dec.simps [of n] dec.simps [of "n div 10"])
qed

lemma padded4:
  assumes "n < 10000"
  shows "padded 4 n = [digit (n div 1000), digit (n div 100 mod 10), digit (n div 10 mod 10), digit (n mod 10)]"
proof -
  have rep: "replicate 3 c = [c, c, c]" "replicate 2 c = [c, c]" for c :: char by (simp_all add: numeral_eq_Suc)
  consider "n < 10" | "10 \<le> n" "n < 100" | "100 \<le> n" "n < 1000" | "1000 \<le> n" by linarith
  then show ?thesis
  proof cases
    case 1
    then have "dec n = [digit n]" by (simp add: dec.simps [of n])
    with 1 show ?thesis by (simp add: padded_def zero_digit rep)
  next
    case 2
    then have "dec n = [digit (n div 10), digit (n mod 10)]" by (simp add: dec.simps [of n] dec.simps [of "n div 10"])
    with 2 show ?thesis by (simp add: padded_def zero_digit rep)
  next
    case 3
    then have "\<not> n < 10" "\<not> n div 10 < 10" "n div 10 div 10 < 10" by linarith+
    then have "dec n = [digit (n div 10 div 10), digit (n div 10 mod 10), digit (n mod 10)]"
      by (simp add: dec.simps [of n] dec.simps [of "n div 10"] dec.simps [of "n div 10 div 10"])
    with 3 show ?thesis by (simp add: padded_def zero_digit div_mult2_eq [symmetric])
  next
    case 4
    then have "\<not> n < 10" "\<not> n div 10 < 10" "\<not> n div 10 div 10 < 10" "n div 10 div 10 div 10 < 10"
      using assms by linarith+
    then have "dec n = [digit (n div 10 div 10 div 10), digit (n div 10 div 10 mod 10), digit (n div 10 mod 10), digit (n mod 10)]"
      by (simp add: dec.simps [of n] dec.simps [of "n div 10"] dec.simps [of "n div 10 div 10"] dec.simps [of "n div 10 div 10 div 10"])
    then show ?thesis by (simp add: padded_def div_mult2_eq [symmetric])
  qed
qed

lemma getnum_padded: "n < 100 \<Longrightarrow> getnum fixed (padded 2 n @ s) = Some (int n, s)"
  by (simp add: padded2 isDigit_digit undigit_digit)

lemma year4_padded: "n < 10000 \<Longrightarrow> year4 (padded 4 n @ s) = Some (int n, s)"
proof -
  assume n: "n < 10000"
  have "n div 10 div 10 = n div 100" "n div 100 div 10 = n div 1000" by (simp_all add: div_mult2_eq [symmetric])
  then have "n = n div 10 * 10 + n mod 10" "n div 10 = n div 100 * 10 + n div 10 mod 10" "n div 100 = n div 1000 * 10 + n div 100 mod 10"
    using div_mult_mod_eq [of n 10] div_mult_mod_eq [of "n div 10" 10] div_mult_mod_eq [of "n div 100" 10] by simp_all
  moreover have "k = 10 * (10 * (10 * z + r3) + r2) + r1" if "k = x * 10 + r1" "x = y * 10 + r2" "y = z * 10 + r3"
    for k x y z r1 r2 r3 :: nat using that by simp
  ultimately have "n = 10 * (10 * (10 * (n div 1000) + n div 100 mod 10) + n div 10 mod 10) + n mod 10" by blast
  moreover have "n div 1000 < 10" using n by simp
  ultimately show ?thesis using n by (simp add: padded4 isDigit_digit undec_def undigit_digit)
qed

text \<open>The years the format has room for.\<close>

definition fourDigitYear :: "instant \<Rightarrow> bool" where
  "fourDigitYear t \<longleftrightarrow> (let y = fst (civil (t div nsPerSec div 86400)) in 0 \<le> y \<and> y \<le> 9999)"

lemma parse_fmt:
  assumes "fourDigitYear t"
  shows "parseRFC3339 (fmtRFC3339 t) = Some (t - t mod nsPerSec)"
proof -
  define sec where "sec = t div nsPerSec"
  define sod where "sod = sec mod 86400"
  obtain y m d where c: "civil (sec div 86400) = (y, m, d)" by (cases "civil (sec div 86400)") auto
  have y: "0 \<le> y" "y \<le> 9999" using assms c by (simp_all add: fourDigitYear_def Let_def sec_def)
  note cal = civil_valid [OF c]
  have "daysIn m y \<le> 31" by (simp add: daysIn_def)
  with cal have md: "nat y < 10000" "nat m < 100" "nat d < 100" using y by simp_all
  have sod: "0 \<le> sod" "sod < 86400" by (simp_all add: sod_def)
  define hh mm ss :: int where "hh = sod div 3600" and "mm = sod div 60 mod 60" and "ss = sod mod 60"
  have hms: "0 \<le> hh" "hh < 24" "0 \<le> mm" "mm < 60" "0 \<le> ss" "ss < 60" "hh * 3600 + mm * 60 + ss = sod"
  proof -
    show "0 \<le> hh" "hh < 24" "0 \<le> mm" "mm < 60" "0 \<le> ss" "ss < 60" using sod by (simp_all add: hh_def mm_def ss_def)
    have "sod div 60 div 60 = sod div 3600" by (simp add: zdiv_zmult2_eq [symmetric])
    with div_mult_mod_eq [of sod 60] div_mult_mod_eq [of "sod div 60" 60]
    show "hh * 3600 + mm * 60 + ss = sod" unfolding hh_def mm_def ss_def by linarith
  qed
  have t: "t - t mod nsPerSec = sec * nsPerSec" by (simp add: sec_def minus_mod_eq_div_mult)
  have printed: "fmtRFC3339 t = padded 4 (nat y) @ ''-'' @ padded 2 (nat m) @ ''-'' @ padded 2 (nat d) @ ''T'' @
      padded 2 (nat hh) @ '':'' @ padded 2 (nat mm) @ '':'' @ padded 2 (nat ss) @ ''Z''"
    using c by (simp add: fmtRFC3339_def fmtSeconds_def Let_def sec_def sod_def hh_def mm_def ss_def)
  have days: "daysOf y m d * 86400 + hh * 3600 + mm * 60 + ss = sec"
  proof -
    have "sec div 86400 * 86400 + sod = sec" by (simp add: sod_def)
    with cal(1) hms(7) show ?thesis by linarith
  qed
  show ?thesis unfolding printed t parseRFC3339_def
    using y cal hms md days by (simp add: year4_padded getnum_padded fraction_def)
qed

section \<open>Properties\<close>

text \<open>
  An instant written is read back: the text \<open>fmtRFC3339\<close> gives for an instant of the years 0 to 9999
  is parsed as that instant cut to the whole second.
\<close>

lemma RFC3339_roundtrip:
  assumes "fourDigitYear t"
  shows "parseRFC3339 (fmtRFC3339 t) = Some (t - t mod nsPerSec)"
  using assms by (rule parse_fmt)

text \<open>A leap day, and half a second that is lost.\<close>

lemma RFC3339_roundtrip_example:
  "parseRFC3339 (fmtRFC3339 (951782400 * nsPerSec + 500000000)) = Some (951782400 * nsPerSec)"
proof -
  have "fourDigitYear (951782400 * nsPerSec + 500000000)" by code_simp
  from RFC3339_roundtrip [OF this] show ?thesis by (simp add: nsPerSec_def)
qed

end
