(* ===== verification/Domain.thy ===== *)
theory Domain
  imports Civil_Time
begin

text \<open>
  The domain types of package \<open>models\<close>: statuses with their transition tables, and one record per
  struct, with Go's field names behind a short prefix (\<open>t_\<close> for a task, \<open>r_\<close> for a workflow run,
  \<open>td_\<close> for a step). A status is a Go string: the named constants are constructors and any other
  string is \<open>\<dots>Other\<close>. The zero value of a struct is the record \<open>\<dots>0\<close>.
\<close>

section \<open>Tasks\<close>

datatype task_status =
    TaskStatusPending
  | TaskStatusInProgress
  | TaskStatusCompleted
  | TaskStatusFailed
  | TaskStatusCancelled
  | TaskStatusBlocked
  | TaskStatusAwaitingDirection
  | TaskStatusSplit
  | TaskStatusOther string

fun CanTransitionTo :: "task_status \<Rightarrow> task_status \<Rightarrow> bool" where
  "CanTransitionTo TaskStatusPending next =
     (next = TaskStatusInProgress \<or> next = TaskStatusCancelled \<or> next = TaskStatusBlocked)"
| "CanTransitionTo TaskStatusBlocked next =
     (next = TaskStatusPending \<or> next = TaskStatusCancelled \<or> next = TaskStatusAwaitingDirection)"
| "CanTransitionTo TaskStatusInProgress next =
     (next = TaskStatusCompleted \<or> next = TaskStatusFailed \<or> next = TaskStatusCancelled \<or>
      next = TaskStatusAwaitingDirection \<or> next = TaskStatusSplit)"
| "CanTransitionTo TaskStatusAwaitingDirection next =
     (next = TaskStatusInProgress \<or> next = TaskStatusBlocked \<or> next = TaskStatusCancelled)"
| "CanTransitionTo TaskStatusFailed next =
     (next = TaskStatusInProgress \<or> next = TaskStatusBlocked \<or> next = TaskStatusCancelled)"
| "CanTransitionTo TaskStatusSplit next =
     (next = TaskStatusCompleted \<or> next = TaskStatusFailed \<or> next = TaskStatusCancelled)"
| "CanTransitionTo _ next = False"

datatype task_priority =
    TaskPriorityLow
  | TaskPriorityMedium
  | TaskPriorityHigh
  | TaskPriorityCritical
  | TaskPriorityOther string

datatype assignee_kind = AssigneeAgent | AssigneeActor | AssigneeRole | AssigneeKindOther string

record task =
  t_ID :: string
  t_Description :: string
  t_Status :: task_status
  t_State :: string
  t_Priority :: task_priority
  t_DueAt :: string
  t_Tags :: "string list"
  t_EstimatedHours :: rat
  t_Context :: string
  t_CreatedAt :: string
  t_UpdatedAt :: string
  t_CompletedAt :: string
  t_Title :: string
  t_TaskName :: string
  t_ProjectName :: string
  t_SeparateBranch :: bool
  t_BranchName :: string
  t_AssignedTo :: string
  t_AssigneeKind :: assignee_kind
  t_WorkflowRunID :: string
  t_RecoveryRunsUsed :: int
  t_BlockerNote :: string
  t_DirectionHistory :: string
  t_ParentTaskID :: string
  t_HeldBy :: string
  t_LinkedRef :: string
  t_Rank :: int
  t_Deleted :: bool

definition task0 :: task where
  "task0 = \<lparr>t_ID = [], t_Description = [], t_Status = TaskStatusOther [], t_State = [],
     t_Priority = TaskPriorityOther [], t_DueAt = [], t_Tags = [], t_EstimatedHours = 0,
     t_Context = [], t_CreatedAt = [], t_UpdatedAt = [], t_CompletedAt = [], t_Title = [],
     t_TaskName = [], t_ProjectName = [], t_SeparateBranch = False, t_BranchName = [],
     t_AssignedTo = [], t_AssigneeKind = AssigneeKindOther [], t_WorkflowRunID = [],
     t_RecoveryRunsUsed = 0, t_BlockerNote = [], t_DirectionHistory = [], t_ParentTaskID = [],
     t_HeldBy = [], t_LinkedRef = [], t_Rank = 0, t_Deleted = False\<rparr>"

record task_filter =
  tf_Status :: task_status
  tf_Priority :: task_priority
  tf_WorkflowRunID :: string
  tf_HeldBy :: string
  tf_Limit :: int

definition task_filter0 :: task_filter where
  "task_filter0 = \<lparr>tf_Status = TaskStatusOther [], tf_Priority = TaskPriorityOther [],
     tf_WorkflowRunID = [], tf_HeldBy = [], tf_Limit = 0\<rparr>"

record assignment =
  as_ID :: string
  as_TaskID :: string
  as_AssigneeKind :: assignee_kind
  as_AssigneeID :: string
  as_AssignedAt :: string
  as_UnassignedAt :: string

section \<open>Task states\<close>

record task_state =
  ts_Name :: string
  ts_Statuses :: "task_status list"

definition DefaultTaskStates :: "task_state list" where
  "DefaultTaskStates =
     [\<lparr>ts_Name = ''To do'', ts_Statuses = [TaskStatusPending]\<rparr>,
      \<lparr>ts_Name = ''Doing'', ts_Statuses = [TaskStatusInProgress, TaskStatusSplit]\<rparr>,
      \<lparr>ts_Name = ''Waiting'',
         ts_Statuses = [TaskStatusBlocked, TaskStatusAwaitingDirection, TaskStatusFailed]\<rparr>,
      \<lparr>ts_Name = ''Done'', ts_Statuses = [TaskStatusCompleted]\<rparr>,
      \<lparr>ts_Name = ''Cancelled'', ts_Statuses = [TaskStatusCancelled]\<rparr>]"

fun StateNameFor :: "task_state list \<Rightarrow> task_status \<Rightarrow> string" where
  "StateNameFor [] status = []"
| "StateNameFor (s # states) status =
     (if status \<in> set (ts_Statuses s) then ts_Name s else StateNameFor states status)"

fun knownTaskStatuses :: "task_status \<Rightarrow> bool" where
  "knownTaskStatuses (TaskStatusOther _) = False"
| "knownTaskStatuses _ = True"

datatype states_error =
    NoStatesDeclared
  | StateHasNoName
  | StateDeclaredTwice string
  | NotATaskStatus string task_status
  | StatusMappedTwice task_status string string

definition isSpace :: "char \<Rightarrow> bool" where
  "isSpace c \<longleftrightarrow> c \<in> {CHR '' '', CHR 0x09, CHR 0x0A, CHR 0x0B, CHR 0x0C, CHR 0x0D}"

text \<open>\<open>strings.TrimSpace\<close>, on the ASCII white space.\<close>

definition TrimSpace :: "string \<Rightarrow> string" where
  "TrimSpace s = rev (dropWhile isSpace (rev (dropWhile isSpace s)))"

text \<open>
  \<open>ParseTaskStates\<close> once the JSON has been decoded: the two loops, with the maps \<open>names\<close> and
  \<open>held\<close> carried along. \<open>Inr\<close> returns the \<open>held\<close> map built so far.
\<close>

fun parseStatuses ::
  "string \<Rightarrow> task_status list \<Rightarrow> (task_status \<rightharpoonup> string) \<Rightarrow> states_error + (task_status \<rightharpoonup> string)" where
  "parseStatuses name [] held = Inr held"
| "parseStatuses name (status # ss) held =
     (if \<not> knownTaskStatuses status then Inl (NotATaskStatus name status)
      else case held status of
        Some other \<Rightarrow> Inl (StatusMappedTwice status other name)
      | None \<Rightarrow> parseStatuses name ss (held(status \<mapsto> name)))"

fun parseStates ::
  "task_state list \<Rightarrow> string set \<Rightarrow> (task_status \<rightharpoonup> string) \<Rightarrow> states_error + (task_status \<rightharpoonup> string)" where
  "parseStates [] names held = Inr held"
| "parseStates (s # states) names held =
     (if TrimSpace (ts_Name s) = [] then Inl StateHasNoName
      else if ts_Name s \<in> names then Inl (StateDeclaredTwice (ts_Name s))
      else case parseStatuses (ts_Name s) (ts_Statuses s) held of
        Inl e \<Rightarrow> Inl e
      | Inr held' \<Rightarrow> parseStates states (insert (ts_Name s) names) held')"

definition ParseTaskStates :: "task_state list \<Rightarrow> states_error + task_state list" where
  "ParseTaskStates states =
     (if states = [] then Inl NoStatesDeclared
      else case parseStates states {} Map.empty of Inl e \<Rightarrow> Inl e | Inr _ \<Rightarrow> Inr states)"

section \<open>Steps, agents, projects, tags, deliverables, criteria\<close>

datatype todo_status =
    TodoStatusPending
  | TodoStatusBlocked
  | TodoStatusDispatched
  | TodoStatusCompleted
  | TodoStatusFailed
  | TodoStatusSkipped
  | TodoStatusOther string

record task_todo =
  td_ID :: string
  td_Code :: string
  td_Title :: string
  td_Description :: string
  td_Instructions :: string
  td_Ordinality :: int
  td_CanRunParallel :: bool
  td_DependsOn :: "int list"
  td_Status :: todo_status
  td_ParentTaskID :: string
  td_DecompRunID :: string
  td_AgentID :: string
  td_Precalls :: string
  td_CreatedAt :: string
  td_UpdatedAt :: string
  td_WorkflowRunID :: string
  td_Deleted :: bool

record agent =
  ag_ID :: string
  ag_AgentID :: string
  ag_DisplayName :: string
  ag_Capability :: string
  ag_RoleName :: string
  ag_CreatedAt :: string
  ag_UpdatedAt :: string

record project =
  p_ID :: string
  p_Name :: string
  p_ProjectName :: string
  p_Description :: string
  p_RepoName :: string
  p_GithubRepo :: string
  p_TaskPrefix :: string
  p_CreatedAt :: string
  p_UpdatedAt :: string
  p_Deleted :: bool

definition EffectiveTaskPrefix :: "project \<Rightarrow> string" where
  "EffectiveTaskPrefix p = (if p_TaskPrefix p \<noteq> [] then p_TaskPrefix p else p_ProjectName p @ ''-'')"

record tag =
  tg_ID :: string
  tg_Code :: string
  tg_Name :: string
  tg_Color :: string
  tg_Description :: string
  tg_CreatedAt :: string
  tg_UpdatedAt :: string

record deliverable =
  dl_ID :: string
  dl_Code :: string
  dl_Title :: string
  dl_Description :: string
  dl_DeliverableType :: string
  dl_ParentID :: string
  dl_Ordinality :: int
  dl_WorkflowRunID :: string
  dl_CreatedAt :: string
  dl_UpdatedAt :: string

record acceptance_criteria =
  ac_ID :: string
  ac_Code :: string
  ac_Title :: string
  ac_Description :: string
  ac_ParentID :: string
  ac_Ordinality :: int
  ac_WorkflowRunID :: string
  ac_Result :: string
  ac_ResultNotes :: string
  ac_CreatedAt :: string
  ac_UpdatedAt :: string

section \<open>Join rows\<close>

text \<open>\<open>Blocker\<close> and \<open>Dependency\<close> have the same four columns.\<close>

record task_edge =
  e_FromTaskID :: string
  e_ToTaskID :: string
  e_CreatedAt :: string
  e_Reason :: string

record membership =
  m_TaskID :: string
  m_ProjectID :: string
  m_AddedAt :: string

record tagging =
  tn_TaskID :: string
  tn_TagID :: string
  tn_TaggedAt :: string

record code_sequence =
  cs_EntityType :: string
  cs_NextNumber :: int

text \<open>An edge label is a string; the constants of \<open>models/relationship.go\<close> are constructors.\<close>

datatype rel_label =
    RelLabelAssignedTo
  | RelLabelBlocks
  | RelLabelSubtaskOf
  | RelLabelDependsOn
  | RelLabelMemberOf
  | RelLabelHasTag
  | RelLabelHasTodo
  | RelLabelTodoAssignedTo
  | RelLabelStartedTask
  | RelLabelStartedTodo
  | RelLabelPartOfRun
  | RelLabelHasDeliverable
  | RelLabelHasAcceptanceCriteria
  | RelLabelOther string

fun labelText :: "rel_label \<Rightarrow> string" where
  "labelText RelLabelAssignedTo = ''assigned_to''"
| "labelText RelLabelBlocks = ''blocks''"
| "labelText RelLabelSubtaskOf = ''subtask_of''"
| "labelText RelLabelDependsOn = ''depends_on''"
| "labelText RelLabelMemberOf = ''member_of''"
| "labelText RelLabelHasTag = ''has_tag''"
| "labelText RelLabelHasTodo = ''has_todo''"
| "labelText RelLabelTodoAssignedTo = ''todo_assigned_to''"
| "labelText RelLabelStartedTask = ''started_task''"
| "labelText RelLabelStartedTodo = ''started_todo''"
| "labelText RelLabelPartOfRun = ''part_of_run''"
| "labelText RelLabelHasDeliverable = ''has_deliverable''"
| "labelText RelLabelHasAcceptanceCriteria = ''has_acceptance_criteria''"
| "labelText (RelLabelOther s) = s"

record relationship =
  rel_ID :: string
  rel_Label :: rel_label
  rel_FromID :: string
  rel_ToID :: string
  rel_CreatedAt :: string

datatype direction = DirectionInbound | DirectionOutbound | DirectionOther string

section \<open>Workflow runs\<close>

datatype run_status =
    RunPending
  | RunInProgress
  | RunCompleted
  | RunFailed
  | RunRolledBack
  | RunRollingBack
  | RunRollbackFailed
  | RunCancelling
  | RunCancelled
  | RunPaused
  | RunClosed
  | RunStatusOther string

fun RunCanTransitionTo :: "run_status \<Rightarrow> run_status \<Rightarrow> bool" where
  "RunCanTransitionTo RunPending next = (next = RunInProgress \<or> next = RunClosed)"
| "RunCanTransitionTo RunInProgress next =
     (next = RunCompleted \<or> next = RunFailed \<or> next = RunPaused \<or> next = RunCancelling \<or> next = RunClosed)"
| "RunCanTransitionTo RunPaused next =
     (next = RunInProgress \<or> next = RunFailed \<or> next = RunCancelling \<or> next = RunClosed)"
| "RunCanTransitionTo RunCancelling next = (next = RunCancelled)"
| "RunCanTransitionTo RunFailed next = (next = RunRollingBack)"
| "RunCanTransitionTo RunCompleted next = (next = RunRollingBack)"
| "RunCanTransitionTo RunCancelled next = (next = RunRollingBack)"
| "RunCanTransitionTo RunRollingBack next = (next = RunRolledBack \<or> next = RunRollbackFailed)"
| "RunCanTransitionTo RunRollbackFailed next = (next = RunRollingBack)"
| "RunCanTransitionTo _ next = False"

definition IsTerminal :: "run_status \<Rightarrow> bool" where
  "IsTerminal s \<longleftrightarrow>
     s \<in> {RunCompleted, RunFailed, RunRolledBack, RunRollbackFailed, RunCancelled, RunClosed}"

record workflow_run =
  r_ID :: string
  r_Name :: string
  r_Status :: run_status
  r_TriggerEvent :: string
  r_Initiator :: string
  r_Notes :: string
  r_AgentRunIDs :: "string list"
  r_FunctionJobIDs :: "string list"
  r_BranchNames :: "string list"
  r_TerminalEvent :: string
  r_StartedAt :: string
  r_CompletedAt :: string
  r_CreatedAt :: string
  r_UpdatedAt :: string
  r_ParentWorkflowRunID :: string
  r_RootWorkflowRunID :: string
  r_FailurePipelineBudget :: int
  r_FailurePipelinesUsed :: int
  r_CountedChildRunIDs :: "string list"
  r_CancelledBy :: string
  r_CancelReason :: string
  r_CancellingUntil :: string
  r_LastEventAt :: string
  r_TimeoutPublished :: bool
  r_PausedAt :: string
  r_CurrentStepID :: string
  r_CurrentStepStartedAt :: string
  r_FailureReason :: string
  r_WorkflowCode :: string
  r_WorkflowVersion :: int
  r_UnderWay :: bool
  r_RestartedFromRunID :: string
  r_StepDueAt :: string
  r_StepCancelWorkflowCode :: string
  r_CancelRunID :: string

definition workflow_run0 :: workflow_run where
  "workflow_run0 = \<lparr>r_ID = [], r_Name = [], r_Status = RunStatusOther [], r_TriggerEvent = [],
     r_Initiator = [], r_Notes = [], r_AgentRunIDs = [], r_FunctionJobIDs = [], r_BranchNames = [],
     r_TerminalEvent = [], r_StartedAt = [], r_CompletedAt = [], r_CreatedAt = [], r_UpdatedAt = [],
     r_ParentWorkflowRunID = [], r_RootWorkflowRunID = [], r_FailurePipelineBudget = 0,
     r_FailurePipelinesUsed = 0, r_CountedChildRunIDs = [], r_CancelledBy = [], r_CancelReason = [],
     r_CancellingUntil = [], r_LastEventAt = [], r_TimeoutPublished = False, r_PausedAt = [],
     r_CurrentStepID = [], r_CurrentStepStartedAt = [], r_FailureReason = [], r_WorkflowCode = [],
     r_WorkflowVersion = 0, r_UnderWay = False, r_RestartedFromRunID = [], r_StepDueAt = [],
     r_StepCancelWorkflowCode = [], r_CancelRunID = []\<rparr>"

record workflow_run_stop =
  st_Stopped :: workflow_run
  st_Restarted :: "workflow_run option"

record workflow_run_closure =
  cl_Run :: workflow_run
  cl_Tasks :: "task list"
  cl_Todos :: "task_todo list"
  cl_Edges :: "relationship list"
  cl_AgentRunIDs :: "string list"
  cl_FunctionJobIDs :: "string list"
  cl_BranchNames :: "string list"

section \<open>Cases\<close>

datatype case_status = CaseStatusOpen | CaseStatusDone | CaseStatusCancelled | CaseStatusOther string

record case_rec =
  c_ID :: string
  c_RequesterID :: string
  c_SubjectKind :: string
  c_SubjectID :: string
  c_Title :: string
  c_Status :: case_status
  c_OpenedAt :: string
  c_ClosedAt :: string
  c_Reply :: string
  c_CreatedAt :: string
  c_UpdatedAt :: string

record case_task =
  ct_TaskID :: string
  ct_CaseID :: string
  ct_LinkedAt :: string

record case_filter =
  cf_RequesterID :: string
  cf_SubjectKind :: string
  cf_SubjectID :: string
  cf_Status :: case_status

record case_vote =
  v_VoteKey :: string
  v_CaseID :: string
  v_MemberID :: string
  v_CastBy :: string
  v_VotedAt :: string

record ranked_case =
  rc_Case :: case_rec
  rc_Votes :: int

section \<open>Generated, sourced, overdue and repeating tasks\<close>

record task_template =
  tt_Title :: string
  tt_Description :: string
  tt_Priority :: task_priority
  tt_DueAt :: string
  tt_EstimatedHours :: rat

record generate_request =
  gq_Run :: string
  gq_Template :: task_template
  gq_Subjects :: "string list"

record generated_task =
  gt_SubjectKey :: string
  gt_Run :: string
  gt_Subject :: string
  gt_TaskID :: string
  gt_GeneratedAt :: string

record generated_outcome =
  go_Task :: generated_task
  go_Created :: bool

record sourced_item =
  si_Key :: string
  si_Title :: string
  si_Description :: string
  si_DueAt :: string

record sourced_request =
  sq_Source :: string
  sq_Items :: "sourced_item list"

record sourced_task =
  so_ItemKey :: string
  so_Source :: string
  so_Key :: string
  so_TaskID :: string
  so_DueAt :: string
  so_OpenedAt :: string

record sourced_outcome =
  sx_Task :: sourced_task
  sx_Opened :: bool

record overdue_filter =
  of_AsOf :: string
  of_Limit :: int

record overdue_task =
  od_Task :: task
  od_OverdueHours :: int

record repeating_record =
  rr_ID :: string
  rr_Title :: string
  rr_Description :: string
  rr_ScheduleRule :: string
  rr_ScheduleDates :: "string list"
  rr_ScheduleStart :: string
  rr_ScheduleEnd :: string
  rr_ScheduleZone :: string
  rr_AssigneeKind :: assignee_kind
  rr_AssigneeID :: string
  rr_StoppedAt :: string
  rr_CreatedAt :: string
  rr_UpdatedAt :: string

record repeating_period =
  rp_PeriodKey :: string
  rp_RepeatingTaskID :: string
  rp_TaskID :: string
  rp_PeriodStart :: string
  rp_DueAt :: string
  rp_MadeAt :: string

record repeating_filter =
  rf_AssigneeKind :: assignee_kind
  rf_AssigneeID :: string

section \<open>Import jobs\<close>

datatype job_status = JobPending | JobRunning | JobCompleted | JobFailed | JobCancelled | JobOther string

record import_job =
  ij_ID :: string
  ij_Status :: job_status
  ij_ErrorMessage :: string
  ij_ProgressSteps :: "string list"
  ij_TasksCreated :: int
  ij_DepsCreated :: int
  ij_ProjectName :: string
  ij_CreatedAt :: string
  ij_UpdatedAt :: string

record import_result =
  ir_Project :: "project option"
  ir_Tasks :: "task list"
  ir_DepsCreated :: int
  ir_TasksCreated :: int

end
