(* ===== verification/Failures.thy ===== *)
theory Failures
  imports Domain
begin

text \<open>
  The sentinel errors of the package and what each prints, and the events it publishes. An error
  is what \<open>errors.Is\<close> and \<open>errors.As\<close> see of it: the context a call site adds with
  \<open>fmt.Errorf("...: %w", err)\<close> is dropped, except where the code stores the text (the failure
  reason of a rollback, see \<open>ErrForeignRunDependency\<close>).
\<close>

section \<open>Errors\<close>

text \<open>
  \<open>ErrDatabase\<close> is an error of the driver, \<open>ErrUniqueKey\<close> an insert refused by a unique index,
  \<open>ErrCounter\<close> the three ways a counter is found not to advance as it must, \<open>ErrContextDone\<close> what a
  cancelled context answers, and the \<open>ErrIdentity\<dots>\<close> errors are those of the shared identity package.
\<close>

datatype err =
    ErrTaskNotFound
  | ErrInvalidPlacement
  | ErrInvalidOverdueFilter
  | ErrInvalidAssignee
  | ErrTaskAlreadyExists
  | ErrInvalidStatusTransition
  | ErrInvalidTask
  | ErrAgentNotFound
  | ErrAgentAlreadyExists
  | ErrProjectNotFound
  | ErrTagNotFound
  | ErrTaskTodoNotFound
  | ErrWorkflowRunNotFound
  | ErrInvalidRunStatusTransition
  | ErrWorkflowRunNameExists
  | ErrWorkflowRunMismatch
  | ErrProjectAlreadyExists
  | ErrInvalidRelationship
  | ErrRelationshipNotFound
  | ErrInvalidImport
  | ErrImportJobNotFound
  | ErrImportJobNotCancellable
  | ErrRollbackConflict
  | ErrRollbackNotInProgress
  | ErrForeignRunDependency string string string
  | ErrFailureBudgetAlreadySet
  | ErrNotRootWorkflowRun
  | ErrCannotCancelTerminalRun
  | ErrDeliverableNotFound
  | ErrAcceptanceCriteriaNotFound
  | BlockedError "string list"
  | ErrUnknownTaskState
  | ErrNoPathToState
  | ErrCaseNotFound
  | ErrCaseNotOpen
  | ErrTaskAlreadyInCase
  | ErrInvalidCase
  | ErrCaseHasOpenTask
  | ErrInvalidVote
  | ErrVoterNotMember
  | ErrVoteNotFound
  | ErrRequesterVoteStays
  | ErrInvalidGeneratedTasks
  | ErrTooManySubjects
  | ErrGeneratedTaskNotFound
  | ErrInvalidSourcedTasks
  | ErrSourcedTaskNotFound
  | ErrInvalidRepeatingTask
  | ErrRepeatingTaskNotFound
  | ErrOverdueGrace
  | ErrNoStableIdentity
  | ErrIdentityNotFound
  | ErrIdentityNotOwned
  | ErrIdentityMalformed
  | ErrImportCancelled
  | ErrContextDone
  | ErrTaskStates states_error
  | ErrSettings
  | ErrDatabase
  | ErrUniqueKey
  | ErrCounter

fun errorText :: "err \<Rightarrow> string" where
  "errorText ErrTaskNotFound = ''task not found''"
| "errorText ErrInvalidPlacement = ''invalid card placement''"
| "errorText ErrInvalidOverdueFilter = ''invalid overdue filter''"
| "errorText ErrInvalidAssignee = ''an assignee is an actor or a role with an id''"
| "errorText ErrTaskAlreadyExists = ''task already exists''"
| "errorText ErrInvalidStatusTransition = ''invalid task status transition''"
| "errorText ErrInvalidTask = ''invalid task: missing required fields''"
| "errorText ErrAgentNotFound = ''agent not found''"
| "errorText ErrAgentAlreadyExists = ''agent already exists''"
| "errorText ErrProjectNotFound = ''project not found''"
| "errorText ErrTagNotFound = ''tag not found''"
| "errorText ErrTaskTodoNotFound = ''task todo not found''"
| "errorText ErrWorkflowRunNotFound = ''workflow run not found''"
| "errorText ErrInvalidRunStatusTransition = ''invalid workflow run status transition''"
| "errorText ErrWorkflowRunNameExists = ''workflow run name already exists''"
| "errorText ErrWorkflowRunMismatch = ''task already belongs to a different workflow run''"
| "errorText ErrProjectAlreadyExists = ''project already exists''"
| "errorText ErrInvalidRelationship = ''invalid relationship''"
| "errorText ErrRelationshipNotFound = ''relationship not found''"
| "errorText ErrInvalidImport = ''invalid import: markdown document could not be parsed''"
| "errorText ErrImportJobNotFound = ''import job not found''"
| "errorText ErrImportJobNotCancellable = ''import job is not cancellable''"
| "errorText ErrRollbackConflict = ''workflow run rollback already in progress''"
| "errorText ErrRollbackNotInProgress = ''workflow run is not rolling back''"
| "errorText (ErrForeignRunDependency task fromTask run) =
     ''run closure contains a task depended on by another workflow run: task '' @ task @
     '' is depended on by task '' @ fromTask @ '' (run '' @ run @ '')''"
| "errorText ErrFailureBudgetAlreadySet = ''workflow run failure budget already set''"
| "errorText ErrNotRootWorkflowRun =
     ''workflow run is not a root run; budget operations must target the root''"
| "errorText ErrCannotCancelTerminalRun = ''workflow run is not in_progress; cancel rejected''"
| "errorText ErrDeliverableNotFound = ''deliverable not found''"
| "errorText ErrAcceptanceCriteriaNotFound = ''acceptance criteria not found''"
| "errorText (BlockedError _) = ''task is blocked by non-terminal blockers''"
| "errorText ErrUnknownTaskState = ''unknown task state''"
| "errorText ErrNoPathToState = ''no legal path to that state''"
| "errorText ErrCaseNotFound = ''case not found''"
| "errorText ErrCaseNotOpen = ''case is not open''"
| "errorText ErrTaskAlreadyInCase = ''task already serves another case''"
| "errorText ErrInvalidCase = ''invalid case''"
| "errorText ErrCaseHasOpenTask = ''case still has an open task''"
| "errorText ErrInvalidVote = ''a vote needs a case, a member and someone casting it''"
| "errorText ErrVoterNotMember = ''only a member votes; an owner or an agent does not''"
| "errorText ErrVoteNotFound = ''vote not found''"
| "errorText ErrRequesterVoteStays =
     ''the requester's own vote counts as the first and is not taken back''"
| "errorText ErrInvalidGeneratedTasks =
     ''generating tasks needs a run, a template with a title, an RFC 3339 due time when one is given, and at least one subject key, none blank and none repeated''"
| "errorText ErrTooManySubjects = ''generating tasks takes at most 5000 subject keys in one call''"
| "errorText ErrGeneratedTaskNotFound = ''generated task not found''"
| "errorText ErrInvalidSourcedTasks =
     ''opening tasks from a source needs a source and at least one item, each with a title, an RFC 3339 due time and a key no other item in the request shares''"
| "errorText ErrSourcedTaskNotFound = ''sourced task not found''"
| "errorText ErrInvalidRepeatingTask =
     ''a repeating task needs an id, a title, a valid schedule and an actor or role assignee''"
| "errorText ErrRepeatingTaskNotFound = ''repeating task not found''"
| "errorText ErrOverdueGrace = ''overdue_grace_hours''"
| "errorText ErrNoStableIdentity = ''taskmanager: this object has no stable identity''"
| "errorText ErrIdentityNotFound = ''identity not found''"
| "errorText ErrIdentityNotOwned = ''identity not owned''"
| "errorText ErrIdentityMalformed = ''identity malformed''"
| "errorText ErrImportCancelled = ''import cancelled''"
| "errorText ErrContextDone = ''context done''"
| "errorText (ErrTaskStates _) = ''task states''"
| "errorText ErrSettings = ''task states''"
| "errorText ErrDatabase = ''database error''"
| "errorText ErrUniqueKey = ''unique constraint failed''"
| "errorText ErrCounter = ''counter did not advance by one''"

section \<open>Events\<close>

text \<open>
  One constructor per topic this package publishes, with the payload's fields in Go's order. The
  fields of \<open>TaskFailedPayload\<close> and \<open>TodoDispatchedPayload\<close> no publisher here fills are left out.
\<close>

datatype event =
    TaskCreated string task_priority string
  | TaskUpdated string "string list" string
  | TaskStatusChanged string task_status task_status string
  | TaskCompleted string task_status string string
  | TaskFailedEv string string string
  | TaskRolledBack string string
  | TaskAssigned string string string string string string string
  | RelationshipCreated string string rel_label
  | TodoDispatched string string string string string string string int bool "int list" string string
  | RunInProgressEv string string
  | RunCompletedEv string string int
  | RunFailedEv string string string
  | RunRolledBackEv string string string
  | RunRollingBackEv string string
  | RunRollbackFailedEv string string string
  | RunCancellingEv string string string string
  | RunCancelledEv string string string string
  | RunClosedEv string string string string string
  | TaskCancelledEv string string string
  | TaskHandedOver string assignee_kind string string
  | CaseOpened string string string string
  | CaseClosed string case_status string

fun topicOf :: "event \<Rightarrow> string" where
  "topicOf (TaskCreated _ _ _) = ''task.created''"
| "topicOf (TaskUpdated _ _ _) = ''task.updated''"
| "topicOf (TaskStatusChanged _ _ _ _) = ''task.status.changed''"
| "topicOf (TaskCompleted _ _ _ _) = ''task.completed''"
| "topicOf (TaskFailedEv _ _ _) = ''task.failed''"
| "topicOf (TaskRolledBack _ _) = ''task.rolled_back''"
| "topicOf (TaskAssigned _ _ _ _ _ _ _) = ''task.assigned''"
| "topicOf (RelationshipCreated _ _ _) = ''relationship.created''"
| "topicOf (TodoDispatched _ _ _ _ _ _ _ _ _ _ _ _) = ''todo.dispatched''"
| "topicOf (RunInProgressEv _ _) = ''run.in_progress''"
| "topicOf (RunCompletedEv _ _ _) = ''run.completed''"
| "topicOf (RunFailedEv _ _ _) = ''run.failed''"
| "topicOf (RunRolledBackEv _ _ _) = ''run.rolled_back''"
| "topicOf (RunRollingBackEv _ _) = ''run.rolling_back''"
| "topicOf (RunRollbackFailedEv _ _ _) = ''run.rollback_failed''"
| "topicOf (RunCancellingEv _ _ _ _) = ''run.cancelling''"
| "topicOf (RunCancelledEv _ _ _ _) = ''run.cancelled''"
| "topicOf (RunClosedEv _ _ _ _ _) = ''run.closed''"
| "topicOf (TaskCancelledEv _ _ _) = ''task.cancelled''"
| "topicOf (TaskHandedOver _ _ _ _) = ''task.handed_over''"
| "topicOf (CaseOpened _ _ _ _) = ''case.opened''"
| "topicOf (CaseClosed _ _ _) = ''case.closed''"

end
