(* ===== verification/Store.thy ===== *)
theory Store
  imports Failures
begin

text \<open>
  The manager's state and its monad. The tables of the database are lists of rows in storage
  order. Beside them the world holds what the manager takes from outside: a supply of ids
  (\<open>specstore.NewID\<close>), a clock (\<open>time.Now\<close>), three random bytes (\<open>rand.Read\<close>, which may fail), the \<open>task_states\<close> setting, a
  publisher, and a schedule of statement failures: each statement sent to the database consumes
  one entry of \<open>w_faults\<close> and fails when it is \<open>True\<close>, so every error branch of the code is a
  branch of the model. With \<open>w_faults s = []\<close> no statement fails.
\<close>

record db =
  d_tasks :: "task list"
  d_todos :: "task_todo list"
  d_agents :: "agent list"
  d_projects :: "project list"
  d_tags :: "tag list"
  d_deliverables :: "deliverable list"
  d_criteria :: "acceptance_criteria list"
  d_runs :: "workflow_run list"
  d_blockers :: "task_edge list"
  d_dependencies :: "task_edge list"
  d_memberships :: "membership list"
  d_taggings :: "tagging list"
  d_sequences :: "code_sequence list"
  d_assignments :: "assignment list"
  d_cases :: "case_rec list"
  d_caseTasks :: "case_task list"
  d_caseVotes :: "case_vote list"
  d_generated :: "generated_task list"
  d_sourced :: "sourced_task list"
  d_repeating :: "repeating_record list"
  d_periods :: "repeating_period list"
  d_importJobs :: "import_job list"

definition emptyDb :: db where
  "emptyDb = \<lparr>d_tasks = [], d_todos = [], d_agents = [], d_projects = [], d_tags = [],
     d_deliverables = [], d_criteria = [], d_runs = [], d_blockers = [], d_dependencies = [],
     d_memberships = [], d_taggings = [], d_sequences = [], d_assignments = [], d_cases = [],
     d_caseTasks = [], d_caseVotes = [], d_generated = [], d_sourced = [], d_repeating = [],
     d_periods = [], d_importJobs = []\<rparr>"

text \<open>
  The \<open>task_states\<close> setting as \<open>spec.ResolveStored\<close> answers it: not declared by the specification,
  not readable (a failure of the settings tables, or a value that is not a list of states), or the
  decoded value, which \<open>ParseTaskStates\<close> then checks.
\<close>

datatype states_setting = Undeclared | Unreadable | Declared "task_state list"

record world =
  w_db :: db
  w_faults :: "bool list"
  w_ids :: "nat \<Rightarrow> string"
  w_nextID :: nat
  w_clock :: "nat \<Rightarrow> instant"
  w_ticks :: nat
  w_rand :: "nat \<Rightarrow> nat option"
  w_draws :: nat
  w_setting :: states_setting
  w_publisherNil :: bool
  w_published :: "event list"

text \<open>A concrete world to run on: no failures, ids \<open>id0\<close>, \<open>id1\<close>, \<open>\<dots>\<close>, one second a tick.\<close>

definition worldOf :: "db \<Rightarrow> world" where
  "worldOf d = \<lparr>w_db = d, w_faults = [], w_ids = (\<lambda>n. ''id'' @ dec n), w_nextID = 0,
     w_clock = (\<lambda>n. int n * nsPerSec), w_ticks = 0, w_rand = (\<lambda>_. None), w_draws = 0,
     w_setting = Undeclared, w_publisherNil = False, w_published = []\<rparr>"

definition calmWorld :: world where
  "calmWorld = worldOf emptyDb"

lemma worldOf_sel [simp]:
  "w_db (worldOf d) = d" "w_faults (worldOf d) = []" "w_setting (worldOf d) = Undeclared"
  "w_published (worldOf d) = []" "w_publisherNil (worldOf d) = False"
  by (simp_all add: worldOf_def)

section \<open>The monad\<close>

text \<open>
  A method of \<open>taskManager\<close> maps a world to Go's \<open>(value, error)\<close> and the new world. \<open>bnd\<close> is the
  early return \<open>if err != nil { return err }\<close>; \<open>attempt\<close> hands the error to the code that follows,
  as every \<open>if err := f(); err != nil { log }\<close> does.
\<close>

type_synonym 'a tm = "world \<Rightarrow> (err + 'a) \<times> world"

definition ret :: "'a \<Rightarrow> 'a tm" where
  "ret x s = (Inr x, s)"

definition fail :: "err \<Rightarrow> 'a tm" where
  "fail e s = (Inl e, s)"

definition bnd :: "'a tm \<Rightarrow> ('a \<Rightarrow> 'b tm) \<Rightarrow> 'b tm" where
  "bnd m f s = (case m s of (Inl e, s') \<Rightarrow> (Inl e, s') | (Inr x, s') \<Rightarrow> f x s')"

definition seq :: "'a tm \<Rightarrow> 'b tm \<Rightarrow> 'b tm" where
  "seq m m' = bnd m (\<lambda>_. m')"

definition attempt :: "'a tm \<Rightarrow> (err + 'a) tm" where
  "attempt m s = (case m s of (r, s') \<Rightarrow> (Inr r, s'))"

definition lift :: "err + 'a \<Rightarrow> 'a tm" where
  "lift r s = (r, s)"

definition unless :: "bool \<Rightarrow> err \<Rightarrow> unit tm" where
  "unless ok e = (if ok then ret () else fail e)"

definition whenM :: "bool \<Rightarrow> unit tm \<Rightarrow> unit tm" where
  "whenM b m = (if b then m else ret ())"

fun forEach :: "'a list \<Rightarrow> ('a \<Rightarrow> unit tm) \<Rightarrow> unit tm" where
  "forEach [] f = ret ()"
| "forEach (x # xs) f = seq (f x) (forEach xs f)"

fun collect :: "'a list \<Rightarrow> ('a \<Rightarrow> 'b option tm) \<Rightarrow> 'b list tm" where
  "collect [] f = ret []"
| "collect (x # xs) f = bnd (f x) (\<lambda>y. bnd (collect xs f) (\<lambda>ys.
     ret (case y of None \<Rightarrow> ys | Some v \<Rightarrow> v # ys)))"

definition nowT :: "instant tm" where
  "nowT s = (Inr (w_clock s (w_ticks s)), s\<lparr>w_ticks := Suc (w_ticks s)\<rparr>)"

text \<open>\<open>time.Now().UTC().Format(time.RFC3339)\<close>.\<close>

definition nowStr :: "string tm" where
  "nowStr = bnd nowT (\<lambda>t. ret (fmtRFC3339 t))"

definition newSpecID :: "string tm" where
  "newSpecID s = (Inr (w_ids s (w_nextID s)), s\<lparr>w_nextID := Suc (w_nextID s)\<rparr>)"

definition draw3 :: "nat option tm" where
  "draw3 s = (Inr (w_rand s (w_draws s)), s\<lparr>w_draws := Suc (w_draws s)\<rparr>)"

definition publish :: "event \<Rightarrow> unit tm" where
  "publish e s = (Inr (), if w_publisherNil s then s else s\<lparr>w_published := w_published s @ [e]\<rparr>)"

fun StoredTaskStates :: "states_setting \<Rightarrow> err + task_state list" where
  "StoredTaskStates Undeclared = Inr DefaultTaskStates"
| "StoredTaskStates Unreadable = Inl ErrSettings"
| "StoredTaskStates (Declared states) =
     (case ParseTaskStates states of Inl e \<Rightarrow> Inl (ErrTaskStates e) | Inr ss \<Rightarrow> Inr ss)"

definition taskStates :: "task_state list tm" where
  "taskStates s = (StoredTaskStates (w_setting s), s)"

lemma StoredTaskStates_error: "StoredTaskStates g = Inl e \<Longrightarrow> e = ErrSettings \<or> (\<exists>e'. e = ErrTaskStates e')"
  by (cases g) (auto split: sum.splits)

section \<open>Statements\<close>

definition sql :: "(db \<Rightarrow> (err + 'a) \<times> db) \<Rightarrow> 'a tm" where
  "sql f s =
     (if w_faults s \<noteq> [] \<and> hd (w_faults s) then (Inl ErrDatabase, s\<lparr>w_faults := tl (w_faults s)\<rparr>)
      else case f (w_db s) of (r, d) \<Rightarrow> (r, s\<lparr>w_db := d, w_faults := tl (w_faults s)\<rparr>))"

text \<open>\<open>db.Transaction(func)\<close>: an error of the function or of the commit restores the tables.\<close>

definition transaction :: "'a tm \<Rightarrow> 'a tm" where
  "transaction m s =
     (case m s of
        (Inl e, s') \<Rightarrow> (Inl e, s'\<lparr>w_db := w_db s\<rparr>)
      | (Inr x, s') \<Rightarrow>
          (case sql (\<lambda>d. (Inr (), d)) s' of
             (Inl e, s'') \<Rightarrow> (Inl e, s''\<lparr>w_db := w_db s\<rparr>)
           | (Inr _, s'') \<Rightarrow> (Inr x, s'')))"

text \<open>A table is a field of \<open>db\<close>: its selector and its update function.\<close>

type_synonym 'r tbl = "(db \<Rightarrow> 'r list) \<times> (('r list \<Rightarrow> 'r list) \<Rightarrow> db \<Rightarrow> db)"

abbreviation tasksT :: "task tbl" where "tasksT \<equiv> (d_tasks, d_tasks_update)"
abbreviation todosT :: "task_todo tbl" where "todosT \<equiv> (d_todos, d_todos_update)"
abbreviation agentsT :: "agent tbl" where "agentsT \<equiv> (d_agents, d_agents_update)"
abbreviation projectsT :: "project tbl" where "projectsT \<equiv> (d_projects, d_projects_update)"
abbreviation tagsT :: "tag tbl" where "tagsT \<equiv> (d_tags, d_tags_update)"
abbreviation deliverablesT :: "deliverable tbl" where "deliverablesT \<equiv> (d_deliverables, d_deliverables_update)"
abbreviation criteriaT :: "acceptance_criteria tbl" where "criteriaT \<equiv> (d_criteria, d_criteria_update)"
abbreviation runsT :: "workflow_run tbl" where "runsT \<equiv> (d_runs, d_runs_update)"
abbreviation blockersT :: "task_edge tbl" where "blockersT \<equiv> (d_blockers, d_blockers_update)"
abbreviation dependenciesT :: "task_edge tbl" where "dependenciesT \<equiv> (d_dependencies, d_dependencies_update)"
abbreviation membershipsT :: "membership tbl" where "membershipsT \<equiv> (d_memberships, d_memberships_update)"
abbreviation taggingsT :: "tagging tbl" where "taggingsT \<equiv> (d_taggings, d_taggings_update)"
abbreviation sequencesT :: "code_sequence tbl" where "sequencesT \<equiv> (d_sequences, d_sequences_update)"
abbreviation assignmentsT :: "assignment tbl" where "assignmentsT \<equiv> (d_assignments, d_assignments_update)"
abbreviation casesT :: "case_rec tbl" where "casesT \<equiv> (d_cases, d_cases_update)"
abbreviation caseTasksT :: "case_task tbl" where "caseTasksT \<equiv> (d_caseTasks, d_caseTasks_update)"
abbreviation caseVotesT :: "case_vote tbl" where "caseVotesT \<equiv> (d_caseVotes, d_caseVotes_update)"
abbreviation generatedT :: "generated_task tbl" where "generatedT \<equiv> (d_generated, d_generated_update)"
abbreviation sourcedT :: "sourced_task tbl" where "sourcedT \<equiv> (d_sourced, d_sourced_update)"
abbreviation repeatingT :: "repeating_record tbl" where "repeatingT \<equiv> (d_repeating, d_repeating_update)"
abbreviation periodsT :: "repeating_period tbl" where "periodsT \<equiv> (d_periods, d_periods_update)"
abbreviation importJobsT :: "import_job tbl" where "importJobsT \<equiv> (d_importJobs, d_importJobs_update)"

definition selectQ :: "'r tbl \<Rightarrow> ('r \<Rightarrow> bool) \<Rightarrow> 'r list tm" where
  "selectQ T P = sql (\<lambda>d. (Inr (filter P (fst T d)), d))"

definition takeQ :: "'r tbl \<Rightarrow> ('r \<Rightarrow> bool) \<Rightarrow> err \<Rightarrow> 'r tm" where
  "takeQ T P notFound =
     sql (\<lambda>d. (case List.find P (fst T d) of None \<Rightarrow> Inl notFound | Some r \<Rightarrow> Inr r, d))"

definition updateQ :: "'r tbl \<Rightarrow> ('r \<Rightarrow> bool) \<Rightarrow> ('r \<Rightarrow> 'r) \<Rightarrow> nat tm" where
  "updateQ T P f = sql (\<lambda>d. (Inr (affected P (fst T d)), snd T (updWhere P f) d))"

definition deleteQ :: "'r tbl \<Rightarrow> ('r \<Rightarrow> bool) \<Rightarrow> nat tm" where
  "deleteQ T P = sql (\<lambda>d. (Inr (affected P (fst T d)), snd T (delWhere P) d))"

text \<open>\<open>clash\<close> is the table's unique indexes: whether two rows may not both be stored.\<close>

definition insertQ :: "'r tbl \<Rightarrow> ('r \<Rightarrow> 'r \<Rightarrow> bool) \<Rightarrow> 'r \<Rightarrow> unit tm" where
  "insertQ T clash r =
     sql (\<lambda>d. if list_ex (clash r) (fst T d) then (Inl ErrUniqueKey, d)
              else (Inr (), snd T (\<lambda>rs. rs @ [r]) d))"

definition maxListPage :: nat where
  "maxListPage = 500"

lemmas tm_basic =
  ret_def fail_def bnd_def seq_def attempt_def lift_def unless_def whenM_def nowT_def nowStr_def
  newSpecID_def draw3_def publish_def taskStates_def

declare tm_basic [tm_defs]

section \<open>Statements that do not fail\<close>

lemma sql_calm [calm]:
  "w_faults s = [] \<Longrightarrow> sql f s = (case f (w_db s) of (r, d) \<Rightarrow> (r, s\<lparr>w_db := d\<rparr>))"
  by (auto simp: sql_def split: prod.splits)

lemma world_same_db [simp]: "s\<lparr>w_db := w_db s\<rparr> = s"
  by simp

lemma selectQ_calm [calm]: "w_faults s = [] \<Longrightarrow> selectQ T P s = (Inr (filter P (fst T (w_db s))), s)"
  by (simp add: selectQ_def sql_calm)

lemma takeQ_calm [calm]:
  "w_faults s = [] \<Longrightarrow> takeQ T P e s =
     (case List.find P (fst T (w_db s)) of None \<Rightarrow> Inl e | Some r \<Rightarrow> Inr r, s)"
  by (simp add: takeQ_def sql_calm)

lemma updateQ_calm [calm]:
  "w_faults s = [] \<Longrightarrow> updateQ T P f s =
     (Inr (affected P (fst T (w_db s))), s\<lparr>w_db := snd T (updWhere P f) (w_db s)\<rparr>)"
  by (simp add: updateQ_def sql_calm)

lemma deleteQ_calm [calm]:
  "w_faults s = [] \<Longrightarrow> deleteQ T P s =
     (Inr (affected P (fst T (w_db s))), s\<lparr>w_db := snd T (delWhere P) (w_db s)\<rparr>)"
  by (simp add: deleteQ_def sql_calm)

lemma insertQ_calm [calm]:
  "w_faults s = [] \<Longrightarrow> insertQ T clash r s =
     (if list_ex (clash r) (fst T (w_db s)) then (Inl ErrUniqueKey, s)
      else (Inr (), s\<lparr>w_db := snd T (\<lambda>rs. rs @ [r]) (w_db s)\<rparr>))"
  by (simp add: insertQ_def sql_calm)

lemma transaction_calm:
  "w_faults (snd (m s)) = [] \<Longrightarrow> transaction m s =
     (case m s of (Inl e, s') \<Rightarrow> (Inl e, s'\<lparr>w_db := w_db s\<rparr>) | (Inr x, s') \<Rightarrow> (Inr x, s'))"
  by (auto simp: transaction_def sql_calm split: prod.splits sum.splits)

section \<open>Runs that succeed\<close>

text \<open>Whatever statements fail, a run that returns a value went through every one of its parts.\<close>

lemma ret_Inr [succ]: "ret x s = (Inr y, t) \<longleftrightarrow> x = y \<and> s = t"
  by (simp add: ret_def)

lemma fail_Inr [succ]: "fail e s = (Inr y, t) \<longleftrightarrow> False"
  by (simp add: fail_def)

lemma bnd_Inr [succ]: "bnd m f s = (Inr y, t) \<longleftrightarrow> (\<exists>x s'. m s = (Inr x, s') \<and> f x s' = (Inr y, t))"
  by (auto simp: bnd_def split: prod.splits sum.splits)

lemma seq_Inr [succ]: "seq m m' s = (Inr y, t) \<longleftrightarrow> (\<exists>x s'. m s = (Inr x, s') \<and> m' s' = (Inr y, t))"
  by (simp add: seq_def bnd_Inr)

lemma attempt_Inr [succ]: "attempt m s = (Inr r, t) \<longleftrightarrow> m s = (r, t)"
  by (auto simp: attempt_def split: prod.splits)

lemma unless_Inr [succ]: "unless b e s = (Inr y, t) \<longleftrightarrow> b \<and> s = t"
  by (simp add: unless_def ret_def fail_def)

lemma whenM_Inr [succ]: "whenM b m s = (Inr y, t) \<longleftrightarrow> (if b then m s = (Inr y, t) else s = t)"
  by (simp add: whenM_def ret_def)

lemma lift_Inr [succ]: "lift r s = (Inr y, t) \<longleftrightarrow> r = Inr y \<and> s = t"
  by (auto simp: lift_def)

lemma nowT_Inr [succ]: "nowT s = (Inr y, t) \<longleftrightarrow> y = w_clock s (w_ticks s) \<and> t = s\<lparr>w_ticks := Suc (w_ticks s)\<rparr>"
  by (auto simp: nowT_def)

lemma nowStr_Inr [succ]: "nowStr s = (Inr y, t) \<longleftrightarrow>
    y = fmtRFC3339 (w_clock s (w_ticks s)) \<and> t = s\<lparr>w_ticks := Suc (w_ticks s)\<rparr>"
  by (auto simp: nowStr_def succ)

lemma nowStr_run: "nowStr s = (Inr y, t) \<Longrightarrow>
    y \<noteq> [] \<and> w_db t = w_db s \<and> w_published t = w_published s \<and> w_faults t = w_faults s"
  by (auto simp: nowStr_Inr)

lemma newSpecID_Inr [succ]: "newSpecID s = (Inr y, t) \<longleftrightarrow>
    y = w_ids s (w_nextID s) \<and> t = s\<lparr>w_nextID := Suc (w_nextID s)\<rparr>"
  by (auto simp: newSpecID_def)

lemma draw3_Inr [succ]: "draw3 s = (Inr y, t) \<longleftrightarrow>
    y = w_rand s (w_draws s) \<and> t = s\<lparr>w_draws := Suc (w_draws s)\<rparr>"
  by (auto simp: draw3_def)

lemma publish_Inr [succ]: "publish e s = (Inr y, t) \<longleftrightarrow>
    t = (if w_publisherNil s then s else s\<lparr>w_published := w_published s @ [e]\<rparr>)"
  by (auto simp: publish_def)

lemma taskStates_Inr [succ]: "taskStates s = (Inr y, t) \<longleftrightarrow> StoredTaskStates (w_setting s) = Inr y \<and> s = t"
  by (auto simp: taskStates_def)

lemma sql_Inr [succ]: "sql f s = (Inr y, t) \<longleftrightarrow>
    \<not> (w_faults s \<noteq> [] \<and> hd (w_faults s)) \<and>
    (\<exists>d. f (w_db s) = (Inr y, d) \<and> t = s\<lparr>w_db := d, w_faults := tl (w_faults s)\<rparr>)"
  by (auto simp: sql_def split: prod.splits)

lemma selectQ_Inr [succ]: "selectQ T P s = (Inr y, t) \<longleftrightarrow>
    \<not> (w_faults s \<noteq> [] \<and> hd (w_faults s)) \<and> y = filter P (fst T (w_db s)) \<and>
    t = s\<lparr>w_faults := tl (w_faults s)\<rparr>"
  by (auto simp: selectQ_def succ)

lemma takeQ_Inr [succ]: "takeQ T P e s = (Inr y, t) \<longleftrightarrow>
    \<not> (w_faults s \<noteq> [] \<and> hd (w_faults s)) \<and> List.find P (fst T (w_db s)) = Some y \<and>
    t = s\<lparr>w_faults := tl (w_faults s)\<rparr>"
  by (auto simp: takeQ_def succ split: option.splits)

lemma updateQ_Inr [succ]: "updateQ T P f s = (Inr n, t) \<longleftrightarrow>
    \<not> (w_faults s \<noteq> [] \<and> hd (w_faults s)) \<and> n = affected P (fst T (w_db s)) \<and>
    t = s\<lparr>w_db := snd T (updWhere P f) (w_db s), w_faults := tl (w_faults s)\<rparr>"
  by (auto simp: updateQ_def succ)

lemma deleteQ_Inr [succ]: "deleteQ T P s = (Inr n, t) \<longleftrightarrow>
    \<not> (w_faults s \<noteq> [] \<and> hd (w_faults s)) \<and> n = affected P (fst T (w_db s)) \<and>
    t = s\<lparr>w_db := snd T (delWhere P) (w_db s), w_faults := tl (w_faults s)\<rparr>"
  by (auto simp: deleteQ_def succ)

lemma insertQ_Inr [succ]: "insertQ T clash r s = (Inr y, t) \<longleftrightarrow>
    \<not> (w_faults s \<noteq> [] \<and> hd (w_faults s)) \<and> \<not> list_ex (clash r) (fst T (w_db s)) \<and>
    t = s\<lparr>w_db := snd T (\<lambda>rs. rs @ [r]) (w_db s), w_faults := tl (w_faults s)\<rparr>"
  by (auto simp: insertQ_def succ split: if_splits)

text \<open>Running past a part whose result is known.\<close>

lemma bnd_run: "m s = (Inr x, s') \<Longrightarrow> bnd m f s = f x s'"
  by (simp add: bnd_def)

lemma seq_unless: "b \<Longrightarrow> seq (unless b e) m = m"
  by (rule ext) (simp add: seq_def bnd_def unless_def ret_def)

text \<open>What the reads and the updates return, without the schedule.\<close>

lemma selectQ_run: "selectQ T P s = (Inr rows, t) \<Longrightarrow>
    rows = filter P (fst T (w_db s)) \<and> w_db t = w_db s \<and> w_published t = w_published s"
  by (auto simp: selectQ_Inr)

lemma takeQ_run: "takeQ T P e s = (Inr row, t) \<Longrightarrow>
    List.find P (fst T (w_db s)) = Some row \<and> w_db t = w_db s \<and> w_published t = w_published s"
  by (auto simp: takeQ_Inr)

lemma updateQ_run: "updateQ T P f s = (Inr n, t) \<Longrightarrow>
    n = affected P (fst T (w_db s)) \<and> w_db t = snd T (updWhere P f) (w_db s) \<and> w_published t = w_published s"
  by (auto simp: updateQ_Inr)

lemma insertQ_run: "insertQ T clash r s = (Inr u, t) \<Longrightarrow>
    (\<forall>r' \<in> set (fst T (w_db s)). \<not> clash r r') \<and> w_db t = snd T (\<lambda>rs. rs @ [r]) (w_db s) \<and>
    w_published t = w_published s"
  by (auto simp: insertQ_Inr list_ex_iff)

lemma transaction_Inr: "transaction m s = (Inr y, t) \<Longrightarrow>
    \<exists>s'. m s = (Inr y, s') \<and> w_db t = w_db s'"
  by (auto simp: transaction_def sql_def split: prod.splits sum.splits if_splits)

lemma transaction_Inl: "transaction m s = (Inl e, t) \<Longrightarrow> w_db t = w_db s"
  by (auto simp: transaction_def split: prod.splits sum.splits)

section \<open>Runs that fail\<close>

text \<open>The first part that fails is the error of the whole.\<close>

lemma ret_Inl [errs]: "ret x s = (Inl e, t) \<longleftrightarrow> False"
  by (simp add: ret_def)

lemma fail_Inl [errs]: "fail e s = (Inl e', t) \<longleftrightarrow> e' = e \<and> t = s"
  by (auto simp: fail_def)

lemma bnd_Inl [errs]: "bnd m f s = (Inl e, t) \<longleftrightarrow>
    m s = (Inl e, t) \<or> (\<exists>x s'. m s = (Inr x, s') \<and> f x s' = (Inl e, t))"
  by (auto simp: bnd_def split: prod.splits sum.splits)

lemma seq_Inl [errs]: "seq m m' s = (Inl e, t) \<longleftrightarrow>
    m s = (Inl e, t) \<or> (\<exists>x s'. m s = (Inr x, s') \<and> m' s' = (Inl e, t))"
  by (simp add: seq_def bnd_Inl)

lemma attempt_Inl [errs]: "attempt m s = (Inl e, t) \<longleftrightarrow> False"
  by (auto simp: attempt_def split: prod.splits)

lemma unless_Inl [errs]: "unless b e s = (Inl e', t) \<longleftrightarrow> \<not> b \<and> e' = e \<and> t = s"
  by (auto simp: unless_def ret_def fail_def)

lemma whenM_Inl [errs]: "whenM b m s = (Inl e, t) \<longleftrightarrow> b \<and> m s = (Inl e, t)"
  by (simp add: whenM_def ret_def)

lemma nowT_Inl [errs]: "nowT s = (Inl e, t) \<longleftrightarrow> False"
  and nowStr_Inl [errs]: "nowStr s = (Inl e, t) \<longleftrightarrow> False"
  and newSpecID_Inl [errs]: "newSpecID s = (Inl e, t) \<longleftrightarrow> False"
  and draw3_Inl [errs]: "draw3 s = (Inl e, t) \<longleftrightarrow> False"
  and publish_Inl [errs]: "publish ev s = (Inl e, t) \<longleftrightarrow> False"
  by (simp_all add: tm_basic)

lemma sql_Inl [errs]: "sql f s = (Inl e, t) \<longleftrightarrow>
    (if w_faults s \<noteq> [] \<and> hd (w_faults s) then e = ErrDatabase \<and> t = s\<lparr>w_faults := tl (w_faults s)\<rparr>
     else \<exists>d. f (w_db s) = (Inl e, d) \<and> t = s\<lparr>w_db := d, w_faults := tl (w_faults s)\<rparr>)"
  by (auto simp: sql_def split: prod.splits)

lemma statement_Inl:
  "selectQ T P s = (Inl e, t) \<Longrightarrow> e = ErrDatabase \<and> w_db t = w_db s \<and> w_published t = w_published s"
  "takeQ T P e0 s = (Inl e, t) \<Longrightarrow> (e = ErrDatabase \<or> e = e0 \<and> List.find P (fst T (w_db s)) = None) \<and>
     w_db t = w_db s \<and> w_published t = w_published s"
  "updateQ T P f s = (Inl e, t) \<Longrightarrow> e = ErrDatabase \<and> w_db t = w_db s \<and> w_published t = w_published s"
  "deleteQ T P s = (Inl e, t) \<Longrightarrow> e = ErrDatabase \<and> w_db t = w_db s \<and> w_published t = w_published s"
  "insertQ T clash r s = (Inl e, t) \<Longrightarrow> (e = ErrDatabase \<or> e = ErrUniqueKey) \<and> w_db t = w_db s \<and>
     w_published t = w_published s"
  by (auto simp: selectQ_def takeQ_def updateQ_def deleteQ_def insertQ_def errs split: if_splits option.splits)

text \<open>Whether a run returns a value, decided by running it.\<close>

definition succeeds :: "'a tm \<Rightarrow> world \<Rightarrow> bool" where
  "succeeds m s \<longleftrightarrow> (case fst (m s) of Inl _ \<Rightarrow> False | Inr _ \<Rightarrow> True)"

lemma succeedsD: "succeeds m s \<Longrightarrow> \<exists>x t. m s = (Inr x, t)"
  by (cases "m s") (auto simp: succeeds_def split: sum.splits)

text \<open>Operations that never return an error.\<close>

definition surely :: "'a tm \<Rightarrow> bool" where
  "surely m \<longleftrightarrow> (\<forall>s e t. m s \<noteq> (Inl e, t))"

lemma surelyD: "surely m \<Longrightarrow> \<exists>x t. m s = (Inr x, t)"
  unfolding surely_def by (metis sumE surj_pair)

lemma surely_basic [surely_intros]:
  "surely (ret x)" "surely nowT" "surely nowStr" "surely newSpecID" "surely draw3" "surely (publish ev)"
  "surely (attempt m)"
  by (simp_all add: surely_def errs)

lemma surely_bnd [surely_intros]: "surely m \<Longrightarrow> (\<And>x. surely (f x)) \<Longrightarrow> surely (bnd m f)"
  by (simp add: surely_def errs)

lemma surely_seq [surely_intros]: "surely m \<Longrightarrow> surely m' \<Longrightarrow> surely (seq m m')"
  by (simp add: surely_def errs)

lemma surely_whenM [surely_intros]: "(b \<Longrightarrow> surely m) \<Longrightarrow> surely (whenM b m)"
  by (simp add: surely_def errs)

lemma surely_if [surely_intros]: "(b \<Longrightarrow> surely m) \<Longrightarrow> (\<not> b \<Longrightarrow> surely m') \<Longrightarrow> surely (if b then m else m')"
  by simp

lemma surely_forEach [surely_intros]: "(\<And>x. x \<in> set xs \<Longrightarrow> surely (f x)) \<Longrightarrow> surely (forEach xs f)"
  by (induction xs) (simp_all add: surely_intros)

lemma surely_case_sum [surely_intros]:
  "(\<And>y. x = Inl y \<Longrightarrow> surely (f y)) \<Longrightarrow> (\<And>y. x = Inr y \<Longrightarrow> surely (g y)) \<Longrightarrow>
   surely (case x of Inl y \<Rightarrow> f y | Inr y \<Rightarrow> g y)"
  by (cases x) simp_all

section \<open>Preservation of an invariant of the tables\<close>

text \<open>
  \<open>keeps I m\<close>: whatever statements fail, an operation started in tables that satisfy \<open>I\<close> ends in
  tables that satisfy \<open>I\<close>. The rules reduce it to the statements the operation sends.
\<close>

definition keeps :: "(db \<Rightarrow> bool) \<Rightarrow> 'a tm \<Rightarrow> bool" where
  "keeps I m \<longleftrightarrow> (\<forall>s. I (w_db s) \<longrightarrow> I (w_db (snd (m s))))"

lemma keepsD: "keeps I m \<Longrightarrow> I (w_db s) \<Longrightarrow> I (w_db (snd (m s)))"
  by (simp add: keeps_def)

lemma keepsI: "(\<And>s. I (w_db s) \<Longrightarrow> I (w_db (snd (m s)))) \<Longrightarrow> keeps I m"
  by (simp add: keeps_def)

lemma keeps_same: "(\<And>s. w_db (snd (m s)) = w_db s) \<Longrightarrow> keeps I m"
  by (simp add: keeps_def)

text \<open>An operation that keeps every singleton of tables only reads.\<close>

lemma keeps_reads: "(\<And>d0. keeps (\<lambda>d. d = d0) m) \<Longrightarrow> m s = (r, t) \<Longrightarrow> w_db t = w_db s"
  unfolding keeps_def by (metis snd_conv)

lemma keeps_ret [keeps_intros]: "keeps I (ret x)"
  and keeps_fail [keeps_intros]: "keeps I (fail e)"
  and keeps_lift [keeps_intros]: "keeps I (lift r)"
  and keeps_nowT [keeps_intros]: "keeps I nowT"
  and keeps_newSpecID [keeps_intros]: "keeps I newSpecID"
  and keeps_draw3 [keeps_intros]: "keeps I draw3"
  and keeps_publish [keeps_intros]: "keeps I (publish ev)"
  and keeps_taskStates [keeps_intros]: "keeps I taskStates"
  by (simp_all add: keeps_def tm_basic)

lemma keeps_bnd [keeps_intros]: "keeps I m \<Longrightarrow> (\<And>x. keeps I (f x)) \<Longrightarrow> keeps I (bnd m f)"
  unfolding keeps_def bnd_def by (fastforce split: prod.splits sum.splits)

lemma keeps_seq [keeps_intros]: "keeps I m \<Longrightarrow> keeps I m' \<Longrightarrow> keeps I (seq m m')"
  by (simp add: seq_def keeps_bnd)

lemma keeps_attempt [keeps_intros]: "keeps I m \<Longrightarrow> keeps I (attempt m)"
  by (simp add: keeps_def attempt_def split_beta)

lemma keeps_nowStr [keeps_intros]: "keeps I nowStr"
  by (simp add: nowStr_def keeps_intros)

lemma keeps_unless [keeps_intros]: "keeps I (unless b e)"
  by (simp add: unless_def keeps_intros)

lemma keeps_whenM [keeps_intros]: "(b \<Longrightarrow> keeps I m) \<Longrightarrow> keeps I (whenM b m)"
  by (simp add: whenM_def keeps_intros)

lemma keeps_if [keeps_intros]: "(b \<Longrightarrow> keeps I m) \<Longrightarrow> (\<not> b \<Longrightarrow> keeps I m') \<Longrightarrow> keeps I (if b then m else m')"
  by simp

lemma keeps_case_option [keeps_intros]:
  "(x = None \<Longrightarrow> keeps I m) \<Longrightarrow> (\<And>y. x = Some y \<Longrightarrow> keeps I (f y)) \<Longrightarrow>
   keeps I (case x of None \<Rightarrow> m | Some y \<Rightarrow> f y)"
  by (cases x) simp_all

lemma keeps_case_sum [keeps_intros]:
  "(\<And>y. x = Inl y \<Longrightarrow> keeps I (f y)) \<Longrightarrow> (\<And>y. x = Inr y \<Longrightarrow> keeps I (g y)) \<Longrightarrow>
   keeps I (case x of Inl y \<Rightarrow> f y | Inr y \<Rightarrow> g y)"
  by (cases x) simp_all

lemma keeps_forEach [keeps_intros]: "(\<And>x. x \<in> set xs \<Longrightarrow> keeps I (f x)) \<Longrightarrow> keeps I (forEach xs f)"
  by (induction xs) (simp_all add: keeps_intros)

lemma keeps_collect [keeps_intros]: "(\<And>x. x \<in> set xs \<Longrightarrow> keeps I (f x)) \<Longrightarrow> keeps I (collect xs f)"
  by (induction xs) (simp_all add: keeps_intros)

lemma keeps_sql: "(\<And>d. I d \<Longrightarrow> I (snd (f d))) \<Longrightarrow> keeps I (sql f)"
  unfolding keeps_def sql_def by (fastforce split: prod.splits)

lemma keeps_selectQ [keeps_intros]: "keeps I (selectQ T P)"
  by (simp add: selectQ_def keeps_sql)

lemma keeps_takeQ [keeps_intros]: "keeps I (takeQ T P e)"
  by (simp add: takeQ_def keeps_sql)

lemma keeps_updateQ: "(\<And>d. I d \<Longrightarrow> I (snd T (updWhere P f) d)) \<Longrightarrow> keeps I (updateQ T P f)"
  by (simp add: updateQ_def keeps_sql)

lemma keeps_deleteQ: "(\<And>d. I d \<Longrightarrow> I (snd T (delWhere P) d)) \<Longrightarrow> keeps I (deleteQ T P)"
  by (simp add: deleteQ_def keeps_sql)

lemma keeps_insertQ:
  "(\<And>d. I d \<Longrightarrow> \<forall>r' \<in> set (fst T d). \<not> clash r r' \<Longrightarrow> I (snd T (\<lambda>rs. rs @ [r]) d)) \<Longrightarrow>
   keeps I (insertQ T clash r)"
  unfolding insertQ_def by (rule keeps_sql) (auto simp: list_ex_iff)

text \<open>An invariant that does not look at a table survives every statement on that table.\<close>

definition ignores :: "'r tbl \<Rightarrow> (db \<Rightarrow> bool) \<Rightarrow> bool" where
  "ignores T I \<longleftrightarrow> (\<forall>f d. I (snd T f d) = I d)"

lemma ignoresI: "(\<And>f d. I (snd T f d) = I d) \<Longrightarrow> ignores T I"
  by (simp add: ignores_def)

lemma keeps_ignored_update [keeps_intros]: "ignores T I \<Longrightarrow> keeps I (updateQ T P f)"
  and keeps_ignored_delete [keeps_intros]: "ignores T I \<Longrightarrow> keeps I (deleteQ T P)"
  and keeps_ignored_insert [keeps_intros]: "ignores T I \<Longrightarrow> keeps I (insertQ T clash r)"
  by (auto simp: ignores_def intro!: keeps_updateQ keeps_deleteQ keeps_insertQ)

lemma keeps_transaction [keeps_intros]: "keeps I m \<Longrightarrow> keeps I (transaction m)"
  unfolding keeps_def transaction_def sql_def by (fastforce split: prod.splits sum.splits)

section \<open>What no operation touches\<close>

text \<open>
  Operations change the tables and consume their inputs. The setting and the publisher stay what
  they were, and a world in which no statement fails stays one.
\<close>

definition steady :: "'a tm \<Rightarrow> bool" where
  "steady m \<longleftrightarrow> (\<forall>s. (w_faults s = [] \<longrightarrow> w_faults (snd (m s)) = []) \<and>
     w_setting (snd (m s)) = w_setting s \<and> w_publisherNil (snd (m s)) = w_publisherNil s)"

lemma steadyD:
  assumes "steady m" and "m s = (r, t)"
  shows "w_faults s = [] \<Longrightarrow> w_faults t = []" and "w_setting t = w_setting s"
    and "w_publisherNil t = w_publisherNil s"
  using assms unfolding steady_def by (metis snd_conv)+

named_theorems steady_intros \<open>operations that leave the setting, the publisher and the calm alone\<close>

lemma steady_ret [steady_intros]: "steady (ret x)"
  and steady_fail [steady_intros]: "steady (fail e)"
  and steady_lift [steady_intros]: "steady (lift r)"
  and steady_nowT [steady_intros]: "steady nowT"
  and steady_newSpecID [steady_intros]: "steady newSpecID"
  and steady_draw3 [steady_intros]: "steady draw3"
  and steady_publish [steady_intros]: "steady (publish ev)"
  and steady_taskStates [steady_intros]: "steady taskStates"
  by (simp_all add: steady_def tm_basic)

lemma steadyI:
  assumes "\<And>s r t. m s = (r, t) \<Longrightarrow> (w_faults s = [] \<longrightarrow> w_faults t = []) \<and>
    w_setting t = w_setting s \<and> w_publisherNil t = w_publisherNil s"
  shows "steady m"
  unfolding steady_def using assms by (metis prod.collapse)

lemma steady_bnd [steady_intros]:
  assumes m: "steady m" and f: "\<And>x. steady (f x)"
  shows "steady (bnd m f)"
proof (rule steadyI)
  fix s r t
  assume run: "bnd m f s = (r, t)"
  obtain x s1 where x: "m s = (x, s1)" by fastforce
  note s1 = steadyD [OF m x]
  show "(w_faults s = [] \<longrightarrow> w_faults t = []) \<and> w_setting t = w_setting s \<and> w_publisherNil t = w_publisherNil s"
  proof (cases x)
    case (Inl e)
    with run x s1 show ?thesis by (simp add: bnd_def)
  next
    case (Inr y)
    with run x have "f y s1 = (r, t)" by (simp add: bnd_def)
    from steadyD [OF f this] s1 show ?thesis by simp
  qed
qed

lemma steady_seq [steady_intros]: "steady m \<Longrightarrow> steady m' \<Longrightarrow> steady (seq m m')"
  by (simp add: seq_def steady_bnd)

lemma steady_attempt [steady_intros]: "steady m \<Longrightarrow> steady (attempt m)"
  by (simp add: steady_def attempt_def split_beta)

lemma steady_nowStr [steady_intros]: "steady nowStr"
  by (simp add: nowStr_def steady_intros)

lemma steady_unless [steady_intros]: "steady (unless b e)"
  by (simp add: unless_def steady_intros)

lemma steady_whenM [steady_intros]: "(b \<Longrightarrow> steady m) \<Longrightarrow> steady (whenM b m)"
  by (simp add: whenM_def steady_intros)

lemma steady_if [steady_intros]: "(b \<Longrightarrow> steady m) \<Longrightarrow> (\<not> b \<Longrightarrow> steady m') \<Longrightarrow> steady (if b then m else m')"
  by simp

lemma steady_forEach [steady_intros]: "(\<And>x. x \<in> set xs \<Longrightarrow> steady (f x)) \<Longrightarrow> steady (forEach xs f)"
  by (induction xs) (simp_all add: steady_intros)

lemma steady_collect [steady_intros]: "(\<And>x. x \<in> set xs \<Longrightarrow> steady (f x)) \<Longrightarrow> steady (collect xs f)"
  by (induction xs) (simp_all add: steady_intros)

lemma steady_case_option [steady_intros]:
  "(x = None \<Longrightarrow> steady m) \<Longrightarrow> (\<And>y. x = Some y \<Longrightarrow> steady (f y)) \<Longrightarrow> steady (case x of None \<Rightarrow> m | Some y \<Rightarrow> f y)"
  by (cases x) simp_all

lemma steady_case_sum [steady_intros]:
  "(\<And>y. x = Inl y \<Longrightarrow> steady (f y)) \<Longrightarrow> (\<And>y. x = Inr y \<Longrightarrow> steady (g y)) \<Longrightarrow>
   steady (case x of Inl y \<Rightarrow> f y | Inr y \<Rightarrow> g y)"
  by (cases x) simp_all

lemma steady_sql [steady_intros]: "steady (sql f)"
  by (auto simp: steady_def sql_def split: prod.splits)

lemma steady_statements [steady_intros]:
  "steady (selectQ T P)" "steady (takeQ T P e)" "steady (updateQ T P f)" "steady (deleteQ T P)"
  "steady (insertQ T clash r)"
  by (simp_all add: selectQ_def takeQ_def updateQ_def deleteQ_def insertQ_def steady_sql)

lemma steady_transaction [steady_intros]:
  assumes m: "steady m"
  shows "steady (transaction m)"
proof (rule steadyI)
  fix s r t
  assume run: "transaction m s = (r, t)"
  obtain x s1 where x: "m s = (x, s1)" by fastforce
  from run x steadyD [OF m x]
  show "(w_faults s = [] \<longrightarrow> w_faults t = []) \<and> w_setting t = w_setting s \<and> w_publisherNil t = w_publisherNil s"
    by (auto simp: transaction_def sql_def split: sum.splits if_splits)
qed

text \<open>Operations that publish nothing.\<close>

definition silent :: "'a tm \<Rightarrow> bool" where
  "silent m \<longleftrightarrow> (\<forall>s. w_published (snd (m s)) = w_published s)"

lemma silentD: "silent m \<Longrightarrow> m s = (r, t) \<Longrightarrow> w_published t = w_published s"
  unfolding silent_def by (metis snd_conv)

lemma silentI: "(\<And>s r t. m s = (r, t) \<Longrightarrow> w_published t = w_published s) \<Longrightarrow> silent m"
  unfolding silent_def by (metis prod.collapse)

lemma silent_bnd [silent_intros]:
  assumes m: "silent m" and f: "\<And>x. silent (f x)"
  shows "silent (bnd m f)"
proof (rule silentI)
  fix s r t
  assume run: "bnd m f s = (r, t)"
  obtain x s1 where x: "m s = (x, s1)" by fastforce
  show "w_published t = w_published s"
    using run x silentD [OF m x] silentD [OF f]
    by (cases x) (auto simp: bnd_def)
qed

lemma silent_seq [silent_intros]: "silent m \<Longrightarrow> silent m' \<Longrightarrow> silent (seq m m')"
  by (simp add: seq_def silent_bnd)

lemma silent_basic [silent_intros]:
  "silent (ret x)" "silent (fail e)" "silent (lift r)" "silent nowT" "silent newSpecID" "silent draw3"
  "silent taskStates" "silent (unless b e)"
  by (simp_all add: silent_def tm_basic)

lemma silent_nowStr [silent_intros]: "silent nowStr"
  by (simp add: nowStr_def silent_intros)

lemma silent_attempt [silent_intros]: "silent m \<Longrightarrow> silent (attempt m)"
  by (simp add: silent_def attempt_def split_beta)

lemma silent_whenM [silent_intros]: "(b \<Longrightarrow> silent m) \<Longrightarrow> silent (whenM b m)"
  by (simp add: whenM_def silent_basic)

lemma silent_if [silent_intros]: "(b \<Longrightarrow> silent m) \<Longrightarrow> (\<not> b \<Longrightarrow> silent m') \<Longrightarrow> silent (if b then m else m')"
  by simp

lemma silent_collect [silent_intros]: "(\<And>x. x \<in> set xs \<Longrightarrow> silent (f x)) \<Longrightarrow> silent (collect xs f)"
  by (induction xs) (simp_all add: silent_intros)

lemma silent_forEach [silent_intros]: "(\<And>x. x \<in> set xs \<Longrightarrow> silent (f x)) \<Longrightarrow> silent (forEach xs f)"
  by (induction xs) (simp_all add: silent_intros)

lemma silent_case_sum [silent_intros]:
  "(\<And>y. x = Inl y \<Longrightarrow> silent (f y)) \<Longrightarrow> (\<And>y. x = Inr y \<Longrightarrow> silent (g y)) \<Longrightarrow>
   silent (case x of Inl y \<Rightarrow> f y | Inr y \<Rightarrow> g y)"
  by (cases x) simp_all

lemma silent_sql [silent_intros]: "silent (sql f)"
  by (auto simp: silent_def sql_def split: prod.splits)

lemma silent_statements [silent_intros]:
  "silent (selectQ T P)" "silent (takeQ T P e)" "silent (updateQ T P f)" "silent (deleteQ T P)"
  "silent (insertQ T clash r)"
  by (simp_all add: selectQ_def takeQ_def updateQ_def deleteQ_def insertQ_def silent_sql)

text \<open>
  A quiet world: no statement fails and the setting is usable. \<open>fine m\<close>: in a quiet world \<open>m\<close> returns
  a value.
\<close>

definition quiet :: "world \<Rightarrow> bool" where
  "quiet s \<longleftrightarrow> w_faults s = [] \<and> (\<exists>states. StoredTaskStates (w_setting s) = Inr states)"

definition fine :: "'a tm \<Rightarrow> bool" where
  "fine m \<longleftrightarrow> steady m \<and> (\<forall>s. quiet s \<longrightarrow> (\<exists>x t. m s = (Inr x, t)))"

lemma quiet_worldOf [simp]: "quiet (worldOf d)"
  by (simp add: quiet_def)

lemma quiet_steady: "steady m \<Longrightarrow> m s = (r, t) \<Longrightarrow> quiet s \<Longrightarrow> quiet t"
  by (simp add: quiet_def steadyD)

lemma fineD: "fine m \<Longrightarrow> quiet s \<Longrightarrow> \<exists>x t. m s = (Inr x, t) \<and> quiet t"
  unfolding fine_def by (meson quiet_steady)

lemma fineI: "steady m \<Longrightarrow> (\<And>s. quiet s \<Longrightarrow> \<exists>x t. m s = (Inr x, t)) \<Longrightarrow> fine m"
  by (simp add: fine_def)

lemma fine_surely: "surely m \<Longrightarrow> steady m \<Longrightarrow> fine m"
  using surelyD by (auto simp: fine_def)

lemma fine_bnd [fine_intros]: "fine m \<Longrightarrow> (\<And>x. fine (f x)) \<Longrightarrow> fine (bnd m f)"
  unfolding fine_def by (metis (full_types) bnd_Inr quiet_steady steady_bnd)

lemma fine_seq [fine_intros]: "fine m \<Longrightarrow> fine m' \<Longrightarrow> fine (seq m m')"
  by (simp add: seq_def fine_bnd)

lemma fine_basic [fine_intros]:
  "fine (ret x)" "fine nowT" "fine nowStr" "fine newSpecID" "fine draw3" "fine (publish ev)"
  by (intro fine_surely surely_intros steady_intros)+

lemma fine_taskStates [fine_intros]: "fine taskStates"
  by (rule fineI [OF steady_taskStates]) (auto simp: quiet_def taskStates_def)

lemma fine_attempt [fine_intros]: "steady m \<Longrightarrow> fine (attempt m)"
  by (intro fine_surely surely_intros steady_intros)

lemma fine_statements [fine_intros]:
  "fine (selectQ T P)" "fine (updateQ T P f)" "fine (deleteQ T P)"
  by (rule fineI [OF steady_statements(1)] fineI [OF steady_statements(3)] fineI [OF steady_statements(4)];
      simp add: quiet_def selectQ_calm updateQ_calm deleteQ_calm)+

lemma fine_readonly [fine_intros]: "fine (sql (\<lambda>d. (Inr (g d), d)))"
  by (rule fineI [OF steady_sql]) (simp add: quiet_def sql_calm)

lemma fine_whenM [fine_intros]: "(b \<Longrightarrow> fine m) \<Longrightarrow> fine (whenM b m)"
  by (simp add: whenM_def fine_basic)

lemma fine_if [fine_intros]: "(b \<Longrightarrow> fine m) \<Longrightarrow> (\<not> b \<Longrightarrow> fine m') \<Longrightarrow> fine (if b then m else m')"
  by simp

lemma fine_collect [fine_intros]: "(\<And>x. x \<in> set xs \<Longrightarrow> fine (f x)) \<Longrightarrow> fine (collect xs f)"
  by (induction xs) (simp_all add: fine_intros)

lemma fine_forEach [fine_intros]: "(\<And>x. x \<in> set xs \<Longrightarrow> fine (f x)) \<Longrightarrow> fine (forEach xs f)"
  by (induction xs) (simp_all add: fine_intros)

section \<open>One result per element\<close>

fun mapTM :: "('a \<Rightarrow> 'b tm) \<Rightarrow> 'a list \<Rightarrow> 'b list tm" where
  "mapTM f [] = ret []"
| "mapTM f (x # xs) = bnd (f x) (\<lambda>y. bnd (mapTM f xs) (\<lambda>ys. ret (y # ys)))"

lemma mapTM_Cons_Inr:
  "mapTM f (x # xs) s = (Inr zs, t) \<longleftrightarrow>
     (\<exists>y s1 ys. f x s = (Inr y, s1) \<and> mapTM f xs s1 = (Inr ys, t) \<and> zs = y # ys)"
  by (auto simp: bnd_Inr ret_Inr)

lemma mapTM_length: "mapTM f xs s = (Inr ys, t) \<Longrightarrow> length ys = length xs"
  by (induction xs arbitrary: s ys) (auto simp: mapTM_Cons_Inr ret_Inr simp del: mapTM.simps(2))

lemma keeps_mapTM [keeps_intros]: "(\<And>x. x \<in> set xs \<Longrightarrow> keeps I (f x)) \<Longrightarrow> keeps I (mapTM f xs)"
  by (induction xs) (simp_all add: keeps_intros)

lemma steady_mapTM [steady_intros]: "(\<And>x. x \<in> set xs \<Longrightarrow> steady (f x)) \<Longrightarrow> steady (mapTM f xs)"
  by (induction xs) (simp_all add: steady_intros)

lemma fine_mapTM [fine_intros]: "(\<And>x. x \<in> set xs \<Longrightarrow> fine (f x)) \<Longrightarrow> fine (mapTM f xs)"
  by (induction xs) (simp_all add: fine_intros)

lemma silent_mapTM [silent_intros]: "(\<And>x. x \<in> set xs \<Longrightarrow> silent (f x)) \<Longrightarrow> silent (mapTM f xs)"
  by (induction xs) (simp_all add: silent_intros)

section \<open>The interface of a table\<close>

text \<open>
  What a client of the store relies on: a table returns what was last written to it. The laws are
  those of \<open>specstore\<close>'s reads after writes; the lemmas are proved once from them and every table
  of \<open>db\<close> is an instance.
\<close>

locale table =
  fixes get :: "db \<Rightarrow> 'r list" and upd :: "('r list \<Rightarrow> 'r list) \<Rightarrow> db \<Rightarrow> db"
  assumes get_upd: "get (upd f d) = f (get d)" and upd_id: "f (get d) = get d \<Longrightarrow> upd f d = d"
begin

lemma select_after_insert:
  assumes "w_faults s = []" and "\<forall>r' \<in> set (get (w_db s)). \<not> clash r r'"
  shows "bnd (insertQ (get, upd) clash r) (\<lambda>_. selectQ (get, upd) P) s =
    (Inr (filter P (get (w_db s)) @ (if P r then [r] else [])),
     s\<lparr>w_db := upd (\<lambda>rs. rs @ [r]) (w_db s)\<rparr>)"
  using assms by (auto simp: bnd_def insertQ_calm selectQ_calm get_upd list_ex_iff)

lemma insert_refused:
  assumes "w_faults s = []" and "r' \<in> set (get (w_db s))" and "clash r r'"
  shows "insertQ (get, upd) clash r s = (Inl ErrUniqueKey, s)"
  using assms by (auto simp: insertQ_calm list_ex_iff)

lemma insert_adds:
  assumes "fst (insertQ (get, upd) clash r s) = Inr ()"
  shows "get (w_db (snd (insertQ (get, upd) clash r s))) = get (w_db s) @ [r]"
  using assms by (auto simp: insertQ_def sql_def get_upd split: if_splits)

lemma insert_failed:
  assumes "fst (insertQ (get, upd) clash r s) = Inl e"
  shows "w_db (snd (insertQ (get, upd) clash r s)) = w_db s"
  using assms by (auto simp: insertQ_def sql_def split: if_splits)

lemma update_counts:
  assumes "fst (updateQ (get, upd) P f s) = Inr n"
  shows "n = affected P (get (w_db s)) \<and>
    get (w_db (snd (updateQ (get, upd) P f s))) = updWhere P f (get (w_db s))"
  using assms by (auto simp: updateQ_def sql_def get_upd split: if_splits)

lemma update_none_db: "affected P (get d) = 0 \<Longrightarrow> upd (updWhere P f) d = d"
  by (rule upd_id) (rule updWhere_affected_0)

lemma update_none:
  assumes "fst (updateQ (get, upd) P f s) = Inr 0"
  shows "get (w_db (snd (updateQ (get, upd) P f s))) = get (w_db s)"
  using update_counts [OF assms] by (metis updWhere_affected_0)

lemma keeps_row_insert:
  assumes "\<And>d. I d \<Longrightarrow> \<forall>r \<in> set (get d). J r" and "\<And>d f. I d \<Longrightarrow> \<forall>r \<in> set (f (get d)). J r \<Longrightarrow> I (upd f d)"
    and "J r"
  shows "keeps I (insertQ (get, upd) clash r)"
  by (rule keeps_insertQ) (use assms in \<open>auto intro!: assms(2)\<close>)

lemma keeps_row_update:
  assumes "\<And>d. I d \<Longrightarrow> \<forall>r \<in> set (get d). J r" and "\<And>d f. I d \<Longrightarrow> \<forall>r \<in> set (f (get d)). J r \<Longrightarrow> I (upd f d)"
    and "\<And>r. J r \<Longrightarrow> P r \<Longrightarrow> J (f r)"
  shows "keeps I (updateQ (get, upd) P f)"
  by (rule keeps_updateQ) (use assms in \<open>auto intro!: assms(2) simp: set_updWhere\<close>)

end

lemma db_upd_id:
  "f (d_tasks d) = d_tasks d \<Longrightarrow> d_tasks_update f d = d"
  "f1 (d_todos d) = d_todos d \<Longrightarrow> d_todos_update f1 d = d"
  "f2 (d_agents d) = d_agents d \<Longrightarrow> d_agents_update f2 d = d"
  "f3 (d_projects d) = d_projects d \<Longrightarrow> d_projects_update f3 d = d"
  "f4 (d_tags d) = d_tags d \<Longrightarrow> d_tags_update f4 d = d"
  "f5 (d_deliverables d) = d_deliverables d \<Longrightarrow> d_deliverables_update f5 d = d"
  "f6 (d_criteria d) = d_criteria d \<Longrightarrow> d_criteria_update f6 d = d"
  "f7 (d_runs d) = d_runs d \<Longrightarrow> d_runs_update f7 d = d"
  "f8 (d_blockers d) = d_blockers d \<Longrightarrow> d_blockers_update f8 d = d"
  "f8 (d_dependencies d) = d_dependencies d \<Longrightarrow> d_dependencies_update f8 d = d"
  "f9 (d_memberships d) = d_memberships d \<Longrightarrow> d_memberships_update f9 d = d"
  "f10 (d_taggings d) = d_taggings d \<Longrightarrow> d_taggings_update f10 d = d"
  "f11 (d_sequences d) = d_sequences d \<Longrightarrow> d_sequences_update f11 d = d"
  "f12 (d_assignments d) = d_assignments d \<Longrightarrow> d_assignments_update f12 d = d"
  "f13 (d_cases d) = d_cases d \<Longrightarrow> d_cases_update f13 d = d"
  "f14 (d_caseTasks d) = d_caseTasks d \<Longrightarrow> d_caseTasks_update f14 d = d"
  "f15 (d_caseVotes d) = d_caseVotes d \<Longrightarrow> d_caseVotes_update f15 d = d"
  "f16 (d_generated d) = d_generated d \<Longrightarrow> d_generated_update f16 d = d"
  "f17 (d_sourced d) = d_sourced d \<Longrightarrow> d_sourced_update f17 d = d"
  "f18 (d_repeating d) = d_repeating d \<Longrightarrow> d_repeating_update f18 d = d"
  "f19 (d_periods d) = d_periods d \<Longrightarrow> d_periods_update f19 d = d"
  "f20 (d_importJobs d) = d_importJobs d \<Longrightarrow> d_importJobs_update f20 d = d"
  by (cases d; simp)+

interpretation tasks: table d_tasks d_tasks_update by unfold_locales (simp_all add: db_upd_id)
interpretation todos: table d_todos d_todos_update by unfold_locales (simp_all add: db_upd_id)
interpretation agents: table d_agents d_agents_update by unfold_locales (simp_all add: db_upd_id)
interpretation projects: table d_projects d_projects_update by unfold_locales (simp_all add: db_upd_id)
interpretation tags: table d_tags d_tags_update by unfold_locales (simp_all add: db_upd_id)
interpretation deliverables: table d_deliverables d_deliverables_update by unfold_locales (simp_all add: db_upd_id)
interpretation criteria: table d_criteria d_criteria_update by unfold_locales (simp_all add: db_upd_id)
interpretation runs: table d_runs d_runs_update by unfold_locales (simp_all add: db_upd_id)
interpretation blockers: table d_blockers d_blockers_update by unfold_locales (simp_all add: db_upd_id)
interpretation dependencies: table d_dependencies d_dependencies_update by unfold_locales (simp_all add: db_upd_id)
interpretation memberships: table d_memberships d_memberships_update by unfold_locales (simp_all add: db_upd_id)
interpretation taggings: table d_taggings d_taggings_update by unfold_locales (simp_all add: db_upd_id)
interpretation sequences: table d_sequences d_sequences_update by unfold_locales (simp_all add: db_upd_id)
interpretation assignments: table d_assignments d_assignments_update by unfold_locales (simp_all add: db_upd_id)
interpretation cases: table d_cases d_cases_update by unfold_locales (simp_all add: db_upd_id)
interpretation caseTasks: table d_caseTasks d_caseTasks_update by unfold_locales (simp_all add: db_upd_id)
interpretation caseVotes: table d_caseVotes d_caseVotes_update by unfold_locales (simp_all add: db_upd_id)
interpretation generated: table d_generated d_generated_update by unfold_locales (simp_all add: db_upd_id)
interpretation sourced: table d_sourced d_sourced_update by unfold_locales (simp_all add: db_upd_id)
interpretation repeating: table d_repeating d_repeating_update by unfold_locales (simp_all add: db_upd_id)
interpretation periods: table d_periods d_periods_update by unfold_locales (simp_all add: db_upd_id)
interpretation importJobs: table d_importJobs d_importJobs_update by unfold_locales (simp_all add: db_upd_id)

end
