(* ===== verification/Code_Sequence.thy ===== *)
theory Code_Sequence
  imports Store
begin

text \<open>
  \<open>codesequence.go\<close>: \<open>nextCode\<close> claims the next number of one kind of entity. It seeds the counter
  (an insert that does nothing when the row is there), advances it by a relative update, and reads
  it back; the code is the number before the advance behind a prefix.
\<close>

definition nextCode :: "string \<Rightarrow> string \<Rightarrow> string tm" where
  "nextCode entityType prefix =
     seq (sql (\<lambda>d. (Inr (),
            if list_ex (\<lambda>r. cs_EntityType r = entityType) (d_sequences d) then d
            else d\<lparr>d_sequences := d_sequences d @ [\<lparr>cs_EntityType = entityType, cs_NextNumber = 1\<rparr>]\<rparr>)))
     (bnd (updateQ sequencesT (\<lambda>r. cs_EntityType r = entityType)
            (\<lambda>r. r\<lparr>cs_NextNumber := cs_NextNumber r + 1\<rparr>)) (\<lambda>n.
     seq (unless (n = 1) ErrCounter)
     (bnd (selectQ sequencesT (\<lambda>r. cs_EntityType r = entityType)) (\<lambda>rows.
      case rows of
        [] \<Rightarrow> fail ErrCounter
      | advanced # _ \<Rightarrow> ret (prefix @ ''-'' @ decInt (cs_NextNumber advanced - 1))))))"

text \<open>The counter of a kind: the number the next code will carry.\<close>

definition counterOf :: "string \<Rightarrow> db \<Rightarrow> int" where
  "counterOf entityType d =
     (case List.find (\<lambda>r. cs_EntityType r = entityType) (d_sequences d) of
        None \<Rightarrow> 1 | Some r \<Rightarrow> cs_NextNumber r)"

lemma find_hd_filter: "filter P xs = x # ys \<Longrightarrow> List.find P xs = Some x"
  by (induction xs) (auto split: if_splits)

lemma decInt_inject: "decInt m = decInt n \<longleftrightarrow> m = n"
proof
  have minus: "CHR ''-'' \<notin> set (dec k)" for k
    using dec_isDigit [of "CHR ''-''" k] by (auto simp: isDigit_def)
  have head: "CHR ''-'' # xs \<noteq> dec k" for xs k
    using minus [of k] by (metis list.set_intros(1))
  assume "decInt m = decInt n"
  then show "m = n" using head head [symmetric] by (auto simp: decInt_def split: if_splits)
qed simp

lemma nextCode_Inr:
  assumes "nextCode et p s = (Inr c, t)"
  shows "c = p @ ''-'' @ decInt (counterOf et (w_db s)) \<and>
    counterOf et (w_db t) = counterOf et (w_db s) + 1 \<and>
    (\<forall>et'. et' \<noteq> et \<longrightarrow> counterOf et' (w_db t) = counterOf et' (w_db s))"
proof -
  let ?P = "\<lambda>r. cs_EntityType r = et"
  let ?rs = "d_sequences (w_db s)"
  let ?seeded = "if list_ex ?P ?rs then ?rs else ?rs @ [\<lparr>cs_EntityType = et, cs_NextNumber = 1\<rparr>]"
  let ?adv = "updWhere ?P (\<lambda>r. r\<lparr>cs_NextNumber := cs_NextNumber r + 1\<rparr>) ?seeded"
  from assms obtain r rs where rows: "filter ?P ?adv = r # rs"
    and c: "c = p @ ''-'' @ decInt (cs_NextNumber r - 1)" and t: "d_sequences (w_db t) = ?adv"
    by (auto simp: nextCode_def succ fail_def split: list.splits if_splits)
  have seed: "counterOf et' ((w_db s)\<lparr>d_sequences := ?seeded\<rparr>) = counterOf et' (w_db s)" for et'
    by (auto simp: counterOf_def find_append list_ex_iff find_None_iff dest: find_Some_in split: option.splits)
  have adv: "List.find (\<lambda>r. cs_EntityType r = et') ?adv =
      map_option (\<lambda>r. if ?P r then r\<lparr>cs_NextNumber := cs_NextNumber r + 1\<rparr> else r)
        (List.find (\<lambda>r. cs_EntityType r = et') ?seeded)" for et'
    by (rule find_updWhere) simp
  have "List.find ?P ?adv = Some r" using rows by (rule find_hd_filter)
  with adv [of et] obtain r0 where r0: "List.find ?P ?seeded = Some r0"
    and r: "r = r0\<lparr>cs_NextNumber := cs_NextNumber r0 + 1\<rparr>"
    by (cases "List.find ?P ?seeded") (auto dest: find_Some_in simp del: if_split)
  have now: "counterOf et (w_db s) = cs_NextNumber r0" using seed [of et] r0 by (simp add: counterOf_def)
  moreover have "counterOf et (w_db t) = cs_NextNumber r0 + 1"
    using \<open>List.find ?P ?adv = Some r\<close> t r by (simp add: counterOf_def)
  moreover have "counterOf et' (w_db t) = counterOf et' (w_db s)" if "et' \<noteq> et" for et'
  proof -
    have "counterOf et' (w_db t) = counterOf et' ((w_db s)\<lparr>d_sequences := ?seeded\<rparr>)"
      using adv [of et'] t that
      by (auto simp: counterOf_def dest: find_Some_in split: option.splits)
    then show ?thesis using seed by simp
  qed
  ultimately show ?thesis using c r by simp
qed

text \<open>Codes minted one after another, for any mix of kinds.\<close>

fun mintCodes :: "(string \<times> string) list \<Rightarrow> string list tm" where
  "mintCodes [] = ret []"
| "mintCodes ((et, p) # reqs) = bnd (nextCode et p) (\<lambda>c. bnd (mintCodes reqs) (\<lambda>cs. ret (c # cs)))"

lemma mintCodes_length: "mintCodes reqs s = (Inr cs, t) \<Longrightarrow> length cs = length reqs"
  by (induction reqs arbitrary: cs s rule: mintCodes.induct) (auto simp: succ)

lemma mintCodes_number:
  "mintCodes reqs s = (Inr cs, t) \<Longrightarrow> i < length reqs \<Longrightarrow> reqs ! i = (et, p) \<Longrightarrow>
   cs ! i = p @ ''-'' @
     decInt (counterOf et (w_db s) + int (length (filter (\<lambda>r. fst r = et) (take i reqs))))"
proof (induction reqs arbitrary: cs s i rule: mintCodes.induct)
  case (2 et0 p0 reqs)
  then obtain c cs' s' where first: "nextCode et0 p0 s = (Inr c, s')"
    and rest: "mintCodes reqs s' = (Inr cs', t)" and cs: "cs = c # cs'"
    by (auto simp: succ)
  note code = nextCode_Inr [OF first]
  show ?case
  proof (cases i)
    case 0
    with 2 cs code show ?thesis by simp
  next
    case (Suc j)
    with 2 have "cs' ! j = p @ ''-'' @ decInt (counterOf et (w_db s') +
        int (length (filter (\<lambda>r. fst r = et) (take j reqs))))"
      by (intro "2.IH" [OF rest]) auto
    with Suc cs code show ?thesis by (cases "et0 = et") (auto simp: add.assoc)
  qed
qed simp

lemma length_filter_take_less:
  assumes "i < j" and "i < length xs" and "P (xs ! i)"
  shows "length (filter P (take i xs)) < length (filter P (take j xs))"
proof -
  have "take (Suc i) xs = take i xs @ [xs ! i]" using assms(2) by (simp add: take_Suc_conv_app_nth)
  then have "length (filter P (take i xs)) < length (filter P (take (Suc i) xs))" using assms(3) by simp
  also have "take j xs = take (Suc i) xs @ take (j - Suc i) (drop (Suc i) xs)"
    using assms(1) by (metis Suc_leI le_add_diff_inverse take_add)
  then have "length (filter P (take (Suc i) xs)) \<le> length (filter P (take j xs))" by simp
  finally show ?thesis .
qed

text \<open>
  C7. Codes are unique: of any sequence of codes minted one after another, for whatever mix of
  kinds, no two asked for with the same kind and prefix are equal.
\<close>

theorem codes_unique:
  assumes "mintCodes reqs s = (Inr cs, t)" and "i < j" and "j < length reqs" and "reqs ! i = reqs ! j"
  shows "cs ! i \<noteq> cs ! j"
proof -
  obtain et p where req: "reqs ! i = (et, p)" by fastforce
  have "length (filter (\<lambda>r. fst r = et) (take i reqs)) < length (filter (\<lambda>r. fst r = et) (take j reqs))"
    using assms(2,3) req by (intro length_filter_take_less) (simp_all add: assms(4))
  moreover have "cs ! i = p @ ''-'' @ decInt (counterOf et (w_db s) +
      int (length (filter (\<lambda>r. fst r = et) (take i reqs))))"
    by (rule mintCodes_number [OF assms(1)]) (use assms(2,3) req in simp_all)
  moreover have "cs ! j = p @ ''-'' @ decInt (counterOf et (w_db s) +
      int (length (filter (\<lambda>r. fst r = et) (take j reqs))))"
    by (rule mintCodes_number [OF assms(1)]) (use assms(3,4) req in simp_all)
  ultimately show ?thesis by (simp add: decInt_inject)
qed

theorem codes_unique_witness:
  "\<exists>cs t. mintCodes [(''tag'', ''TG''), (''task_todo'', ''TD''), (''tag'', ''TG'')] calmWorld = (Inr cs, t) \<and>
     cs ! 0 \<noteq> cs ! 2"
proof -
  let ?reqs = "[(''tag'', ''TG''), (''task_todo'', ''TD''), (''tag'', ''TG'')]"
  have "fst (mintCodes ?reqs calmWorld) = Inr [''TG-1'', ''TD-1'', ''TG-2'']"
    by code_simp
  then obtain t where run: "mintCodes ?reqs calmWorld = (Inr [''TG-1'', ''TD-1'', ''TG-2''], t)"
    by (metis prod.collapse)
  have "[''TG-1'', ''TD-1'', ''TG-2''] ! 0 \<noteq> [''TG-1'', ''TD-1'', ''TG-2''] ! 2"
    by (rule codes_unique [OF run, of 0 2]) simp_all
  with run show ?thesis by blast
qed

lemma steady_nextCode [steady_intros]: "steady (nextCode et p)"
  unfolding nextCode_def by (auto split: list.split intro!: steady_intros)

end
