(* ===== verification/Relationships.thy ===== *)
theory Relationships
  imports Store
begin

text \<open>
  \<open>relationship_impl.go\<close>: the dispatcher behind \<open>CreateRelationship\<close>, \<open>DeleteRelationship\<close> and
  \<open>TraverseRelationships\<close>. A label is stored either as a foreign-key column on one endpoint's row
  or as a row of a join table. The abstract view is the set of edges of a label (\<open>relEdges\<close>); the
  three operations are shown to insert into it, remove from it and read it.
\<close>

section \<open>Where a label is stored\<close>

datatype vertex_table =
  VTask | VAgent | VProject | VTag | VTodo | VRun | VDeliverable | VCriteria

datatype fk_column =
    TaskAssignedTo
  | TaskParentTaskID
  | TodoAgentID
  | TodoParentTaskID
  | TaskWorkflowRunID
  | TodoWorkflowRunID
  | DeliverableParentID
  | CriteriaParentID

datatype join_table = JBlocker | JDependency | JMembership | JTagging

datatype rel_kind = FieldOnFrom fk_column | FieldOnTo fk_column | JoinTable join_table

record rel_spec =
  rs_kind :: rel_kind
  rs_fromNotFound :: err
  rs_toNotFound :: err

fun relSpecs :: "rel_label \<Rightarrow> rel_spec option" where
  "relSpecs RelLabelAssignedTo = Some \<lparr>rs_kind = FieldOnFrom TaskAssignedTo,
     rs_fromNotFound = ErrTaskNotFound, rs_toNotFound = ErrAgentNotFound\<rparr>"
| "relSpecs RelLabelSubtaskOf = Some \<lparr>rs_kind = FieldOnFrom TaskParentTaskID,
     rs_fromNotFound = ErrTaskNotFound, rs_toNotFound = ErrTaskNotFound\<rparr>"
| "relSpecs RelLabelTodoAssignedTo = Some \<lparr>rs_kind = FieldOnFrom TodoAgentID,
     rs_fromNotFound = ErrTaskTodoNotFound, rs_toNotFound = ErrAgentNotFound\<rparr>"
| "relSpecs RelLabelHasTodo = Some \<lparr>rs_kind = FieldOnTo TodoParentTaskID,
     rs_fromNotFound = ErrTaskNotFound, rs_toNotFound = ErrTaskTodoNotFound\<rparr>"
| "relSpecs RelLabelStartedTask = Some \<lparr>rs_kind = FieldOnTo TaskWorkflowRunID,
     rs_fromNotFound = ErrWorkflowRunNotFound, rs_toNotFound = ErrTaskNotFound\<rparr>"
| "relSpecs RelLabelStartedTodo = Some \<lparr>rs_kind = FieldOnTo TodoWorkflowRunID,
     rs_fromNotFound = ErrWorkflowRunNotFound, rs_toNotFound = ErrTaskTodoNotFound\<rparr>"
| "relSpecs RelLabelHasDeliverable = Some \<lparr>rs_kind = FieldOnTo DeliverableParentID,
     rs_fromNotFound = ErrTaskNotFound, rs_toNotFound = ErrDeliverableNotFound\<rparr>"
| "relSpecs RelLabelHasAcceptanceCriteria = Some \<lparr>rs_kind = FieldOnTo CriteriaParentID,
     rs_fromNotFound = ErrTaskNotFound, rs_toNotFound = ErrAcceptanceCriteriaNotFound\<rparr>"
| "relSpecs RelLabelBlocks = Some \<lparr>rs_kind = JoinTable JBlocker,
     rs_fromNotFound = ErrTaskNotFound, rs_toNotFound = ErrTaskNotFound\<rparr>"
| "relSpecs RelLabelDependsOn = Some \<lparr>rs_kind = JoinTable JDependency,
     rs_fromNotFound = ErrTaskNotFound, rs_toNotFound = ErrTaskNotFound\<rparr>"
| "relSpecs RelLabelMemberOf = Some \<lparr>rs_kind = JoinTable JMembership,
     rs_fromNotFound = ErrTaskNotFound, rs_toNotFound = ErrProjectNotFound\<rparr>"
| "relSpecs RelLabelHasTag = Some \<lparr>rs_kind = JoinTable JTagging,
     rs_fromNotFound = ErrTaskNotFound, rs_toNotFound = ErrTagNotFound\<rparr>"
| "relSpecs _ = None"

fun fkTable :: "fk_column \<Rightarrow> vertex_table" where
  "fkTable TaskAssignedTo = VTask"
| "fkTable TaskParentTaskID = VTask"
| "fkTable TodoAgentID = VTodo"
| "fkTable TodoParentTaskID = VTodo"
| "fkTable TaskWorkflowRunID = VTask"
| "fkTable TodoWorkflowRunID = VTodo"
| "fkTable DeliverableParentID = VDeliverable"
| "fkTable CriteriaParentID = VCriteria"

fun idsOf :: "vertex_table \<Rightarrow> db \<Rightarrow> string list" where
  "idsOf VTask d = map t_ID (d_tasks d)"
| "idsOf VAgent d = map ag_ID (d_agents d)"
| "idsOf VProject d = map p_ID (d_projects d)"
| "idsOf VTag d = map tg_ID (d_tags d)"
| "idsOf VTodo d = map td_ID (d_todos d)"
| "idsOf VRun d = map r_ID (d_runs d)"
| "idsOf VDeliverable d = map dl_ID (d_deliverables d)"
| "idsOf VCriteria d = map ac_ID (d_criteria d)"

text \<open>Reading and writing one column of the row with a given id, and the ids holding a value.\<close>

definition readCol :: "'r tbl \<Rightarrow> ('r \<Rightarrow> string) \<Rightarrow> ('r \<Rightarrow> string) \<Rightarrow> string \<Rightarrow> db \<Rightarrow> string option" where
  "readCol T key col i d = map_option col (List.find (\<lambda>r. key r = i) (fst T d))"

definition writeCol ::
  "'r tbl \<Rightarrow> ('r \<Rightarrow> string) \<Rightarrow> ((string \<Rightarrow> string) \<Rightarrow> 'r \<Rightarrow> 'r) \<Rightarrow> string \<Rightarrow> string \<Rightarrow> db \<Rightarrow> db" where
  "writeCol T key cupd i v d = snd T (updWhere (\<lambda>r. key r = i) (cupd (\<lambda>_. v))) d"

definition ownersCol :: "'r tbl \<Rightarrow> ('r \<Rightarrow> string) \<Rightarrow> ('r \<Rightarrow> string) \<Rightarrow> string \<Rightarrow> db \<Rightarrow> string list" where
  "ownersCol T key col v d = map key (filter (\<lambda>r. col r = v) (fst T d))"

fun readFK :: "fk_column \<Rightarrow> string \<Rightarrow> db \<Rightarrow> string option" where
  "readFK TaskAssignedTo = readCol tasksT t_ID t_AssignedTo"
| "readFK TaskParentTaskID = readCol tasksT t_ID t_ParentTaskID"
| "readFK TodoAgentID = readCol todosT td_ID td_AgentID"
| "readFK TodoParentTaskID = readCol todosT td_ID td_ParentTaskID"
| "readFK TaskWorkflowRunID = readCol tasksT t_ID t_WorkflowRunID"
| "readFK TodoWorkflowRunID = readCol todosT td_ID td_WorkflowRunID"
| "readFK DeliverableParentID = readCol deliverablesT dl_ID dl_ParentID"
| "readFK CriteriaParentID = readCol criteriaT ac_ID ac_ParentID"

fun writeFK :: "fk_column \<Rightarrow> string \<Rightarrow> string \<Rightarrow> db \<Rightarrow> db" where
  "writeFK TaskAssignedTo = writeCol tasksT t_ID t_AssignedTo_update"
| "writeFK TaskParentTaskID = writeCol tasksT t_ID t_ParentTaskID_update"
| "writeFK TodoAgentID = writeCol todosT td_ID td_AgentID_update"
| "writeFK TodoParentTaskID = writeCol todosT td_ID td_ParentTaskID_update"
| "writeFK TaskWorkflowRunID = writeCol tasksT t_ID t_WorkflowRunID_update"
| "writeFK TodoWorkflowRunID = writeCol todosT td_ID td_WorkflowRunID_update"
| "writeFK DeliverableParentID = writeCol deliverablesT dl_ID dl_ParentID_update"
| "writeFK CriteriaParentID = writeCol criteriaT ac_ID ac_ParentID_update"

fun fkOwners :: "fk_column \<Rightarrow> string \<Rightarrow> db \<Rightarrow> string list" where
  "fkOwners TaskAssignedTo = ownersCol tasksT t_ID t_AssignedTo"
| "fkOwners TaskParentTaskID = ownersCol tasksT t_ID t_ParentTaskID"
| "fkOwners TodoAgentID = ownersCol todosT td_ID td_AgentID"
| "fkOwners TodoParentTaskID = ownersCol todosT td_ID td_ParentTaskID"
| "fkOwners TaskWorkflowRunID = ownersCol tasksT t_ID t_WorkflowRunID"
| "fkOwners TodoWorkflowRunID = ownersCol todosT td_ID td_WorkflowRunID"
| "fkOwners DeliverableParentID = ownersCol deliverablesT dl_ID dl_ParentID"
| "fkOwners CriteriaParentID = ownersCol criteriaT ac_ID ac_ParentID"

fun joinPairs :: "join_table \<Rightarrow> db \<Rightarrow> (string \<times> string) list" where
  "joinPairs JBlocker d = map (\<lambda>e. (e_FromTaskID e, e_ToTaskID e)) (d_blockers d)"
| "joinPairs JDependency d = map (\<lambda>e. (e_FromTaskID e, e_ToTaskID e)) (d_dependencies d)"
| "joinPairs JMembership d = map (\<lambda>e. (m_TaskID e, m_ProjectID e)) (d_memberships d)"
| "joinPairs JTagging d = map (\<lambda>e. (tn_TaskID e, tn_TagID e)) (d_taggings d)"

fun addJoin :: "join_table \<Rightarrow> string \<Rightarrow> string \<Rightarrow> string \<Rightarrow> db \<Rightarrow> db" where
  "addJoin JBlocker a b now d = d\<lparr>d_blockers := d_blockers d @
     [\<lparr>e_FromTaskID = a, e_ToTaskID = b, e_CreatedAt = now, e_Reason = []\<rparr>]\<rparr>"
| "addJoin JDependency a b now d = d\<lparr>d_dependencies := d_dependencies d @
     [\<lparr>e_FromTaskID = a, e_ToTaskID = b, e_CreatedAt = now, e_Reason = []\<rparr>]\<rparr>"
| "addJoin JMembership a b now d = d\<lparr>d_memberships := d_memberships d @
     [\<lparr>m_TaskID = a, m_ProjectID = b, m_AddedAt = now\<rparr>]\<rparr>"
| "addJoin JTagging a b now d = d\<lparr>d_taggings := d_taggings d @
     [\<lparr>tn_TaskID = a, tn_TagID = b, tn_TaggedAt = now\<rparr>]\<rparr>"

fun delJoin :: "join_table \<Rightarrow> string \<Rightarrow> string \<Rightarrow> db \<Rightarrow> db" where
  "delJoin JBlocker a b d =
     d\<lparr>d_blockers := delWhere (\<lambda>e. e_FromTaskID e = a \<and> e_ToTaskID e = b) (d_blockers d)\<rparr>"
| "delJoin JDependency a b d =
     d\<lparr>d_dependencies := delWhere (\<lambda>e. e_FromTaskID e = a \<and> e_ToTaskID e = b) (d_dependencies d)\<rparr>"
| "delJoin JMembership a b d =
     d\<lparr>d_memberships := delWhere (\<lambda>e. m_TaskID e = a \<and> m_ProjectID e = b) (d_memberships d)\<rparr>"
| "delJoin JTagging a b d =
     d\<lparr>d_taggings := delWhere (\<lambda>e. tn_TaskID e = a \<and> tn_TagID e = b) (d_taggings d)\<rparr>"

section \<open>Endpoint checks\<close>

definition rowExists :: "vertex_table \<Rightarrow> string \<Rightarrow> bool tm" where
  "rowExists T i = sql (\<lambda>d. (Inr (i \<in> set (idsOf T d)), d))"

definition vertexTables :: "vertex_table list" where
  "vertexTables = [VTask, VAgent, VProject, VTag, VTodo, VRun, VDeliverable, VCriteria]"

fun checkOthers :: "vertex_table list \<Rightarrow> vertex_table \<Rightarrow> string \<Rightarrow> err \<Rightarrow> unit tm" where
  "checkOthers [] want i notFound = fail notFound"
| "checkOthers (T # Ts) want i notFound =
     (if T = want then checkOthers Ts want i notFound
      else bnd (rowExists T i) (\<lambda>ok.
        if ok then fail ErrInvalidRelationship else checkOthers Ts want i notFound))"

definition checkEndpoint :: "string \<Rightarrow> vertex_table \<Rightarrow> err \<Rightarrow> unit tm" where
  "checkEndpoint i want notFound =
     bnd (rowExists want i) (\<lambda>ok.
       if ok then ret () else checkOthers vertexTables want i notFound)"

fun joinFromEndpointTable :: "rel_label \<Rightarrow> vertex_table" where
  "joinFromEndpointTable RelLabelTodoAssignedTo = VTodo"
| "joinFromEndpointTable RelLabelStartedTask = VRun"
| "joinFromEndpointTable RelLabelStartedTodo = VRun"
| "joinFromEndpointTable _ = VTask"

fun joinToEndpointTable :: "rel_label \<Rightarrow> vertex_table" where
  "joinToEndpointTable RelLabelAssignedTo = VAgent"
| "joinToEndpointTable RelLabelTodoAssignedTo = VAgent"
| "joinToEndpointTable RelLabelMemberOf = VProject"
| "joinToEndpointTable RelLabelHasTag = VTag"
| "joinToEndpointTable RelLabelHasTodo = VTodo"
| "joinToEndpointTable RelLabelStartedTodo = VTodo"
| "joinToEndpointTable RelLabelHasDeliverable = VDeliverable"
| "joinToEndpointTable RelLabelHasAcceptanceCriteria = VCriteria"
| "joinToEndpointTable _ = VTask"

text \<open>The arrow of an edge id is U+2192, three bytes in UTF-8.\<close>

definition arrow :: string where
  "arrow = [CHR 0xE2, CHR 0x86, CHR 0x92]"

definition syntheticEdgeID :: "string \<Rightarrow> rel_label \<Rightarrow> string \<Rightarrow> string" where
  "syntheticEdgeID fromID label toID = fromID @ arrow @ labelText label @ arrow @ toID"

section \<open>The three operations\<close>

definition createdEdge :: "relationship \<Rightarrow> string \<Rightarrow> relationship tm" where
  "createdEdge rel now =
     seq (publish (RelationshipCreated (rel_FromID rel) (rel_ToID rel) (rel_Label rel)))
       (ret (rel\<lparr>rel_CreatedAt := now,
          rel_ID := syntheticEdgeID (rel_FromID rel) (rel_Label rel) (rel_ToID rel)\<rparr>))"

definition existingEdge :: "relationship \<Rightarrow> relationship tm" where
  "existingEdge rel =
     ret (rel\<lparr>rel_ID := syntheticEdgeID (rel_FromID rel) (rel_Label rel) (rel_ToID rel)\<rparr>)"

definition createFK ::
  "relationship \<Rightarrow> fk_column \<Rightarrow> string \<Rightarrow> err \<Rightarrow> vertex_table \<Rightarrow> string \<Rightarrow> err \<Rightarrow> relationship tm" where
  "createFK rel c ownerID ownerNotFound otherTable otherID otherNotFound =
     seq (checkEndpoint ownerID (fkTable c) ownerNotFound)
     (seq (checkEndpoint otherID otherTable otherNotFound)
     (bnd (sql (\<lambda>d. (case readFK c ownerID d of None \<Rightarrow> Inl ErrDatabase | Some v \<Rightarrow> Inr v, d))) (\<lambda>current.
      if current \<noteq> otherID then
        bnd nowStr (\<lambda>now.
        seq (sql (\<lambda>d. (Inr (), writeFK c ownerID otherID d)))
          (createdEdge rel now))
      else existingEdge rel)))"

definition createJoin :: "relationship \<Rightarrow> rel_spec \<Rightarrow> join_table \<Rightarrow> relationship tm" where
  "createJoin rel spec j =
     seq (checkEndpoint (rel_FromID rel) (joinFromEndpointTable (rel_Label rel)) (rs_fromNotFound spec))
     (seq (checkEndpoint (rel_ToID rel) (joinToEndpointTable (rel_Label rel)) (rs_toNotFound spec))
     (bnd (sql (\<lambda>d. (Inr ((rel_FromID rel, rel_ToID rel) \<in> set (joinPairs j d)), d))) (\<lambda>present.
      if \<not> present then
        bnd nowStr (\<lambda>now.
        seq (sql (\<lambda>d. if (rel_FromID rel, rel_ToID rel) \<in> set (joinPairs j d) then (Inl ErrUniqueKey, d)
                      else (Inr (), addJoin j (rel_FromID rel) (rel_ToID rel) now d)))
          (createdEdge rel now))
      else existingEdge rel)))"

definition CreateRelationship :: "relationship \<Rightarrow> relationship tm" where
  "CreateRelationship rel =
     (case relSpecs (rel_Label rel) of
        None \<Rightarrow> fail ErrInvalidRelationship
      | Some spec \<Rightarrow>
          if rel_FromID rel = [] \<or> rel_ToID rel = [] then fail ErrInvalidRelationship
          else (case rs_kind spec of
            FieldOnFrom c \<Rightarrow>
              createFK rel c (rel_FromID rel) (rs_fromNotFound spec)
                (joinToEndpointTable (rel_Label rel)) (rel_ToID rel) (rs_toNotFound spec)
          | FieldOnTo c \<Rightarrow>
              createFK rel c (rel_ToID rel) (rs_toNotFound spec)
                (joinFromEndpointTable (rel_Label rel)) (rel_FromID rel) (rs_fromNotFound spec)
          | JoinTable j \<Rightarrow> createJoin rel spec j))"

definition deleteFK :: "fk_column \<Rightarrow> string \<Rightarrow> string \<Rightarrow> unit tm" where
  "deleteFK c ownerID otherID =
     bnd (sql (\<lambda>d. (case readFK c ownerID d of None \<Rightarrow> Inl ErrRelationshipNotFound | Some v \<Rightarrow> Inr v, d))) (\<lambda>current.
     if current \<noteq> otherID then fail ErrRelationshipNotFound
     else sql (\<lambda>d. (Inr (), writeFK c ownerID [] d)))"

definition DeleteRelationship :: "string \<Rightarrow> string \<Rightarrow> rel_label \<Rightarrow> unit tm" where
  "DeleteRelationship fromID toID label =
     (case relSpecs label of
        None \<Rightarrow> fail ErrRelationshipNotFound
      | Some spec \<Rightarrow> (case rs_kind spec of
            FieldOnFrom c \<Rightarrow> deleteFK c fromID toID
          | FieldOnTo c \<Rightarrow> deleteFK c toID fromID
          | JoinTable j \<Rightarrow>
              bnd (sql (\<lambda>d. (Inr ((fromID, toID) \<in> set (joinPairs j d)), delJoin j fromID toID d))) (\<lambda>deleted.
              if deleted then ret () else fail ErrRelationshipNotFound)))"

definition edgeOf :: "rel_label \<Rightarrow> string \<Rightarrow> string \<Rightarrow> relationship" where
  "edgeOf label a b = \<lparr>rel_ID = syntheticEdgeID a label b, rel_Label = label, rel_FromID = a,
     rel_ToID = b, rel_CreatedAt = []\<rparr>"

definition traverseFK :: "fk_column \<Rightarrow> string \<Rightarrow> direction \<Rightarrow> rel_label \<Rightarrow> bool \<Rightarrow> relationship list tm" where
  "traverseFK c vertexID dir label fkOnFrom =
     (if (dir = DirectionOutbound) = fkOnFrom then
        bnd (sql (\<lambda>d. (Inr (readFK c vertexID d), d))) (\<lambda>v.
        ret (case v of
            None \<Rightarrow> []
          | Some value \<Rightarrow>
              if value = [] then []
              else if fkOnFrom then [edgeOf label vertexID value] else [edgeOf label value vertexID]))
      else
        bnd (sql (\<lambda>d. (Inr (fkOwners c vertexID d), d))) (\<lambda>ids.
        ret (map (\<lambda>i. if fkOnFrom then edgeOf label i vertexID else edgeOf label vertexID i) ids)))"

definition traverseJoin :: "join_table \<Rightarrow> string \<Rightarrow> direction \<Rightarrow> rel_label \<Rightarrow> relationship list tm" where
  "traverseJoin j vertexID dir label =
     bnd (sql (\<lambda>d. (Inr (if dir = DirectionInbound
         then map fst (filter (\<lambda>p. snd p = vertexID) (joinPairs j d))
         else map snd (filter (\<lambda>p. fst p = vertexID) (joinPairs j d))), d))) (\<lambda>others.
     ret (map (\<lambda>other. if dir = DirectionInbound then edgeOf label other vertexID
                       else edgeOf label vertexID other) others))"

definition TraverseRelationships :: "string \<Rightarrow> rel_label \<Rightarrow> direction \<Rightarrow> relationship list tm" where
  "TraverseRelationships vertexID label dir =
     (case relSpecs label of
        None \<Rightarrow> ret []
      | Some spec \<Rightarrow> (case rs_kind spec of
            FieldOnFrom c \<Rightarrow> traverseFK c vertexID dir label True
          | FieldOnTo c \<Rightarrow> traverseFK c vertexID dir label False
          | JoinTable j \<Rightarrow> traverseJoin j vertexID dir label))"

section \<open>Columns\<close>

text \<open>
  What the dispatcher relies on of a foreign-key column: writing it changes neither the key nor any
  other row. Proved once, and interpreted for each of the eight columns.
\<close>

locale column = table get upd for get :: "db \<Rightarrow> 'r list" and upd +
  fixes key :: "'r \<Rightarrow> string" and col :: "'r \<Rightarrow> string" and cupd :: "(string \<Rightarrow> string) \<Rightarrow> 'r \<Rightarrow> 'r"
  assumes key_cupd: "key (cupd f r) = key r" and col_cupd: "col (cupd f r) = f (col r)"
begin

lemma read_write:
  "readCol (get, upd) key col j (writeCol (get, upd) key cupd i v d) =
     (if i = j \<and> readCol (get, upd) key col i d \<noteq> None then Some v
      else readCol (get, upd) key col j d)"
proof -
  have "List.find (\<lambda>r. key r = j) (updWhere (\<lambda>r. key r = i) (cupd (\<lambda>_. v)) (get d)) =
      map_option (\<lambda>r. if key r = i then cupd (\<lambda>_. v) r else r) (List.find (\<lambda>r. key r = j) (get d))"
    by (rule find_updWhere) (simp add: key_cupd)
  then show ?thesis
    by (cases "List.find (\<lambda>r. key r = j) (get d)")
      (auto simp: readCol_def writeCol_def get_upd col_cupd dest: find_Some_in)
qed

lemma read_None: "readCol (get, upd) key col i d = None \<longleftrightarrow> i \<notin> set (map key (get d))"
  by (auto simp: readCol_def find_None_iff)

lemma owners_read:
  assumes "distinct (map key (get d))"
  shows "i \<in> set (ownersCol (get, upd) key col v d) \<longleftrightarrow> readCol (get, upd) key col i d = Some v"
proof
  assume "i \<in> set (ownersCol (get, upd) key col v d)"
  then obtain r where r: "r \<in> set (get d)" "col r = v" "key r = i"
    by (auto simp: ownersCol_def)
  then have "List.find (\<lambda>r. key r = i) (get d) = Some r"
    using find_distinct [OF assms r(1), of "\<lambda>r. key r = i"] by simp
  with r show "readCol (get, upd) key col i d = Some v" by (simp add: readCol_def)
next
  assume "readCol (get, upd) key col i d = Some v"
  then show "i \<in> set (ownersCol (get, upd) key col v d)"
    by (auto simp: readCol_def ownersCol_def image_iff dest!: find_Some_in)
qed

end

interpretation assignedTo: column d_tasks d_tasks_update t_ID t_AssignedTo t_AssignedTo_update
  by unfold_locales (simp_all add: db_upd_id)
interpretation parentTask: column d_tasks d_tasks_update t_ID t_ParentTaskID t_ParentTaskID_update
  by unfold_locales (simp_all add: db_upd_id)
interpretation todoAgent: column d_todos d_todos_update td_ID td_AgentID td_AgentID_update
  by unfold_locales (simp_all add: db_upd_id)
interpretation todoParent: column d_todos d_todos_update td_ID td_ParentTaskID td_ParentTaskID_update
  by unfold_locales (simp_all add: db_upd_id)
interpretation taskRun: column d_tasks d_tasks_update t_ID t_WorkflowRunID t_WorkflowRunID_update
  by unfold_locales (simp_all add: db_upd_id)
interpretation todoRun: column d_todos d_todos_update td_ID td_WorkflowRunID td_WorkflowRunID_update
  by unfold_locales (simp_all add: db_upd_id)
interpretation deliverableParent: column d_deliverables d_deliverables_update dl_ID dl_ParentID dl_ParentID_update
  by unfold_locales (simp_all add: db_upd_id)
interpretation criteriaParent: column d_criteria d_criteria_update ac_ID ac_ParentID ac_ParentID_update
  by unfold_locales (simp_all add: db_upd_id)

lemma readFK_writeFK:
  "readFK c j (writeFK c i v d) = (if i = j \<and> readFK c i d \<noteq> None then Some v else readFK c j d)"
  by (cases c)
    (simp_all only: readFK.simps writeFK.simps assignedTo.read_write parentTask.read_write
      todoAgent.read_write todoParent.read_write taskRun.read_write todoRun.read_write
      deliverableParent.read_write criteriaParent.read_write)

lemma readFK_None: "readFK c i d = None \<longleftrightarrow> i \<notin> set (idsOf (fkTable c) d)"
  by (cases c)
    (simp_all only: readFK.simps fkTable.simps idsOf.simps assignedTo.read_None parentTask.read_None
      todoAgent.read_None todoParent.read_None taskRun.read_None todoRun.read_None
      deliverableParent.read_None criteriaParent.read_None)

lemma fkOwners_readFK:
  "distinct (idsOf (fkTable c) d) \<Longrightarrow> i \<in> set (fkOwners c v d) \<longleftrightarrow> readFK c i d = Some v"
  by (cases c)
    (simp_all only: readFK.simps fkTable.simps idsOf.simps fkOwners.simps assignedTo.owners_read
      parentTask.owners_read todoAgent.owners_read todoParent.owners_read taskRun.owners_read
      todoRun.owners_read deliverableParent.owners_read criteriaParent.owners_read)

lemma readCol_writeCol_frame:
  assumes "\<And>f d. get (upd f d) = f (get d)" and "\<And>f r. key (cupd f r) = key r"
    and "\<And>f r. col (cupd f r) = col r"
  shows "readCol (get, u') key col j (writeCol (get, upd) key cupd i v d) = readCol (get, u') key col j d"
proof -
  have "List.find (\<lambda>r. key r = j) (updWhere (\<lambda>r. key r = i) (cupd (\<lambda>_. v)) (get d)) =
      map_option (\<lambda>r. if key r = i then cupd (\<lambda>_. v) r else r) (List.find (\<lambda>r. key r = j) (get d))"
    by (rule find_updWhere) (simp add: assms)
  then show ?thesis
    by (cases "List.find (\<lambda>r. key r = j) (get d)") (auto simp: readCol_def writeCol_def assms)
qed

lemma readFK_writeFK_other:
  assumes "c \<noteq> c'"
  shows "readFK c' j (writeFK c i v d) = readFK c' j d"
  using assms
  by (cases c; cases c')
    (simp_all add: readCol_writeCol_frame, simp_all add: readCol_def writeCol_def)

lemma joinPairs_writeFK [simp]: "joinPairs j (writeFK c i v d) = joinPairs j d"
  by (cases c; cases j) (simp_all add: writeCol_def)

lemma joinPairs_addJoin:
  "joinPairs j' (addJoin j a b now d) = (if j' = j then joinPairs j d @ [(a, b)] else joinPairs j' d)"
  by (cases j; cases j') simp_all

lemma joinPairs_delJoin:
  "joinPairs j' (delJoin j a b d) = (if j' = j then filter (\<lambda>p. p \<noteq> (a, b)) (joinPairs j d) else joinPairs j' d)"
  by (cases j; cases j') (simp_all add: delWhere_def filter_map o_def)

lemma readFK_addJoin [simp]: "readFK c i (addJoin j a b now d) = readFK c i d"
  by (cases c; cases j) (simp_all add: readCol_def)

lemma readFK_delJoin [simp]: "readFK c i (delJoin j a b d) = readFK c i d"
  by (cases c; cases j) (simp_all add: readCol_def)

section \<open>The abstract view\<close>

definition relEdges :: "rel_label \<Rightarrow> db \<Rightarrow> (string \<times> string) set" where
  "relEdges label d =
     (case relSpecs label of
        None \<Rightarrow> {}
      | Some spec \<Rightarrow> (case rs_kind spec of
            FieldOnFrom c \<Rightarrow> {(a, b). readFK c a d = Some b \<and> b \<noteq> []}
          | FieldOnTo c \<Rightarrow> {(a, b). readFK c b d = Some a \<and> a \<noteq> []}
          | JoinTable j \<Rightarrow> set (joinPairs j d)))"

text \<open>
  Adding an edge: a column holds one value, so a label stored on its source row replaces the
  source's edge and one stored on its target row the target's; a join table just gains the pair.
\<close>

definition linkEdge :: "rel_label \<Rightarrow> string \<Rightarrow> string \<Rightarrow> (string \<times> string) set \<Rightarrow> (string \<times> string) set" where
  "linkEdge label a b E =
     insert (a, b)
       (case relSpecs label of
          None \<Rightarrow> E
        | Some spec \<Rightarrow> (case rs_kind spec of
              FieldOnFrom c \<Rightarrow> {p \<in> E. fst p \<noteq> a}
            | FieldOnTo c \<Rightarrow> {p \<in> E. snd p \<noteq> b}
            | JoinTable j \<Rightarrow> E))"

definition distinctIds :: "db \<Rightarrow> bool" where
  "distinctIds d \<longleftrightarrow>
     distinct (idsOf VTask d) \<and> distinct (idsOf VTodo d) \<and>
     distinct (idsOf VDeliverable d) \<and> distinct (idsOf VCriteria d)"

lemma distinctIds_fk: "distinctIds d \<Longrightarrow> distinct (idsOf (fkTable c) d)"
  by (cases c) (simp_all add: distinctIds_def)

text \<open>Two labels never share a column or a join table.\<close>

lemma relSpecs_kind_unique:
  "relSpecs l = Some sp \<Longrightarrow> relSpecs l' = Some sp' \<Longrightarrow> l \<noteq> l' \<Longrightarrow>
   rs_kind sp \<noteq> rs_kind sp' \<and> (\<forall>c. \<not> (rs_kind sp = FieldOnFrom c \<and> rs_kind sp' = FieldOnTo c)) \<and>
   (\<forall>c. \<not> (rs_kind sp = FieldOnTo c \<and> rs_kind sp' = FieldOnFrom c))"
  by (cases l; cases l') auto

subsection \<open>Reading does not write\<close>

lemma keeps_rowExists [keeps_intros]: "keeps I (rowExists T i)"
  by (simp add: rowExists_def keeps_sql)

lemma keeps_checkOthers [keeps_intros]: "keeps I (checkOthers Ts want i e)"
  by (induction Ts) (simp_all add: keeps_intros)

lemma keeps_checkEndpoint [keeps_intros]: "keeps I (checkEndpoint i want e)"
  unfolding checkEndpoint_def by (intro keeps_intros)

lemma keeps_createdEdge [keeps_intros]: "keeps I (createdEdge rel now)"
  unfolding createdEdge_def by (intro keeps_intros)

lemma keeps_existingEdge [keeps_intros]: "keeps I (existingEdge rel)"
  unfolding existingEdge_def by (intro keeps_intros)

lemma keeps_TraverseRelationships [keeps_intros]: "keeps I (TraverseRelationships v l dir)"
  unfolding TraverseRelationships_def traverseFK_def traverseJoin_def
  by (auto split: option.split rel_kind.split intro!: keeps_intros keeps_sql)

text \<open>What a create and a delete may do to an invariant: the one write of their label.\<close>

lemma keeps_CreateRelationship:
  assumes "\<And>c i v d sp. relSpecs (rel_Label rel) = Some sp \<Longrightarrow>
      rs_kind sp = FieldOnFrom c \<or> rs_kind sp = FieldOnTo c \<Longrightarrow> I d \<Longrightarrow> I (writeFK c i v d)"
    and "\<And>j a b now d sp. relSpecs (rel_Label rel) = Some sp \<Longrightarrow> rs_kind sp = JoinTable j \<Longrightarrow>
      I d \<Longrightarrow> I (addJoin j a b now d)"
  shows "keeps I (CreateRelationship rel)"
  unfolding CreateRelationship_def createFK_def createJoin_def
  by (auto split: option.split rel_kind.split intro!: keeps_intros keeps_sql assms)

lemma keeps_DeleteRelationship:
  assumes "\<And>c i d sp. relSpecs l = Some sp \<Longrightarrow>
      rs_kind sp = FieldOnFrom c \<or> rs_kind sp = FieldOnTo c \<Longrightarrow> I d \<Longrightarrow> I (writeFK c i [] d)"
    and "\<And>j d sp. relSpecs l = Some sp \<Longrightarrow> rs_kind sp = JoinTable j \<Longrightarrow> I d \<Longrightarrow> I (delJoin j a b d)"
  shows "keeps I (DeleteRelationship a b l)"
  unfolding DeleteRelationship_def deleteFK_def
  by (auto split: option.split rel_kind.split intro!: keeps_intros keeps_sql assms)

lemma checkEndpoint_db: "checkEndpoint i want e s = (r, t) \<Longrightarrow> w_db t = w_db s"
  by (rule keeps_reads) (rule keeps_checkEndpoint)

lemma createdEdge_db: "createdEdge rel now s = (r, t) \<Longrightarrow> w_db t = w_db s"
  by (rule keeps_reads) (rule keeps_createdEdge)

lemma existingEdge_db: "existingEdge rel s = (r, t) \<Longrightarrow> w_db t = w_db s"
  by (rule keeps_reads) (rule keeps_existingEdge)

subsection \<open>The operations refine it\<close>

lemma createFK_Inr:
  assumes "createFK rel c ownerID e1 T otherID e2 s = (Inr rel', t)"
  shows "readFK c ownerID (w_db s) \<noteq> None \<and>
    w_db t = (if readFK c ownerID (w_db s) = Some otherID then w_db s
              else writeFK c ownerID otherID (w_db s))"
  using assms unfolding createFK_def
  by (auto simp: succ split: if_splits option.splits
      dest!: checkEndpoint_db createdEdge_db existingEdge_db)

lemma createJoin_Inr:
  assumes "createJoin rel spec j s = (Inr rel', t)"
  shows "set (joinPairs j (w_db t)) = insert (rel_FromID rel, rel_ToID rel) (set (joinPairs j (w_db s))) \<and>
    (\<forall>j'. j' \<noteq> j \<longrightarrow> joinPairs j' (w_db t) = joinPairs j' (w_db s)) \<and>
    (\<forall>c i. readFK c i (w_db t) = readFK c i (w_db s))"
  using assms unfolding createJoin_def
  by (auto simp: succ joinPairs_addJoin split: if_splits
      dest!: checkEndpoint_db createdEdge_db existingEdge_db)

lemma relEdges_writeFK_other:
  assumes "\<And>sp. relSpecs l = Some sp \<Longrightarrow> rs_kind sp \<noteq> FieldOnFrom c \<and> rs_kind sp \<noteq> FieldOnTo c"
  shows "relEdges l (writeFK c i v d) = relEdges l d"
proof (cases "relSpecs l")
  case (Some sp)
  with assms have "rs_kind sp \<noteq> FieldOnFrom c" and "rs_kind sp \<noteq> FieldOnTo c" by auto
  with Some show ?thesis
    by (cases "rs_kind sp") (auto simp: relEdges_def readFK_writeFK_other)
qed (simp add: relEdges_def)

lemma CreateRelationship_edges:
  assumes run: "CreateRelationship rel s = (Inr rel', t)"
  shows "relEdges l (w_db t) =
    (if l = rel_Label rel then linkEdge l (rel_FromID rel) (rel_ToID rel) (relEdges l (w_db s))
     else relEdges l (w_db s))"
proof -
  let ?a = "rel_FromID rel" and ?b = "rel_ToID rel"
  obtain spec where sp: "relSpecs (rel_Label rel) = Some spec" and ne: "?a \<noteq> []" "?b \<noteq> []"
    using run by (auto simp: CreateRelationship_def succ split: option.splits if_splits)
  show ?thesis
  proof (cases "rs_kind spec")
    case (FieldOnFrom c)
    with run sp ne have *: "readFK c ?a (w_db s) \<noteq> None"
      "w_db t = (if readFK c ?a (w_db s) = Some ?b then w_db s else writeFK c ?a ?b (w_db s))"
      by (auto simp: CreateRelationship_def dest!: createFK_Inr)
    show ?thesis
    proof (cases "l = rel_Label rel")
      case True
      with * ne show ?thesis
        by (auto simp: relEdges_def linkEdge_def sp FieldOnFrom readFK_writeFK split: if_splits)
    next
      case False
      with relSpecs_kind_unique [of l _ "rel_Label rel" spec] sp FieldOnFrom
      have "relEdges l (writeFK c ?a ?b (w_db s)) = relEdges l (w_db s)"
        by (intro relEdges_writeFK_other) auto
      with *(2) False show ?thesis by simp
    qed
  next
    case (FieldOnTo c)
    with run sp ne have *: "readFK c ?b (w_db s) \<noteq> None"
      "w_db t = (if readFK c ?b (w_db s) = Some ?a then w_db s else writeFK c ?b ?a (w_db s))"
      by (auto simp: CreateRelationship_def dest!: createFK_Inr)
    show ?thesis
    proof (cases "l = rel_Label rel")
      case True
      with * ne show ?thesis
        by (auto simp: relEdges_def linkEdge_def sp FieldOnTo readFK_writeFK split: if_splits)
    next
      case False
      with relSpecs_kind_unique [of l _ "rel_Label rel" spec] sp FieldOnTo
      have "relEdges l (writeFK c ?b ?a (w_db s)) = relEdges l (w_db s)"
        by (intro relEdges_writeFK_other) auto
      with *(2) False show ?thesis by simp
    qed
  next
    case (JoinTable j)
    with run sp ne have "createJoin rel spec j s = (Inr rel', t)"
      by (simp add: CreateRelationship_def)
    note * = createJoin_Inr [OF this]
    show ?thesis
    proof (cases "l = rel_Label rel")
      case True
      with * show ?thesis by (simp add: relEdges_def linkEdge_def sp JoinTable)
    next
      case False
      have "relEdges l (w_db t) = relEdges l (w_db s)"
      proof (cases "relSpecs l")
        case (Some sp')
        with relSpecs_kind_unique [OF Some sp False] JoinTable have "rs_kind sp' \<noteq> JoinTable j" by simp
        with Some * show ?thesis by (cases "rs_kind sp'") (auto simp: relEdges_def)
      qed (simp add: relEdges_def)
      with False show ?thesis by simp
    qed
  qed
qed

lemma deleteFK_Inr:
  assumes "deleteFK c ownerID otherID s = (Inr (), t)"
  shows "readFK c ownerID (w_db s) = Some otherID \<and> w_db t = writeFK c ownerID [] (w_db s)"
  using assms by (auto simp: deleteFK_def succ split: if_splits option.splits)

lemma DeleteRelationship_edges:
  assumes run: "DeleteRelationship a b l s = (Inr (), t)" and ne: "a \<noteq> []" "b \<noteq> []"
  shows "(a, b) \<in> relEdges l (w_db s) \<and> relEdges l (w_db t) = relEdges l (w_db s) - {(a, b)}"
proof -
  obtain spec where sp: "relSpecs l = Some spec"
    using run by (auto simp: DeleteRelationship_def succ split: option.splits)
  show ?thesis
  proof (cases "rs_kind spec")
    case (FieldOnFrom c)
    with run sp have "readFK c a (w_db s) = Some b \<and> w_db t = writeFK c a [] (w_db s)"
      by (auto simp: DeleteRelationship_def dest!: deleteFK_Inr)
    with ne show ?thesis by (auto simp: relEdges_def sp FieldOnFrom readFK_writeFK split: if_splits)
  next
    case (FieldOnTo c)
    with run sp have "readFK c b (w_db s) = Some a \<and> w_db t = writeFK c b [] (w_db s)"
      by (auto simp: DeleteRelationship_def dest!: deleteFK_Inr)
    with ne show ?thesis by (auto simp: relEdges_def sp FieldOnTo readFK_writeFK split: if_splits)
  next
    case (JoinTable j)
    with run sp show ?thesis
      by (auto simp: DeleteRelationship_def relEdges_def succ joinPairs_delJoin split: if_splits)
  qed
qed

definition directionEdges :: "direction \<Rightarrow> string \<Rightarrow> (string \<times> string) set \<Rightarrow> (string \<times> string) set" where
  "directionEdges dir v E = (if dir = DirectionInbound then {p \<in> E. snd p = v} else {p \<in> E. fst p = v})"

lemma TraverseRelationships_edges:
  assumes run: "TraverseRelationships v l dir s = (Inr es, t)" and ids: "distinctIds (w_db s)"
    and dir: "dir = DirectionInbound \<or> dir = DirectionOutbound" and v: "v \<noteq> []"
  shows "(\<lambda>e. (rel_FromID e, rel_ToID e)) ` set es = directionEdges dir v (relEdges l (w_db s))"
proof (cases "relSpecs l")
  case None
  with run show ?thesis by (auto simp: TraverseRelationships_def relEdges_def directionEdges_def succ)
next
  case (Some spec)
  show ?thesis
  proof (cases "rs_kind spec")
    case (FieldOnFrom c)
    have own: "i \<in> set (fkOwners c v (w_db s)) \<longleftrightarrow> readFK c i (w_db s) = Some v" for i
      using ids by (simp add: fkOwners_readFK distinctIds_fk)
    from run Some FieldOnFrom dir v own show ?thesis
      by (auto simp: TraverseRelationships_def traverseFK_def relEdges_def directionEdges_def succ
          edgeOf_def image_iff split: if_splits option.splits)
  next
    case (FieldOnTo c)
    have own: "i \<in> set (fkOwners c v (w_db s)) \<longleftrightarrow> readFK c i (w_db s) = Some v" for i
      using ids by (simp add: fkOwners_readFK distinctIds_fk)
    from run Some FieldOnTo dir v own show ?thesis
      by (auto simp: TraverseRelationships_def traverseFK_def relEdges_def directionEdges_def succ
          edgeOf_def image_iff split: if_splits option.splits)
  next
    case (JoinTable j)
    from run Some JoinTable dir show ?thesis
      by (force simp: TraverseRelationships_def traverseJoin_def relEdges_def directionEdges_def succ
          edgeOf_def split: if_splits)
  qed
qed

section \<open>What the dispatcher never touches\<close>

lemma steady_checkOthers [steady_intros]: "steady (checkOthers Ts want i e)"
  by (induction Ts) (simp_all add: rowExists_def steady_intros)

lemma steady_checkEndpoint [steady_intros]: "steady (checkEndpoint i want e)"
  unfolding checkEndpoint_def rowExists_def by (intro steady_intros)

lemma steady_edges [steady_intros]: "steady (createdEdge rel now)" "steady (existingEdge rel)"
  unfolding createdEdge_def existingEdge_def by (intro steady_intros)+

lemma steady_CreateRelationship [steady_intros]: "steady (CreateRelationship rel)"
  unfolding CreateRelationship_def createFK_def createJoin_def
  by (auto split: option.split rel_kind.split intro!: steady_intros)

lemma steady_DeleteRelationship [steady_intros]: "steady (DeleteRelationship a b l)"
  unfolding DeleteRelationship_def deleteFK_def
  by (auto split: option.split rel_kind.split intro!: steady_intros)

lemma steady_TraverseRelationships [steady_intros]: "steady (TraverseRelationships v l dir)"
  unfolding TraverseRelationships_def traverseFK_def traverseJoin_def
  by (auto split: option.split rel_kind.split intro!: steady_intros)

section \<open>Properties\<close>

text \<open>Two tasks and an agent to link.\<close>

definition linkDb :: db where
  "linkDb = emptyDb\<lparr>d_tasks := [task0\<lparr>t_ID := ''a''\<rparr>, task0\<lparr>t_ID := ''b''\<rparr>],
     d_agents := [\<lparr>ag_ID = ''g'', ag_AgentID = ''g'', ag_DisplayName = [], ag_Capability = [],
       ag_RoleName = [], ag_CreatedAt = [], ag_UpdatedAt = []\<rparr>]\<rparr>"

definition linkOf :: "string \<Rightarrow> rel_label \<Rightarrow> string \<Rightarrow> relationship" where
  "linkOf a l b = \<lparr>rel_ID = [], rel_Label = l, rel_FromID = a, rel_ToID = b, rel_CreatedAt = []\<rparr>"

text \<open>
  C8. Creating an edge adds it to the edges of its label, replacing the edge the label's column held
  where a label is a column, and changes the edges of no other label.
\<close>

theorem CreateRelationship_links:
  assumes "CreateRelationship rel s = (Inr rel', t)"
  shows "relEdges l (w_db t) =
    (if l = rel_Label rel then linkEdge l (rel_FromID rel) (rel_ToID rel) (relEdges l (w_db s))
     else relEdges l (w_db s))"
  using assms by (rule CreateRelationship_edges)

theorem CreateRelationship_links_witness:
  "\<exists>rel' t. CreateRelationship (linkOf ''a'' RelLabelBlocks ''b'') (worldOf linkDb) = (Inr rel', t) \<and>
     (''a'', ''b'') \<in> relEdges RelLabelBlocks (w_db t)"
proof -
  have "succeeds (CreateRelationship (linkOf ''a'' RelLabelBlocks ''b'')) (worldOf linkDb)"
    by (simp add: succeeds_def CreateRelationship_def createJoin_def checkEndpoint_def rowExists_def
        createdEdge_def tm_basic sql_calm linkOf_def linkDb_def emptyDb_def task0_def)
  then obtain rel' t where run: "CreateRelationship (linkOf ''a'' RelLabelBlocks ''b'') (worldOf linkDb) = (Inr rel', t)"
    using succeedsD by blast
  with CreateRelationship_links [OF run, of RelLabelBlocks] show ?thesis
    by (simp add: linkOf_def linkEdge_def)
qed

text \<open>
  C9. Deleting an edge removes that edge and no other, of its label.
\<close>

theorem DeleteRelationship_unlinks:
  assumes "DeleteRelationship a b l s = (Inr (), t)" and "a \<noteq> []" and "b \<noteq> []"
  shows "(a, b) \<in> relEdges l (w_db s) \<and> relEdges l (w_db t) = relEdges l (w_db s) - {(a, b)}"
  using assms by (rule DeleteRelationship_edges)

definition linkedDb :: db where
  "linkedDb = linkDb\<lparr>d_tasks := [task0\<lparr>t_ID := ''a'', t_AssignedTo := ''g''\<rparr>, task0\<lparr>t_ID := ''b''\<rparr>]\<rparr>"

theorem DeleteRelationship_unlinks_witness:
  "\<exists>t. DeleteRelationship ''a'' ''g'' RelLabelAssignedTo (worldOf linkedDb) = (Inr (), t) \<and>
     (''a'', ''g'') \<notin> relEdges RelLabelAssignedTo (w_db t)"
proof -
  have "succeeds (DeleteRelationship ''a'' ''g'' RelLabelAssignedTo) (worldOf linkedDb)"
    by code_simp
  then obtain t where run: "DeleteRelationship ''a'' ''g'' RelLabelAssignedTo (worldOf linkedDb) = (Inr (), t)"
    using succeedsD by fastforce
  with DeleteRelationship_unlinks [OF run] show ?thesis by auto
qed

text \<open>
  C10. Traversing from a vertex, inbound or outbound, returns exactly the edges of the label that
  touch it on that side.
\<close>

theorem TraverseRelationships_exact:
  assumes "TraverseRelationships v l dir s = (Inr es, t)" and "distinctIds (w_db s)"
    and "dir = DirectionInbound \<or> dir = DirectionOutbound" and "v \<noteq> []"
  shows "(\<lambda>e. (rel_FromID e, rel_ToID e)) ` set es = directionEdges dir v (relEdges l (w_db s))"
  using assms by (rule TraverseRelationships_edges)

theorem TraverseRelationships_exact_witness:
  "\<exists>es t. TraverseRelationships ''g'' RelLabelAssignedTo DirectionInbound (worldOf linkedDb) = (Inr es, t) \<and>
     (\<lambda>e. (rel_FromID e, rel_ToID e)) ` set es = {(''a'', ''g'')}"
proof -
  have "succeeds (TraverseRelationships ''g'' RelLabelAssignedTo DirectionInbound) (worldOf linkedDb)"
    by code_simp
  then obtain es t where run: "TraverseRelationships ''g'' RelLabelAssignedTo DirectionInbound (worldOf linkedDb) = (Inr es, t)"
    using succeedsD by blast
  have "distinctIds linkedDb" by code_simp
  moreover have "relEdges RelLabelAssignedTo linkedDb = {(''a'', ''g'')}"
    by (auto simp: relEdges_def linkedDb_def linkDb_def readCol_def task0_def split: if_splits)
  ultimately show ?thesis
    using TraverseRelationships_exact [OF run] run by (auto simp: directionEdges_def)
qed

text \<open>
  A direction that is neither inbound nor outbound reads the inbound edges of a label stored in
  a column, and the outbound edges of a label stored in a join table.
\<close>

lemma TraverseRelationships_other_direction:
  "TraverseRelationships v l (DirectionOther x) =
     TraverseRelationships v l
       (case relSpecs l of
          Some spec \<Rightarrow> (case rs_kind spec of JoinTable j \<Rightarrow> DirectionOutbound | _ \<Rightarrow> DirectionInbound)
        | None \<Rightarrow> DirectionInbound)"
  by (auto simp: TraverseRelationships_def traverseFK_def traverseJoin_def split: option.split rel_kind.split)

end
