(* ===== verification/Task_Reads.thy ===== *)
theory Task_Reads
  imports Relationships
begin

text \<open>
  The reads of \<open>task_impl_task.go\<close>: one task with its tag names and its state name, the listing,
  and the active blockers of a task. The task states come from the settings tables (\<open>w_setting\<close>).
\<close>

definition isTerminalStatus :: "task_status \<Rightarrow> bool" where
  "isTerminalStatus s \<longleftrightarrow> s \<in> {TaskStatusCompleted, TaskStatusFailed, TaskStatusCancelled}"

text \<open>\<open>loadTagNames\<close> swallows every error.\<close>

definition loadTagNames :: "string \<Rightarrow> string list tm" where
  "loadTagNames taskID =
     bnd (attempt (selectQ taggingsT (\<lambda>r. tn_TaskID r = taskID))) (\<lambda>r1.
     case r1 of
       Inl _ \<Rightarrow> ret []
     | Inr taggings \<Rightarrow>
         if taggings = [] then ret []
         else bnd (attempt (selectQ tagsT (\<lambda>g. tg_ID g \<in> set (map tn_TagID taggings)))) (\<lambda>r2.
              case r2 of Inl _ \<Rightarrow> ret [] | Inr tags \<Rightarrow> ret (map tg_Name tags)))"

definition liveTask :: "string \<Rightarrow> task \<Rightarrow> bool" where
  "liveTask taskID t \<longleftrightarrow> t_ID t = taskID \<and> \<not> t_Deleted t"

definition GetTask :: "string \<Rightarrow> task tm" where
  "GetTask taskID =
     bnd (takeQ tasksT (liveTask taskID) ErrTaskNotFound) (\<lambda>t.
     bnd taskStates (\<lambda>states.
     bnd (loadTagNames (t_ID t)) (\<lambda>tags.
     ret (t\<lparr>t_Tags := tags, t_State := StateNameFor states (t_Status t)\<rparr>))))"

definition matchesFilter :: "task_filter \<Rightarrow> task \<Rightarrow> bool" where
  "matchesFilter f t \<longleftrightarrow>
     \<not> t_Deleted t \<and>
     (tf_Status f \<noteq> TaskStatusOther [] \<longrightarrow> t_Status t = tf_Status f) \<and>
     (tf_Priority f \<noteq> TaskPriorityOther [] \<longrightarrow> t_Priority t = tf_Priority f) \<and>
     (tf_WorkflowRunID f \<noteq> [] \<longrightarrow> t_WorkflowRunID t = tf_WorkflowRunID f) \<and>
     (tf_HeldBy f \<noteq> [] \<longrightarrow> t_HeldBy t = tf_HeldBy f)"

definition pageLimit :: "int \<Rightarrow> nat" where
  "pageLimit limit = (if limit \<le> 0 \<or> limit > int maxListPage then maxListPage else nat limit)"

definition ListTasks :: "task_filter \<Rightarrow> task list tm" where
  "ListTasks f =
     bnd (selectQ tasksT (matchesFilter f)) (\<lambda>rows.
     bnd taskStates (\<lambda>states.
     collect (take (pageLimit (tf_Limit f)) rows) (\<lambda>t.
       bnd (loadTagNames (t_ID t)) (\<lambda>tags.
       ret (Some (t\<lparr>t_Tags := tags, t_State := StateNameFor states (t_Status t)\<rparr>))))))"

definition findActiveBlockers :: "string \<Rightarrow> string list tm" where
  "findActiveBlockers taskID =
     bnd (TraverseRelationships taskID RelLabelBlocks DirectionInbound) (\<lambda>edges.
     collect edges (\<lambda>e.
       bnd (attempt (GetTask (rel_FromID e))) (\<lambda>r.
       case r of
         Inl err \<Rightarrow> if err = ErrTaskNotFound then ret None else fail err
       | Inr blocker \<Rightarrow>
           ret (if isTerminalStatus (t_Status blocker) then None else Some (t_ID blocker)))))"

definition nonStatusChangedFields :: "task \<Rightarrow> task \<Rightarrow> string list" where
  "nonStatusChangedFields before after =
     (if t_Description before \<noteq> t_Description after then [''description''] else []) @
     (if t_Priority before \<noteq> t_Priority after then [''priority''] else []) @
     (if t_DueAt before \<noteq> t_DueAt after then [''due_at''] else []) @
     (if t_Tags before \<noteq> t_Tags after then [''tags''] else []) @
     (if t_EstimatedHours before \<noteq> t_EstimatedHours after then [''estimated_hours''] else []) @
     (if t_Context before \<noteq> t_Context after then [''context''] else [])"

section \<open>Reading does not write\<close>

lemma keeps_loadTagNames [keeps_intros]: "keeps I (loadTagNames i)"
  unfolding loadTagNames_def by (auto split: sum.split intro!: keeps_intros)

lemma keeps_GetTask [keeps_intros]: "keeps I (GetTask i)"
  unfolding GetTask_def by (intro keeps_intros)

lemma keeps_ListTasks [keeps_intros]: "keeps I (ListTasks f)"
  unfolding ListTasks_def by (intro keeps_intros)

lemma keeps_findActiveBlockers [keeps_intros]: "keeps I (findActiveBlockers i)"
  unfolding findActiveBlockers_def by (auto split: sum.split intro!: keeps_intros)

lemma loadTagNames_db: "loadTagNames i s = (r, t) \<Longrightarrow> w_db t = w_db s"
  by (rule keeps_reads) (rule keeps_loadTagNames)

lemma findActiveBlockers_db: "findActiveBlockers i s = (r, t) \<Longrightarrow> w_db t = w_db s"
  by (rule keeps_reads) (rule keeps_findActiveBlockers)

text \<open>What a task read gives: the stored live row, but for its tags and state name.\<close>

definition sameRow :: "task \<Rightarrow> task \<Rightarrow> bool" where
  "sameRow t u \<longleftrightarrow> t\<lparr>t_Tags := t_Tags u, t_State := t_State u\<rparr> = u"

lemma sameRow_fields:
  assumes "sameRow t u"
  shows "t_ID u = t_ID t" "t_Status u = t_Status t" "t_Deleted u = t_Deleted t"
    "t_CompletedAt u = t_CompletedAt t" "t_WorkflowRunID u = t_WorkflowRunID t"
    "t_AssignedTo u = t_AssignedTo t" "t_CreatedAt u = t_CreatedAt t" "t_HeldBy u = t_HeldBy t"
    "t_Rank u = t_Rank t" "t_AssigneeKind u = t_AssigneeKind t"
proof -
  have u: "u = t\<lparr>t_Tags := t_Tags u, t_State := t_State u\<rparr>" using assms by (simp add: sameRow_def)
  show "t_ID u = t_ID t" by (subst u) simp
  show "t_Status u = t_Status t" by (subst u) simp
  show "t_Deleted u = t_Deleted t" by (subst u) simp
  show "t_CompletedAt u = t_CompletedAt t" by (subst u) simp
  show "t_WorkflowRunID u = t_WorkflowRunID t" by (subst u) simp
  show "t_AssignedTo u = t_AssignedTo t" by (subst u) simp
  show "t_CreatedAt u = t_CreatedAt t" by (subst u) simp
  show "t_HeldBy u = t_HeldBy t" by (subst u) simp
  show "t_Rank u = t_Rank t" by (subst u) simp
  show "t_AssigneeKind u = t_AssigneeKind t" by (subst u) simp
qed

lemma loadTagNames_total: "\<exists>tags t. loadTagNames i s = (Inr tags, t)"
  by (auto simp: loadTagNames_def tm_basic split: prod.splits sum.splits)

lemma surely_loadTagNames [surely_intros]: "surely (loadTagNames i)"
  unfolding loadTagNames_def by (intro surely_intros)

lemma loadTagNames_no_error [simp]: "loadTagNames i s \<noteq> (Inl e, t)"
  by (metis Inr_not_Inl loadTagNames_total prod.inject)

lemma GetTask_Inr:
  assumes "GetTask i s = (Inr u, t)"
  shows "w_db t = w_db s \<and> (\<exists>row. List.find (liveTask i) (d_tasks (w_db s)) = Some row \<and> sameRow row u)"
  using assms
  by (auto simp: GetTask_def succ sameRow_def dest!: loadTagNames_db)

lemma GetTask_NotFound:
  assumes "GetTask i s = (Inl ErrTaskNotFound, t)"
  shows "List.find (liveTask i) (d_tasks (w_db s)) = None \<and> w_db t = w_db s"
proof -
  have "w_db t = w_db s" by (rule keeps_reads [OF keeps_GetTask assms])
  moreover have "List.find (liveTask i) (d_tasks (w_db s)) = None"
  proof (rule ccontr)
    assume "List.find (liveTask i) (d_tasks (w_db s)) \<noteq> None"
    then obtain row where row: "List.find (liveTask i) (d_tasks (w_db s)) = Some row" by blast
    have "StoredTaskStates g \<noteq> Inl ErrTaskNotFound" for g
      using StoredTaskStates_error [of g ErrTaskNotFound] by auto
    with assms row show False
      by (cases "StoredTaskStates (w_setting s)")
        (auto simp: GetTask_def bnd_def ret_def taskStates_def takeQ_def sql_def
          split: prod.splits sum.splits if_splits)
  qed
  ultimately show ?thesis by simp
qed

lemma set_map_filter_iff: "y \<in> set (List.map_filter g xs) \<longleftrightarrow> (\<exists>x \<in> set xs. g x = Some y)"
  by (induction xs) (auto simp: List.map_filter_simps split: option.splits)

text \<open>A run of \<open>collect\<close> over reads, one result per element.\<close>

lemma collect_Inr:
  assumes "collect xs f s = (Inr ys, t)"
    and reads: "\<And>x s r t. f x s = (r, t) \<Longrightarrow> w_db t = w_db s"
    and each: "\<And>x s y t. x \<in> set xs \<Longrightarrow> f x s = (Inr y, t) \<Longrightarrow> w_db s = d \<Longrightarrow> y = g x"
    and "w_db s = d"
  shows "ys = List.map_filter g xs \<and> w_db t = d"
  using assms(1,3,4)
proof (induction xs arbitrary: s ys)
  case (Cons x xs)
  then obtain y s' ys' where x: "f x s = (Inr y, s')" and xs: "collect xs f s' = (Inr ys', t)"
    and ys: "ys = (case y of None \<Rightarrow> ys' | Some v \<Rightarrow> v # ys')"
    by (auto simp: succ)
  have "w_db s' = d" using reads [OF x] Cons.prems(3) by simp
  then have "ys' = List.map_filter g xs \<and> w_db t = d"
    using Cons.prems(2) by (intro Cons.IH [OF xs]) auto
  moreover have "y = g x" using Cons.prems(2,3) x by simp
  ultimately show ?case using ys by (simp add: List.map_filter_simps split: option.splits)
qed (simp add: succ List.map_filter_simps)

lemma listed_tasks:
  assumes "ListTasks f s = (Inr ts, t)"
  shows "length ts \<le> maxListPage \<and> list_all2 sameRow (take (pageLimit (tf_Limit f)) (filter (matchesFilter f) (d_tasks (w_db s)))) ts"
proof -
  from assms obtain s' states where
    run: "collect (take (pageLimit (tf_Limit f)) (filter (matchesFilter f) (d_tasks (w_db s)))) (\<lambda>t.
       bnd (loadTagNames (t_ID t)) (\<lambda>tags.
       ret (Some (t\<lparr>t_Tags := tags, t_State := StateNameFor states (t_Status t)\<rparr>)))) s' = (Inr ts, t)"
    by (auto simp: ListTasks_def succ)
  have "list_all2 sameRow xs ys" if "collect xs (\<lambda>t.
       bnd (loadTagNames (t_ID t)) (\<lambda>tags.
       ret (Some (t\<lparr>t_Tags := tags, t_State := StateNameFor states (t_Status t)\<rparr>)))) s' = (Inr ys, t)" for xs ys s'
    using that by (induction xs arbitrary: ys s') (auto simp: succ sameRow_def)
  with run have all: "list_all2 sameRow (take (pageLimit (tf_Limit f)) (filter (matchesFilter f) (d_tasks (w_db s)))) ts"
    by blast
  then have "length ts \<le> pageLimit (tf_Limit f)" by (auto dest: list_all2_lengthD)
  then have "length ts \<le> maxListPage" by (auto simp: pageLimit_def split: if_splits)
  with all show ?thesis by simp
qed

section \<open>Active blockers\<close>

text \<open>The tasks that hold \<open>i\<close> back: live, not terminal, with a \<open>blocks\<close> edge to it.\<close>

definition activeBlockers :: "string \<Rightarrow> db \<Rightarrow> string set" where
  "activeBlockers i d =
     {b. (b, i) \<in> relEdges RelLabelBlocks d \<and>
         (\<exists>row. List.find (liveTask b) (d_tasks d) = Some row \<and> \<not> isTerminalStatus (t_Status row))}"

lemma findActiveBlockers_set:
  assumes run: "findActiveBlockers i s = (Inr bs, t)"
  shows "set bs = activeBlockers i (w_db s)"
proof -
  let ?d = "w_db s"
  define live where "live b = List.find (liveTask b) (d_tasks ?d)" for b
  define g where "g = (\<lambda>e :: relationship. case live (rel_FromID e) of None \<Rightarrow> None
      | Some row \<Rightarrow> if isTerminalStatus (t_Status row) then None else Some (rel_FromID e))"
  obtain es s' where es: "TraverseRelationships i RelLabelBlocks DirectionInbound s = (Inr es, s')"
    and bs: "collect es (\<lambda>e.
       bnd (attempt (GetTask (rel_FromID e))) (\<lambda>r.
       case r of
         Inl err \<Rightarrow> if err = ErrTaskNotFound then ret None else fail err
       | Inr blocker \<Rightarrow>
           ret (if isTerminalStatus (t_Status blocker) then None else Some (t_ID blocker)))) s' = (Inr bs, t)"
    using run by (auto simp: findActiveBlockers_def succ)
  have d': "w_db s' = ?d" by (rule keeps_reads [OF keeps_TraverseRelationships es])
  have "bs = List.map_filter g es \<and> w_db t = ?d"
  proof (rule collect_Inr [OF bs])
    fix e :: relationship and s r t
    assume "bnd (attempt (GetTask (rel_FromID e))) (\<lambda>r.
       case r of
         Inl err \<Rightarrow> if err = ErrTaskNotFound then ret None else fail err
       | Inr blocker \<Rightarrow>
           ret (if isTerminalStatus (t_Status blocker) then None else Some (t_ID blocker))) s = (r, t)"
    then show "w_db t = w_db s"
      by (rule keeps_reads [rotated]) (auto split: sum.split intro!: keeps_intros)
  next
    fix e :: relationship and s1 y t1
    assume "bnd (attempt (GetTask (rel_FromID e))) (\<lambda>r.
       case r of
         Inl err \<Rightarrow> if err = ErrTaskNotFound then ret None else fail err
       | Inr blocker \<Rightarrow>
           ret (if isTerminalStatus (t_Status blocker) then None else Some (t_ID blocker))) s1 = (Inr y, t1)"
      and "w_db s1 = ?d"
    then obtain r s2 where r: "GetTask (rel_FromID e) s1 = (r, s2)" and d1: "w_db s1 = ?d"
      and y: "(case r of
         Inl err \<Rightarrow> if err = ErrTaskNotFound then ret None else fail err
       | Inr blocker \<Rightarrow>
           ret (if isTerminalStatus (t_Status blocker) then None else Some (t_ID blocker))) s2 = (Inr y, t1)"
      unfolding bnd_Inr attempt_Inr by blast
    show "y = g e"
    proof (cases r)
      case (Inl err)
      with r y d1 show ?thesis by (auto simp: g_def live_def succ split: if_splits dest!: GetTask_NotFound)
    next
      case (Inr b)
      with r d1 obtain row where "live (rel_FromID e) = Some row" and "sameRow row b"
        by (auto simp: live_def dest!: GetTask_Inr)
      with y Inr show ?thesis
        by (auto simp: g_def live_def liveTask_def sameRow_fields succ dest!: find_Some_in)
    qed
  qed (simp add: d')
  moreover have "(b, i) \<in> relEdges RelLabelBlocks ?d \<longleftrightarrow> (\<exists>e \<in> set es. rel_FromID e = b)" for b
    using es by (auto simp: TraverseRelationships_def traverseJoin_def relEdges_def succ edgeOf_def image_iff) blast+
  moreover have "g e = Some b \<longleftrightarrow> rel_FromID e = b \<and>
      (\<exists>row. live b = Some row \<and> \<not> isTerminalStatus (t_Status row))" for e b
    by (auto simp: g_def split: option.splits)
  ultimately show ?thesis
    by (auto simp: activeBlockers_def set_map_filter_iff live_def)
qed

section \<open>What the reads never touch\<close>

lemma steady_loadTagNames [steady_intros]: "steady (loadTagNames i)"
  unfolding loadTagNames_def by (intro steady_intros)

lemma steady_GetTask [steady_intros]: "steady (GetTask i)"
  unfolding GetTask_def by (intro steady_intros)

lemma steady_ListTasks [steady_intros]: "steady (ListTasks f)"
  unfolding ListTasks_def by (intro steady_intros)

lemma steady_findActiveBlockers [steady_intros]: "steady (findActiveBlockers i)"
  unfolding findActiveBlockers_def by (intro steady_intros)

text \<open>When no statement fails and the setting is usable, a read succeeds exactly on a live task.\<close>

lemma GetTask_calm:
  assumes calm: "w_faults s = []" and "StoredTaskStates (w_setting s) = Inr states"
    and "List.find (liveTask i) (d_tasks (w_db s)) = Some row"
  shows "\<exists>u t. GetTask i s = (Inr u, t) \<and> sameRow row u \<and> w_db t = w_db s"
proof -
  obtain tags t where "loadTagNames (t_ID row) s = (Inr tags, t)" using loadTagNames_total by blast
  with assms show ?thesis
    by (auto simp: GetTask_def bnd_def ret_def taskStates_def takeQ_calm sameRow_def dest!: loadTagNames_db)
qed

lemma fine_TraverseRelationships [fine_intros]: "fine (TraverseRelationships v l dir)"
  unfolding TraverseRelationships_def traverseFK_def traverseJoin_def
  by (auto split: option.split rel_kind.split intro!: fine_intros)

lemma fine_loadTagNames [fine_intros]: "fine (loadTagNames i)"
  by (rule fine_surely [OF surely_loadTagNames steady_loadTagNames])

lemma fine_ListTasks [fine_intros]: "fine (ListTasks f)"
  unfolding ListTasks_def by (intro fine_intros)

text \<open>In a quiet world the only error of a task read is the task's absence.\<close>

lemma GetTask_quiet:
  assumes "quiet s" and "GetTask i s = (Inl e, t)"
  shows "e = ErrTaskNotFound"
proof (cases "List.find (liveTask i) (d_tasks (w_db s))")
  case None
  with assms show ?thesis by (auto simp: quiet_def GetTask_def bnd_def takeQ_calm)
next
  case (Some row)
  with assms GetTask_calm show ?thesis by (fastforce simp: quiet_def)
qed

lemma fine_findActiveBlockers [fine_intros]: "fine (findActiveBlockers i)"
proof -
  have "fine (bnd (attempt (GetTask j)) (\<lambda>r. case r of
         Inl err \<Rightarrow> if err = ErrTaskNotFound then ret None else fail err
       | Inr blocker \<Rightarrow> ret (if isTerminalStatus (t_Status blocker) then None else Some (t_ID blocker))))" for j
    unfolding fine_def
  proof (intro conjI allI impI)
    fix s assume q: "quiet s"
    obtain r t where r: "GetTask j s = (r, t)" by fastforce
    with GetTask_quiet [OF q] show "\<exists>x t. bnd (attempt (GetTask j)) (\<lambda>r. case r of
         Inl err \<Rightarrow> if err = ErrTaskNotFound then ret None else fail err
       | Inr blocker \<Rightarrow> ret (if isTerminalStatus (t_Status blocker) then None else Some (t_ID blocker))) s = (Inr x, t)"
      by (cases r) (auto simp: bnd_def attempt_def ret_def)
  qed (intro steady_intros)
  then show ?thesis
    unfolding findActiveBlockers_def by (intro fine_bnd [OF fine_TraverseRelationships] fine_collect)
qed

lemma findActiveBlockers_quiet:
  assumes "quiet s" shows "\<exists>bs t. findActiveBlockers i s = (Inr bs, t) \<and> set bs = activeBlockers i (w_db s) \<and> quiet t"
  using fineD [OF fine_findActiveBlockers assms] findActiveBlockers_set by blast

text \<open>Reading publishes nothing.\<close>

lemma silent_TraverseRelationships [silent_intros]: "silent (TraverseRelationships v l dir)"
  unfolding TraverseRelationships_def traverseFK_def traverseJoin_def
  by (auto split: option.split rel_kind.split intro!: silent_intros)

lemma silent_loadTagNames [silent_intros]: "silent (loadTagNames i)"
  unfolding loadTagNames_def by (intro silent_intros)

lemma silent_GetTask [silent_intros]: "silent (GetTask i)"
  unfolding GetTask_def by (intro silent_intros)

lemma silent_ListTasks [silent_intros]: "silent (ListTasks f)"
  unfolding ListTasks_def by (intro silent_intros)

lemma silent_findActiveBlockers [silent_intros]: "silent (findActiveBlockers i)"
  unfolding findActiveBlockers_def by (intro silent_intros)

text \<open>A small task to run examples on.\<close>

definition taskWith :: "string \<Rightarrow> task_status \<Rightarrow> task" where
  "taskWith i st = task0\<lparr>t_ID := i, t_Status := st, t_CompletedAt := (if isTerminalStatus st then ''x'' else [])\<rparr>"

lemma taskWith_sel [simp]:
  "t_ID (taskWith i st) = i" "t_Status (taskWith i st) = st" "t_Deleted (taskWith i st) = False"
  "t_WorkflowRunID (taskWith i st) = []"
  by (simp_all add: taskWith_def task0_def)

end
