(* ===== verification/Run_Core.thy ===== *)
theory Run_Core
  imports Task_Reads
begin

text \<open>
  \<open>workflow_run.go\<close>, but for the closure: opening a run, reading runs, linking a task or a step to
  one, the guarded status change behind \<open>UpdateWorkflowRunStatus\<close>, the full-row save that keeps
  \<open>under_way\<close>, the event of a status, and \<open>last_event_at\<close>. The run table's invariants are here:
  \<open>under_way\<close> says exactly that a run is not over, and ids and names are unique.
\<close>

definition GetWorkflowRun :: "string \<Rightarrow> workflow_run tm" where
  "GetWorkflowRun runID = takeQ runsT (\<lambda>r. r_ID r = runID) ErrWorkflowRunNotFound"

definition GetWorkflowRunByName :: "string \<Rightarrow> workflow_run tm" where
  "GetWorkflowRunByName name =
     (if name = [] then fail ErrInvalidTask
      else takeQ runsT (\<lambda>r. r_Name r = name) ErrWorkflowRunNotFound)"

text \<open>The name of a run nobody named: three random bytes, or the clock when there are none.\<close>

definition generateRunName :: "instant \<Rightarrow> nat option \<Rightarrow> string" where
  "generateRunName now buf =
     ''pipeline-'' @ fmtStamp now @ ''-'' @
     hexWidth 6 (case buf of Some n \<Rightarrow> n | None \<Rightarrow> nat (now mod 2 ^ 24))"

text \<open>Two runs may share neither the primary key nor the unique name.\<close>

definition runClash :: "workflow_run \<Rightarrow> workflow_run \<Rightarrow> bool" where
  "runClash r r' \<longleftrightarrow> r_ID r = r_ID r' \<or> r_Name r = r_Name r'"

definition openWorkflowRun :: "workflow_run \<Rightarrow> workflow_run tm" where
  "openWorkflowRun run =
     (if r_Name run \<noteq> [] \<and> TrimSpace (r_Name run) \<noteq> r_Name run then fail ErrInvalidTask
      else
        bnd nowT (\<lambda>now.
        bnd (if r_Name run = [] then bnd draw3 (\<lambda>buf. ret (generateRunName now buf))
             else ret (r_Name run)) (\<lambda>name.
        bnd (attempt (GetWorkflowRunByName name)) (\<lambda>found.
        seq (case found of
               Inr existing \<Rightarrow> unless (r_ID existing = []) ErrWorkflowRunNameExists
             | Inl e \<Rightarrow> unless (e = ErrWorkflowRunNotFound) e)
        (bnd newSpecID (\<lambda>i.
         let stamp = fmtRFC3339 now;
             run' = run\<lparr>r_Name := name, r_Status := RunPending, r_UnderWay := True,
               r_StartedAt := stamp, r_CreatedAt := stamp, r_UpdatedAt := stamp,
               r_LastEventAt := stamp, r_ID := i\<rparr>
         in seq (insertQ runsT runClash run') (ret run')))))))"

definition CreateWorkflowRun :: "string \<Rightarrow> string \<Rightarrow> string \<Rightarrow> workflow_run tm" where
  "CreateWorkflowRun name triggerEvent initiator =
     openWorkflowRun (workflow_run0\<lparr>r_Name := name, r_TriggerEvent := triggerEvent, r_Initiator := initiator\<rparr>)"

definition ListWorkflowRuns :: "string \<Rightarrow> workflow_run list tm" where
  "ListWorkflowRuns name =
     bnd (selectQ runsT (\<lambda>r. name = [] \<or> r_Name r = name)) (\<lambda>rows.
     ret (sortBy (\<lambda>a b. r_CreatedAt b < r_CreatedAt a)
       (take maxListPage (sortBy (\<lambda>a b. r_CreatedAt b < r_CreatedAt a) rows))))"

definition relOf :: "rel_label \<Rightarrow> string \<Rightarrow> string \<Rightarrow> relationship" where
  "relOf label fromID toID = \<lparr>rel_ID = [], rel_Label = label, rel_FromID = fromID, rel_ToID = toID,
     rel_CreatedAt = []\<rparr>"

definition LinkTaskToRun :: "string \<Rightarrow> string \<Rightarrow> unit tm" where
  "LinkTaskToRun runID taskID =
     seq (GetWorkflowRun runID)
     (seq (GetTask taskID)
     (seq (CreateRelationship (relOf RelLabelStartedTask runID taskID))
     (ret ())))"

definition GetTaskTodo :: "string \<Rightarrow> task_todo tm" where
  "GetTaskTodo todoID = takeQ todosT (\<lambda>r. td_ID r = todoID \<and> \<not> td_Deleted r) ErrTaskTodoNotFound"

definition LinkTodoToRun :: "string \<Rightarrow> string \<Rightarrow> unit tm" where
  "LinkTodoToRun runID todoID =
     seq (GetWorkflowRun runID)
     (seq (GetTaskTodo todoID)
     (seq (CreateRelationship (relOf RelLabelStartedTodo runID todoID))
     (ret ())))"

section \<open>Status changes\<close>

text \<open>\<open>run.UnderWay = !run.Status.IsTerminal()\<close>, on every save.\<close>

definition withUnderWay :: "workflow_run \<Rightarrow> workflow_run" where
  "withUnderWay run = run\<lparr>r_UnderWay := \<not> IsTerminal (r_Status run)\<rparr>"

definition saveRun :: "workflow_run \<Rightarrow> unit tm" where
  "saveRun run = seq (updateQ runsT (\<lambda>r. r_ID r = r_ID run) (\<lambda>_. withUnderWay run)) (ret ())"

definition publishRunStatusEvent :: "workflow_run \<Rightarrow> instant \<Rightarrow> string \<Rightarrow> unit tm" where
  "publishRunStatusEvent run now reason =
     (case r_Status run of
        RunInProgress \<Rightarrow> publish (RunInProgressEv (r_ID run) (r_StartedAt run))
      | RunCompleted \<Rightarrow>
          publish (RunCompletedEv (r_ID run) (r_CompletedAt run)
            (if r_StartedAt run = [] then 0
             else case parseRFC3339 (r_StartedAt run) of
               None \<Rightarrow> 0 | Some started \<Rightarrow> unixMilli now - unixMilli started))
      | RunFailed \<Rightarrow> publish (RunFailedEv (r_ID run) (r_CompletedAt run) reason)
      | RunRolledBack \<Rightarrow> publish (RunRolledBackEv (r_ID run) (r_CompletedAt run) reason)
      | RunRollingBack \<Rightarrow> publish (RunRollingBackEv (r_ID run) reason)
      | RunRollbackFailed \<Rightarrow> publish (RunRollbackFailedEv (r_ID run) (r_UpdatedAt run) reason)
      | RunCancelling \<Rightarrow>
          publish (RunCancellingEv (r_ID run) (r_CancelReason run) (r_CancelledBy run) (r_CancellingUntil run))
      | RunCancelled \<Rightarrow>
          publish (RunCancelledEv (r_ID run) (r_CompletedAt run) (r_CancelReason run) (r_CancelledBy run))
      | RunClosed \<Rightarrow>
          publish (RunClosedEv (r_ID run) (r_CompletedAt run) (r_CurrentStepID run) (r_StepDueAt run) (r_CancelRunID run))
      | _ \<Rightarrow> ret ())"

definition setRunStatus :: "string \<Rightarrow> run_status \<Rightarrow> string \<Rightarrow> workflow_run tm" where
  "setRunStatus runID newStatus reason =
     bnd (GetWorkflowRun runID) (\<lambda>run.
     seq (unless (RunCanTransitionTo (r_Status run) newStatus) ErrInvalidRunStatusTransition)
     (bnd nowT (\<lambda>now.
      let stamp = fmtRFC3339 now;
          run1 = run\<lparr>r_Status := newStatus, r_UpdatedAt := stamp\<rparr>;
          run2 = (if newStatus = RunInProgress \<and> r_StartedAt run1 = [] then run1\<lparr>r_StartedAt := stamp\<rparr> else run1);
          run3 = (if newStatus \<in> {RunCompleted, RunFailed, RunRolledBack, RunRollbackFailed}
                  then run2\<lparr>r_CompletedAt := stamp\<rparr> else run2);
          run4 = (if reason \<noteq> [] then run3\<lparr>r_FailureReason := reason\<rparr> else run3)
      in seq (saveRun run4)
         (seq (publishRunStatusEvent run4 now reason)
         (ret run4)))))"

definition rollbackOwned :: "run_status \<Rightarrow> bool" where
  "rollbackOwned s \<longleftrightarrow> s \<in> {RunRollingBack, RunRolledBack, RunRollbackFailed}"

definition UpdateWorkflowRunStatus :: "string \<Rightarrow> run_status \<Rightarrow> string \<Rightarrow> workflow_run tm" where
  "UpdateWorkflowRunStatus runID newStatus reason =
     (if newStatus = RunClosed then fail ErrInvalidRunStatusTransition
      else if rollbackOwned newStatus then fail ErrInvalidRunStatusTransition
      else setRunStatus runID newStatus reason)"

definition TouchWorkflowRunLastEventAt :: "string \<Rightarrow> string \<Rightarrow> unit tm" where
  "TouchWorkflowRunLastEventAt runID ts =
     (case parseRFC3339 ts of
        None \<Rightarrow> fail ErrInvalidTask
      | Some parsed \<Rightarrow>
          seq (updateQ runsT (\<lambda>r. r_ID r = runID) (\<lambda>r. r\<lparr>r_LastEventAt := fmtRFC3339 parsed\<rparr>)) (ret ()))"

section \<open>Invariants of the run table\<close>

definition runsUnderWay :: "db \<Rightarrow> bool" where
  "runsUnderWay d \<longleftrightarrow> (\<forall>r \<in> set (d_runs d). r_UnderWay r = (\<not> IsTerminal (r_Status r)))"

definition runsUnique :: "db \<Rightarrow> bool" where
  "runsUnique d \<longleftrightarrow> distinct (map r_ID (d_runs d)) \<and> distinct (map r_Name (d_runs d))"

lemma withUnderWay_sel [simp]:
  "r_ID (withUnderWay r) = r_ID r" "r_Name (withUnderWay r) = r_Name r"
  "r_Status (withUnderWay r) = r_Status r" "r_UnderWay (withUnderWay r) = (\<not> IsTerminal (r_Status r))"
  by (simp_all add: withUnderWay_def)

lemma keeps_runsUnderWay_update:
  assumes "\<And>r. r_UnderWay r = (\<not> IsTerminal (r_Status r)) \<Longrightarrow> P r \<Longrightarrow>
    r_UnderWay (f r) = (\<not> IsTerminal (r_Status (f r)))"
  shows "keeps runsUnderWay (updateQ runsT P f)"
  by (rule runs.keeps_row_update [where J = "\<lambda>r. r_UnderWay r = (\<not> IsTerminal (r_Status r))"])
    (simp_all add: runsUnderWay_def assms)

lemma keeps_runsUnderWay_insert:
  "r_UnderWay r = (\<not> IsTerminal (r_Status r)) \<Longrightarrow> keeps runsUnderWay (insertQ runsT clash r)"
  by (rule runs.keeps_row_insert [where J = "\<lambda>r. r_UnderWay r = (\<not> IsTerminal (r_Status r))"])
    (simp_all add: runsUnderWay_def)

lemma saveRun_underWay: "keeps runsUnderWay (saveRun run)"
  unfolding saveRun_def by (intro keeps_intros keeps_runsUnderWay_update) simp_all

lemma keeps_GetWorkflowRun [keeps_intros]: "keeps I (GetWorkflowRun i)"
  unfolding GetWorkflowRun_def by (rule keeps_intros)

lemma keeps_GetWorkflowRunByName [keeps_intros]: "keeps I (GetWorkflowRunByName n)"
  unfolding GetWorkflowRunByName_def by (intro keeps_intros)

lemma keeps_GetTaskTodo [keeps_intros]: "keeps I (GetTaskTodo i)"
  unfolding GetTaskTodo_def by (rule keeps_intros)

lemma keeps_publishRunStatusEvent [keeps_intros]: "keeps I (publishRunStatusEvent run now reason)"
  unfolding publishRunStatusEvent_def by (auto split: run_status.split intro!: keeps_intros)

lemma openWorkflowRun_underWay: "keeps runsUnderWay (openWorkflowRun run)"
  unfolding openWorkflowRun_def Let_def
  by (auto split: sum.split intro!: keeps_intros keeps_runsUnderWay_insert simp: IsTerminal_def)

lemma setRunStatus_underWay: "keeps runsUnderWay (setRunStatus i st reason)"
  unfolding setRunStatus_def Let_def by (intro keeps_intros saveRun_underWay)

lemma GetWorkflowRun_Inr: "GetWorkflowRun i s = (Inr r, t) \<Longrightarrow>
    List.find (\<lambda>r. r_ID r = i) (d_runs (w_db s)) = Some r \<and> w_db t = w_db s"
  by (auto simp: GetWorkflowRun_def succ)

lemma publishRunStatusEvent_db: "publishRunStatusEvent run now reason s = (r, t) \<Longrightarrow> w_db t = w_db s"
  by (rule keeps_reads) (rule keeps_publishRunStatusEvent)

lemma surely_publishRunStatusEvent [surely_intros]: "surely (publishRunStatusEvent run now reason)"
  unfolding publishRunStatusEvent_def by (auto split: run_status.split intro!: surely_intros)

lemma publishRunStatusEvent_total: "\<exists>t. publishRunStatusEvent run now reason s = (Inr (), t)"
  by (cases "r_Status run") (simp_all add: publishRunStatusEvent_def ret_def publish_def)

lemma saveRun_Inr: "saveRun run s = (Inr u, t) \<Longrightarrow>
    w_db t = (w_db s)\<lparr>d_runs := updWhere (\<lambda>r. r_ID r = r_ID run) (\<lambda>_. withUnderWay run) (d_runs (w_db s))\<rparr>"
  by (auto simp: saveRun_def succ)

lemma saveRun_Inl: "saveRun run s = (Inl e, t) \<Longrightarrow> w_db t = w_db s"
  by (auto simp: saveRun_def seq_def bnd_def updateQ_def sql_def ret_def split: prod.splits sum.splits if_splits)

text \<open>A status change replaces the row of one run, along \<open>CanTransitionTo\<close>.\<close>

lemma setRunStatus_Inr:
  assumes "setRunStatus i st reason s = (Inr run, t)"
  shows "\<exists>r. List.find (\<lambda>r. r_ID r = i) (d_runs (w_db s)) = Some r \<and> RunCanTransitionTo (r_Status r) st \<and>
    r_ID run = i \<and> r_Name run = r_Name r \<and> r_Status run = st \<and>
    w_db t = (w_db s)\<lparr>d_runs := updWhere (\<lambda>r. r_ID r = i) (\<lambda>_. withUnderWay run) (d_runs (w_db s))\<rparr>"
  using assms
  by (auto simp: setRunStatus_def Let_def succ dest!: GetWorkflowRun_Inr publishRunStatusEvent_db saveRun_Inr
      dest: find_Some_in)

text \<open>What opening a run does to the run table: nothing, or one fresh pending row at its end.\<close>

lemma openWorkflowRun_runs:
  assumes run: "openWorkflowRun ask s = (x, t)"
  shows "(\<exists>e. x = Inl e \<and> w_db t = w_db s) \<or>
    (\<exists>new. x = Inr new \<and> w_db t = (w_db s)\<lparr>d_runs := d_runs (w_db s) @ [new]\<rparr> \<and>
       (\<forall>r \<in> set (d_runs (w_db s)). \<not> runClash new r) \<and> r_Status new = RunPending \<and> r_UnderWay new \<and>
       (r_Name ask \<noteq> [] \<longrightarrow> r_Name new = r_Name ask) \<and> r_RestartedFromRunID new = r_RestartedFromRunID ask \<and>
       r_WorkflowCode new = r_WorkflowCode ask \<and> r_WorkflowVersion new = r_WorkflowVersion ask)"
proof -
  define rest where "rest now name = bnd (attempt (GetWorkflowRunByName name)) (\<lambda>found.
        seq (case found of
               Inr existing \<Rightarrow> unless (r_ID existing = []) ErrWorkflowRunNameExists
             | Inl e \<Rightarrow> unless (e = ErrWorkflowRunNotFound) e)
        (bnd newSpecID (\<lambda>i.
         let stamp = fmtRFC3339 now;
             run' = ask\<lparr>r_Name := name, r_Status := RunPending, r_UnderWay := True,
               r_StartedAt := stamp, r_CreatedAt := stamp, r_UpdatedAt := stamp,
               r_LastEventAt := stamp, r_ID := i\<rparr>
         in seq (insertQ runsT runClash run') (ret run'))))" for now name
  show ?thesis
  proof (cases x)
    case (Inl e)
    have pre: "w_db t = w_db s" if "rest now name s1 = (Inl e, t)" "w_db s1 = w_db s" for now name s1
    proof -
      obtain found s2 where found: "GetWorkflowRunByName name s1 = (found, s2)" by fastforce
      have s2: "w_db s2 = w_db s1" by (rule keeps_reads [OF keeps_GetWorkflowRunByName found])
      let ?check = "(case found of
               Inr existing \<Rightarrow> unless (r_ID existing = []) ErrWorkflowRunNameExists
             | Inl e \<Rightarrow> unless (e = ErrWorkflowRunNotFound) e)"
      obtain c s3 where check: "?check s2 = (c, s3)" by fastforce
      then have s3: "s3 = s2" by (cases found) (auto simp: unless_def ret_def fail_def split: if_splits)
      show ?thesis
      proof (cases c)
        case (Inl e')
        with that(1) found check have "t = s3" by (simp add: rest_def bnd_def seq_def attempt_def)
        with s3 s2 that(2) show ?thesis by simp
      next
        case (Inr u)
        with that(1) found check obtain row s4 where "insertQ runsT runClash row s4 = (Inl e, t)" "w_db s4 = w_db s3"
          by (auto simp: rest_def bnd_def seq_def attempt_def newSpecID_def Let_def ret_def split: prod.splits sum.splits)
        with s3 s2 that(2) statement_Inl(5) show ?thesis by fastforce
      qed
    qed
    from run Inl consider "w_db t = w_db s" | now name s1 where "rest now name s1 = (Inl e, t)" "w_db s1 = w_db s"
      unfolding openWorkflowRun_def rest_def [symmetric]
      by (auto simp: fail_def nowT_def bnd_def draw3_def ret_def split: if_splits)
    then show ?thesis using pre Inl by cases auto
  next
    case (Inr new)
    have pre: "w_db t = (w_db s)\<lparr>d_runs := d_runs (w_db s) @ [new]\<rparr> \<and>
       (\<forall>r \<in> set (d_runs (w_db s)). \<not> runClash new r) \<and> r_Status new = RunPending \<and> r_UnderWay new \<and>
       r_Name new = name \<and> r_RestartedFromRunID new = r_RestartedFromRunID ask \<and>
       r_WorkflowCode new = r_WorkflowCode ask \<and> r_WorkflowVersion new = r_WorkflowVersion ask"
      if "rest now name s1 = (Inr new, t)" "w_db s1 = w_db s" for now name s1
    proof -
      from that(1) obtain found s2 u1 s3 i s4 u2 where found: "GetWorkflowRunByName name s1 = (found, s2)"
        and check: "(case found of
               Inr existing \<Rightarrow> unless (r_ID existing = []) ErrWorkflowRunNameExists
             | Inl e \<Rightarrow> unless (e = ErrWorkflowRunNotFound) e) s2 = (Inr u1, s3)"
        and i: "newSpecID s3 = (Inr i, s4)"
        and new: "new = ask\<lparr>r_Name := name, r_Status := RunPending, r_UnderWay := True,
               r_StartedAt := fmtRFC3339 now, r_CreatedAt := fmtRFC3339 now, r_UpdatedAt := fmtRFC3339 now,
               r_LastEventAt := fmtRFC3339 now, r_ID := i\<rparr>"
        and ins: "insertQ runsT runClash new s4 = (Inr u2, t)"
        unfolding rest_def Let_def bnd_Inr seq_Inr attempt_Inr ret_Inr by blast
      have "w_db s4 = w_db s"
        using keeps_reads [OF keeps_GetWorkflowRunByName found] check i that(2)
        by (cases found) (auto simp: unless_Inr newSpecID_Inr)
      with insertQ_run [OF ins] show ?thesis unfolding new by simp
    qed
    from run Inr obtain now name s1 where "rest now name s1 = (Inr new, t)" "w_db s1 = w_db s"
      "r_Name ask \<noteq> [] \<longrightarrow> name = r_Name ask"
      unfolding openWorkflowRun_def rest_def [symmetric]
      by (auto simp: fail_def nowT_def bnd_def draw3_def ret_def split: if_splits)
    with pre Inr show ?thesis by auto
  qed
qed

section \<open>What the run operations never touch\<close>

lemma steady_run_reads [steady_intros]:
  "steady (GetWorkflowRun i)" "steady (GetWorkflowRunByName n)" "steady (GetTaskTodo j)"
  unfolding GetWorkflowRun_def GetWorkflowRunByName_def GetTaskTodo_def by (intro steady_intros)+

lemma steady_publishRunStatusEvent [steady_intros]: "steady (publishRunStatusEvent run now reason)"
  unfolding publishRunStatusEvent_def by (auto split: run_status.split intro!: steady_intros)

lemma steady_links [steady_intros]: "steady (LinkTaskToRun r i)" "steady (LinkTodoToRun r j)"
  unfolding LinkTaskToRun_def LinkTodoToRun_def by (intro steady_intros)+

lemma steady_run_writes [steady_intros]:
  "steady (openWorkflowRun run)" "steady (saveRun run)" "steady (setRunStatus i st reason)"
  unfolding openWorkflowRun_def saveRun_def setRunStatus_def Let_def by (intro steady_intros)+

section \<open>Status changes of a run that is there\<close>

lemma silent_run_reads [silent_intros]:
  "silent (GetWorkflowRun i)" "silent (GetWorkflowRunByName n)" "silent (GetTaskTodo j)" "silent (saveRun run)"
  unfolding GetWorkflowRun_def GetWorkflowRunByName_def GetTaskTodo_def saveRun_def by (intro silent_intros)+

lemma fine_saveRun [fine_intros]: "fine (saveRun run)"
  unfolding saveRun_def by (intro fine_intros)

lemma fine_publishRunStatusEvent [fine_intros]: "fine (publishRunStatusEvent run now reason)"
  by (rule fine_surely [OF surely_publishRunStatusEvent steady_publishRunStatusEvent])

lemma setRunStatus_quiet:
  assumes "quiet s" and "List.find (\<lambda>r. r_ID r = i) (d_runs (w_db s)) = Some r"
    and "RunCanTransitionTo (r_Status r) st"
  shows "\<exists>run t. setRunStatus i st reason s = (Inr run, t) \<and> quiet t"
proof -
  have get: "GetWorkflowRun i s = (Inr r, s)" using assms by (simp add: GetWorkflowRun_def takeQ_calm quiet_def)
  have "fine (bnd nowT (\<lambda>now.
      let stamp = fmtRFC3339 now;
          run1 = r\<lparr>r_Status := st, r_UpdatedAt := stamp\<rparr>;
          run2 = (if st = RunInProgress \<and> r_StartedAt run1 = [] then run1\<lparr>r_StartedAt := stamp\<rparr> else run1);
          run3 = (if st \<in> {RunCompleted, RunFailed, RunRolledBack, RunRollbackFailed}
                  then run2\<lparr>r_CompletedAt := stamp\<rparr> else run2);
          run4 = (if reason \<noteq> [] then run3\<lparr>r_FailureReason := reason\<rparr> else run3)
      in seq (saveRun run4)
         (seq (publishRunStatusEvent run4 now reason)
         (ret run4))))"
    unfolding Let_def by (intro fine_intros)
  from fineD [OF this assms(1)] get assms(3) show ?thesis
    by (auto simp: setRunStatus_def bnd_def seq_def unless_def ret_def split: prod.splits)
qed

text \<open>A status change announces the run, and nothing else.\<close>

fun ofRunEvent :: "event \<Rightarrow> bool" where
  "ofRunEvent (RunInProgressEv _ _) = True"
| "ofRunEvent (RunCompletedEv _ _ _) = True"
| "ofRunEvent (RunFailedEv _ _ _) = True"
| "ofRunEvent (RunRolledBackEv _ _ _) = True"
| "ofRunEvent (RunRollingBackEv _ _) = True"
| "ofRunEvent (RunRollbackFailedEv _ _ _) = True"
| "ofRunEvent (RunCancellingEv _ _ _ _) = True"
| "ofRunEvent (RunCancelledEv _ _ _ _) = True"
| "ofRunEvent (RunClosedEv _ _ _ _ _) = True"
| "ofRunEvent _ = False"

definition addsOnly :: "(event \<Rightarrow> bool) \<Rightarrow> 'a tm \<Rightarrow> bool" where
  "addsOnly P m \<longleftrightarrow> (\<forall>s. \<exists>evs. w_published (snd (m s)) = w_published s @ evs \<and> list_all P evs)"

lemma addsOnlyD: "addsOnly P m \<Longrightarrow> m s = (r, t) \<Longrightarrow> \<exists>evs. w_published t = w_published s @ evs \<and> list_all P evs"
  unfolding addsOnly_def by (metis snd_conv)

lemma addsOnly_silent: "silent m \<Longrightarrow> addsOnly P m"
  by (simp add: addsOnly_def silent_def)

lemma addsOnly_publish: "P e \<Longrightarrow> addsOnly P (publish e)"
  by (auto simp: addsOnly_def publish_def)

lemma addsOnly_bnd:
  assumes m: "addsOnly P m" and f: "\<And>x. addsOnly P (f x)"
  shows "addsOnly P (bnd m f)"
  unfolding addsOnly_def
proof
  fix s
  obtain r s1 where r: "m s = (r, s1)" by fastforce
  obtain evs where evs: "w_published s1 = w_published s @ evs" "list_all P evs" using addsOnlyD [OF m r] by blast
  show "\<exists>evs. w_published (snd (bnd m f s)) = w_published s @ evs \<and> list_all P evs"
  proof (cases r)
    case (Inl e)
    with r evs show ?thesis by (auto simp: bnd_def)
  next
    case (Inr x)
    obtain evs' where "w_published (snd (f x s1)) = w_published s1 @ evs'" "list_all P evs'"
      using f unfolding addsOnly_def by blast
    with r evs Inr show ?thesis by (intro exI [of _ "evs @ evs'"]) (simp add: bnd_def)
  qed
qed

lemma addsOnly_seq: "addsOnly P m \<Longrightarrow> addsOnly P m' \<Longrightarrow> addsOnly P (seq m m')"
  by (simp add: seq_def addsOnly_bnd)

lemma addsOnly_if: "(b \<Longrightarrow> addsOnly P m) \<Longrightarrow> (\<not> b \<Longrightarrow> addsOnly P m') \<Longrightarrow> addsOnly P (if b then m else m')"
  by simp

lemma addsOnly_attempt: "addsOnly P m \<Longrightarrow> addsOnly P (attempt m)"
  by (simp add: addsOnly_def attempt_def split_beta)

lemma addsOnly_whenM: "addsOnly P m \<Longrightarrow> addsOnly P (whenM b m)"
  by (simp add: whenM_def addsOnly_silent silent_basic)

lemma addsOnly_forEach: "(\<And>x. x \<in> set xs \<Longrightarrow> addsOnly P (f x)) \<Longrightarrow> addsOnly P (forEach xs f)"
  by (induction xs) (simp_all add: addsOnly_seq addsOnly_silent silent_basic)

lemma publishRunStatusEvent_events: "addsOnly ofRunEvent (publishRunStatusEvent run now reason)"
  by (cases "r_Status run") (simp_all add: publishRunStatusEvent_def addsOnly_publish addsOnly_silent [OF silent_basic(1)])

lemma setRunStatus_events: "addsOnly ofRunEvent (setRunStatus i st reason)"
  unfolding setRunStatus_def Let_def
  by (intro addsOnly_bnd addsOnly_seq publishRunStatusEvent_events addsOnly_silent silent_intros)

end
