(* ===== verification/Case_Core.thy ===== *)
theory Case_Core
  imports Task_Reads
begin

text \<open>
  \<open>case.go\<close>, but for \<open>EndCase\<close>: a case is opened by its requester, tasks are linked to it, and it
  closes by itself once every live task linked to it is completed or cancelled.
\<close>

definition caseClash :: "case_rec \<Rightarrow> case_rec \<Rightarrow> bool" where
  "caseClash c c' \<longleftrightarrow> c_ID c = c_ID c'"

definition OpenCase :: "string \<Rightarrow> case_rec \<Rightarrow> case_rec tm" where
  "OpenCase requesterID c =
     (if requesterID = [] then fail ErrInvalidCase
      else
        bnd nowStr (\<lambda>now.
        bnd newSpecID (\<lambda>i.
        let c' = c\<lparr>c_ID := i, c_RequesterID := requesterID, c_Status := CaseStatusOpen,
                   c_OpenedAt := now, c_ClosedAt := [], c_CreatedAt := now, c_UpdatedAt := now\<rparr>
        in seq (insertQ casesT caseClash c')
           (seq (publish (CaseOpened (c_ID c') (c_RequesterID c') (c_SubjectKind c') (c_SubjectID c')))
           (ret c')))))"

definition GetCase :: "string \<Rightarrow> case_rec tm" where
  "GetCase caseID = takeQ casesT (\<lambda>c. c_ID c = caseID) ErrCaseNotFound"

definition matchesCase :: "case_filter \<Rightarrow> case_rec \<Rightarrow> bool" where
  "matchesCase f c \<longleftrightarrow>
     (cf_RequesterID f \<noteq> [] \<longrightarrow> c_RequesterID c = cf_RequesterID f) \<and>
     (cf_SubjectKind f \<noteq> [] \<longrightarrow> c_SubjectKind c = cf_SubjectKind f) \<and>
     (cf_SubjectID f \<noteq> [] \<longrightarrow> c_SubjectID c = cf_SubjectID f) \<and>
     (cf_Status f \<noteq> CaseStatusOther [] \<longrightarrow> c_Status c = cf_Status f)"

definition caseOrder :: "case_rec \<Rightarrow> case_rec \<Rightarrow> bool" where
  "caseOrder a b \<longleftrightarrow> c_OpenedAt b < c_OpenedAt a \<or> c_OpenedAt a = c_OpenedAt b \<and> c_ID a < c_ID b"

definition ListCases :: "case_filter \<Rightarrow> case_rec list tm" where
  "ListCases f =
     bnd (selectQ casesT (matchesCase f)) (\<lambda>rows. ret (take maxListPage (sortBy caseOrder rows)))"

definition ListMyCases :: "string \<Rightarrow> case_filter \<Rightarrow> case_rec list tm" where
  "ListMyCases requesterID f =
     (if requesterID = [] then fail ErrInvalidCase else ListCases (f\<lparr>cf_RequesterID := requesterID\<rparr>))"

text \<open>The case a task serves: \<open>task_id\<close> is the primary key of the link.\<close>

definition caseOfTask :: "string \<Rightarrow> string option tm" where
  "caseOfTask taskID =
     bnd (selectQ caseTasksT (\<lambda>l. ct_TaskID l = taskID)) (\<lambda>links.
     ret (case links of [] \<Rightarrow> None | l # _ \<Rightarrow> Some (ct_CaseID l)))"

definition linkClash :: "case_task \<Rightarrow> case_task \<Rightarrow> bool" where
  "linkClash l l' \<longleftrightarrow> ct_TaskID l = ct_TaskID l'"

definition LinkCaseTask :: "string \<Rightarrow> string \<Rightarrow> unit tm" where
  "LinkCaseTask caseID taskID =
     bnd (GetCase caseID) (\<lambda>c.
     seq (unless (c_Status c = CaseStatusOpen) ErrCaseNotOpen)
     (seq (GetTask taskID)
     (bnd (caseOfTask taskID) (\<lambda>existing.
      case existing of
        Some other \<Rightarrow> unless (other = caseID) ErrTaskAlreadyInCase
      | None \<Rightarrow>
          bnd nowStr (\<lambda>now.
          insertQ caseTasksT linkClash \<lparr>ct_TaskID = taskID, ct_CaseID = caseID, ct_LinkedAt = now\<rparr>)))))"

definition linkOrder :: "case_task \<Rightarrow> case_task \<Rightarrow> bool" where
  "linkOrder a b \<longleftrightarrow> ct_LinkedAt a < ct_LinkedAt b \<or> ct_LinkedAt a = ct_LinkedAt b \<and> ct_TaskID a < ct_TaskID b"

definition caseLinks :: "string \<Rightarrow> case_task list tm" where
  "caseLinks caseID =
     bnd (selectQ caseTasksT (\<lambda>l. ct_CaseID l = caseID)) (\<lambda>rows. ret (sortBy linkOrder rows))"

text \<open>A task read whose absence is skipped.\<close>

definition GetTaskIfLive :: "string \<Rightarrow> task option tm" where
  "GetTaskIfLive taskID =
     bnd (attempt (GetTask taskID)) (\<lambda>r.
     case r of
       Inl e \<Rightarrow> if e = ErrTaskNotFound then ret None else fail e
     | Inr t \<Rightarrow> ret (Some t))"

definition liveCaseTasks :: "string \<Rightarrow> task list tm" where
  "liveCaseTasks caseID =
     bnd (caseLinks caseID) (\<lambda>links. collect links (\<lambda>l. GetTaskIfLive (ct_TaskID l)))"

definition ListCaseTasks :: "string \<Rightarrow> task list tm" where
  "ListCaseTasks caseID =
     seq (GetCase caseID)
     (bnd (caseLinks caseID) (\<lambda>links. collect links (\<lambda>l. GetTaskIfLive (ct_TaskID l))))"

definition settlesCase :: "task_status \<Rightarrow> bool" where
  "settlesCase s \<longleftrightarrow> s = TaskStatusCompleted \<or> s = TaskStatusCancelled"

definition closeCaseIfSettled :: "string \<Rightarrow> unit tm" where
  "closeCaseIfSettled taskID =
     bnd (caseOfTask taskID) (\<lambda>found.
     case found of
       None \<Rightarrow> ret ()
     | Some caseID \<Rightarrow>
         bnd (liveCaseTasks caseID) (\<lambda>tasks.
         if tasks = [] then ret ()
         else if \<not> list_all (\<lambda>t. settlesCase (t_Status t)) tasks then ret ()
         else
           bnd nowStr (\<lambda>now.
           bnd (updateQ casesT (\<lambda>c. c_ID c = caseID \<and> c_Status c = CaseStatusOpen)
                  (\<lambda>c. c\<lparr>c_Status := CaseStatusDone, c_ClosedAt := now, c_UpdatedAt := now\<rparr>)) (\<lambda>n.
           whenM (n = 1) (publish (CaseClosed caseID CaseStatusDone now))))))"

section \<open>Preservation\<close>

lemma keeps_GetCase [keeps_intros]: "keeps I (GetCase i)"
  unfolding GetCase_def by (rule keeps_intros)

lemma keeps_ListCases [keeps_intros]: "keeps I (ListCases f)"
  unfolding ListCases_def by (intro keeps_intros)

lemma keeps_caseOfTask [keeps_intros]: "keeps I (caseOfTask i)"
  unfolding caseOfTask_def by (intro keeps_intros)

lemma keeps_caseLinks [keeps_intros]: "keeps I (caseLinks i)"
  unfolding caseLinks_def by (intro keeps_intros)

lemma keeps_GetTaskIfLive [keeps_intros]: "keeps I (GetTaskIfLive i)"
  unfolding GetTaskIfLive_def by (auto split: sum.split intro!: keeps_intros)

lemma keeps_liveCaseTasks [keeps_intros]: "keeps I (liveCaseTasks i)"
  unfolding liveCaseTasks_def by (intro keeps_intros)

lemma keeps_closeCaseIfSettled:
  assumes "\<And>caseID now. keeps I (updateQ casesT (\<lambda>c. c_ID c = caseID \<and> c_Status c = CaseStatusOpen)
    (\<lambda>c. c\<lparr>c_Status := CaseStatusDone, c_ClosedAt := now, c_UpdatedAt := now\<rparr>))"
  shows "keeps I (closeCaseIfSettled i)"
  unfolding closeCaseIfSettled_def by (auto split: option.split intro!: keeps_intros assms)

lemma closeCaseIfSettled_frame [keeps_intros]: "ignores casesT I \<Longrightarrow> keeps I (closeCaseIfSettled i)"
  by (rule keeps_closeCaseIfSettled) (rule keeps_ignored_update)

text \<open>The live tasks of a case, as the tables hold them.\<close>

definition caseStatuses :: "string \<Rightarrow> db \<Rightarrow> task_status set" where
  "caseStatuses caseID d =
     {t_Status row | l row. l \<in> set (d_caseTasks d) \<and> ct_CaseID l = caseID \<and>
        List.find (liveTask (ct_TaskID l)) (d_tasks d) = Some row}"

lemma GetTaskIfLive_Inr:
  assumes "GetTaskIfLive i s = (Inr r, t)"
  shows "w_db t = w_db s \<and> rel_option sameRow (List.find (liveTask i) (d_tasks (w_db s))) r"
proof -
  from assms obtain g s' where g: "GetTask i s = (g, s')"
    and r: "(case g of Inl e \<Rightarrow> if e = ErrTaskNotFound then ret None else fail e
      | Inr t \<Rightarrow> ret (Some t)) s' = (Inr r, t)"
    unfolding GetTaskIfLive_def bnd_Inr attempt_Inr by blast
  show ?thesis
  proof (cases g)
    case (Inl e)
    with g r show ?thesis by (auto simp: succ split: if_splits dest!: GetTask_NotFound)
  next
    case (Inr u)
    with g r show ?thesis by (auto simp: succ dest!: GetTask_Inr)
  qed
qed

lemma liveCaseTasks_Inr:
  assumes "liveCaseTasks i s = (Inr ts, t)"
  shows "w_db t = w_db s \<and> t_Status ` set ts = caseStatuses i (w_db s) \<and>
    (\<forall>u \<in> set ts. \<exists>row. List.find (liveTask (t_ID u)) (d_tasks (w_db s)) = Some row \<and> sameRow row u)"
proof -
  define live where "live j = List.find (liveTask j) (d_tasks (w_db s))" for j
  have all: "w_db t = w_db s \<and> t_Status ` set us = {t_Status row | l row. l \<in> set ls \<and> live (ct_TaskID l) = Some row} \<and>
      (\<forall>u \<in> set us. \<exists>row. live (t_ID u) = Some row \<and> sameRow row u)"
    if "collect ls (\<lambda>l. GetTaskIfLive (ct_TaskID l)) s' = (Inr us, t)" "w_db s' = w_db s" for ls s' us
    using that
  proof (induction ls arbitrary: s' us)
    case (Cons l ls)
    then obtain y s1 us' where y: "GetTaskIfLive (ct_TaskID l) s' = (Inr y, s1)"
      and rest: "collect ls (\<lambda>l. GetTaskIfLive (ct_TaskID l)) s1 = (Inr us', t)"
      and us: "us = (case y of None \<Rightarrow> us' | Some v \<Rightarrow> v # us')"
      by (auto simp: succ)
    have s1: "w_db s1 = w_db s" and rel: "rel_option sameRow (live (ct_TaskID l)) y"
      using GetTaskIfLive_Inr [OF y] Cons.prems(2) by (simp_all add: live_def)
    note IH = Cons.IH [OF rest s1]
    show ?case
    proof (cases y)
      case None
      with rel have "live (ct_TaskID l) = None" by (auto simp: option_rel_Some1 split: option.splits elim: option.rel_cases)
      with IH None us show ?thesis by auto
    next
      case (Some u)
      with rel obtain row where row: "live (ct_TaskID l) = Some row" "sameRow row u"
        by (auto elim: option.rel_cases)
      then have "t_ID u = ct_TaskID l"
        by (auto simp: live_def liveTask_def sameRow_fields dest!: find_Some_in)
      with IH Some us row show ?thesis by (auto simp: sameRow_fields)
    qed
  qed (simp add: succ)
  from assms obtain ls s' where ls: "caseLinks i s = (Inr ls, s')"
    and run: "collect ls (\<lambda>l. GetTaskIfLive (ct_TaskID l)) s' = (Inr ts, t)"
    by (auto simp: liveCaseTasks_def succ)
  then have "set ls = {l \<in> set (d_caseTasks (w_db s)). ct_CaseID l = i}" and "w_db s' = w_db s"
    by (auto simp: caseLinks_def succ)
  with all [OF run] show ?thesis by (auto simp: caseStatuses_def live_def)
qed

lemma caseOfTask_Inr:
  assumes "caseOfTask i s = (Inr c, t)"
  shows "w_db t = w_db s \<and> c = map_option ct_CaseID (List.find (\<lambda>l. ct_TaskID l = i) (d_caseTasks (w_db s)))"
proof -
  have "(case filter P xs of [] \<Rightarrow> None | l # _ \<Rightarrow> Some (f l)) = map_option f (List.find P xs)" for P xs and f :: "case_task \<Rightarrow> string"
    by (induction xs) auto
  with assms show ?thesis by (auto simp: caseOfTask_def succ)
qed

text \<open>
  What closing does to the tables: it closes the task's case exactly when the case is open, some
  linked task is live, and every live linked task is completed or cancelled.
\<close>

lemma closeCaseIfSettled_Inr:
  assumes "closeCaseIfSettled i s = (Inr (), t)"
  shows "case List.find (\<lambda>l. ct_TaskID l = i) (d_caseTasks (w_db s)) of
      None \<Rightarrow> w_db t = w_db s
    | Some l \<Rightarrow>
        if caseStatuses (ct_CaseID l) (w_db s) \<noteq> {} \<and> (\<forall>st \<in> caseStatuses (ct_CaseID l) (w_db s). settlesCase st)
        then \<exists>now. now \<noteq> [] \<and> w_db t = (w_db s)\<lparr>d_cases :=
          updWhere (\<lambda>c. c_ID c = ct_CaseID l \<and> c_Status c = CaseStatusOpen)
            (\<lambda>c. c\<lparr>c_Status := CaseStatusDone, c_ClosedAt := now, c_UpdatedAt := now\<rparr>) (d_cases (w_db s))\<rparr>
        else w_db t = w_db s"
proof -
  from assms obtain found s1 where found: "caseOfTask i s = (Inr found, s1)"
    and rest: "(case found of None \<Rightarrow> ret () | Some caseID \<Rightarrow>
         bnd (liveCaseTasks caseID) (\<lambda>tasks.
         if tasks = [] then ret ()
         else if \<not> list_all (\<lambda>t. settlesCase (t_Status t)) tasks then ret ()
         else
           bnd nowStr (\<lambda>now.
           bnd (updateQ casesT (\<lambda>c. c_ID c = caseID \<and> c_Status c = CaseStatusOpen)
                  (\<lambda>c. c\<lparr>c_Status := CaseStatusDone, c_ClosedAt := now, c_UpdatedAt := now\<rparr>)) (\<lambda>n.
           whenM (n = 1) (publish (CaseClosed caseID CaseStatusDone now)))))) s1 = (Inr (), t)"
    unfolding closeCaseIfSettled_def bnd_Inr by blast
  note found' = caseOfTask_Inr [OF found]
  show ?thesis
  proof (cases "List.find (\<lambda>l. ct_TaskID l = i) (d_caseTasks (w_db s))")
    case None
    with found' rest show ?thesis by (simp add: succ)
  next
    case (Some l)
    with found' have "found = Some (ct_CaseID l)" and s1: "w_db s1 = w_db s" by simp_all
    with rest obtain ts s2 where ts: "liveCaseTasks (ct_CaseID l) s1 = (Inr ts, s2)"
      and rest2: "(if ts = [] then ret ()
         else if \<not> list_all (\<lambda>t. settlesCase (t_Status t)) ts then ret ()
         else
           bnd nowStr (\<lambda>now.
           bnd (updateQ casesT (\<lambda>c. c_ID c = ct_CaseID l \<and> c_Status c = CaseStatusOpen)
                  (\<lambda>c. c\<lparr>c_Status := CaseStatusDone, c_ClosedAt := now, c_UpdatedAt := now\<rparr>)) (\<lambda>n.
           whenM (n = 1) (publish (CaseClosed (ct_CaseID l) CaseStatusDone now))))) s2 = (Inr (), t)"
      by (auto simp: bnd_Inr)
    have s2: "w_db s2 = w_db s" and sts: "t_Status ` set ts = caseStatuses (ct_CaseID l) (w_db s)"
      using liveCaseTasks_Inr [OF ts] s1 by simp_all
    have none: "ts = [] \<longleftrightarrow> caseStatuses (ct_CaseID l) (w_db s) = {}" using sts by auto
    have settled: "list_all (\<lambda>t. settlesCase (t_Status t)) ts \<longleftrightarrow>
        (\<forall>st \<in> caseStatuses (ct_CaseID l) (w_db s). settlesCase st)"
      by (simp add: list_all_iff flip: sts)
    show ?thesis
    proof (cases "ts \<noteq> [] \<and> list_all (\<lambda>t. settlesCase (t_Status t)) ts")
      case True
      with rest2 have "\<exists>now. now \<noteq> [] \<and> w_db t = (w_db s2)\<lparr>d_cases :=
          updWhere (\<lambda>c. c_ID c = ct_CaseID l \<and> c_Status c = CaseStatusOpen)
            (\<lambda>c. c\<lparr>c_Status := CaseStatusDone, c_ClosedAt := now, c_UpdatedAt := now\<rparr>) (d_cases (w_db s2))\<rparr>"
        by (intro exI [of _ "fmtRFC3339 (w_clock s2 (w_ticks s2))"]) (auto simp: succ split: if_splits)
      with True Some s2 none settled show ?thesis by simp
    next
      case False
      with rest2 have "w_db t = w_db s2" by (simp add: succ split: if_splits)
      moreover have "\<not> (caseStatuses (ct_CaseID l) (w_db s) \<noteq> {} \<and>
          (\<forall>st \<in> caseStatuses (ct_CaseID l) (w_db s). settlesCase st))"
        using False none settled by blast
      ultimately show ?thesis using s2 unfolding Some option.case by (simp only: if_False)
    qed
  qed
qed

section \<open>What the case operations never touch\<close>

lemma steady_case_reads [steady_intros]:
  "steady (GetCase i)" "steady (caseOfTask j)" "steady (caseLinks i)" "steady (GetTaskIfLive j)"
  unfolding GetCase_def caseOfTask_def caseLinks_def GetTaskIfLive_def by (intro steady_intros)+

lemma steady_liveCaseTasks [steady_intros]: "steady (liveCaseTasks i)"
  unfolding liveCaseTasks_def by (intro steady_intros)

lemma steady_closeCaseIfSettled [steady_intros]: "steady (closeCaseIfSettled i)"
  unfolding closeCaseIfSettled_def by (intro steady_intros)

end
