(* ===== verification/Task_Write.thy ===== *)
theory Task_Write
  imports Code_Sequence Run_Core Case_Core
begin

text \<open>
  The writes of \<open>task_impl_task.go\<close>: creating, updating and deleting a task, and the tags it brings
  along. An update is gated twice, by the transition table and, from pending to in progress, by the
  active blockers; it is written under \<open>deleted = false\<close>, so one that loses the race with a delete
  reports the task gone.
\<close>

section \<open>Tags\<close>

definition tagClash :: "tag \<Rightarrow> tag \<Rightarrow> bool" where
  "tagClash g g' \<longleftrightarrow> tg_ID g = tg_ID g' \<or> tg_Name g = tg_Name g' \<or> tg_Code g = tg_Code g'"

definition upsertTagByName :: "string \<Rightarrow> string tm" where
  "upsertTagByName name =
     bnd (attempt (takeQ tagsT (\<lambda>g. tg_Name g = name) ErrTagNotFound)) (\<lambda>r.
     case r of
       Inr found \<Rightarrow> ret (tg_ID found)
     | Inl e \<Rightarrow>
         if e \<noteq> ErrTagNotFound then fail e
         else
           bnd nowStr (\<lambda>now.
           bnd newSpecID (\<lambda>i.
           bnd (attempt (transaction
                 (bnd (nextCode ''tag'' ''TG'') (\<lambda>code.
                  insertQ tagsT tagClash
                    \<lparr>tg_ID = i, tg_Code = code, tg_Name = name, tg_Color = [], tg_Description = [],
                     tg_CreatedAt = now, tg_UpdatedAt = now\<rparr>)))) (\<lambda>tx.
           case tx of
             Inr _ \<Rightarrow> ret i
           | Inl txErr \<Rightarrow>
               bnd (attempt (takeQ tagsT (\<lambda>g. tg_Name g = name) ErrTagNotFound)) (\<lambda>again.
               case again of Inr existing \<Rightarrow> ret (tg_ID existing) | Inl _ \<Rightarrow> fail txErr)))))"

definition setTaskTags :: "string \<Rightarrow> string list \<Rightarrow> unit tm" where
  "setTaskTags taskID tagNames =
     seq (deleteQ taggingsT (\<lambda>r. tn_TaskID r = taskID))
     (forEach tagNames (\<lambda>name.
       if name = [] then ret ()
       else bnd (upsertTagByName name) (\<lambda>tagID.
            seq (CreateRelationship (relOf RelLabelHasTag taskID tagID)) (ret ()))))"

section \<open>Create, update, delete\<close>

definition taskClash :: "task \<Rightarrow> task \<Rightarrow> bool" where
  "taskClash t t' \<longleftrightarrow> t_ID t = t_ID t'"

text \<open>The row of a task: every field but \<open>State\<close>, which is \<open>spec:"-"\<close>.\<close>

definition taskRow :: "task \<Rightarrow> task" where
  "taskRow t = t\<lparr>t_State := []\<rparr>"

definition CreateTask :: "task \<Rightarrow> task tm" where
  "CreateTask task =
     bnd taskStates (\<lambda>states.
     bnd newSpecID (\<lambda>i.
     bnd nowStr (\<lambda>now.
     let task1 = task\<lparr>t_ID := i, t_Status := TaskStatusPending, t_CreatedAt := now, t_UpdatedAt := now,
           t_Priority := (if t_Priority task = TaskPriorityOther [] then TaskPriorityMedium else t_Priority task),
           t_CompletedAt := []\<rparr>
     in seq (insertQ tasksT taskClash (taskRow task1))
        (seq (whenM (t_WorkflowRunID task1 \<noteq> [])
               (seq (attempt (LinkTaskToRun (t_WorkflowRunID task1) i)) (ret ())))
        (seq (whenM (t_Tags task1 \<noteq> []) (seq (attempt (setTaskTags i (t_Tags task1))) (ret ())))
        (bnd (loadTagNames i) (\<lambda>tags.
         let out = task1\<lparr>t_Tags := tags, t_State := StateNameFor states (t_Status task1)\<rparr>
         in seq (publish (TaskCreated i (t_Priority out) (t_WorkflowRunID out)))
            (ret out))))))))"

text \<open>The fields \<open>UpdateTask\<close> keeps, stamps or clears before it writes what the caller sent.\<close>

definition mergedTask :: "task \<Rightarrow> task \<Rightarrow> string \<Rightarrow> task" where
  "mergedTask current task now =
     task\<lparr>t_UpdatedAt := now,
          t_CreatedAt := t_CreatedAt current,
          t_CompletedAt := (if isTerminalStatus (t_Status task) \<and> t_CompletedAt task = [] then now
                            else t_CompletedAt task),
          t_AssignedTo := t_AssignedTo current,
          t_HeldBy := (if t_Status task \<noteq> TaskStatusBlocked then [] else t_HeldBy task),
          t_WorkflowRunID := (if t_WorkflowRunID task = [] then t_WorkflowRunID current
                              else t_WorkflowRunID task),
          t_Deleted := False\<rparr>"

definition announceUpdate :: "task \<Rightarrow> task \<Rightarrow> string \<Rightarrow> unit tm" where
  "announceUpdate current out now =
     (let changed = nonStatusChangedFields current out in
      seq (whenM (changed \<noteq> []) (publish (TaskUpdated (t_ID out) changed (t_WorkflowRunID out))))
      (whenM (t_Status current \<noteq> t_Status out)
        (seq (publish (TaskStatusChanged (t_ID out) (t_Status current) (t_Status out) (t_WorkflowRunID out)))
        (seq (whenM (isTerminalStatus (t_Status out))
               (publish (TaskCompleted (t_ID out) (t_Status out)
                 (if t_CompletedAt out = [] then now else t_CompletedAt out) (t_WorkflowRunID out))))
        (whenM (settlesCase (t_Status out))
          (seq (attempt (closeCaseIfSettled (t_ID out))) (ret ())))))))"

definition blockerGate :: "task \<Rightarrow> task \<Rightarrow> unit tm" where
  "blockerGate current task =
     (if t_Status current = TaskStatusPending \<and> t_Status task = TaskStatusInProgress
      then bnd (findActiveBlockers (t_ID task)) (\<lambda>blockers. unless (blockers = []) (BlockedError blockers))
      else ret ())"

text \<open>
  The part of \<open>UpdateTask\<close> after the guards: it writes under \<open>deleted = false\<close>, whatever happened to
  the row since it was read, and \<open>afterUpdate\<close> is what follows the write.
\<close>

definition afterUpdate :: "task \<Rightarrow> task \<Rightarrow> string \<Rightarrow> task tm" where
  "afterUpdate current task1 now =
     seq (attempt (setTaskTags (t_ID task1) (t_Tags task1)))
     (bnd (loadTagNames (t_ID task1)) (\<lambda>tags.
      bnd taskStates (\<lambda>states.
      let out = task1\<lparr>t_Tags := tags, t_State := StateNameFor states (t_Status task1)\<rparr> in
      seq (whenM (t_WorkflowRunID out \<noteq> [] \<and> t_WorkflowRunID current = [])
            (seq (attempt (LinkTaskToRun (t_WorkflowRunID out) (t_ID out))) (ret ())))
      (seq (announceUpdate current out now)
      (ret out)))))"

definition applyUpdate :: "task \<Rightarrow> task \<Rightarrow> task tm" where
  "applyUpdate current task =
     bnd nowStr (\<lambda>now.
     bnd (updateQ tasksT (liveTask (t_ID task)) (\<lambda>_. taskRow (mergedTask current task now))) (\<lambda>n.
     seq (unless (n \<noteq> 0) ErrTaskNotFound)
     (afterUpdate current (mergedTask current task now) now)))"

definition UpdateTask :: "task \<Rightarrow> task tm" where
  "UpdateTask task =
     bnd (GetTask (t_ID task)) (\<lambda>current.
     seq (unless (t_Status current = t_Status task \<or> CanTransitionTo (t_Status current) (t_Status task))
            ErrInvalidStatusTransition)
     (seq (blockerGate current task)
     (applyUpdate current task)))"

definition DeleteTask :: "string \<Rightarrow> unit tm" where
  "DeleteTask taskID =
     seq (GetTask taskID)
     (seq (updateQ tasksT (\<lambda>t. t_ID t = taskID) (\<lambda>t. t\<lparr>t_Deleted := True\<rparr>))
     (seq (attempt (closeCaseIfSettled taskID))
     (ret ())))"

section \<open>What the parts leave alone\<close>

lemma keeps_nextCode [keeps_intros]: "ignores sequencesT I \<Longrightarrow> keeps I (nextCode et p)"
proof -
  assume ig: "ignores sequencesT I"
  have seed: "I (d\<lparr>d_sequences := x\<rparr>) = I d" for d x
  proof -
    have "snd sequencesT (\<lambda>_. x) d = d\<lparr>d_sequences := x\<rparr>" by simp
    with ig show ?thesis unfolding ignores_def by metis
  qed
  from ig show ?thesis unfolding nextCode_def
    by (auto split: list.split intro!: keeps_intros keeps_sql simp: seed)
qed

lemma keeps_upsertTagByName [keeps_intros]:
  "ignores sequencesT I \<Longrightarrow> ignores tagsT I \<Longrightarrow> keeps I (upsertTagByName name)"
  unfolding upsertTagByName_def by (auto split: sum.split intro!: keeps_intros)

lemma keeps_setTaskTags [keeps_intros]:
  assumes "ignores sequencesT I" and "ignores tagsT I" and tg: "ignores taggingsT I"
  shows "keeps I (setTaskTags i names)"
proof -
  have join: "I (addJoin JTagging a b now d) = I d" for a b now d
  proof -
    have "addJoin JTagging a b now d =
        snd taggingsT (\<lambda>rs. rs @ [\<lparr>tn_TaskID = a, tn_TagID = b, tn_TaggedAt = now\<rparr>]) d" by simp
    with tg show ?thesis unfolding ignores_def by metis
  qed
  show ?thesis unfolding setTaskTags_def
    by (intro keeps_intros assms keeps_CreateRelationship) (auto simp: relOf_def join simp del: addJoin.simps)
qed

lemma keeps_LinkTaskToRun:
  assumes "\<And>j v d. I d \<Longrightarrow> I (writeFK TaskWorkflowRunID j v d)"
  shows "keeps I (LinkTaskToRun r i)"
  unfolding LinkTaskToRun_def
  by (intro keeps_intros keeps_CreateRelationship) (auto simp: relOf_def simp del: writeFK.simps intro: assms)

lemma keeps_blockerGate [keeps_intros]: "keeps I (blockerGate current task)"
  unfolding blockerGate_def by (intro keeps_intros)

lemma keeps_announceUpdate [keeps_intros]: "ignores casesT I \<Longrightarrow> keeps I (announceUpdate current out now)"
  unfolding announceUpdate_def Let_def by (intro keeps_intros)

text \<open>
  What a task invariant needs of the statements \<open>CreateTask\<close>, \<open>UpdateTask\<close> and \<open>DeleteTask\<close> send.
\<close>

lemma keeps_CreateTask:
  assumes "ignores sequencesT I" "ignores tagsT I" "ignores taggingsT I"
    and "\<And>j v d. I d \<Longrightarrow> I (writeFK TaskWorkflowRunID j v d)"
    and "\<And>t. t_Status t = TaskStatusPending \<Longrightarrow> t_CompletedAt t = [] \<Longrightarrow> keeps I (insertQ tasksT taskClash (taskRow t))"
  shows "keeps I (CreateTask task)"
  unfolding CreateTask_def Let_def
  by (intro keeps_intros keeps_LinkTaskToRun assms) simp_all

lemma keeps_afterUpdate:
  assumes "ignores sequencesT I" "ignores tagsT I" "ignores taggingsT I" "ignores casesT I"
    and "\<And>j v d. I d \<Longrightarrow> I (writeFK TaskWorkflowRunID j v d)"
  shows "keeps I (afterUpdate current task1 now)"
  unfolding afterUpdate_def Let_def by (intro keeps_intros keeps_LinkTaskToRun assms)

lemma keeps_applyUpdate:
  assumes "ignores sequencesT I" "ignores tagsT I" "ignores taggingsT I" "ignores casesT I"
    and "\<And>j v d. I d \<Longrightarrow> I (writeFK TaskWorkflowRunID j v d)"
    and "\<And>now. now \<noteq> [] \<Longrightarrow>
      keeps I (updateQ tasksT (liveTask (t_ID task)) (\<lambda>_. taskRow (mergedTask current task now)))"
  shows "keeps I (applyUpdate current task)"
proof -
  have now: "keeps I (bnd nowStr f)" if "\<And>x. x \<noteq> [] \<Longrightarrow> keeps I (f x)" for f :: "string \<Rightarrow> 'b tm"
    using that by (simp add: keeps_def nowStr_def bnd_def nowT_def ret_def)
  show ?thesis unfolding applyUpdate_def
    by (intro keeps_bnd keeps_seq now assms keeps_unless keeps_afterUpdate)
qed

lemma keeps_UpdateTask:
  assumes "\<And>current. keeps I (applyUpdate current task)"
  shows "keeps I (UpdateTask task)"
  unfolding UpdateTask_def by (intro keeps_intros assms)

lemma keeps_DeleteTask:
  assumes "ignores casesT I" and "keeps I (updateQ tasksT (\<lambda>t. t_ID t = i) (\<lambda>t. t\<lparr>t_Deleted := True\<rparr>))"
  shows "keeps I (DeleteTask i)"
  unfolding DeleteTask_def by (intro keeps_intros assms)

section \<open>Invariants of the task table\<close>

text \<open>A task that is over says when, and ids are unique.\<close>

definition tasksDone :: "db \<Rightarrow> bool" where
  "tasksDone d \<longleftrightarrow> (\<forall>t \<in> set (d_tasks d). isTerminalStatus (t_Status t) \<longrightarrow> t_CompletedAt t \<noteq> [])"

definition tasksUnique :: "db \<Rightarrow> bool" where
  "tasksUnique d \<longleftrightarrow> distinct (map t_ID (d_tasks d))"

lemma taskRow_sel [simp]:
  "t_ID (taskRow t) = t_ID t" "t_Status (taskRow t) = t_Status t" "t_CompletedAt (taskRow t) = t_CompletedAt t"
  "t_Deleted (taskRow t) = t_Deleted t" "t_HeldBy (taskRow t) = t_HeldBy t"
  "t_WorkflowRunID (taskRow t) = t_WorkflowRunID t" "t_AssignedTo (taskRow t) = t_AssignedTo t"
  "t_AssigneeKind (taskRow t) = t_AssigneeKind t" "t_Rank (taskRow t) = t_Rank t"
  by (simp_all add: taskRow_def)

lemma mergedTask_sel [simp]:
  "t_ID (mergedTask c t now) = t_ID t" "t_Status (mergedTask c t now) = t_Status t"
  "t_Deleted (mergedTask c t now) = False" "t_AssignedTo (mergedTask c t now) = t_AssignedTo c"
  "t_CreatedAt (mergedTask c t now) = t_CreatedAt c" "t_Rank (mergedTask c t now) = t_Rank t"
  "t_AssigneeKind (mergedTask c t now) = t_AssigneeKind t"
  by (simp_all add: mergedTask_def)

lemma tasksDone_ignores [keeps_intros]:
  "ignores sequencesT tasksDone" "ignores tagsT tasksDone" "ignores taggingsT tasksDone"
  "ignores casesT tasksDone" "ignores runsT tasksDone" "ignores todosT tasksDone"
  "ignores assignmentsT tasksDone" "ignores caseTasksT tasksDone" "ignores caseVotesT tasksDone"
  "ignores agentsT tasksDone"
  by (simp_all add: ignores_def tasksDone_def)

lemma tasksUnique_ignores [keeps_intros]:
  "ignores sequencesT tasksUnique" "ignores tagsT tasksUnique" "ignores taggingsT tasksUnique"
  "ignores casesT tasksUnique" "ignores runsT tasksUnique" "ignores todosT tasksUnique"
  "ignores assignmentsT tasksUnique" "ignores caseTasksT tasksUnique" "ignores caseVotesT tasksUnique"
  "ignores agentsT tasksUnique"
  by (simp_all add: ignores_def tasksUnique_def)

lemma tasksDone_writeFK: "tasksDone d \<Longrightarrow> tasksDone (writeFK c j v d)"
  by (cases c) (auto simp: tasksDone_def writeCol_def set_updWhere)

lemma tasksUnique_writeFK: "tasksUnique d \<Longrightarrow> tasksUnique (writeFK c j v d)"
  by (cases c) (auto simp: tasksUnique_def writeCol_def map_updWhere)

lemma tasksDone_update:
  "(\<And>r. P r \<Longrightarrow> isTerminalStatus (t_Status r) \<longrightarrow> t_CompletedAt r \<noteq> [] \<Longrightarrow>
     isTerminalStatus (t_Status (f r)) \<longrightarrow> t_CompletedAt (f r) \<noteq> []) \<Longrightarrow> keeps tasksDone (updateQ tasksT P f)"
  by (rule tasks.keeps_row_update [where J = "\<lambda>t. isTerminalStatus (t_Status t) \<longrightarrow> t_CompletedAt t \<noteq> []"])
    (simp_all add: tasksDone_def)

lemma tasksUnique_update:
  "(\<And>r. P r \<Longrightarrow> t_ID (f r) = t_ID r) \<Longrightarrow> keeps tasksUnique (updateQ tasksT P f)"
  by (rule keeps_updateQ) (simp add: tasksUnique_def map_updWhere_on)

lemma CreateTask_done: "keeps tasksDone (CreateTask task)"
  by (intro keeps_CreateTask keeps_intros tasksDone_writeFK
      tasks.keeps_row_insert [where J = "\<lambda>t. isTerminalStatus (t_Status t) \<longrightarrow> t_CompletedAt t \<noteq> []"])
    (simp_all add: tasksDone_def isTerminalStatus_def)

lemma CreateTask_unique: "keeps tasksUnique (CreateTask task)"
  by (intro keeps_CreateTask keeps_intros tasksUnique_writeFK keeps_insertQ)
    (auto simp: tasksUnique_def taskClash_def)

lemma UpdateTask_done: "keeps tasksDone (UpdateTask task)"
  by (rule keeps_UpdateTask, rule keeps_applyUpdate)
    (simp_all add: tasksDone_ignores tasksDone_writeFK tasksDone_update mergedTask_def del: writeFK.simps)

lemma UpdateTask_unique: "keeps tasksUnique (UpdateTask task)"
  by (rule keeps_UpdateTask, rule keeps_applyUpdate)
    (simp_all add: tasksUnique_ignores tasksUnique_writeFK del: writeFK.simps,
     rule tasksUnique_update, simp add: liveTask_def)

lemma DeleteTask_done: "keeps tasksDone (DeleteTask i)"
  by (intro keeps_DeleteTask keeps_intros tasksDone_update) simp_all

lemma DeleteTask_unique: "keeps tasksUnique (DeleteTask i)"
  by (intro keeps_DeleteTask keeps_intros tasksUnique_update) simp_all

section \<open>What the writes never touch\<close>

lemma steady_upsertTagByName [steady_intros]: "steady (upsertTagByName name)"
  unfolding upsertTagByName_def by (intro steady_intros)

lemma steady_setTaskTags [steady_intros]: "steady (setTaskTags i names)"
  unfolding setTaskTags_def by (intro steady_intros)

lemma steady_blockerGate [steady_intros]: "steady (blockerGate current task)"
  unfolding blockerGate_def by (intro steady_intros)

lemma steady_announceUpdate [steady_intros]: "steady (announceUpdate current out now)"
  unfolding announceUpdate_def Let_def by (intro steady_intros)

lemma steady_applyUpdate [steady_intros]: "steady (applyUpdate current task)"
  unfolding applyUpdate_def afterUpdate_def Let_def by (intro steady_intros)

lemma steady_task_writes [steady_intros]: "steady (CreateTask task)" "steady (UpdateTask task)" "steady (DeleteTask i)"
  unfolding CreateTask_def UpdateTask_def DeleteTask_def Let_def by (intro steady_intros)+

section \<open>What an update does\<close>

text \<open>The task table but for the run column, which is all the calls after the write may touch.\<close>

definition modRun :: "task \<Rightarrow> task" where
  "modRun t = t\<lparr>t_WorkflowRunID := []\<rparr>"

lemma modRun_writeFK: "map modRun (d_tasks (writeFK TaskWorkflowRunID j v d)) = map modRun (d_tasks d)"
  by (auto simp: writeCol_def updWhere_def modRun_def)

lemma afterUpdate_modRun: "keeps (\<lambda>d. map modRun (d_tasks d) = xs) (afterUpdate current task1 now)"
  by (rule keeps_afterUpdate) (simp_all add: ignores_def modRun_writeFK del: writeFK.simps)

lemma afterUpdate_Inr: "afterUpdate current task1 now s = (Inr out, t) \<Longrightarrow> sameRow task1 out"
  by (auto simp: afterUpdate_def Let_def succ sameRow_def)

lemma surely_announceUpdate [surely_intros]: "surely (announceUpdate current out now)"
  unfolding announceUpdate_def Let_def by (intro surely_intros)

lemma applyUpdate_Inr:
  assumes "applyUpdate current task s = (Inr out, t)"
  shows "\<exists>now. now \<noteq> [] \<and> affected (liveTask (t_ID task)) (d_tasks (w_db s)) \<noteq> 0 \<and>
    map modRun (d_tasks (w_db t)) = map modRun
      (updWhere (liveTask (t_ID task)) (\<lambda>_. taskRow (mergedTask current task now)) (d_tasks (w_db s))) \<and>
    sameRow (mergedTask current task now) out"
proof -
  from assms obtain now s0 n s1 where now: "nowStr s = (Inr now, s0)"
    and upd: "updateQ tasksT (liveTask (t_ID task)) (\<lambda>_. taskRow (mergedTask current task now)) s0 = (Inr n, s1)"
    and n: "n \<noteq> 0" and after: "afterUpdate current (mergedTask current task now) now s1 = (Inr out, t)"
    unfolding applyUpdate_def bnd_Inr seq_Inr unless_Inr by blast
  note now = nowStr_run [OF now]
  let ?rows = "updWhere (liveTask (t_ID task)) (\<lambda>_. taskRow (mergedTask current task now)) (d_tasks (w_db s))"
  have rows: "affected (liveTask (t_ID task)) (d_tasks (w_db s)) \<noteq> 0" "d_tasks (w_db s1) = ?rows"
    using upd n now by (auto simp: updateQ_Inr)
  have "map modRun (d_tasks (w_db t)) = map modRun ?rows"
    using keepsD [OF afterUpdate_modRun, of s1 "map modRun ?rows"] after rows(2) by (metis snd_conv)
  with now rows(1) afterUpdate_Inr [OF after] show ?thesis by blast
qed

text \<open>No error of the write phase leaves anything written or published.\<close>

lemma afterUpdate_Inl:
  assumes "afterUpdate current task1 now s = (Inl e, t)"
  shows "e = ErrSettings \<or> (\<exists>x. e = ErrTaskStates x)"
proof -
  have "surely (seq (whenM b (seq (attempt m) (ret ()))) (seq (announceUpdate current out now) (ret out)))"
    for b out and m :: "unit tm"
    by (intro surely_intros)
  with assms StoredTaskStates_error show ?thesis
    by (auto simp: afterUpdate_def Let_def bnd_Inl seq_Inl [of "attempt m" for m] attempt_Inl taskStates_def surely_def)
qed

lemma applyUpdate_Inl:
  assumes "applyUpdate current task s = (Inl e, t)" and "e \<noteq> ErrSettings" and "\<And>x. e \<noteq> ErrTaskStates x"
  shows "w_db t = w_db s \<and> w_published t = w_published s"
proof -
  from assms(1) obtain now s0 where now: "nowStr s = (Inr now, s0)"
    and rest: "updateQ tasksT (liveTask (t_ID task)) (\<lambda>_. taskRow (mergedTask current task now)) s0 = (Inl e, t) \<or>
      (\<exists>n. \<not> n \<noteq> 0 \<and> updateQ tasksT (liveTask (t_ID task)) (\<lambda>_. taskRow (mergedTask current task now)) s0 = (Inr n, t)) \<or>
      (\<exists>s1. afterUpdate current (mergedTask current task now) now s1 = (Inl e, t))"
    unfolding applyUpdate_def bnd_Inl seq_Inl unless_Inl unless_Inr nowStr_Inl by blast
  note now = nowStr_run [OF now]
  from rest show ?thesis
  proof (elim disjE exE conjE)
    assume "updateQ tasksT (liveTask (t_ID task)) (\<lambda>_. taskRow (mergedTask current task now)) s0 = (Inl e, t)"
    with now show ?thesis by (auto dest!: statement_Inl)
  next
    fix n
    assume "\<not> n \<noteq> 0" and "updateQ tasksT (liveTask (t_ID task)) (\<lambda>_. taskRow (mergedTask current task now)) s0 = (Inr n, t)"
    with now show ?thesis by (auto simp: updateQ_Inr tasks.update_none_db)
  next
    fix s1
    assume "afterUpdate current (mergedTask current task now) now s1 = (Inl e, t)"
    with assms(2,3) show ?thesis by (auto dest!: afterUpdate_Inl)
  qed
qed

text \<open>An update succeeds in a quiet world whenever its guards hold.\<close>

lemma silent_blockerGate [silent_intros]: "silent (blockerGate current task)"
  unfolding blockerGate_def by (intro silent_intros)

lemma fine_afterUpdate [fine_intros]: "fine (afterUpdate current task1 now)"
proof -
  have announce: "fine (announceUpdate current out now)" for out
    by (rule fine_surely [OF surely_announceUpdate steady_announceUpdate])
  show ?thesis unfolding afterUpdate_def Let_def
    by (intro fine_intros announce steady_intros)
qed

lemma UpdateTask_quiet:
  assumes quiet: "quiet s" and row: "List.find (liveTask (t_ID task)) (d_tasks (w_db s)) = Some row"
    and ok: "t_Status task = t_Status row \<or> CanTransitionTo (t_Status row) (t_Status task)"
    and free: "t_Status row = TaskStatusPending \<and> t_Status task = TaskStatusInProgress \<longrightarrow>
      activeBlockers (t_ID task) (w_db s) = {}"
  shows "\<exists>out t. UpdateTask task s = (Inr out, t)"
proof -
  from quiet row GetTask_calm obtain current s1 where cur: "GetTask (t_ID task) s = (Inr current, s1)"
    and same: "sameRow row current" and s1: "w_db s1 = w_db s"
    by (fastforce simp: quiet_def)
  have q1: "quiet s1" using quiet_steady [OF steady_GetTask cur quiet] .
  have "\<exists>s2. blockerGate current task s1 = (Inr (), s2)"
  proof (cases "t_Status current = TaskStatusPending \<and> t_Status task = TaskStatusInProgress")
    case True
    with free same have "activeBlockers (t_ID task) (w_db s) = {}" by (simp add: sameRow_fields)
    with findActiveBlockers_quiet [OF q1, of "t_ID task"] s1
    obtain s2 where "findActiveBlockers (t_ID task) s1 = (Inr [], s2)" by auto
    with True show ?thesis by (auto simp: blockerGate_def bnd_def unless_def ret_def)
  qed (auto simp: blockerGate_def ret_def)
  then obtain s2 where gate: "blockerGate current task s1 = (Inr (), s2)" by blast
  have q2: "quiet s2" using quiet_steady [OF steady_blockerGate gate q1] .
  have s2: "w_db s2 = w_db s" using keeps_reads [OF keeps_blockerGate gate] s1 by simp
  obtain now s3 where now: "nowStr s2 = (Inr now, s3)" using fineD [OF fine_basic(3) q2] by blast
  note s3 = nowStr_run [OF now]
  have "affected (liveTask (t_ID task)) (d_tasks (w_db s)) \<noteq> 0"
    using row by (auto simp: affected_0_iff dest: find_Some_in)
  then obtain n s4 where upd: "updateQ tasksT (liveTask (t_ID task)) (\<lambda>_. taskRow (mergedTask current task now)) s3 = (Inr n, s4)"
    and n: "n \<noteq> 0" and q4: "quiet s4"
    using q2 s2 s3 by (auto simp: quiet_def updateQ_calm steadyD [OF steady_nowStr now])
  obtain out t where "afterUpdate current (mergedTask current task now) now s4 = (Inr out, t)"
    using fineD [OF fine_afterUpdate q4] by blast
  with cur gate now upd n ok same show ?thesis
    by (auto simp: UpdateTask_def applyUpdate_def bnd_Inr seq_Inr unless_Inr sameRow_fields)
qed

section \<open>Properties\<close>

text \<open>
  C1. A task update that succeeds was allowed: the stored live task moves along the transition table
  or keeps its status, and it leaves pending for in progress only when no live, unfinished task
  blocks it.
\<close>

theorem UpdateTask_guarded:
  assumes "UpdateTask task s = (Inr out, t)"
  shows "\<exists>row. List.find (liveTask (t_ID task)) (d_tasks (w_db s)) = Some row \<and>
    (t_Status task = t_Status row \<or> CanTransitionTo (t_Status row) (t_Status task)) \<and>
    (t_Status row = TaskStatusPending \<and> t_Status task = TaskStatusInProgress \<longrightarrow>
       activeBlockers (t_ID task) (w_db s) = {}) \<and>
    t_Status out = t_Status task"
proof -
  from assms obtain current s1 s2 where cur: "GetTask (t_ID task) s = (Inr current, s1)"
    and ok: "t_Status current = t_Status task \<or> CanTransitionTo (t_Status current) (t_Status task)"
    and gate: "blockerGate current task s1 = (Inr (), s2)"
    and upd: "applyUpdate current task s2 = (Inr out, t)"
    unfolding UpdateTask_def bnd_Inr seq_Inr unless_Inr by auto
  from GetTask_Inr [OF cur] obtain row where row: "List.find (liveTask (t_ID task)) (d_tasks (w_db s)) = Some row"
    and same: "sameRow row current" and s1: "w_db s1 = w_db s" by blast
  have "activeBlockers (t_ID task) (w_db s) = {}"
    if "t_Status row = TaskStatusPending" "t_Status task = TaskStatusInProgress"
  proof -
    have "\<exists>s'. findActiveBlockers (t_ID task) s1 = (Inr [], s')"
      using gate that same by (auto simp: blockerGate_def sameRow_fields bnd_Inr unless_Inr)
    with findActiveBlockers_set s1 show ?thesis by fastforce
  qed
  moreover have "t_Status out = t_Status task"
    using applyUpdate_Inr [OF upd] by (auto simp: sameRow_fields)
  ultimately show ?thesis using row ok same by (auto simp: sameRow_fields)
qed

text \<open>Two tasks, the first blocking the second, and what a caller sends to start one.\<close>

definition blockedDb :: "task_status \<Rightarrow> db" where
  "blockedDb st = emptyDb\<lparr>d_tasks := [taskWith ''b'' st, taskWith ''t'' TaskStatusPending],
     d_blockers := [\<lparr>e_FromTaskID = ''b'', e_ToTaskID = ''t'', e_CreatedAt = [], e_Reason = []\<rparr>]\<rparr>"

lemma blockedDb_facts:
  "d_tasks (blockedDb st) = [taskWith ''b'' st, taskWith ''t'' TaskStatusPending]"
  "activeBlockers ''t'' (blockedDb st) = (if isTerminalStatus st then {} else {''b''})"
  by (auto simp: blockedDb_def activeBlockers_def relEdges_def liveTask_def)

theorem UpdateTask_guarded_witness:
  "\<exists>out t. UpdateTask (taskWith ''t'' TaskStatusInProgress) (worldOf (blockedDb TaskStatusCompleted)) = (Inr out, t) \<and>
     t_Status out = TaskStatusInProgress"
proof -
  let ?s = "worldOf (blockedDb TaskStatusCompleted)"
  have "\<exists>out t. UpdateTask (taskWith ''t'' TaskStatusInProgress) ?s = (Inr out, t)"
    by (rule UpdateTask_quiet [where row = "taskWith ''t'' TaskStatusPending"])
      (simp_all add: blockedDb_facts liveTask_def isTerminalStatus_def)
  then obtain out t where run: "UpdateTask (taskWith ''t'' TaskStatusInProgress) ?s = (Inr out, t)" by blast
  from UpdateTask_guarded [OF run] run show ?thesis by auto
qed

text \<open>
  A task update succeeds whenever it should: with no failing statement and a usable setting, a
  legal move of a live task that no active blocker holds back returns the updated task.
\<close>

lemma UpdateTask_accepts:
  assumes "quiet s" and "List.find (liveTask (t_ID task)) (d_tasks (w_db s)) = Some row"
    and "t_Status task = t_Status row \<or> CanTransitionTo (t_Status row) (t_Status task)"
    and "t_Status row = TaskStatusPending \<and> t_Status task = TaskStatusInProgress \<longrightarrow>
      activeBlockers (t_ID task) (w_db s) = {}"
  shows "\<exists>out t. UpdateTask task s = (Inr out, t)"
  using assms by (rule UpdateTask_quiet)

lemma UpdateTask_accepts_example:
  "\<exists>out t. UpdateTask (taskWith ''t'' TaskStatusCancelled) (worldOf (blockedDb TaskStatusPending)) = (Inr out, t)"
  by (rule UpdateTask_accepts [where row = "taskWith ''t'' TaskStatusPending"])
    (simp_all add: blockedDb_facts liveTask_def)

text \<open>
  A task update that is refused changes nothing: whichever of its errors it returns (the task is
  gone, the transition is illegal, a blocker is active, the database failed), no table changes and
  nothing is published.
\<close>

lemma UpdateTask_refused:
  assumes run: "UpdateTask task s = (Inl e, t)"
    and "e \<in> {ErrTaskNotFound, ErrInvalidStatusTransition, ErrDatabase} \<union> range BlockedError"
  shows "w_db t = w_db s \<and> w_published t = w_published s"
proof -
  have e: "e \<noteq> ErrSettings" "e \<noteq> ErrTaskStates x" for x using assms(2) by auto
  have read: "w_db s1 = w_db s \<and> w_published s1 = w_published s" if "GetTask (t_ID task) s = (r, s1)" for r s1
    using keeps_reads [OF keeps_GetTask that] silentD [OF silent_GetTask that] by simp
  have gate: "w_db s2 = w_db s1 \<and> w_published s2 = w_published s1" if "blockerGate c task s1 = (r, s2)" for c r s1 s2
    using keeps_reads [OF keeps_blockerGate that] silentD [OF silent_blockerGate that] by simp
  from run show ?thesis
    unfolding UpdateTask_def bnd_Inl seq_Inl unless_Inl unless_Inr
    by (elim disjE exE conjE; use read gate applyUpdate_Inl [OF _ e] in fastforce)
qed

lemma UpdateTask_refused_example:
  "\<exists>e t. UpdateTask (taskWith ''t'' TaskStatusCompleted) (worldOf (blockedDb TaskStatusPending)) = (Inl e, t) \<and>
     w_db t = blockedDb TaskStatusPending"
proof -
  let ?s = "worldOf (blockedDb TaskStatusPending)" and ?task = "taskWith ''t'' TaskStatusCompleted"
  obtain current s1 where "GetTask (t_ID ?task) ?s = (Inr current, s1)" "t_Status current = TaskStatusPending"
    using GetTask_calm [of ?s _ "''t''" "taskWith ''t'' TaskStatusPending"]
    by (auto simp: blockedDb_facts liveTask_def sameRow_fields)
  then have run: "UpdateTask ?task ?s = (Inl ErrInvalidStatusTransition, s1)"
    by (simp add: UpdateTask_def bnd_def seq_def unless_def fail_def)
  from UpdateTask_refused [OF run] run show ?thesis by simp
qed

text \<open>
  A task deleted between the read and the write of an update stays deleted: the write phase, run
  in any later state in which the task has no live row, returns an error and writes nothing.
\<close>

lemma UpdateTask_late:
  assumes "List.find (liveTask (t_ID task)) (d_tasks (w_db s)) = None"
  shows "\<exists>e t. applyUpdate current task s = (Inl e, t) \<and> w_db t = w_db s \<and> w_published t = w_published s"
proof -
  have none: "affected (liveTask (t_ID task)) (d_tasks (w_db s)) = 0"
    using assms by (auto simp: affected_0_iff find_None_iff)
  obtain r t where run: "applyUpdate current task s = (r, t)" by fastforce
  have "\<nexists>out. r = Inr out" using applyUpdate_Inr none run by blast
  then obtain e where e: "r = Inl e" by (cases r) auto
  have "e = ErrTaskNotFound \<or> e = ErrDatabase"
    using run none unfolding e applyUpdate_def bnd_Inl seq_Inl unless_Inl unless_Inr nowStr_Inl
    by (auto dest!: nowStr_run statement_Inl simp: updateQ_Inr)
  with applyUpdate_Inl run e show ?thesis by blast
qed

end
