(* ===== verification/Board_Rank.thy ===== *)
theory Board_Rank
  imports Task_Write
begin

text \<open>
  \<open>task_rank.go\<close>: the order a person gives the cards of the board. Cards are read in the order of
  their rank (ties by creation time, then id); placing a card between two others gives it a rank
  between theirs, or renumbers the board when there is no room left. Ranks are Go \<open>int\<close>s and wrap.
\<close>

section \<open>The operations\<close>

definition rankGap :: int where
  "rankGap = 2 ^ 16"

record ranked_card =
  rk_ID :: string
  rk_Rank :: int

definition cardOf :: "task \<Rightarrow> ranked_card" where
  "cardOf t = \<lparr>rk_ID = t_ID t, rk_Rank = t_Rank t\<rparr>"

text \<open>\<open>ORDER BY "rank", created_at, id\<close>, and the comparison of \<open>sortByRank\<close>.\<close>

definition taskOrder :: "task \<Rightarrow> task \<Rightarrow> bool" where
  "taskOrder a b \<longleftrightarrow>
     (if t_Rank a \<noteq> t_Rank b then t_Rank a < t_Rank b
      else if t_CreatedAt a \<noteq> t_CreatedAt b then t_CreatedAt a < t_CreatedAt b
      else t_ID a < t_ID b)"

definition sortByRank :: "task list \<Rightarrow> task list" where
  "sortByRank tasks = sortBy taskOrder tasks"

definition nextRank :: "int tm" where
  "nextRank = bnd (selectQ tasksT (\<lambda>_. True)) (\<lambda>rows.
     ret (wrap64 ((if rows = [] then 0 else Max (t_Rank ` set rows)) + rankGap)))"

fun indexOf :: "ranked_card list \<Rightarrow> string \<Rightarrow> nat option" where
  "indexOf [] i = None"
| "indexOf (c # cs) i = (if rk_ID c = i then Some 0 else map_option Suc (indexOf cs i))"

text \<open>The index of a named neighbour; none when no neighbour is named on that side.\<close>

definition neighbour :: "ranked_card list \<Rightarrow> string \<Rightarrow> err + nat option" where
  "neighbour rest i =
     (if i = [] then Inr None
      else case indexOf rest i of None \<Rightarrow> Inl ErrTaskNotFound | Some k \<Rightarrow> Inr (Some k))"

definition insertionIndex :: "ranked_card list \<Rightarrow> string \<Rightarrow> string \<Rightarrow> err + nat" where
  "insertionIndex rest afterID beforeID =
     (case neighbour rest afterID of
        Inl e \<Rightarrow> Inl e
      | Inr after \<Rightarrow>
          (case neighbour rest beforeID of
             Inl e \<Rightarrow> Inl e
           | Inr before \<Rightarrow>
               (case (after, before) of
                  (Some a, Some b) \<Rightarrow> if a \<ge> b then Inl ErrInvalidPlacement else Inr (a + 1)
                | (Some a, None) \<Rightarrow> Inr (a + 1)
                | (None, Some b) \<Rightarrow> Inr b
                | (None, None) \<Rightarrow> Inr (length rest))))"

text \<open>The rank of a card put at \<open>pos\<close>; none when its neighbours leave no room.\<close>

definition rankAt :: "ranked_card list \<Rightarrow> nat \<Rightarrow> int option" where
  "rankAt rest pos =
     (if rest = [] then Some rankGap
      else if pos = 0 then Some (wrap64 (rk_Rank (rest ! 0) - rankGap))
      else if pos = length rest then Some (wrap64 (rk_Rank (rest ! (length rest - 1)) + rankGap))
      else let lo = rk_Rank (rest ! (pos - 1)); hi = rk_Rank (rest ! pos); gap = wrap64 (hi - lo)
           in if gap < 2 then None else Some (wrap64 (lo + quot gap 2)))"

definition setRank :: "string \<Rightarrow> int \<Rightarrow> unit tm" where
  "setRank i rank = seq (updateQ tasksT (\<lambda>t. t_ID t = i) (\<lambda>t. t\<lparr>t_Rank := rank\<rparr>)) (ret ())"

definition assignRank :: "nat \<Rightarrow> ranked_card \<Rightarrow> unit tm" where
  "assignRank i c =
     (let want = wrap64 ((int i + 1) * rankGap)
      in if rk_Rank c = want then ret () else setRank (rk_ID c) want)"

definition renumber :: "ranked_card list \<Rightarrow> nat \<Rightarrow> string \<Rightarrow> unit tm" where
  "renumber rest pos taskID =
     (let ordered = take pos rest @ [\<lparr>rk_ID = taskID, rk_Rank = -1\<rparr>] @ drop pos rest
      in forEach (zip [0..<length ordered] ordered) (\<lambda>(i, c). assignRank i c))"

definition place :: "string \<Rightarrow> string \<Rightarrow> string \<Rightarrow> unit tm" where
  "place taskID afterID beforeID =
     bnd (selectQ tasksT (\<lambda>t. \<not> t_Deleted t)) (\<lambda>rows.
     let cards = map cardOf (sortBy taskOrder rows);
         rest = filter (\<lambda>c. rk_ID c \<noteq> taskID) cards
     in if \<not> list_ex (\<lambda>c. rk_ID c = taskID) cards then fail ErrTaskNotFound
        else bnd (lift (insertionIndex rest afterID beforeID)) (\<lambda>pos.
             case rankAt rest pos of
               Some rank \<Rightarrow> setRank taskID rank
             | None \<Rightarrow> renumber rest pos taskID))"

definition PlaceTask :: "string \<Rightarrow> string \<Rightarrow> string \<Rightarrow> task tm" where
  "PlaceTask taskID afterID beforeID =
     (if afterID = [] \<and> beforeID = [] then fail ErrInvalidPlacement
      else if taskID = afterID \<or> taskID = beforeID then fail ErrInvalidPlacement
      else seq (transaction (place taskID afterID beforeID)) (GetTask taskID))"

section \<open>The order of the board\<close>

definition liveTasks :: "db \<Rightarrow> task list" where
  "liveTasks d = filter (\<lambda>t. \<not> t_Deleted t) (d_tasks d)"

text \<open>The cards as a reader sees them, top to bottom.\<close>

definition boardRows :: "db \<Rightarrow> task list" where
  "boardRows d = sortBy taskOrder (liveTasks d)"

definition board :: "db \<Rightarrow> string list" where
  "board d = map t_ID (boardRows d)"

lemma taskOrder_trans: "taskOrder a b \<Longrightarrow> taskOrder b c \<Longrightarrow> taskOrder a c"
  by (auto simp: taskOrder_def split: if_splits)

lemma taskOrder_irrefl: "\<not> taskOrder a a"
  by (simp add: taskOrder_def)

lemma taskOrder_total: "t_ID a \<noteq> t_ID b \<Longrightarrow> taskOrder a b \<or> taskOrder b a"
  by (auto simp: taskOrder_def)

text \<open>Two lists sorted by a strict order with the same elements are equal.\<close>

lemma strictly_sorted_unique:
  assumes "sorted_wrt R xs" and "sorted_wrt R ys" and "set xs = set ys"
    and irrefl: "\<And>a. \<not> R a a" and trans: "\<And>a b c. R a b \<Longrightarrow> R b c \<Longrightarrow> R a c"
  shows "xs = ys"
  using assms(1-3)
proof (induction xs arbitrary: ys)
  case (Cons x xs)
  then obtain y ys' where ys: "ys = y # ys'" by (cases ys) auto
  have "x = y"
  proof (rule ccontr)
    assume "x \<noteq> y"
    with Cons.prems ys have "R x y" and "R y x" by auto
    with trans irrefl show False by blast
  qed
  moreover have "x \<notin> set xs" and "y \<notin> set ys'" using Cons.prems ys irrefl by auto
  ultimately have "set xs = set ys'" using Cons.prems(3) ys by auto
  with Cons ys \<open>x = y\<close> show ?case by simp
qed simp

lemma strict_of_weak:
  "sorted_wrt (\<lambda>a b. \<not> taskOrder b a) xs \<Longrightarrow> distinct (map t_ID xs) \<Longrightarrow> sorted_wrt taskOrder xs"
  by (induction xs) (auto dest: taskOrder_total)

lemma boardRows_sorted:
  assumes "tasksUnique d"
  shows "sorted_wrt taskOrder (boardRows d)" and "distinct (map t_ID (boardRows d))"
    and "set (boardRows d) = set (liveTasks d)"
proof -
  show ids: "distinct (map t_ID (boardRows d))"
    using assms by (simp add: boardRows_def distinct_sortBy liveTasks_def tasksUnique_def distinct_map_filter)
  have "sorted_wrt (\<lambda>a b. \<not> taskOrder b a) (boardRows d)"
    unfolding boardRows_def by (rule sorted_sortBy) (auto simp: taskOrder_def split: if_splits)
  then show "sorted_wrt taskOrder (boardRows d)" using ids by (rule strict_of_weak)
qed (simp add: boardRows_def)

text \<open>Setting ranks by id, and the board it gives when the new ranks follow a list of cards.\<close>

definition ranked :: "(string \<rightharpoonup> int) \<Rightarrow> task \<Rightarrow> task" where
  "ranked f t = (case f (t_ID t) of None \<Rightarrow> t | Some r \<Rightarrow> t\<lparr>t_Rank := r\<rparr>)"

lemma ranked_sel [simp]:
  "t_ID (ranked f t) = t_ID t" "t_Deleted (ranked f t) = t_Deleted t" "t_CreatedAt (ranked f t) = t_CreatedAt t"
  "t_Rank (ranked f t) = (case f (t_ID t) of None \<Rightarrow> t_Rank t | Some r \<Rightarrow> r)"
  by (simp_all add: ranked_def split: option.splits)

lemma board_after:
  assumes unique: "tasksUnique d" and tasks: "d_tasks d' = map (ranked f) (d_tasks d)"
    and L: "set L = set (liveTasks d)" and sorted: "sorted_wrt taskOrder (map (ranked f) L)"
  shows "board d' = map t_ID L"
proof -
  have "tasksUnique d'" using unique tasks by (simp add: tasksUnique_def o_def)
  note rows = boardRows_sorted [OF this]
  have "filter (\<lambda>t. \<not> t_Deleted t) (map (ranked f) xs) = map (ranked f) (filter (\<lambda>t. \<not> t_Deleted t) xs)" for xs
    by (simp add: filter_map o_def)
  then have "set (liveTasks d') = set (map (ranked f) L)" using tasks L by (simp add: liveTasks_def)
  then have "boardRows d' = map (ranked f) L"
    using strictly_sorted_unique [OF rows(1) sorted] rows(3) taskOrder_irrefl taskOrder_trans by blast
  then show ?thesis by (simp add: board_def)
qed

section \<open>A rank between the neighbours\<close>

lemma sorted_ranks:
  assumes "sorted_wrt taskOrder xs" and "i \<le> j" and "j < length xs"
  shows "t_Rank (xs ! i) \<le> t_Rank (xs ! j)"
proof (cases "i = j")
  case False
  with assms have "taskOrder (xs ! i) (xs ! j)" by (simp add: sorted_wrt_iff_nth_less)
  then show ?thesis by (auto simp: taskOrder_def split: if_splits)
qed simp

definition modestRanks :: "db \<Rightarrow> bool" where
  "modestRanks d \<longleftrightarrow> length (d_tasks d) < 2 ^ 40 \<and> (\<forall>t \<in> set (d_tasks d). \<bar>t_Rank t\<bar> < 2 ^ 61)"

lemma rankAt_between:
  assumes sorted: "sorted_wrt taskOrder xs" and modest: "\<forall>t \<in> set xs. \<bar>t_Rank t\<bar> < 2 ^ 61"
    and r: "rankAt (map cardOf xs) pos = Some r" and pos: "pos \<le> length xs"
  shows "(\<forall>t \<in> set (take pos xs). t_Rank t < r) \<and> (\<forall>t \<in> set (drop pos xs). r < t_Rank t)"
proof (cases "xs = []")
  case False
  have rank: "rk_Rank (map cardOf xs ! i) = t_Rank (xs ! i)" if "i < length xs" for i
    using that by (simp add: cardOf_def)
  have bound: "\<bar>t_Rank (xs ! i)\<bar> < 2 ^ 61" if "i < length xs" for i using that modest by simp
  have ends: "lo < r \<and> r < hi" if
    "\<And>i. pos = 0 \<Longrightarrow> lo < r" "\<And>i. pos = length xs \<Longrightarrow> r < hi"
    "pos \<noteq> 0 \<Longrightarrow> lo = t_Rank (xs ! (pos - 1))" "pos \<noteq> length xs \<Longrightarrow> hi = t_Rank (xs ! pos)" for lo hi
  proof -
    consider "pos = 0" | "pos = length xs" | "0 < pos" "pos < length xs" using pos by linarith
    then show ?thesis
    proof cases
      case 1
      with r False rank [of 0] bound [of 0] that show ?thesis
        by (auto simp: rankAt_def rankGap_def wrap64_id)
    next
      case 2
      with r False rank [of "length xs - 1"] bound [of "length xs - 1"] that show ?thesis
        by (auto simp: rankAt_def rankGap_def wrap64_id)
    next
      case 3
      let ?lo = "t_Rank (xs ! (pos - 1))" and ?hi = "t_Rank (xs ! pos)"
      have b: "\<bar>?lo\<bar> < 2 ^ 61" "\<bar>?hi\<bar> < 2 ^ 61" using bound [of "pos - 1"] bound [of pos] 3 by simp_all
      have gap: "wrap64 (?hi - ?lo) = ?hi - ?lo" using b by (intro wrap64_id) auto
      from r 3 False rank [of "pos - 1"] rank [of pos] gap
      have two: "\<not> ?hi - ?lo < 2" and "r = wrap64 (?lo + quot (?hi - ?lo) 2)"
        by (auto simp: rankAt_def Let_def split: if_splits)
      then have "r = wrap64 (?lo + (?hi - ?lo) div 2)" by (simp add: quot_nonneg)
      also have "\<dots> = ?lo + (?hi - ?lo) div 2" using b two by (intro wrap64_id) auto
      finally have "?lo < r \<and> r < ?hi" using two by linarith
      with that 3 show ?thesis by simp
    qed
  qed
  show ?thesis
  proof (intro conjI ballI)
    fix t assume "t \<in> set (take pos xs)"
    then obtain i where i: "i < pos" "i < length xs" "t = xs ! i" by (auto simp: in_set_conv_nth)
    then have "t_Rank t \<le> t_Rank (xs ! (pos - 1))"
      using sorted_ranks [OF sorted, of i "pos - 1"] pos by simp
    with ends [of "t_Rank (xs ! (pos - 1))" "if pos = length xs then r + 1 else t_Rank (xs ! pos)"] i
    show "t_Rank t < r" by (simp split: if_splits)
  next
    fix t assume "t \<in> set (drop pos xs)"
    then obtain i where "i < length xs - pos" and "t = xs ! (pos + i)" by (auto simp: in_set_conv_nth)
    then have i: "pos + i < length xs" "t = xs ! (pos + i)" by simp_all
    then have "t_Rank (xs ! pos) \<le> t_Rank t"
      using sorted_ranks [OF sorted, of pos "pos + i"] by simp
    with ends [of "if pos = 0 then r - 1 else t_Rank (xs ! (pos - 1))" "t_Rank (xs ! pos)"] i
    show "r < t_Rank t" by (simp split: if_splits)
  qed
qed simp

section \<open>What the writes do\<close>

lemma setRank_Inr: "setRank i r s = (Inr u, t) \<Longrightarrow>
    d_tasks (w_db t) = map (ranked [i \<mapsto> r]) (d_tasks (w_db s))"
  by (auto simp: setRank_def succ updWhere_def ranked_def)

text \<open>The ranks \<open>renumber\<close> gives: the cards in order, one gap apart.\<close>

definition wanted :: "nat \<Rightarrow> int" where
  "wanted i = wrap64 ((int i + 1) * rankGap)"

fun newRanks :: "nat \<Rightarrow> ranked_card list \<Rightarrow> string \<rightharpoonup> int" where
  "newRanks k [] = Map.empty"
| "newRanks k (c # cs) = (newRanks (Suc k) cs)(rk_ID c \<mapsto> wanted k)"

lemma newRanks_dom: "dom (newRanks k cs) = rk_ID ` set cs"
  by (induction cs arbitrary: k) auto

lemma newRanks_nth:
  assumes "distinct (map rk_ID cs)" and "i < length cs"
  shows "newRanks k cs (rk_ID (cs ! i)) = Some (wanted (k + i))"
  using assms
proof (induction cs arbitrary: k i)
  case (Cons c cs)
  show ?case
  proof (cases i)
    case (Suc j)
    with Cons.prems have "rk_ID c \<notin> rk_ID ` set cs" and "rk_ID (cs ! j) \<in> rk_ID ` set cs" by simp_all
    then have "rk_ID (cs ! j) \<noteq> rk_ID c" by auto
    with Suc Cons show ?thesis by simp
  qed simp
qed simp

lemma ranked_twice: "i \<notin> dom f \<Longrightarrow> ranked f (ranked [i \<mapsto> r] t) = ranked (f(i \<mapsto> r)) t"
  by (cases "t_ID t = i") (simp_all add: ranked_def domIff)

text \<open>A card whose rank is already right is skipped; that is right as long as its row has that rank.\<close>

lemma renumber_loop:
  assumes "forEach (zip [k..<k + length cs] cs) (\<lambda>(i, c). assignRank i c) s = (Inr u, t)"
    and "distinct (map rk_ID cs)"
    and "\<forall>c \<in> set cs. rk_Rank c = -1 \<or> (\<forall>t \<in> set (d_tasks (w_db s)). t_ID t = rk_ID c \<longrightarrow> t_Rank t = rk_Rank c)"
    and "k + length cs < 2 ^ 41"
  shows "d_tasks (w_db t) = map (ranked (newRanks k cs)) (d_tasks (w_db s))"
  using assms
proof (induction cs arbitrary: k s)
  case Nil
  then show ?case by (simp add: succ ranked_def)
next
  case (Cons c cs)
  have "zip [k..<k + length (c # cs)] (c # cs) = (k, c) # zip [Suc k..<Suc k + length cs] cs"
    by (simp add: upt_rec)
  with Cons.prems(1) have "seq (assignRank k c) (forEach (zip [Suc k..<Suc k + length cs] cs)
      (\<lambda>(i, c). assignRank i c)) s = (Inr u, t)"
    by (simp only: forEach.simps prod.case)
  then obtain s1 where step: "assignRank k c s = (Inr (), s1)"
    and rest: "forEach (zip [Suc k..<Suc k + length cs] cs) (\<lambda>(i, c). assignRank i c) s1 = (Inr u, t)"
    by (auto simp: seq_Inr)
  have pos: "wanted k \<noteq> -1"
  proof -
    have "wanted k = (int k + 1) * rankGap"
      unfolding wanted_def rankGap_def using Cons.prems(4) by (intro wrap64_id) auto
    then show ?thesis by (simp add: rankGap_def)
  qed
  have s1: "d_tasks (w_db s1) = map (ranked [rk_ID c \<mapsto> wanted k]) (d_tasks (w_db s))"
  proof (cases "rk_Rank c = wanted k")
    case True
    with Cons.prems(3) pos have "\<forall>t \<in> set (d_tasks (w_db s)). t_ID t = rk_ID c \<longrightarrow> t_Rank t = wanted k" by auto
    then have "map (ranked [rk_ID c \<mapsto> wanted k]) (d_tasks (w_db s)) = d_tasks (w_db s)"
      by (intro map_idI) (auto simp: ranked_def)
    with step True show ?thesis by (simp add: assignRank_def wanted_def ret_def)
  next
    case False
    with step have "setRank (rk_ID c) (wanted k) s = (Inr (), s1)" by (simp add: assignRank_def wanted_def)
    then show ?thesis by (rule setRank_Inr)
  qed
  have "d_tasks (w_db t) = map (ranked (newRanks (Suc k) cs)) (d_tasks (w_db s1))"
  proof (rule Cons.IH [OF rest])
    show "\<forall>c' \<in> set cs. rk_Rank c' = -1 \<or>
        (\<forall>t \<in> set (d_tasks (w_db s1)). t_ID t = rk_ID c' \<longrightarrow> t_Rank t = rk_Rank c')"
      using Cons.prems(2,3) unfolding s1 by (auto simp: image_iff)
  qed (use Cons.prems in auto)
  moreover have "ranked (newRanks (Suc k) cs) (ranked [rk_ID c \<mapsto> wanted k] t) = ranked (newRanks k (c # cs)) t" for t
    using Cons.prems(2) by (subst ranked_twice) (auto simp: newRanks_dom)
  ultimately show ?case by (simp add: s1 o_def fun_upd_def)
qed

section \<open>Placing a card\<close>

text \<open>\<open>place\<close> reads the board; what follows is on the rows it read.\<close>

lemma indexOf_Some: "indexOf cs i = Some k \<Longrightarrow> k < length cs \<and> rk_ID (cs ! k) = i"
  by (induction cs arbitrary: k) (auto split: if_splits)

lemma insertionIndex_Inr:
  assumes "insertionIndex rest a b = Inr pos" and "a \<noteq> [] \<or> b \<noteq> []"
  shows "pos \<le> length rest \<and> (a \<noteq> [] \<longrightarrow> 0 < pos \<and> rk_ID (rest ! (pos - 1)) = a) \<and>
    (a = [] \<longrightarrow> pos < length rest \<and> rk_ID (rest ! pos) = b) \<and>
    (b \<noteq> [] \<longrightarrow> (\<exists>k. pos \<le> k \<and> k < length rest \<and> rk_ID (rest ! k) = b))"
  using assms
  by (auto simp: insertionIndex_def neighbour_def split: if_splits option.splits dest!: indexOf_Some)
    (metis not_less_eq_eq)+

lemma taskOrder_rank: "t_Rank a < t_Rank b \<Longrightarrow> taskOrder a b"
  by (simp add: taskOrder_def)

lemma sorted_take_insert:
  assumes "sorted_wrt taskOrder xs"
    and "\<forall>t \<in> set (take pos xs). t_Rank t < t_Rank m" and "\<forall>t \<in> set (drop pos xs). t_Rank m < t_Rank t"
  shows "sorted_wrt taskOrder (take pos xs @ [m] @ drop pos xs)"
proof -
  have "sorted_wrt taskOrder (take pos xs @ drop pos xs)" using assms(1) by simp
  with assms(2,3) show ?thesis
    by (auto simp: sorted_wrt_append simp del: append_take_drop_id intro: taskOrder_rank)
qed

lemma sorted_by_rank: "sorted_wrt (\<lambda>a b. t_Rank a < t_Rank b) xs \<Longrightarrow> sorted_wrt taskOrder xs"
  by (rule sorted_wrt_mono_rel [of xs "\<lambda>a b. t_Rank a < t_Rank b"]) (simp_all add: taskOrder_rank)

text \<open>The cards of a board without one card, as \<open>place\<close> sees them.\<close>

definition others :: "string \<Rightarrow> db \<Rightarrow> task list" where
  "others i d = filter (\<lambda>t. t_ID t \<noteq> i) (boardRows d)"

lemma others_facts:
  assumes "tasksUnique d" and "modestRanks d"
  shows "sorted_wrt taskOrder (others i d)" and "\<forall>t \<in> set (others i d). \<bar>t_Rank t\<bar> < 2 ^ 61"
    and "distinct (map t_ID (others i d))" and "length (others i d) < 2 ^ 40"
    and "set (others i d) = {t \<in> set (liveTasks d). t_ID t \<noteq> i}"
proof -
  note rows = boardRows_sorted [OF assms(1)]
  show "sorted_wrt taskOrder (others i d)" using rows(1) by (simp add: others_def sorted_wrt_filter)
  show "distinct (map t_ID (others i d))" using rows(2) by (simp add: others_def distinct_map_filter)
  show set: "set (others i d) = {t \<in> set (liveTasks d). t_ID t \<noteq> i}" using rows(3) by (auto simp: others_def)
  show "\<forall>t \<in> set (others i d). \<bar>t_Rank t\<bar> < 2 ^ 61" using assms(2) by (auto simp: set modestRanks_def liveTasks_def)
  have "length (others i d) \<le> length (boardRows d)" by (simp add: others_def)
  also have "\<dots> \<le> length (d_tasks d)" by (simp add: boardRows_def liveTasks_def)
  finally show "length (others i d) < 2 ^ 40" using assms(2) by (simp add: modestRanks_def)
qed

lemma place_Inr:
  assumes "place i a b s = (Inr (), t)"
  shows "(\<exists>m \<in> set (liveTasks (w_db s)). t_ID m = i) \<and>
    (\<exists>pos s1. insertionIndex (map cardOf (others i (w_db s))) a b = Inr pos \<and> w_db s1 = w_db s \<and>
      (case rankAt (map cardOf (others i (w_db s))) pos of
         Some rank \<Rightarrow> setRank i rank s1 = (Inr (), t)
       | None \<Rightarrow> renumber (map cardOf (others i (w_db s))) pos i s1 = (Inr (), t)))"
proof -
  have rest: "filter (\<lambda>c. rk_ID c \<noteq> i) (map cardOf (sortBy taskOrder (liveTasks d))) = map cardOf (others i d)" for d
    by (simp add: others_def boardRows_def filter_map o_def cardOf_def)
  have live: "list_ex (\<lambda>c. rk_ID c = i) (map cardOf (sortBy taskOrder (liveTasks d))) \<longleftrightarrow>
      (\<exists>m \<in> set (liveTasks d). t_ID m = i)" for d
    by (simp add: list_ex_iff cardOf_def)
  from assms obtain rows s1 where sel: "selectQ tasksT (\<lambda>t. \<not> t_Deleted t) s = (Inr rows, s1)"
    and rest': "(let cards = map cardOf (sortBy taskOrder rows);
         rest = filter (\<lambda>c. rk_ID c \<noteq> i) cards
     in if \<not> list_ex (\<lambda>c. rk_ID c = i) cards then fail ErrTaskNotFound
        else bnd (lift (insertionIndex rest a b)) (\<lambda>pos.
             case rankAt rest pos of
               Some rank \<Rightarrow> setRank i rank
             | None \<Rightarrow> renumber rest pos i)) s1 = (Inr (), t)"
    unfolding place_def bnd_Inr by blast
  have rows: "rows = liveTasks (w_db s)" and s1: "w_db s1 = w_db s"
    using selectQ_run [OF sel] by (simp_all add: liveTasks_def)
  from rest' [unfolded rows Let_def rest live] have "(\<exists>m \<in> set (liveTasks (w_db s)). t_ID m = i) \<and>
      bnd (lift (insertionIndex (map cardOf (others i (w_db s))) a b)) (\<lambda>pos.
        case rankAt (map cardOf (others i (w_db s))) pos of
          Some rank \<Rightarrow> setRank i rank
        | None \<Rightarrow> renumber (map cardOf (others i (w_db s))) pos i) s1 = (Inr (), t)"
    by (simp add: fail_Inr split: if_splits)
  with s1 show ?thesis unfolding bnd_Inr lift_Inr by (auto split: option.splits)
qed

text \<open>Either way the rows end up as the cards in their new order, with increasing ranks.\<close>

lemma map_take_insert: "map f (take n xs @ [m] @ drop n xs) = take n (map f xs) @ [f m] @ drop n (map f xs)"
  by (simp add: take_map drop_map)

lemma place_board:
  assumes run: "place i a b s = (Inr (), t)" and named: "a \<noteq> [] \<or> b \<noteq> []"
    and unique: "tasksUnique (w_db s)" and modest: "modestRanks (w_db s)"
  shows "\<exists>pos. insertionIndex (map cardOf (others i (w_db s))) a b = Inr pos \<and>
    board (w_db t) = take pos (map t_ID (others i (w_db s))) @ [i] @ drop pos (map t_ID (others i (w_db s)))"
proof -
  let ?xs = "others i (w_db s)"
  note xs = others_facts [OF unique modest, of i]
  from place_Inr [OF run] obtain m pos s1 where m: "m \<in> set (liveTasks (w_db s))" "t_ID m = i"
    and pos: "insertionIndex (map cardOf ?xs) a b = Inr pos" and s1: "w_db s1 = w_db s"
    and wr: "case rankAt (map cardOf ?xs) pos of
         Some rank \<Rightarrow> setRank i rank s1 = (Inr (), t)
       | None \<Rightarrow> renumber (map cardOf ?xs) pos i s1 = (Inr (), t)" by blast
  have le: "pos \<le> length ?xs" using insertionIndex_Inr [OF pos named] by simp
  let ?L = "take pos ?xs @ [m] @ drop pos ?xs"
  have m_only: "t' = m" if "t' \<in> set (liveTasks (w_db s))" "t_ID t' = i" for t'
    using that m unique by (auto simp: liveTasks_def tasksUnique_def intro: distinct_key_eq)
  have set_xs: "set (take pos ?xs) \<union> set (drop pos ?xs) = set ?xs"
    by (metis append_take_drop_id set_append)
  have "set ?L = insert m (set ?xs)" by (simp flip: set_xs)
  also have "\<dots> = set (liveTasks (w_db s))" unfolding xs(5) using m m_only by blast
  finally have L: "set ?L = set (liveTasks (w_db s))" .
  have ids: "distinct (map t_ID ?L)"
  proof -
    have "i \<notin> set (map t_ID ?xs)" using xs(5) by auto
    moreover have "distinct (map t_ID (take pos ?xs @ drop pos ?xs))" using xs(3) by simp
    ultimately show ?thesis using m(2) set_xs by (auto simp del: append_take_drop_id simp: distinct_map)
  qed
  have "\<exists>f. d_tasks (w_db t) = map (ranked f) (d_tasks (w_db s)) \<and> sorted_wrt taskOrder (map (ranked f) ?L)"
  proof (cases "rankAt (map cardOf ?xs) pos")
    case (Some rank)
    let ?f = "[i \<mapsto> rank]"
    from Some wr s1 have "d_tasks (w_db t) = map (ranked ?f) (d_tasks (w_db s))"
      by (simp add: setRank_Inr)
    moreover have "map (ranked ?f) ?xs = ?xs" using xs(5) by (intro map_idI) (auto simp: ranked_def)
    then have "map (ranked ?f) ?L = take pos ?xs @ [ranked ?f m] @ drop pos ?xs"
      by (simp only: map_take_insert)
    moreover have "sorted_wrt taskOrder (take pos ?xs @ [ranked ?f m] @ drop pos ?xs)"
      using rankAt_between [OF xs(1) xs(2) Some le] m(2) by (intro sorted_take_insert xs(1)) simp_all
    ultimately show ?thesis by metis
  next
    case None
    let ?cs = "map cardOf (take pos ?xs) @ [\<lparr>rk_ID = i, rk_Rank = -1\<rparr>] @ map cardOf (drop pos ?xs)"
    let ?f = "newRanks 0 ?cs"
    have cs_ids: "map rk_ID ?cs = map t_ID ?L" using m(2) by (simp add: cardOf_def)
    have len: "length ?cs = length ?L" by simp
    have distinct_cs: "distinct (map rk_ID ?cs)" unfolding cs_ids by (rule ids)
    have short: "length ?L < 2 ^ 41" using xs(4) by simp
    from None wr have loop: "forEach (zip [0..<0 + length ?cs] ?cs) (\<lambda>(i, c). assignRank i c) s1 = (Inr (), t)"
      by (simp add: renumber_def take_map drop_map)
    have current: "\<forall>c \<in> set ?cs. rk_Rank c = -1 \<or>
        (\<forall>t' \<in> set (d_tasks (w_db s1)). t_ID t' = rk_ID c \<longrightarrow> t_Rank t' = rk_Rank c)"
    proof -
      have "\<forall>u \<in> set ?xs. \<forall>t' \<in> set (d_tasks (w_db s)). t_ID t' = t_ID u \<longrightarrow> t_Rank t' = t_Rank u"
        using xs(5) unique by (auto simp: liveTasks_def tasksUnique_def dest: distinct_key_eq)
      with s1 show ?thesis by (auto simp: cardOf_def dest: in_set_takeD in_set_dropD)
    qed
    have "d_tasks (w_db t) = map (ranked ?f) (d_tasks (w_db s1))"
    proof (rule renumber_loop [OF loop _ current])
      show "distinct (map rk_ID ?cs)" by (rule distinct_cs)
      show "0 + length ?cs < 2 ^ 41" using short unfolding len by simp
    qed
    moreover have "sorted_wrt taskOrder (map (ranked ?f) ?L)"
    proof (rule sorted_by_rank, unfold sorted_wrt_iff_nth_less, intro allI impI)
      fix j k assume jk: "j < k" "k < length (map (ranked ?f) ?L)"
      have rank: "t_Rank (map (ranked ?f) ?L ! n) = (int n + 1) * rankGap" if "n < length ?L" for n
      proof -
        have "t_ID (?L ! n) = rk_ID (?cs ! n)" using that cs_ids len by (metis nth_map)
        moreover have "?f (rk_ID (?cs ! n)) = Some (wanted (0 + n))"
          by (rule newRanks_nth [OF distinct_cs]) (use that in \<open>simp only: len\<close>)
        ultimately have "?f (t_ID (?L ! n)) = Some (wanted n)" by (simp only: add_0)
        moreover have "wanted n = (int n + 1) * rankGap"
          unfolding wanted_def rankGap_def using that short by (intro wrap64_id) auto
        ultimately show ?thesis by (simp only: nth_map [OF that] ranked_sel option.case)
      qed
      show "t_Rank (map (ranked ?f) ?L ! j) < t_Rank (map (ranked ?f) ?L ! k)"
        using rank [of j] rank [of k] jk by (simp add: rankGap_def)
    qed
    ultimately show ?thesis using s1 by metis
  qed
  then obtain f where "d_tasks (w_db t) = map (ranked f) (d_tasks (w_db s))"
    and "sorted_wrt taskOrder (map (ranked f) ?L)" by blast
  then have "board (w_db t) = map t_ID ?L" using board_after [OF unique _ L] by blast
  with pos m(2) show ?thesis by (simp only: map_take_insert) blast
qed

section \<open>A quiet placement\<close>

lemma fine_setRank [fine_intros]: "fine (setRank i r)"
  unfolding setRank_def by (intro fine_intros)

lemma fine_renumber [fine_intros]: "fine (renumber rest pos i)"
  unfolding renumber_def assignRank_def Let_def
  by (intro fine_forEach) (auto split: prod.split intro!: fine_intros)

definition onBoard :: "string \<Rightarrow> db \<Rightarrow> bool" where
  "onBoard i d \<longleftrightarrow> (\<exists>m \<in> set (liveTasks d). t_ID m = i)"

lemma onBoard_columns: "onBoard i d \<longleftrightarrow> (i, False) \<in> set (map (\<lambda>t. (t_ID t, t_Deleted t)) (d_tasks d))"
  by (auto simp: onBoard_def liveTasks_def)

lemma keeps_setRank: "keeps (onBoard i) (setRank j r)"
  unfolding setRank_def
  by (intro keeps_seq keeps_ret keeps_updateQ) (simp add: onBoard_columns map_updWhere del: set_map)

lemma keeps_place: "keeps (onBoard i) (place j a b)"
  unfolding place_def renumber_def assignRank_def Let_def
  by (intro keeps_bnd keeps_selectQ keeps_if keeps_fail keeps_lift keeps_case_option keeps_forEach keeps_setRank)
    (auto split: prod.split intro!: keeps_ret keeps_setRank)

lemma onBoard_find: "onBoard i d \<Longrightarrow> \<exists>row. List.find (liveTask i) (d_tasks d) = Some row"
  by (cases "List.find (liveTask i) (d_tasks d)")
    (auto simp: onBoard_def liveTasks_def liveTask_def find_None_iff)

lemma place_quiet:
  assumes "quiet s" and "onBoard i (w_db s)"
    and pos: "insertionIndex (map cardOf (others i (w_db s))) a b = Inr pos"
  shows "\<exists>t. place i a b s = (Inr (), t) \<and> quiet t \<and> onBoard i (w_db t)"
proof -
  have rest: "filter (\<lambda>c. rk_ID c \<noteq> i) (map cardOf (sortBy taskOrder (liveTasks (w_db s)))) = map cardOf (others i (w_db s))"
    by (simp add: others_def boardRows_def filter_map o_def cardOf_def)
  have live: "list_ex (\<lambda>c. rk_ID c = i) (map cardOf (sortBy taskOrder (liveTasks (w_db s))))"
    using assms(2) by (auto simp: onBoard_def list_ex_iff cardOf_def)
  have sel: "selectQ tasksT (\<lambda>t. \<not> t_Deleted t) s = (Inr (liveTasks (w_db s)), s)"
    using assms(1) by (simp add: quiet_def selectQ_calm liveTasks_def)
  have "fine (case rankAt (map cardOf (others i (w_db s))) pos of
      Some rank \<Rightarrow> setRank i rank | None \<Rightarrow> renumber (map cardOf (others i (w_db s))) pos i)"
    by (auto split: option.split intro!: fine_intros)
  from fineD [OF this assms(1)] obtain t where
    "(case rankAt (map cardOf (others i (w_db s))) pos of
      Some rank \<Rightarrow> setRank i rank | None \<Rightarrow> renumber (map cardOf (others i (w_db s))) pos i) s = (Inr (), t)"
    and "quiet t" by auto
  then have "place i a b s = (Inr (), t)"
    unfolding place_def bnd_def sel prod.case sum.case Let_def rest using live pos by (simp add: lift_def)
  with \<open>quiet t\<close> keepsD [OF keeps_place assms(2)] show ?thesis by (metis snd_conv)
qed

lemma PlaceTask_quiet:
  assumes quiet: "quiet s" and on: "onBoard i (w_db s)"
    and pos: "insertionIndex (map cardOf (others i (w_db s))) a b = Inr pos"
    and "a \<noteq> [] \<or> b \<noteq> []" and "i \<noteq> a" and "i \<noteq> b"
  shows "\<exists>out t. PlaceTask i a b s = (Inr out, t)"
proof -
  from place_quiet [OF quiet on pos] obtain t where t: "place i a b s = (Inr (), t)" "quiet t" "onBoard i (w_db t)"
    by blast
  then have "transaction (place i a b) s = (Inr (), t)" by (simp add: transaction_def sql_calm quiet_def)
  moreover obtain out t' where "GetTask i t = (Inr out, t')"
    using t onBoard_find GetTask_calm by (fastforce simp: quiet_def)
  ultimately show ?thesis using assms(4-6) by (auto simp: PlaceTask_def seq_Inr)
qed

section \<open>Properties\<close>

text \<open>Other cards keep their order and the placed one sits where its neighbours say.\<close>

definition placedBeside :: "string \<Rightarrow> string \<Rightarrow> string \<Rightarrow> string list \<Rightarrow> string list \<Rightarrow> bool" where
  "placedBeside i a b old new \<longleftrightarrow>
     (\<exists>xs ys. filter (\<lambda>j. j \<noteq> i) old = xs @ ys \<and> new = xs @ [i] @ ys \<and>
        (a \<noteq> [] \<longrightarrow> xs \<noteq> [] \<and> last xs = a) \<and>
        (a = [] \<longrightarrow> ys \<noteq> [] \<and> hd ys = b) \<and>
        (b \<noteq> [] \<longrightarrow> b \<in> set ys))"

lemma place_beside:
  assumes "place i a b s = (Inr (), t)" and "a \<noteq> [] \<or> b \<noteq> []"
    and "tasksUnique (w_db s)" and "modestRanks (w_db s)"
  shows "placedBeside i a b (board (w_db s)) (board (w_db t))"
proof -
  let ?ids = "map t_ID (others i (w_db s))"
  from place_board [OF assms] obtain pos where
    pos: "insertionIndex (map cardOf (others i (w_db s))) a b = Inr pos"
    and new: "board (w_db t) = take pos ?ids @ [i] @ drop pos ?ids" by blast
  have ids: "map rk_ID (map cardOf (others i (w_db s))) = ?ids" by (simp add: cardOf_def)
  have nth: "rk_ID (map cardOf (others i (w_db s)) ! k) = ?ids ! k" if "k < length ?ids" for k
    using that by (simp add: cardOf_def)
  note spot = insertionIndex_Inr [OF pos assms(2)]
  have "filter (\<lambda>j. j \<noteq> i) (board (w_db s)) = take pos ?ids @ drop pos ?ids"
    by (simp add: board_def others_def filter_map o_def)
  moreover have "take pos ?ids \<noteq> [] \<and> last (take pos ?ids) = a" if "a \<noteq> []"
  proof -
    have p: "0 < pos" "pos \<le> length ?ids" "?ids ! (pos - 1) = a" using spot that nth [of "pos - 1"] by auto
    then have ne: "take pos ?ids \<noteq> []" by (cases ?ids) auto
    have "last (take pos ?ids) = take pos ?ids ! (length (take pos ?ids) - 1)" by (rule last_conv_nth [OF ne])
    also have "\<dots> = a" using p by simp
    finally show ?thesis using ne by blast
  qed
  moreover have "drop pos ?ids \<noteq> [] \<and> hd (drop pos ?ids) = b" if "a = []"
    using spot that nth [of pos] by (auto simp: hd_drop_conv_nth)
  moreover have "b \<in> set (drop pos ?ids)" if "b \<noteq> []"
  proof -
    from spot that obtain k where k: "pos \<le> k" "k < length (map cardOf (others i (w_db s)))"
      "rk_ID (map cardOf (others i (w_db s)) ! k) = b" by blast
    with nth [of k] have "k < length ?ids" "?ids ! k = b" by simp_all
    with k(1) show ?thesis unfolding in_set_conv_nth
      by (intro exI [of _ "k - pos"]) simp
  qed
  ultimately show ?thesis using new unfolding placedBeside_def by blast
qed

lemma PlaceTask_Inr:
  assumes "PlaceTask i a b s = (Inr out, t)"
  shows "(a \<noteq> [] \<or> b \<noteq> []) \<and> (\<exists>s1. place i a b s = (Inr (), s1) \<and> w_db t = w_db s1)"
proof -
  from assms have named: "a \<noteq> [] \<or> b \<noteq> []" by (auto simp: PlaceTask_def fail_Inr)
  from assms obtain s2 where tx: "transaction (place i a b) s = (Inr (), s2)" and get: "GetTask i s2 = (Inr out, t)"
    by (auto simp: PlaceTask_def fail_Inr seq_Inr split: if_splits)
  with transaction_Inr [OF tx] GetTask_Inr [OF get] named show ?thesis by auto
qed

text \<open>
  C4. Placing a card puts it exactly where its neighbours say: the board afterwards is the other
  cards in the order they had, with the card right after the one it goes after (or right before the
  one it goes before), and above the one it goes before when both are named. Ranks are assumed far
  from the ends of a 64-bit integer.
\<close>

theorem PlaceTask_order:
  assumes "PlaceTask i a b s = (Inr out, t)" and "tasksUnique (w_db s)" and "modestRanks (w_db s)"
  shows "placedBeside i a b (board (w_db s)) (board (w_db t))"
  using PlaceTask_Inr [OF assms(1)] place_beside [OF _ _ assms(2,3)] by auto

definition threeCards :: db where
  "threeCards = emptyDb\<lparr>d_tasks :=
     [(taskWith ''x'' TaskStatusPending)\<lparr>t_Rank := 1\<rparr>, (taskWith ''y'' TaskStatusPending)\<lparr>t_Rank := 2\<rparr>,
      (taskWith ''z'' TaskStatusPending)\<lparr>t_Rank := 3\<rparr>]\<rparr>"

theorem PlaceTask_order_witness:
  "\<exists>out t. PlaceTask ''z'' ''x'' ''y'' (worldOf threeCards) = (Inr out, t) \<and>
     placedBeside ''z'' ''x'' ''y'' (board threeCards) (board (w_db t))"
proof -
  have "insertionIndex (map cardOf (others ''z'' threeCards)) ''x'' ''y'' = Inr 1" by code_simp
  moreover have "onBoard ''z'' threeCards" by (simp add: onBoard_def liveTasks_def threeCards_def)
  ultimately obtain out t where run: "PlaceTask ''z'' ''x'' ''y'' (worldOf threeCards) = (Inr out, t)"
    using PlaceTask_quiet [of "worldOf threeCards" "''z''" "''x''" "''y''" 1] by auto
  have "tasksUnique (w_db (worldOf threeCards))" and "modestRanks (w_db (worldOf threeCards))"
    by (simp_all add: tasksUnique_def modestRanks_def threeCards_def taskWith_def task0_def)
  from PlaceTask_order [OF run this] run show ?thesis by auto
qed

end
