(* ===== verification/State_Path.thy ===== *)
theory State_Path
  imports Task_Write
begin

text \<open>
  \<open>task_state_move.go\<close>: moving a card to a state of the board. A state stands for statuses, so the
  move is a breadth-first search through the transition table for the nearest of them, walked one
  update at a time. The abstract contract of the search is stated on legal paths.
\<close>

section \<open>The search\<close>

definition allTaskStatuses :: "task_status list" where
  "allTaskStatuses =
     [TaskStatusPending, TaskStatusInProgress, TaskStatusBlocked, TaskStatusAwaitingDirection,
      TaskStatusFailed, TaskStatusSplit, TaskStatusCompleted, TaskStatusCancelled]"

text \<open>\<open>rank[st] = i\<close> for every status of the target, a later entry overwriting an earlier one.\<close>

fun rankFrom :: "nat \<Rightarrow> task_status list \<Rightarrow> task_status \<rightharpoonup> nat" where
  "rankFrom i [] = Map.empty"
| "rankFrom i (st # sts) = (\<lambda>x. case rankFrom (Suc i) sts x of Some j \<Rightarrow> Some j | None \<Rightarrow> if x = st then Some i else None)"

text \<open>\<open>previous\<close>, \<open>next\<close> and \<open>reached\<close>.\<close>

type_synonym search = "(task_status \<rightharpoonup> task_status) \<times> task_status list \<times> task_status list"

fun tryCands :: "task_status list \<Rightarrow> task_status \<Rightarrow> (task_status \<rightharpoonup> nat) \<Rightarrow> search \<Rightarrow> search" where
  "tryCands [] cur rank s = s"
| "tryCands (cand # cands) cur rank (previous, nxt, reached) =
     tryCands cands cur rank
       (if previous cand \<noteq> None \<or> \<not> CanTransitionTo cur cand then (previous, nxt, reached)
        else (previous(cand \<mapsto> cur), nxt @ [cand],
              if rank cand \<noteq> None then reached @ [cand] else reached))"

fun tryFrontier :: "task_status list \<Rightarrow> (task_status \<rightharpoonup> nat) \<Rightarrow> search \<Rightarrow> search" where
  "tryFrontier [] rank s = s"
| "tryFrontier (cur # frontier) rank s = tryFrontier frontier rank (tryCands allTaskStatuses cur rank s)"

fun bestOf :: "(task_status \<rightharpoonup> nat) \<Rightarrow> task_status \<Rightarrow> task_status list \<Rightarrow> task_status" where
  "bestOf rank best [] = best"
| "bestOf rank best (r # rs) =
     bestOf rank (if the (rank r) < the (rank best) then r else best) rs"

text \<open>
  \<open>walkBack\<close> follows \<open>previous\<close> until it meets \<open>from\<close>; not returning is \<open>None\<close>. A missing key reads
  as the empty string.
\<close>

partial_function (option) walkBack ::
  "(task_status \<rightharpoonup> task_status) \<Rightarrow> task_status \<Rightarrow> task_status \<Rightarrow> task_status list \<Rightarrow> task_status list option" where
  "walkBack previous start cur path =
     (if cur = start then Some path
      else walkBack previous start (case previous cur of Some p \<Rightarrow> p | None \<Rightarrow> TaskStatusOther []) (cur # path))"

declare walkBack.simps [code]

definition unseen :: "(task_status \<rightharpoonup> task_status) \<Rightarrow> nat" where
  "unseen previous = length (filter (\<lambda>c. previous c = None) allTaskStatuses)"

lemma tryCands_grows:
  "tryCands cands cur rank (previous, nxt, reached) = (previous', nxt', reached') \<Longrightarrow>
   (\<forall>x. previous x \<noteq> None \<longrightarrow> previous' x = previous x) \<and>
   (\<exists>new. nxt' = nxt @ new \<and> (\<forall>x \<in> set new. previous x = None \<and> previous' x \<noteq> None \<and> x \<in> set cands))"
proof (induction cands arbitrary: previous nxt reached)
  case (Cons cand cands)
  show ?case
  proof (cases "previous cand \<noteq> None \<or> \<not> CanTransitionTo cur cand")
    case True
    with Cons show ?thesis by fastforce
  next
    case False
    with Cons.prems have "tryCands cands cur rank (previous(cand \<mapsto> cur), nxt @ [cand],
        if rank cand \<noteq> None then reached @ [cand] else reached) = (previous', nxt', reached')" by simp
    from Cons.IH [OF this] obtain new where
      keep: "\<forall>x. (previous(cand \<mapsto> cur)) x \<noteq> None \<longrightarrow> previous' x = (previous(cand \<mapsto> cur)) x"
      and new: "nxt' = (nxt @ [cand]) @ new"
        "\<forall>x \<in> set new. (previous(cand \<mapsto> cur)) x = None \<and> previous' x \<noteq> None \<and> x \<in> set cands" by blast
    show ?thesis
    proof (intro conjI exI [of _ "cand # new"])
      show "\<forall>x. previous x \<noteq> None \<longrightarrow> previous' x = previous x" using keep False by (metis fun_upd_other)
      show "\<forall>x \<in> set (cand # new). previous x = None \<and> previous' x \<noteq> None \<and> x \<in> set (cand # cands)"
        using keep new(2) False by (auto split: if_splits)
    qed (simp add: new(1))
  qed
qed auto

lemma tryFrontier_grows:
  "tryFrontier frontier rank (previous, nxt, reached) = (previous', nxt', reached') \<Longrightarrow>
   (\<forall>x. previous x \<noteq> None \<longrightarrow> previous' x = previous x) \<and>
   (\<exists>new. nxt' = nxt @ new \<and> (\<forall>x \<in> set new. previous x = None \<and> previous' x \<noteq> None \<and> x \<in> set allTaskStatuses))"
proof (induction frontier arbitrary: previous nxt reached)
  case (Cons cur frontier)
  obtain p n r where mid: "tryCands allTaskStatuses cur rank (previous, nxt, reached) = (p, n, r)"
    by (metis prod_cases3)
  with Cons.prems have "tryFrontier frontier rank (p, n, r) = (previous', nxt', reached')" by simp
  from Cons.IH [OF this] tryCands_grows [OF mid] show ?case by fastforce
qed auto

lemma filter_length_less:
  assumes "\<And>x. P x \<Longrightarrow> Q x" and "x \<in> set xs" and "Q x" and "\<not> P x"
  shows "length (filter P xs) < length (filter Q xs)"
  using assms(2)
proof (induction xs)
  case (Cons a xs)
  have "length (filter P ys) \<le> length (filter Q ys)" for ys using assms(1) by (induction ys) auto
  from this [of xs] show ?case using Cons assms by (cases "a = x") (auto simp: less_Suc_eq_le)
qed simp

text \<open>The search proper: a level with something new has fewer statuses left to see.\<close>

function searchPath ::
  "(task_status \<rightharpoonup> nat) \<Rightarrow> task_status \<Rightarrow> (task_status \<rightharpoonup> task_status) \<Rightarrow> task_status list \<Rightarrow>
   task_status list option option" where
  "searchPath rank start previous frontier =
     (if frontier = [] then Some None
      else case tryFrontier frontier rank (previous, [], []) of
        (previous', nxt, reached) \<Rightarrow>
          (case reached of
             best # rs \<Rightarrow>
               (case walkBack previous' start (bestOf rank best rs) [] of
                  None \<Rightarrow> None | Some path \<Rightarrow> Some (Some path))
           | [] \<Rightarrow> searchPath rank start previous' nxt))"
  by pat_completeness auto
termination
proof (relation "measure (\<lambda>(rank, start, previous, frontier). 2 * unseen previous + (if frontier = [] then 0 else 1))")
  fix rank start previous previous' y nxt reached and frontier :: "task_status list"
  assume ne: "frontier \<noteq> []" and run: "(previous', y) = tryFrontier frontier rank (previous, [], [])"
    and x: "(nxt, reached) = y"
  have grow: "\<forall>z. previous z \<noteq> None \<longrightarrow> previous' z = previous z"
    and new: "\<forall>z \<in> set nxt. previous z = None \<and> previous' z \<noteq> None \<and> z \<in> set allTaskStatuses"
    using tryFrontier_grows [of frontier rank previous "[]" "[]" previous' nxt reached] run x by auto
  show "((rank, start, previous', nxt), rank, start, previous, frontier)
    \<in> measure (\<lambda>(rank, start, previous, frontier). 2 * unseen previous + (if frontier = [] then 0 else 1))"
  proof (cases nxt)
    case Nil
    have "length (filter (\<lambda>c. previous' c = None) xs) \<le> length (filter (\<lambda>c. previous c = None) xs)" for xs
      using grow by (induction xs) auto
    from this [of allTaskStatuses] Nil ne show ?thesis by (simp add: unseen_def less_Suc_eq_le)
  next
    case (Cons z zs)
    with new grow have "unseen previous' < unseen previous"
      unfolding unseen_def by (intro filter_length_less [of _ _ z]) auto
    with ne show ?thesis by simp
  qed
qed simp

declare searchPath.simps [simp del]

text \<open>The outer option is whether the call returns, the inner one Go's \<open>(path, ok)\<close>.\<close>

definition StatusPathToState :: "task_status \<Rightarrow> task_state \<Rightarrow> task_status list option option" where
  "StatusPathToState start target =
     (let rank = rankFrom 0 (ts_Statuses target)
      in if rank start \<noteq> None then Some (Some [])
         else searchPath rank start [start \<mapsto> start] [start])"

section \<open>The move\<close>

definition ListTaskStates :: "task_state list tm" where
  "ListTaskStates = bnd taskStates (\<lambda>states. ret states)"

fun findTaskState :: "task_state list \<Rightarrow> string \<Rightarrow> task_state option" where
  "findTaskState [] name = None"
| "findTaskState (s # states) name = (if ts_Name s = name then Some s else findTaskState states name)"

fun walkPath :: "task \<Rightarrow> task_status list \<Rightarrow> task tm" where
  "walkPath task [] = ret task"
| "walkPath task (st # path) = bnd (UpdateTask (task\<lparr>t_Status := st\<rparr>)) (\<lambda>task'. walkPath task' path)"

text \<open>The search always returns (\<open>StatusPathToState_contract\<close>), so its outer \<open>None\<close> is not met.\<close>

definition MoveTaskToState :: "string \<Rightarrow> string \<Rightarrow> task tm" where
  "MoveTaskToState taskID state =
     bnd taskStates (\<lambda>states.
     case findTaskState states state of
       None \<Rightarrow> fail ErrUnknownTaskState
     | Some target \<Rightarrow>
         bnd (GetTask taskID) (\<lambda>task.
         case StatusPathToState (t_Status task) target of
           Some (Some path) \<Rightarrow> walkPath task path
         | _ \<Rightarrow> fail ErrNoPathToState))"

section \<open>Legal paths\<close>

fun legalPath :: "task_status \<Rightarrow> task_status list \<Rightarrow> bool" where
  "legalPath cur [] = True"
| "legalPath cur (st # path) = (CanTransitionTo cur st \<and> legalPath st path)"

definition pathEnd :: "task_status \<Rightarrow> task_status list \<Rightarrow> task_status" where
  "pathEnd start path = last (start # path)"

lemma pathEnd_simps [simp]:
  "pathEnd start [] = start" "pathEnd start (st # path) = pathEnd st path"
  "pathEnd start (path @ [st]) = st"
  by (simp_all add: pathEnd_def)

lemma legalPath_snoc [simp]:
  "legalPath start (path @ [st]) \<longleftrightarrow> legalPath start path \<and> CanTransitionTo (pathEnd start path) st"
  by (induction path arbitrary: start) auto

definition reachIn :: "task_status \<Rightarrow> nat \<Rightarrow> task_status \<Rightarrow> bool" where
  "reachIn start k x \<longleftrightarrow> (\<exists>path. length path = k \<and> legalPath start path \<and> pathEnd start path = x)"

text \<open>The nodes at distance exactly \<open>k\<close>.\<close>

definition firstAt :: "task_status \<Rightarrow> nat \<Rightarrow> task_status \<Rightarrow> bool" where
  "firstAt start k x \<longleftrightarrow> reachIn start k x \<and> (\<forall>j < k. \<not> reachIn start j x)"

lemma reachIn_0 [simp]: "reachIn start 0 x \<longleftrightarrow> x = start"
  by (auto simp: reachIn_def)

lemma reachIn_Suc: "reachIn start (Suc k) x \<longleftrightarrow> (\<exists>y. reachIn start k y \<and> CanTransitionTo y x)"
proof
  assume "reachIn start (Suc k) x"
  then obtain path where p: "length path = Suc k" "legalPath start path" "pathEnd start path = x"
    by (auto simp: reachIn_def)
  then obtain path' z where "path = path' @ [z]" by (metis length_0_conv nat.distinct(1) rev_exhaust)
  with p show "\<exists>y. reachIn start k y \<and> CanTransitionTo y x" by (auto simp: reachIn_def)
next
  assume "\<exists>y. reachIn start k y \<and> CanTransitionTo y x"
  then obtain path where p: "length path = k" "legalPath start path" "CanTransitionTo (pathEnd start path) x"
    by (auto simp: reachIn_def)
  then show "reachIn start (Suc k) x"
    unfolding reachIn_def by (intro exI [of _ "path @ [x]"]) simp
qed

lemma reachIn_first: "reachIn start k x \<Longrightarrow> \<exists>j \<le> k. firstAt start j x"
proof (induction k rule: less_induct)
  case (less k)
  show ?case
  proof (cases "\<exists>j < k. reachIn start j x")
    case True
    then obtain j where j: "j < k" "reachIn start j x" by blast
    from less.IH [OF this] j(1) show ?thesis by (meson le_trans less_imp_le)
  qed (use less.prems in \<open>auto simp: firstAt_def\<close>)
qed

lemma firstAt_Suc:
  "firstAt start (Suc k) x \<longleftrightarrow> (\<exists>y. firstAt start k y \<and> CanTransitionTo y x) \<and> (\<forall>j \<le> k. \<not> reachIn start j x)"
proof
  assume first: "firstAt start (Suc k) x"
  then obtain y where y: "reachIn start k y" "CanTransitionTo y x" by (auto simp: firstAt_def reachIn_Suc)
  have "\<not> reachIn start j y" if "j < k" for j
  proof
    assume "reachIn start j y"
    then have "reachIn start (Suc j) x" using y(2) by (auto simp: reachIn_Suc)
    with first that show False by (simp add: firstAt_def)
  qed
  with y first show "(\<exists>y. firstAt start k y \<and> CanTransitionTo y x) \<and> (\<forall>j \<le> k. \<not> reachIn start j x)"
    by (auto simp: firstAt_def less_Suc_eq_le)
qed (auto simp: firstAt_def reachIn_Suc less_Suc_eq_le)

text \<open>An empty level is the last one.\<close>

lemma no_more_levels:
  assumes "\<And>x. \<not> firstAt start k x"
  shows "k \<le> j \<Longrightarrow> \<not> firstAt start j x"
proof (induction j arbitrary: x)
  case (Suc j)
  show ?case
  proof (cases "k \<le> j")
    case True
    with Suc.IH show ?thesis by (auto simp: firstAt_Suc)
  next
    case False
    with Suc.prems have "k = Suc j" by simp
    with assms show ?thesis by simp
  qed
qed (use assms in simp)

lemma targets_listed: "CanTransitionTo x y \<Longrightarrow> y \<in> set allTaskStatuses"
  by (cases x) (auto simp: allTaskStatuses_def)

section \<open>What one level of the search does\<close>

lemma tryCands_spec:
  assumes "tryCands cands cur rank (previous, nxt, reached) = (previous', nxt', reached')" and "distinct cands"
  shows "previous' x = (if previous x = None \<and> x \<in> set cands \<and> CanTransitionTo cur x then Some cur else previous x) \<and>
    (x \<in> set nxt' \<longleftrightarrow> x \<in> set nxt \<or> x \<in> set cands \<and> previous x = None \<and> CanTransitionTo cur x) \<and>
    (x \<in> set reached' \<longleftrightarrow>
       x \<in> set reached \<or> x \<in> set cands \<and> previous x = None \<and> CanTransitionTo cur x \<and> rank x \<noteq> None)"
  using assms
proof (induction cands arbitrary: previous nxt reached)
  case (Cons cand cands)
  then have new: "cand \<notin> set cands" and dist: "distinct cands" by simp_all
  show ?case
  proof (cases "previous cand \<noteq> None \<or> \<not> CanTransitionTo cur cand")
    case True
    with Cons.prems have "tryCands cands cur rank (previous, nxt, reached) = (previous', nxt', reached')" by simp
    from Cons.IH [OF this dist] True show ?thesis by auto
  next
    case False
    with Cons.prems have "tryCands cands cur rank (previous(cand \<mapsto> cur), nxt @ [cand],
        if rank cand \<noteq> None then reached @ [cand] else reached) = (previous', nxt', reached')" by simp
    from Cons.IH [OF this dist] False new show ?thesis by (cases "x = cand") auto
  qed
qed auto

lemma tryFrontier_spec:
  assumes "tryFrontier frontier rank (previous, nxt, reached) = (previous', nxt', reached')"
  shows "(previous x \<noteq> None \<longrightarrow> previous' x = previous x) \<and>
    (\<forall>y. previous x = None \<and> previous' x = Some y \<longrightarrow> y \<in> set frontier \<and> CanTransitionTo y x) \<and>
    (previous x = None \<longrightarrow> (previous' x \<noteq> None \<longleftrightarrow> (\<exists>y \<in> set frontier. CanTransitionTo y x))) \<and>
    (x \<in> set nxt' \<longleftrightarrow> x \<in> set nxt \<or> previous x = None \<and> previous' x \<noteq> None) \<and>
    (x \<in> set reached' \<longleftrightarrow> x \<in> set reached \<or> previous x = None \<and> previous' x \<noteq> None \<and> rank x \<noteq> None)"
  using assms
proof (induction frontier arbitrary: previous nxt reached)
  case (Cons cur frontier)
  obtain p n r where mid: "tryCands allTaskStatuses cur rank (previous, nxt, reached) = (p, n, r)"
    by (metis prod_cases3)
  have "distinct allTaskStatuses" by (simp add: allTaskStatuses_def)
  have step:
    "p x = (if previous x = None \<and> CanTransitionTo cur x then Some cur else previous x)"
    "x \<in> set n \<longleftrightarrow> x \<in> set nxt \<or> previous x = None \<and> CanTransitionTo cur x"
    "x \<in> set r \<longleftrightarrow> x \<in> set reached \<or> previous x = None \<and> CanTransitionTo cur x \<and> rank x \<noteq> None" for x
    using tryCands_spec [OF mid \<open>distinct allTaskStatuses\<close>, of x] targets_listed [of cur x] by auto
  from mid Cons.prems have "tryFrontier frontier rank (p, n, r) = (previous', nxt', reached')" by simp
  note IH = Cons.IH [OF this]
  show ?case
  proof (cases "previous x = None \<and> CanTransitionTo cur x")
    case True
    with step [of x] have "p x = Some cur" "x \<in> set n" "x \<in> set r \<longleftrightarrow> x \<in> set reached \<or> rank x \<noteq> None" by simp_all
    with IH True show ?thesis by simp
  next
    case False
    with step [of x] have "p x = previous x" "x \<in> set n \<longleftrightarrow> x \<in> set nxt" "x \<in> set r \<longleftrightarrow> x \<in> set reached" by auto
    with IH False show ?thesis by (cases "previous x") auto
  qed
qed auto

text \<open>The invariant of the search at level \<open>k\<close>.\<close>

definition levelInv ::
  "(task_status \<rightharpoonup> nat) \<Rightarrow> task_status \<Rightarrow> nat \<Rightarrow> (task_status \<rightharpoonup> task_status) \<Rightarrow> task_status list \<Rightarrow> bool" where
  "levelInv rank start k previous frontier \<longleftrightarrow>
     (\<forall>x. previous x \<noteq> None \<longleftrightarrow> (\<exists>j \<le> k. firstAt start j x)) \<and>
     (\<forall>x. x \<in> set frontier \<longleftrightarrow> firstAt start k x) \<and>
     (\<forall>x y. x \<noteq> start \<and> previous x = Some y \<longrightarrow>
        CanTransitionTo y x \<and> (\<exists>j. firstAt start j y \<and> firstAt start (Suc j) x)) \<and>
     (\<forall>x. \<forall>j \<le> k. firstAt start j x \<longrightarrow> rank x = None)"

lemma firstAt_unique: "firstAt start j x \<Longrightarrow> firstAt start k x \<Longrightarrow> j = k"
  by (metis firstAt_def linorder_neqE_nat)

lemma level_step:
  assumes inv: "levelInv rank start k previous frontier"
    and run: "tryFrontier frontier rank (previous, [], []) = (previous', nxt, reached)"
  shows "(\<forall>x. x \<in> set nxt \<longleftrightarrow> firstAt start (Suc k) x) \<and>
    (\<forall>x. x \<in> set reached \<longleftrightarrow> firstAt start (Suc k) x \<and> rank x \<noteq> None) \<and>
    (\<forall>x. previous' x \<noteq> None \<longleftrightarrow> (\<exists>j \<le> Suc k. firstAt start j x)) \<and>
    (\<forall>x y. x \<noteq> start \<and> previous' x = Some y \<longrightarrow>
        CanTransitionTo y x \<and> (\<exists>j. firstAt start j y \<and> firstAt start (Suc j) x))"
proof -
  note spec = tryFrontier_spec [OF run]
  from inv have dom: "\<And>x. previous x \<noteq> None \<longleftrightarrow> (\<exists>j \<le> k. firstAt start j x)"
    and front: "\<And>x. x \<in> set frontier \<longleftrightarrow> firstAt start k x"
    and pred: "\<And>x y. x \<noteq> start \<Longrightarrow> previous x = Some y \<Longrightarrow>
      CanTransitionTo y x \<and> (\<exists>j. firstAt start j y \<and> firstAt start (Suc j) x)"
    by (auto simp: levelInv_def)
  have seen: "previous x = None \<longleftrightarrow> (\<forall>j \<le> k. \<not> reachIn start j x)" for x
    using dom [of x] reachIn_first by (metis firstAt_def le_trans)
  have new: "previous x = None \<and> previous' x \<noteq> None \<longleftrightarrow> firstAt start (Suc k) x" for x
    using spec [of x] front seen [of x] by (auto simp: firstAt_Suc)
  have "CanTransitionTo y x \<and> (\<exists>j. firstAt start j y \<and> firstAt start (Suc j) x)"
    if "x \<noteq> start" "previous' x = Some y" for x y
  proof (cases "previous x")
    case None
    with spec [of x] that front new [of x] show ?thesis by auto
  next
    case (Some z)
    with spec [of x] that pred show ?thesis by auto
  qed
  moreover have "previous' x \<noteq> None \<longleftrightarrow> (\<exists>j \<le> Suc k. firstAt start j x)" for x
    using spec [of x] dom [of x] new [of x] by (auto simp: le_Suc_eq)
  moreover have "x \<in> set nxt \<longleftrightarrow> firstAt start (Suc k) x" "x \<in> set reached \<longleftrightarrow> firstAt start (Suc k) x \<and> rank x \<noteq> None" for x
    using spec [of x] new [of x] by auto
  ultimately show ?thesis by blast
qed

text \<open>Walking back from a node of level \<open>j\<close> gives a legal path of length \<open>j\<close> to it.\<close>

lemma walkBack_path:
  assumes dom: "\<And>x j. firstAt start j x \<Longrightarrow> j \<le> k \<Longrightarrow> previous x \<noteq> None"
    and pred: "\<And>x y. x \<noteq> start \<Longrightarrow> previous x = Some y \<Longrightarrow>
      CanTransitionTo y x \<and> (\<exists>j. firstAt start j y \<and> firstAt start (Suc j) x)"
  shows "firstAt start j x \<Longrightarrow> j \<le> k \<Longrightarrow>
    \<exists>p. walkBack previous start x path = Some (p @ path) \<and> length p = j \<and> legalPath start p \<and> pathEnd start p = x"
proof (induction j arbitrary: x path)
  case 0
  then have "x = start" by (simp add: firstAt_def)
  then show ?case by (simp add: walkBack.simps)
next
  case (Suc j)
  then have ne: "x \<noteq> start" by (auto simp: firstAt_def)
  obtain y where y: "previous x = Some y" using dom [OF Suc.prems] by auto
  from pred [OF ne y] obtain i where "CanTransitionTo y x" "firstAt start i y" "firstAt start (Suc i) x" by blast
  with firstAt_unique [OF Suc.prems(1)] have "CanTransitionTo y x" "firstAt start j y" by auto
  with Suc.IH [of y "x # path"] Suc.prems(2) obtain p where
    "walkBack previous start y (x # path) = Some (p @ x # path)" "length p = j" "legalPath start p" "pathEnd start p = y"
    by auto
  with y ne \<open>CanTransitionTo y x\<close> show ?case
    by (intro exI [of _ "p @ [x]"]) (simp add: walkBack.simps [of previous start x])
qed

lemma bestOf_best:
  "bestOf rank best rs \<in> set (best # rs) \<and>
   (\<forall>r \<in> set (best # rs). the (rank (bestOf rank best rs)) \<le> the (rank r))"
proof (induction rs arbitrary: best)
  case (Cons r rs)
  from Cons.IH [of "if the (rank r) < the (rank best) then r else best"] show ?case
    by (auto split: if_splits)
qed simp

section \<open>The contract\<close>

text \<open>
  What a search for a state promises: it returns; a path it returns is legal, ends in the state, no
  legal path to the state is shorter, and among the shortest none ends in an earlier status of the
  state; and when it says there is none, there is none.
\<close>

definition shortestTo :: "(task_status \<rightharpoonup> nat) \<Rightarrow> task_status \<Rightarrow> task_status list option option \<Rightarrow> bool" where
  "shortestTo rank start result \<longleftrightarrow>
     (case result of
        None \<Rightarrow> False
      | Some None \<Rightarrow> \<forall>path. legalPath start path \<longrightarrow> rank (pathEnd start path) = None
      | Some (Some p) \<Rightarrow>
          legalPath start p \<and> rank (pathEnd start p) \<noteq> None \<and>
          (\<forall>path. legalPath start path \<and> rank (pathEnd start path) \<noteq> None \<longrightarrow>
             length p < length path \<or>
             length p = length path \<and> the (rank (pathEnd start p)) \<le> the (rank (pathEnd start path))))"

lemma searchPath_shortest:
  "levelInv rank start k previous frontier \<Longrightarrow> shortestTo rank start (searchPath rank start previous frontier)"
proof (induction rank start previous frontier arbitrary: k rule: searchPath.induct)
  case (1 rank start previous frontier)
  have none: "rank x = None" if "firstAt start j x" "j \<le> k" for x j
    using 1(2) that by (auto simp: levelInv_def)
  show ?case
  proof (cases "frontier = []")
    case True
    with 1(2) have "\<not> firstAt start k x" for x by (auto simp: levelInv_def)
    then have "\<not> firstAt start j x" if "k \<le> j" for j x using no_more_levels that by blast
    then have "rank (pathEnd start path) = None" if "legalPath start path" for path
      using reachIn_first [of start "length path" "pathEnd start path"] that none
      by (metis linear reachIn_def)
    with True show ?thesis by (simp add: searchPath.simps [of rank start previous] shortestTo_def)
  next
    case False
    obtain previous' nxt reached where run: "tryFrontier frontier rank (previous, [], []) = (previous', nxt, reached)"
      by (metis prod_cases3)
    note step = level_step [OF 1(2) run]
    show ?thesis
    proof (cases reached)
      case Nil
      have "levelInv rank start (Suc k) previous' nxt"
        unfolding levelInv_def using step Nil none by (auto simp: le_Suc_eq)
      from 1(1) [OF False run [symmetric] refl Nil this] show ?thesis
        using False run Nil by (simp add: searchPath.simps [of rank start previous])
    next
      case (Cons best rs)
      let ?b = "bestOf rank best rs"
      from bestOf_best [of rank best rs] Cons step have b: "firstAt start (Suc k) ?b" "rank ?b \<noteq> None"
        and least: "\<And>x. firstAt start (Suc k) x \<Longrightarrow> rank x \<noteq> None \<Longrightarrow> the (rank ?b) \<le> the (rank x)" by auto
      from step obtain p where p: "walkBack previous' start ?b [] = Some p" "length p = Suc k"
        "legalPath start p" "pathEnd start p = ?b"
        using walkBack_path [of start "Suc k" previous' "Suc k" ?b "[]"] b(1) by (metis append_Nil2 order_refl)
      have "length p < length path \<or> length p = length path \<and> the (rank (pathEnd start p)) \<le> the (rank (pathEnd start path))"
        if path: "legalPath start path" "rank (pathEnd start path) \<noteq> None" for path
      proof -
        from path(1) obtain j where j: "j \<le> length path" "firstAt start j (pathEnd start path)"
          using reachIn_first by (metis reachIn_def)
        with none path(2) have "Suc k \<le> j" by (metis not_less_eq_eq)
        with j p least [of "pathEnd start path"] path(2) show ?thesis
          by (cases "j = Suc k") auto
      qed
      with p b(2) False run Cons show ?thesis
        by (simp add: searchPath.simps [of rank start previous] shortestTo_def)
    qed
  qed
qed

lemma StatusPathToState_shortest:
  "shortestTo (rankFrom 0 (ts_Statuses target)) start (StatusPathToState start target)"
proof (cases "rankFrom 0 (ts_Statuses target) start")
  case None
  have first0: "firstAt start j x \<longleftrightarrow> x = start" if "j = 0" for j x using that by (simp add: firstAt_def)
  have "levelInv (rankFrom 0 (ts_Statuses target)) start 0 [start \<mapsto> start] [start]"
    using None by (auto simp: levelInv_def first0)
  with None searchPath_shortest show ?thesis by (simp add: StatusPathToState_def)
next
  case (Some i)
  have "0 < length path \<or> path = []" for path :: "task_status list" by auto
  with Some show ?thesis by (auto simp: StatusPathToState_def shortestTo_def)
qed

text \<open>
  C5. The search for a board state keeps its contract for every status and every state: it returns,
  with a shortest legal path to the earliest-listed reachable status of the state, or with none
  exactly when the transition table has none.
\<close>

theorem StatusPathToState_contract:
  "shortestTo (rankFrom 0 (ts_Statuses target)) start (StatusPathToState start target)"
  by (rule StatusPathToState_shortest)

section \<open>The states of a module\<close>

text \<open>What a declaration of states must be.\<close>

definition validStates :: "task_state list \<Rightarrow> bool" where
  "validStates states \<longleftrightarrow>
     states \<noteq> [] \<and> (\<forall>s \<in> set states. TrimSpace (ts_Name s) \<noteq> []) \<and> distinct (map ts_Name states) \<and>
     (\<forall>st \<in> set (concat (map ts_Statuses states)). knownTaskStatuses st) \<and>
     distinct (concat (map ts_Statuses states))"

lemma parseStatuses_iff:
  "case parseStatuses name sts held of
     Inl e \<Rightarrow> \<not> ((\<forall>st \<in> set sts. knownTaskStatuses st \<and> held st = None) \<and> distinct sts)
   | Inr held' \<Rightarrow> (\<forall>st \<in> set sts. knownTaskStatuses st \<and> held st = None) \<and> distinct sts \<and>
       dom held' = dom held \<union> set sts"
proof (induction name sts held rule: parseStatuses.induct)
  case (2 name status sts held)
  show ?case
  proof (cases "knownTaskStatuses status \<and> held status = None")
    case True
    have rest: "(\<forall>st \<in> set sts. knownTaskStatuses st \<and> (held(status \<mapsto> name)) st = None) \<longleftrightarrow>
        (\<forall>st \<in> set sts. knownTaskStatuses st \<and> held st = None) \<and> status \<notin> set sts" by auto
    have "dom (held(status \<mapsto> name)) \<union> set sts = dom held \<union> set (status # sts)" by auto
    with True "2.IH" rest show ?thesis
      by (cases "parseStatuses name sts (held(status \<mapsto> name))") (auto simp del: fun_upd_apply dom_fun_upd)
  next
    case False
    then show ?thesis by (cases "held status") auto
  qed
qed simp

lemma parseStates_iff:
  "(\<exists>h. parseStates states names held = Inr h) \<longleftrightarrow>
     (\<forall>s \<in> set states. TrimSpace (ts_Name s) \<noteq> [] \<and> ts_Name s \<notin> names) \<and> distinct (map ts_Name states) \<and>
     (\<forall>st \<in> set (concat (map ts_Statuses states)). knownTaskStatuses st \<and> held st = None) \<and>
     distinct (concat (map ts_Statuses states))"
proof (induction states names held rule: parseStates.induct)
  case (2 s states names held)
  show ?case
  proof (cases "TrimSpace (ts_Name s) = [] \<or> ts_Name s \<in> names")
    case True
    then show ?thesis by auto
  next
    case False
    note first = parseStatuses_iff [where name = "ts_Name s" and sts = "ts_Statuses s" and held = held]
    show ?thesis
    proof (cases "parseStatuses (ts_Name s) (ts_Statuses s) held")
      case (Inl e)
      with first False show ?thesis by auto
    next
      case (Inr held')
      with first have ok: "\<forall>st \<in> set (ts_Statuses s). knownTaskStatuses st \<and> held st = None" "distinct (ts_Statuses s)"
        and dom: "\<And>st. held' st = None \<longleftrightarrow> held st = None \<and> st \<notin> set (ts_Statuses s)" by auto
      define Y where "Y = concat (map ts_Statuses states)"
      from 2 [of held'] False Inr have IH: "(\<exists>h. parseStates states (insert (ts_Name s) names) held' = Inr h) \<longleftrightarrow>
        (\<forall>s' \<in> set states. TrimSpace (ts_Name s') \<noteq> [] \<and> ts_Name s' \<notin> insert (ts_Name s) names) \<and>
        distinct (map ts_Name states) \<and>
        (\<forall>st \<in> set Y. knownTaskStatuses st \<and> held' st = None) \<and>
        distinct Y" by (simp add: Y_def)
      have run: "parseStates (s # states) names held = parseStates states (insert (ts_Name s) names) held'"
        using False Inr by simp
      have conc: "concat (map ts_Statuses (s # states)) = ts_Statuses s @ Y" by (simp add: Y_def)
      have names: "(\<forall>s' \<in> set (s # states). TrimSpace (ts_Name s') \<noteq> [] \<and> ts_Name s' \<notin> names) \<and>
          distinct (map ts_Name (s # states)) \<longleftrightarrow>
          (\<forall>s' \<in> set states. TrimSpace (ts_Name s') \<noteq> [] \<and> ts_Name s' \<notin> insert (ts_Name s) names) \<and>
          distinct (map ts_Name states)" using False by (auto simp: image_iff)
      have sts: "(\<forall>st \<in> set (ts_Statuses s @ Y). knownTaskStatuses st \<and> held st = None) \<and>
          distinct (ts_Statuses s @ Y) \<longleftrightarrow>
          (\<forall>st \<in> set Y. knownTaskStatuses st \<and> held' st = None) \<and> distinct Y"
        using ok dom by auto
      show ?thesis unfolding run IH conc using names sts by argo
    qed
  qed
qed simp

lemma ParseTaskStates_valid: "ParseTaskStates states = Inr ss \<longleftrightarrow> ss = states \<and> validStates states"
  using parseStates_iff [of states "{}" Map.empty]
  by (auto simp: ParseTaskStates_def validStates_def split: sum.splits)

lemma StateNameFor_held:
  "distinct (concat (map ts_Statuses states)) \<Longrightarrow> s \<in> set states \<Longrightarrow> st \<in> set (ts_Statuses s) \<Longrightarrow>
   StateNameFor states st = ts_Name s"
  by (induction states) auto

lemma StoredTaskStates_valid: "StoredTaskStates g = Inr states \<Longrightarrow> validStates states"
proof (cases g)
  case Undeclared
  moreover have "ParseTaskStates DefaultTaskStates = Inr DefaultTaskStates" by code_simp
  ultimately show "StoredTaskStates g = Inr states \<Longrightarrow> validStates states" by (simp add: ParseTaskStates_valid)
qed (auto simp: ParseTaskStates_valid split: sum.splits)

text \<open>
  C6. A declaration of board states is accepted exactly when it is one: at least one state, every
  name non-blank and used once, every status a task status and held by one state only; and what is
  accepted is returned unchanged, with each status named by the state that holds it.
\<close>

theorem ParseTaskStates_sound_complete:
  "(ParseTaskStates states = Inr states \<longleftrightarrow> validStates states) \<and>
   (\<forall>ss. ParseTaskStates states = Inr ss \<longrightarrow> ss = states) \<and>
   (validStates states \<longrightarrow> (\<forall>s \<in> set states. \<forall>st \<in> set (ts_Statuses s). StateNameFor states st = ts_Name s))"
proof (intro conjI allI impI ballI)
  fix s st
  assume "validStates states" "s \<in> set states" "st \<in> set (ts_Statuses s)"
  then show "StateNameFor states st = ts_Name s" by (intro StateNameFor_held) (simp_all add: validStates_def)
qed (simp_all add: ParseTaskStates_valid)

theorem ParseTaskStates_sound_complete_witness:
  "ParseTaskStates DefaultTaskStates = Inr DefaultTaskStates \<and>
   StateNameFor DefaultTaskStates TaskStatusFailed = ''Waiting''"
proof -
  have valid: "validStates DefaultTaskStates" using StoredTaskStates_valid [of Undeclared] by simp
  have "StateNameFor DefaultTaskStates TaskStatusFailed = ''Waiting''" by (simp add: DefaultTaskStates_def)
  with valid ParseTaskStates_sound_complete [of DefaultTaskStates] show ?thesis by blast
qed

section \<open>Moving a task\<close>

lemma UpdateTask_out:
  assumes "UpdateTask task s = (Inr out, t)" and "StoredTaskStates (w_setting s) = Inr states"
  shows "t_Status out = t_Status task \<and> t_State out = StateNameFor states (t_Status task) \<and> t_ID out = t_ID task \<and>
    w_setting t = w_setting s"
proof -
  from assms(1) obtain current s1 s2 now s3 n s4 r s5 tags s6 states' s7 where
    steps: "GetTask (t_ID task) s = (Inr current, s1)" "blockerGate current task s1 = (Inr (), s2)"
      "nowStr s2 = (Inr now, s3)"
      "updateQ tasksT (liveTask (t_ID task)) (\<lambda>_. taskRow (mergedTask current task now)) s3 = (Inr n, s4)"
      "attempt (setTaskTags (t_ID task) (t_Tags (mergedTask current task now))) s4 = (Inr r, s5)"
      "loadTagNames (t_ID task) s5 = (Inr tags, s6)" "taskStates s6 = (Inr states', s7)"
    and out: "out = (mergedTask current task now)\<lparr>t_Tags := tags, t_State := StateNameFor states' (t_Status task)\<rparr>"
    unfolding UpdateTask_def applyUpdate_def afterUpdate_def Let_def bnd_Inr seq_Inr unless_Inr ret_Inr
    by (auto simp del: not_gr_zero)
  have "w_setting s6 = w_setting s"
    using steps(1-6) steadyD(2) [OF steady_GetTask] steadyD(2) [OF steady_blockerGate] steadyD(2) [OF steady_nowStr]
      steadyD(2) [OF steady_statements(3)] steadyD(2) [OF steady_attempt [OF steady_setTaskTags]]
      steadyD(2) [OF steady_loadTagNames] by metis
  with steps(7) assms(2) have "states' = states" by (simp add: taskStates_Inr)
  with out steadyD(2) [OF steady_task_writes(2) assms(1)] show ?thesis by simp
qed

lemma walkPath_out:
  assumes "walkPath task path s = (Inr out, t)" and "StoredTaskStates (w_setting s) = Inr states"
    and "t_State task = StateNameFor states (t_Status task)"
  shows "t_Status out = pathEnd (t_Status task) path \<and> t_State out = StateNameFor states (t_Status out) \<and>
    t_ID out = t_ID task"
  using assms
proof (induction path arbitrary: task s)
  case (Cons st path)
  then obtain task' s' where upd: "UpdateTask (task\<lparr>t_Status := st\<rparr>) s = (Inr task', s')"
    and rest: "walkPath task' path s' = (Inr out, t)" by (auto simp: bnd_Inr)
  from UpdateTask_out [OF upd Cons.prems(2)] Cons.IH [OF rest] Cons.prems(2) show ?case by simp
qed (auto simp: ret_Inr)

lemma findTaskState_in: "findTaskState states name = Some s \<Longrightarrow> s \<in> set states \<and> ts_Name s = name"
  by (induction states) (auto split: if_splits)

lemma rankFrom_in: "rankFrom i sts x \<noteq> None \<longleftrightarrow> x \<in> set sts"
proof (induction sts arbitrary: i)
  case (Cons st sts)
  from Cons.IH [of "Suc i"] show ?case by auto
qed simp

lemma StatusPathToState_end:
  assumes "StatusPathToState start target = Some (Some path)"
  shows "legalPath start path \<and> pathEnd start path \<in> set (ts_Statuses target)"
  using StatusPathToState_shortest [of target start] assms rankFrom_in by (auto simp: shortestTo_def)

text \<open>
  A task moved to a state of the board ends up in it: the returned task's status is one the
  state holds, and the state it shows is the state asked for.
\<close>

lemma MoveTaskToState_lands:
  assumes run: "MoveTaskToState i state s = (Inr out, t)"
  shows "\<exists>states target. StoredTaskStates (w_setting s) = Inr states \<and> target \<in> set states \<and> ts_Name target = state \<and>
    t_Status out \<in> set (ts_Statuses target) \<and> t_State out = state \<and> t_ID out = i"
proof -
  from run obtain states s1 where states: "taskStates s = (Inr states, s1)"
    and rest: "(case findTaskState states state of
       None \<Rightarrow> fail ErrUnknownTaskState
     | Some target \<Rightarrow>
         bnd (GetTask i) (\<lambda>task.
         case StatusPathToState (t_Status task) target of
           Some (Some path) \<Rightarrow> walkPath task path
         | _ \<Rightarrow> fail ErrNoPathToState)) s1 = (Inr out, t)"
    unfolding MoveTaskToState_def bnd_Inr by blast
  have stored: "StoredTaskStates (w_setting s) = Inr states" "s1 = s" using states by (auto simp: taskStates_Inr)
  from rest obtain target where target: "findTaskState states state = Some target"
    by (cases "findTaskState states state") (auto simp: fail_Inr)
  with rest obtain task s2 where task: "GetTask i s = (Inr task, s2)"
    and move: "(case StatusPathToState (t_Status task) target of
           Some (Some path) \<Rightarrow> walkPath task path
         | _ \<Rightarrow> fail ErrNoPathToState) s2 = (Inr out, t)"
    unfolding stored(2) by (auto simp: bnd_Inr)
  from move obtain path where path: "StatusPathToState (t_Status task) target = Some (Some path)"
    and walk: "walkPath task path s2 = (Inr out, t)"
    by (auto simp: fail_Inr split: option.splits)
  have s2: "w_setting s2 = w_setting s" using steadyD(2) [OF steady_GetTask task] .
  have task': "t_State task = StateNameFor states (t_Status task)" "t_ID task = i"
    using task stored(1) by (auto simp: GetTask_def succ liveTask_def dest!: find_Some_in loadTagNames_db)
  from walkPath_out [OF walk _ task'(1)] stored(1) s2 StatusPathToState_end [OF path] task'(2)
  have "t_Status out \<in> set (ts_Statuses target)" "t_State out = StateNameFor states (t_Status out)" "t_ID out = i" by simp_all
  moreover have "StateNameFor states (t_Status out) = ts_Name target"
    using StateNameFor_held StoredTaskStates_valid [OF stored(1)] findTaskState_in [OF target] calculation(1)
    by (auto simp: validStates_def)
  ultimately show ?thesis using stored(1) findTaskState_in [OF target] by auto
qed

lemma findTaskState_Doing:
  "findTaskState DefaultTaskStates ''Doing'' = Some \<lparr>ts_Name = ''Doing'', ts_Statuses = [TaskStatusInProgress, TaskStatusSplit]\<rparr>"
  by code_simp

lemma StatusPathToState_Doing:
  "StatusPathToState TaskStatusPending \<lparr>ts_Name = ''Doing'', ts_Statuses = [TaskStatusInProgress, TaskStatusSplit]\<rparr> =
     Some (Some [TaskStatusInProgress])"
  by code_simp

lemma MoveTaskToState_lands_example:
  "\<exists>out t. MoveTaskToState ''t'' ''Doing'' (worldOf (blockedDb TaskStatusCompleted)) = (Inr out, t) \<and>
     t_State out = ''Doing''"
proof -
  let ?s = "worldOf (blockedDb TaskStatusCompleted)"
  obtain task s1 where task: "GetTask ''t'' ?s = (Inr task, s1)" and same: "sameRow (taskWith ''t'' TaskStatusPending) task"
    and s1: "w_db s1 = w_db ?s"
    using GetTask_calm [of ?s DefaultTaskStates "''t''" "taskWith ''t'' TaskStatusPending"]
    by (auto simp: blockedDb_facts liveTask_def)
  have "\<exists>out t. UpdateTask (task\<lparr>t_Status := TaskStatusInProgress\<rparr>) s1 = (Inr out, t)"
    using quiet_steady [OF steady_GetTask task quiet_worldOf] s1 same
    by (intro UpdateTask_quiet [where row = "taskWith ''t'' TaskStatusPending"])
      (simp_all add: blockedDb_facts liveTask_def isTerminalStatus_def sameRow_fields)
  then obtain out t where upd: "UpdateTask (task\<lparr>t_Status := TaskStatusInProgress\<rparr>) s1 = (Inr out, t)" by blast
  have "MoveTaskToState ''t'' ''Doing'' ?s = (Inr out, t)"
    using task upd same
    by (simp add: MoveTaskToState_def bnd_def taskStates_def findTaskState_Doing StatusPathToState_Doing sameRow_fields ret_def)
  with MoveTaskToState_lands [OF this] show ?thesis by auto
qed

end
