(* ===== verification/Run_Rollback.thy ===== *)
theory Run_Rollback
  imports Task_Write
begin

text \<open>
  \<open>workflow_run_rollback.go\<close>: a rollback takes the \<open>rolling_back\<close> status as a lock, compensates the
  run's own tasks and steps in one transaction, and ends in \<open>rolled_back\<close> or \<open>rollback_failed\<close>. A run
  some task of which is depended on by a task of another run is not compensated.

  \<open>RollbackWorkflowRun\<close> returns a run beside its error when the compensation fails, so its result is
  a pair of the run and the error, if any.
\<close>

text \<open>Whether a task of another run depends on a task of this one.\<close>

definition foreignGuard :: "string \<Rightarrow> task \<Rightarrow> unit tm" where
  "foreignGuard runID task =
     bnd (selectQ dependenciesT (\<lambda>e. e_ToTaskID e = t_ID task)) (\<lambda>inbound.
     forEach inbound (\<lambda>rel.
       bnd (attempt (takeQ tasksT (\<lambda>t. t_ID t = e_FromTaskID rel) ErrTaskNotFound)) (\<lambda>r.
       case r of
         Inl _ \<Rightarrow> ret ()
       | Inr fromTask \<Rightarrow>
           unless (\<not> (t_WorkflowRunID fromTask \<noteq> [] \<and> t_WorkflowRunID fromTask \<noteq> runID))
             (ErrForeignRunDependency (t_ID task) (t_ID fromTask) (t_WorkflowRunID fromTask)))))"

definition resetRow :: "string \<Rightarrow> task \<Rightarrow> task" where
  "resetRow now t = t\<lparr>t_Status := TaskStatusPending, t_WorkflowRunID := [], t_CompletedAt := [], t_UpdatedAt := now\<rparr>"

definition ofRun :: "string \<Rightarrow> task \<Rightarrow> bool" where
  "ofRun runID t \<longleftrightarrow> t_WorkflowRunID t = runID \<and> \<not> t_Deleted t"

definition todoOfRun :: "string \<Rightarrow> task_todo \<Rightarrow> bool" where
  "todoOfRun runID d \<longleftrightarrow> td_WorkflowRunID d = runID \<and> \<not> td_Deleted d"

definition compensate :: "string \<Rightarrow> string list tm" where
  "compensate runID =
     bnd (selectQ tasksT (ofRun runID)) (\<lambda>tasks.
     seq (forEach tasks (foreignGuard runID))
     (bnd nowStr (\<lambda>now.
      seq (forEach tasks (\<lambda>task. seq (updateQ tasksT (\<lambda>t. t_ID t = t_ID task) (resetRow now)) (ret ())))
      (seq (updateQ todosT (todoOfRun runID) (\<lambda>d. d\<lparr>td_Deleted := True\<rparr>))
      (ret (map t_ID tasks))))))"

definition publishTaskRolledBack :: "string \<Rightarrow> string \<Rightarrow> unit tm" where
  "publishTaskRolledBack taskID runID = publish (TaskRolledBack taskID runID)"

definition DeleteWorkflowRunArtifacts :: "string \<Rightarrow> unit tm" where
  "DeleteWorkflowRunArtifacts runID =
     bnd (GetWorkflowRun runID) (\<lambda>run.
     seq (unless (r_Status run = RunRollingBack) ErrRollbackNotInProgress)
     (bnd (transaction (compensate runID)) (\<lambda>resetTaskIDs.
     forEach resetTaskIDs (\<lambda>taskID. publishTaskRolledBack taskID runID))))"

text \<open>The text stored as the reason of a failed rollback.\<close>

definition isForeignDependency :: "err \<Rightarrow> bool" where
  "isForeignDependency e \<longleftrightarrow> (case e of ErrForeignRunDependency _ _ _ \<Rightarrow> True | _ \<Rightarrow> False)"

definition rollbackText :: "err \<Rightarrow> string" where
  "rollbackText e =
     (if isForeignDependency e then ''DeleteWorkflowRunArtifacts: '' else ''delete artifacts: '') @ errorText e"

definition RollbackWorkflowRun :: "string \<Rightarrow> string \<Rightarrow> (workflow_run \<times> err option) tm" where
  "RollbackWorkflowRun runID reason =
     bnd (GetWorkflowRun runID) (\<lambda>run.
     seq (unless (r_Status run \<noteq> RunRollingBack) ErrRollbackConflict)
     (seq (unless (RunCanTransitionTo (r_Status run) RunRollingBack) ErrInvalidRunStatusTransition)
     (bnd (setRunStatus runID RunRollingBack reason) (\<lambda>rollingRun.
      bnd (attempt (DeleteWorkflowRunArtifacts runID)) (\<lambda>cleaned.
      case cleaned of
        Inl e \<Rightarrow>
          bnd (attempt (setRunStatus runID RunRollbackFailed (rollbackText e))) (\<lambda>failed.
          ret (case failed of Inl _ \<Rightarrow> (rollingRun, Some e) | Inr failedRun \<Rightarrow> (failedRun, Some e)))
      | Inr _ \<Rightarrow>
          bnd (setRunStatus runID RunRolledBack reason) (\<lambda>finalRun. ret (finalRun, None)))))))"

section \<open>Frames\<close>

lemma keeps_foreignGuard [keeps_intros]: "keeps I (foreignGuard runID task)"
  unfolding foreignGuard_def by (intro keeps_intros)

lemma keeps_compensate:
  assumes "\<And>i now. keeps I (updateQ tasksT (\<lambda>t. t_ID t = i) (resetRow now))"
    and "keeps I (updateQ todosT (todoOfRun runID) (\<lambda>d. d\<lparr>td_Deleted := True\<rparr>))"
  shows "keeps I (compensate runID)"
  unfolding compensate_def by (intro keeps_intros assms)

lemma keeps_DeleteWorkflowRunArtifacts:
  assumes "\<And>i now. keeps I (updateQ tasksT (\<lambda>t. t_ID t = i) (resetRow now))"
    and "keeps I (updateQ todosT (todoOfRun runID) (\<lambda>d. d\<lparr>td_Deleted := True\<rparr>))"
  shows "keeps I (DeleteWorkflowRunArtifacts runID)"
  unfolding DeleteWorkflowRunArtifacts_def publishTaskRolledBack_def
  by (intro keeps_intros keeps_compensate assms)

lemma keeps_RollbackWorkflowRun:
  assumes "\<And>st reason. keeps I (setRunStatus runID st reason)" and "keeps I (DeleteWorkflowRunArtifacts runID)"
  shows "keeps I (RollbackWorkflowRun runID reason)"
  unfolding RollbackWorkflowRun_def by (intro keeps_intros assms)

lemma steady_foreignGuard [steady_intros]: "steady (foreignGuard runID task)"
  unfolding foreignGuard_def by (intro steady_intros)

lemma steady_rollback [steady_intros]:
  "steady (compensate runID)" "steady (DeleteWorkflowRunArtifacts runID)" "steady (RollbackWorkflowRun runID reason)"
  unfolding compensate_def DeleteWorkflowRunArtifacts_def RollbackWorkflowRun_def publishTaskRolledBack_def
  by (intro steady_intros)+

lemma silent_foreignGuard [silent_intros]: "silent (foreignGuard runID task)"
  unfolding foreignGuard_def by (intro silent_intros)

lemma silent_compensate [silent_intros]: "silent (compensate runID)"
  unfolding compensate_def by (intro silent_intros)

section \<open>The guard\<close>

text \<open>The tasks of the other runs that depend on a task of this one.\<close>

definition foreignDependents :: "string \<Rightarrow> db \<Rightarrow> (string \<times> string) set" where
  "foreignDependents runID d =
     {(t_ID task, t_ID from) | task e from. task \<in> set (d_tasks d) \<and> ofRun runID task \<and>
        e \<in> set (d_dependencies d) \<and> e_ToTaskID e = t_ID task \<and>
        List.find (\<lambda>t. t_ID t = e_FromTaskID e) (d_tasks d) = Some from \<and>
        t_WorkflowRunID from \<noteq> [] \<and> t_WorkflowRunID from \<noteq> runID}"

text \<open>A task passes when every dependent that could be read belongs to this run or to none.\<close>

definition guarded :: "string \<Rightarrow> task \<Rightarrow> db \<Rightarrow> bool" where
  "guarded runID task d \<longleftrightarrow>
     (\<forall>e \<in> set (d_dependencies d). e_ToTaskID e = t_ID task \<longrightarrow>
        (case List.find (\<lambda>t. t_ID t = e_FromTaskID e) (d_tasks d) of
           None \<Rightarrow> True
         | Some from \<Rightarrow> t_WorkflowRunID from = [] \<or> t_WorkflowRunID from = runID))"

lemma guarded_all: "(\<forall>task \<in> set (filter (ofRun runID) (d_tasks d)). guarded runID task d) \<longleftrightarrow> foreignDependents runID d = {}"
  by (fastforce simp: guarded_def foreignDependents_def split: option.splits)

lemma foreignGuard_calm:
  assumes calm: "w_faults s = []"
  shows "foreignGuard runID task s = (Inr (), s) \<and> guarded runID task (w_db s) \<or>
    (\<exists>e. foreignGuard runID task s = (Inl e, s) \<and> isForeignDependency e \<and> \<not> guarded runID task (w_db s))"
proof -
  define ok where "ok = (\<lambda>e :: task_edge. case List.find (\<lambda>t. t_ID t = e_FromTaskID e) (d_tasks (w_db s)) of
           None \<Rightarrow> True
         | Some from \<Rightarrow> t_WorkflowRunID from = [] \<or> t_WorkflowRunID from = runID)"
  define check where "check = (\<lambda>rel :: task_edge. bnd (attempt (takeQ tasksT (\<lambda>t. t_ID t = e_FromTaskID rel) ErrTaskNotFound)) (\<lambda>r.
       case r of
         Inl _ \<Rightarrow> ret ()
       | Inr fromTask \<Rightarrow>
           unless (\<not> (t_WorkflowRunID fromTask \<noteq> [] \<and> t_WorkflowRunID fromTask \<noteq> runID))
             (ErrForeignRunDependency (t_ID task) (t_ID fromTask) (t_WorkflowRunID fromTask))))"
  have one: "check rel s = (Inr (), s) \<and> ok rel \<or> (\<exists>e. check rel s = (Inl e, s) \<and> isForeignDependency e \<and> \<not> ok rel)" for rel
    using calm by (auto simp: check_def ok_def bnd_def attempt_def takeQ_calm ret_def unless_def fail_def
        isForeignDependency_def split: option.splits)
  have all: "forEach es check s = (Inr (), s) \<and> (\<forall>rel \<in> set es. ok rel) \<or>
      (\<exists>e. forEach es check s = (Inl e, s) \<and> isForeignDependency e \<and> \<not> (\<forall>rel \<in> set es. ok rel))" for es
  proof (induction es)
    case (Cons rel es)
    with one [of rel] show ?case by (auto simp: seq_def bnd_def)
  qed (simp add: ret_def)
  have run: "foreignGuard runID task s = forEach (filter (\<lambda>e. e_ToTaskID e = t_ID task) (d_dependencies (w_db s))) check s"
    by (simp only: foreignGuard_def check_def bnd_def [of "selectQ T P" for T P] selectQ_calm [OF calm]
        prod.case sum.case fst_conv)
  have ok: "guarded runID task (w_db s) \<longleftrightarrow>
      (\<forall>rel \<in> set (filter (\<lambda>e. e_ToTaskID e = t_ID task) (d_dependencies (w_db s))). ok rel)"
    by (auto simp: guarded_def ok_def)
  show ?thesis unfolding run ok by (rule all)
qed

lemma foreignGuards_calm:
  assumes calm: "w_faults s = []"
  shows "forEach tasks (foreignGuard runID) s = (Inr (), s) \<and> (\<forall>task \<in> set tasks. guarded runID task (w_db s)) \<or>
    (\<exists>e. forEach tasks (foreignGuard runID) s = (Inl e, s) \<and> isForeignDependency e \<and>
      \<not> (\<forall>task \<in> set tasks. guarded runID task (w_db s)))"
proof (induction tasks)
  case (Cons task tasks)
  with foreignGuard_calm [OF calm, of runID task] show ?case by (auto simp: seq_def bnd_def)
qed (simp add: ret_def)

section \<open>What a compensation does\<close>

lemma updWhere_cong: "(\<And>r. r \<in> set rs \<Longrightarrow> P r = Q r) \<Longrightarrow> updWhere P f rs = updWhere Q f rs"
  by (simp add: updWhere_def)

lemma silent_transaction [silent_intros]:
  assumes m: "silent m"
  shows "silent (transaction m)"
proof (rule silentI)
  fix s r t
  assume run: "transaction m s = (r, t)"
  obtain x s1 where x: "m s = (x, s1)" by fastforce
  from run x silentD [OF m x] show "w_published t = w_published s"
    by (auto simp: transaction_def sql_def split: sum.splits if_splits)
qed

lemma tasks_upd_cong: "f (d_tasks d) = g (d_tasks d) \<Longrightarrow> d_tasks_update f d = d_tasks_update g d"
  by (cases d) simp

lemma resets_Inr:
  assumes "forEach tasks (\<lambda>task. seq (updateQ tasksT (\<lambda>t. t_ID t = t_ID task) (resetRow now)) (ret ())) s = (Inr (), t)"
  shows "w_db t = d_tasks_update (updWhere (\<lambda>t. t_ID t \<in> t_ID ` set tasks) (resetRow now)) (w_db s)"
  using assms
proof (induction tasks arbitrary: s)
  case Nil
  then show ?case by (simp add: succ tasks.update_none_db affected_0_iff)
next
  case (Cons task tasks)
  then obtain s1 where s1: "w_db s1 = d_tasks_update (updWhere (\<lambda>t. t_ID t = t_ID task) (resetRow now)) (w_db s)"
    and rest: "forEach tasks (\<lambda>task. seq (updateQ tasksT (\<lambda>t. t_ID t = t_ID task) (resetRow now)) (ret ())) s1 = (Inr (), t)"
    by (auto simp: seq_Inr ret_Inr dest!: updateQ_run)
  have "updWhere (\<lambda>t. t_ID t \<in> t_ID ` set tasks) (resetRow now) (updWhere (\<lambda>t. t_ID t = t_ID task) (resetRow now) rs) =
    updWhere (\<lambda>t. t_ID t \<in> t_ID ` set (task # tasks)) (resetRow now) rs" for rs
    by (auto simp: updWhere_def resetRow_def)
  with Cons.IH [OF rest] s1 show ?case by (simp add: o_def)
qed

definition compensated :: "string \<Rightarrow> string \<Rightarrow> db \<Rightarrow> db" where
  "compensated runID now d =
     d_todos_update (updWhere (todoOfRun runID) (\<lambda>x. x\<lparr>td_Deleted := True\<rparr>))
       (d_tasks_update (updWhere (ofRun runID) (resetRow now)) d)"

lemma compensate_Inr:
  assumes run: "compensate runID s = (Inr ids, t)" and unique: "tasksUnique (w_db s)"
  shows "ids = map t_ID (filter (ofRun runID) (d_tasks (w_db s))) \<and> (\<exists>now. w_db t = compensated runID now (w_db s))"
proof -
  let ?mine = "filter (ofRun runID) (d_tasks (w_db s))"
  from run obtain tasks s1 s2 now s3 s4 n where
    steps: "selectQ tasksT (ofRun runID) s = (Inr tasks, s1)" "forEach tasks (foreignGuard runID) s1 = (Inr (), s2)"
      "nowStr s2 = (Inr now, s3)"
      "forEach tasks (\<lambda>task. seq (updateQ tasksT (\<lambda>t. t_ID t = t_ID task) (resetRow now)) (ret ())) s3 = (Inr (), s4)"
      "updateQ todosT (todoOfRun runID) (\<lambda>d. d\<lparr>td_Deleted := True\<rparr>) s4 = (Inr n, t)"
    and ids: "ids = map t_ID tasks"
    unfolding compensate_def bnd_Inr seq_Inr ret_Inr by auto
  have guards: "keeps I (forEach tasks (foreignGuard runID))" for I by (intro keeps_intros)
  have s3: "tasks = ?mine" "w_db s3 = w_db s"
    using steps(1) nowStr_run [OF steps(3)] keeps_reads [OF guards steps(2)] by (auto dest!: selectQ_run)
  have "updWhere (\<lambda>t. t_ID t \<in> t_ID ` set ?mine) (resetRow now) (d_tasks (w_db s)) =
      updWhere (ofRun runID) (resetRow now) (d_tasks (w_db s))"
    using unique by (intro updWhere_cong) (auto simp: tasksUnique_def dest: distinct_key_eq)
  then have "d_tasks_update (updWhere (\<lambda>t. t_ID t \<in> t_ID ` set ?mine) (resetRow now)) (w_db s) =
      d_tasks_update (updWhere (ofRun runID) (resetRow now)) (w_db s)"
    by (rule tasks_upd_cong)
  with resets_Inr [OF steps(4)] s3 updateQ_run [OF steps(5)] ids show ?thesis
    by (auto simp: compensated_def)
qed

lemma publishes_Inl: "forEach xs (\<lambda>x. publishTaskRolledBack x runID) s \<noteq> (Inl e, t)"
proof -
  have "surely (forEach xs (\<lambda>x. publishTaskRolledBack x runID))"
    unfolding publishTaskRolledBack_def by (intro surely_intros)
  then show ?thesis by (simp add: surely_def)
qed

lemma DeleteWorkflowRunArtifacts_Inr:
  assumes run: "DeleteWorkflowRunArtifacts runID s = (Inr (), t)" and unique: "tasksUnique (w_db s)"
  shows "\<exists>now. w_db t = compensated runID now (w_db s)"
proof -
  from run obtain r s1 ids s2 where r: "GetWorkflowRun runID s = (Inr r, s1)"
    and tx: "transaction (compensate runID) s1 = (Inr ids, s2)"
    and pub: "forEach ids (\<lambda>taskID. publishTaskRolledBack taskID runID) s2 = (Inr (), t)"
    unfolding DeleteWorkflowRunArtifacts_def bnd_Inr seq_Inr unless_Inr by blast
  have pubs: "keeps I (forEach ids (\<lambda>taskID. publishTaskRolledBack taskID runID))" for I
    unfolding publishTaskRolledBack_def by (intro keeps_intros)
  from transaction_Inr [OF tx] GetWorkflowRun_Inr [OF r] compensate_Inr unique keeps_reads [OF pubs pub] show ?thesis
    by metis
qed

lemma DeleteWorkflowRunArtifacts_Inl:
  assumes "DeleteWorkflowRunArtifacts runID s = (Inl e, t)"
  shows "w_db t = w_db s \<and> w_published t = w_published s"
proof -
  have get: "w_db s1 = w_db s \<and> w_published s1 = w_published s" if "GetWorkflowRun runID s = (r, s1)" for r s1
    using keeps_reads [OF keeps_GetWorkflowRun that] silentD [OF silent_run_reads(1) that] by simp
  have tx: "w_db s2 = w_db s1 \<and> w_published s2 = w_published s1"
    if "transaction (compensate runID) s1 = (Inl e, s2)" for s1 s2
    using transaction_Inl [OF that] silentD [OF silent_transaction [OF silent_compensate] that] by simp
  from assms show ?thesis
    unfolding DeleteWorkflowRunArtifacts_def bnd_Inl seq_Inl unless_Inl unless_Inr
    by (elim disjE exE conjE; metis get tx publishes_Inl)
qed

text \<open>A run's row is replaced by two status changes in a row as by the second alone.\<close>

lemma setRunStatus_twice:
  "updWhere (\<lambda>r. r_ID r = i) (\<lambda>_. b) (updWhere (\<lambda>r. r_ID r = i) (\<lambda>_. a) rs) =
     (if r_ID a = i then updWhere (\<lambda>r. r_ID r = i) (\<lambda>_. b) rs else updWhere (\<lambda>r. r_ID r = i) (\<lambda>_. a) rs)"
  by (induction rs) auto

text \<open>Tables that agree but for the runs.\<close>

definition sameButRuns :: "db \<Rightarrow> db \<Rightarrow> bool" where
  "sameButRuns d d' \<longleftrightarrow> d\<lparr>d_runs := []\<rparr> = d'\<lparr>d_runs := []\<rparr>"

lemma setRunStatus_frame:
  assumes "setRunStatus i st reason s = (r, t)"
  shows "sameButRuns (w_db s) (w_db t)"
proof -
  have "ignores runsT (sameButRuns d)" for d by (simp add: ignores_def sameButRuns_def)
  then have "keeps (sameButRuns d) (setRunStatus i st reason)" for d
    unfolding setRunStatus_def saveRun_def Let_def by (intro keeps_intros)
  from keepsD [OF this, of "w_db s" s] assms show ?thesis by (simp add: sameButRuns_def)
qed

text \<open>The steps of a rollback.\<close>

lemma RollbackWorkflowRun_steps:
  assumes run: "RollbackWorkflowRun i reason s = (Inr (run, x), t)"
  shows "\<exists>r s1 rolling s2 s3. GetWorkflowRun i s = (Inr r, s1) \<and>
    RunCanTransitionTo (r_Status r) RunRollingBack \<and>
    setRunStatus i RunRollingBack reason s1 = (Inr rolling, s2) \<and>
    (DeleteWorkflowRunArtifacts i s2 = (Inr (), s3) \<and> x = None \<and>
       setRunStatus i RunRolledBack reason s3 = (Inr run, t) \<or>
     (\<exists>e f. DeleteWorkflowRunArtifacts i s2 = (Inl e, s3) \<and> x = Some e \<and>
       setRunStatus i RunRollbackFailed (rollbackText e) s3 = (f, t) \<and>
       run = (case f of Inl _ \<Rightarrow> rolling | Inr failed \<Rightarrow> failed)))"
proof -
  from run obtain r s1 rolling s2 cleaned s3 where
    steps: "GetWorkflowRun i s = (Inr r, s1)" "RunCanTransitionTo (r_Status r) RunRollingBack"
      "setRunStatus i RunRollingBack reason s1 = (Inr rolling, s2)" "DeleteWorkflowRunArtifacts i s2 = (cleaned, s3)"
    and rest: "(case cleaned of
        Inl e \<Rightarrow>
          bnd (attempt (setRunStatus i RunRollbackFailed (rollbackText e))) (\<lambda>failed.
          ret (case failed of Inl _ \<Rightarrow> (rolling, Some e) | Inr failedRun \<Rightarrow> (failedRun, Some e)))
      | Inr _ \<Rightarrow>
          bnd (setRunStatus i RunRolledBack reason) (\<lambda>finalRun. ret (finalRun, None))) s3 = (Inr (run, x), t)"
    unfolding RollbackWorkflowRun_def bnd_Inr seq_Inr unless_Inr attempt_Inr by blast
  show ?thesis
  proof (cases cleaned)
    case (Inl e)
    with rest obtain f where "setRunStatus i RunRollbackFailed (rollbackText e) s3 = (f, t)"
      and "(case f of Inl _ \<Rightarrow> (rolling, Some e) | Inr failedRun \<Rightarrow> (failedRun, Some e)) = (run, x)"
      by (auto simp: bnd_Inr attempt_Inr ret_Inr)
    with steps Inl show ?thesis by (cases f) auto
  next
    case (Inr u)
    with rest have "x = None" "setRunStatus i RunRolledBack reason s3 = (Inr run, t)"
      by (auto simp: bnd_Inr ret_Inr)
    with steps Inr show ?thesis by auto
  qed
qed

section \<open>In a quiet world\<close>

lemma compensate_quiet:
  assumes quiet: "quiet s"
  shows "if foreignDependents i (w_db s) = {} then \<exists>ids t. compensate i s = (Inr ids, t)
    else \<exists>e. compensate i s = (Inl e, s) \<and> isForeignDependency e"
proof -
  let ?mine = "filter (ofRun i) (d_tasks (w_db s))"
  have calm: "w_faults s = []" using quiet by (simp add: quiet_def)
  have rest: "fine (bnd nowStr (\<lambda>now.
      seq (forEach ?mine (\<lambda>task. seq (updateQ tasksT (\<lambda>t. t_ID t = t_ID task) (resetRow now)) (ret ())))
      (seq (updateQ todosT (todoOfRun i) (\<lambda>d. d\<lparr>td_Deleted := True\<rparr>))
      (ret (map t_ID ?mine)))))"
    by (intro fine_intros)
  have run: "compensate i s = seq (forEach ?mine (foreignGuard i)) (bnd nowStr (\<lambda>now.
      seq (forEach ?mine (\<lambda>task. seq (updateQ tasksT (\<lambda>t. t_ID t = t_ID task) (resetRow now)) (ret ())))
      (seq (updateQ todosT (todoOfRun i) (\<lambda>d. d\<lparr>td_Deleted := True\<rparr>))
      (ret (map t_ID ?mine))))) s"
    by (simp only: compensate_def bnd_def [of "selectQ T P" for T P] selectQ_calm [OF calm] prod.case sum.case fst_conv)
  show ?thesis
  proof (cases "foreignDependents i (w_db s) = {}")
    case True
    then have "forEach ?mine (foreignGuard i) s = (Inr (), s)"
      using foreignGuards_calm [OF calm, of ?mine i] guarded_all [of i "w_db s"] by auto
    with fineD [OF rest quiet] True run show ?thesis by (auto simp: seq_Inr)
  next
    case False
    then obtain e where "forEach ?mine (foreignGuard i) s = (Inl e, s)" "isForeignDependency e"
      using foreignGuards_calm [OF calm, of ?mine i] guarded_all [of i "w_db s"] by auto
    with False run show ?thesis by (auto simp: seq_Inl)
  qed
qed

lemma DeleteWorkflowRunArtifacts_quiet:
  assumes quiet: "quiet s" and "List.find (\<lambda>r. r_ID r = i) (d_runs (w_db s)) = Some r" and "r_Status r = RunRollingBack"
  shows "if foreignDependents i (w_db s) = {} then \<exists>t. DeleteWorkflowRunArtifacts i s = (Inr (), t)
    else \<exists>e t. DeleteWorkflowRunArtifacts i s = (Inl e, t) \<and> isForeignDependency e"
proof -
  obtain x t where x: "compensate i s = (x, t)" by fastforce
  have t: "w_faults t = []" using steadyD(1) [OF steady_rollback(1) x] quiet by (simp add: quiet_def)
  have run: "DeleteWorkflowRunArtifacts i s = bnd (transaction (compensate i)) (\<lambda>ids.
      forEach ids (\<lambda>taskID. publishTaskRolledBack taskID i)) s"
    using assms by (simp add: DeleteWorkflowRunArtifacts_def GetWorkflowRun_def bnd_def takeQ_calm quiet_def seq_def unless_def ret_def)
  have tx: "transaction (compensate i) s = (case x of Inl e \<Rightarrow> (Inl e, t\<lparr>w_db := w_db s\<rparr>) | Inr ids \<Rightarrow> (Inr ids, t))"
    using transaction_calm [of "compensate i" s] x t by (simp split: sum.splits)
  have "fine (forEach ids (\<lambda>taskID. publishTaskRolledBack taskID i))" for ids
    unfolding publishTaskRolledBack_def by (intro fine_intros)
  moreover have "quiet t" using quiet_steady [OF steady_rollback(1) x quiet] .
  ultimately have pub: "\<exists>t'. forEach ids (\<lambda>taskID. publishTaskRolledBack taskID i) t = (Inr (), t')" for ids
    using fineD by fastforce
  from compensate_quiet [OF quiet, of i] x run tx pub show ?thesis
    by (auto simp: bnd_def split: if_splits)
qed

lemma RollbackWorkflowRun_quiet:
  assumes quiet: "quiet s" and row: "List.find (\<lambda>r. r_ID r = i) (d_runs (w_db s)) = Some r"
    and allowed: "RunCanTransitionTo (r_Status r) RunRollingBack"
  shows "if foreignDependents i (w_db s) = {} then \<exists>run t. RollbackWorkflowRun i reason s = (Inr (run, None), t)
    else \<exists>run e t. RollbackWorkflowRun i reason s = (Inr (run, Some e), t) \<and> isForeignDependency e \<and>
      r_Status run = RunRollbackFailed"
proof -
  have get: "GetWorkflowRun i s = (Inr r, s)" using quiet row by (simp add: GetWorkflowRun_def takeQ_calm quiet_def)
  obtain rolling s2 where acquire: "setRunStatus i RunRollingBack reason s = (Inr rolling, s2)" and q2: "quiet s2"
    using setRunStatus_quiet [OF quiet row allowed] by blast
  note set = setRunStatus_Inr [OF acquire]
  have here: "List.find (\<lambda>r. r_ID r = i) (d_runs (w_db s2)) = Some (withUnderWay rolling)"
    using set row by (auto simp: find_updWhere dest: find_Some_in)
  have status: "r_Status (withUnderWay rolling) = RunRollingBack" using set by auto
  obtain cleaned s3 where clean: "DeleteWorkflowRunArtifacts i s2 = (cleaned, s3)" by fastforce
  have q3: "quiet s3" by (rule quiet_steady [OF steady_rollback(2) clean q2])
  have "ignores tasksT (\<lambda>d. d_runs d = rs)" "ignores todosT (\<lambda>d. d_runs d = rs)" for rs by (simp_all add: ignores_def)
  then have "keeps (\<lambda>d. d_runs d = rs) (DeleteWorkflowRunArtifacts i)" for rs
    by (intro keeps_DeleteWorkflowRunArtifacts keeps_intros)
  from keepsD [OF this, of s2] clean have "d_runs (w_db s3) = d_runs (w_db s2)" by (metis snd_conv)
  then have here3: "List.find (\<lambda>r. r_ID r = i) (d_runs (w_db s3)) = Some (withUnderWay rolling)" using here by simp
  have next3: "\<exists>run t. setRunStatus i st x s3 = (Inr run, t) \<and> r_Status run = st"
    if "RunCanTransitionTo RunRollingBack st" for st x
    using setRunStatus_quiet [OF q3 here3] setRunStatus_Inr that status by metis
  have "d_tasks (w_db s2) = d_tasks (w_db s)" "d_dependencies (w_db s2) = d_dependencies (w_db s)" using set by auto
  then have "foreignDependents i (w_db s2) = foreignDependents i (w_db s)" by (simp add: foreignDependents_def)
  with DeleteWorkflowRunArtifacts_quiet [OF q2 here status] clean
  have cleaned: "if foreignDependents i (w_db s) = {} then cleaned = Inr () else \<exists>e. cleaned = Inl e \<and> isForeignDependency e"
    by (auto split: if_splits)
  have run: "RollbackWorkflowRun i reason s = (case cleaned of
        Inl e \<Rightarrow>
          bnd (attempt (setRunStatus i RunRollbackFailed (rollbackText e))) (\<lambda>failed.
          ret (case failed of Inl _ \<Rightarrow> (rolling, Some e) | Inr failedRun \<Rightarrow> (failedRun, Some e)))
      | Inr _ \<Rightarrow>
          bnd (setRunStatus i RunRolledBack reason) (\<lambda>finalRun. ret (finalRun, None))) s3"
    using get allowed acquire clean
    by (cases "r_Status r") (simp_all add: RollbackWorkflowRun_def bnd_def seq_def unless_def ret_def attempt_def)
  show ?thesis
  proof (cases "foreignDependents i (w_db s) = {}")
    case True
    with run cleaned next3 [of RunRolledBack reason] show ?thesis by (auto simp: bnd_def ret_def)
  next
    case False
    with cleaned obtain e where e: "cleaned = Inl e" "isForeignDependency e" by auto
    with False run next3 [of RunRollbackFailed "rollbackText e"] show ?thesis by (auto simp: bnd_def attempt_def ret_def)
  qed
qed

section \<open>Properties\<close>


text \<open>A completed run with one finished task; on demand, a task of another run depends on it.\<close>

definition runWith :: "string \<Rightarrow> run_status \<Rightarrow> workflow_run" where
  "runWith i st = workflow_run0\<lparr>r_ID := i, r_Name := i, r_Status := st, r_UnderWay := \<not> IsTerminal st\<rparr>"

lemma runWith_sel [simp]:
  "r_ID (runWith i st) = i" "r_Status (runWith i st) = st" "r_Name (runWith i st) = i"
  "r_UnderWay (runWith i st) = (\<not> IsTerminal st)"
  by (simp_all add: runWith_def)

definition rolledDb :: "bool \<Rightarrow> db" where
  "rolledDb foreign = emptyDb\<lparr>d_runs := [runWith ''r'' RunCompleted],
     d_tasks := [(taskWith ''t'' TaskStatusCompleted)\<lparr>t_WorkflowRunID := ''r''\<rparr>,
                 (taskWith ''u'' TaskStatusPending)\<lparr>t_WorkflowRunID := ''q''\<rparr>],
     d_dependencies := (if foreign then [\<lparr>e_FromTaskID = ''u'', e_ToTaskID = ''t'', e_CreatedAt = [], e_Reason = []\<rparr>] else [])\<rparr>"

lemma rolledDb_facts:
  "List.find (\<lambda>r. r_ID r = ''r'') (d_runs (rolledDb b)) = Some (runWith ''r'' RunCompleted)"
  "foreignDependents ''r'' (rolledDb b) = (if b then {(''t'', ''u'')} else {})" "tasksUnique (rolledDb b)"
  by (auto simp: rolledDb_def foreignDependents_def ofRun_def tasksUnique_def
      intro!: exI [of _ "(taskWith ''t'' TaskStatusCompleted)\<lparr>t_WorkflowRunID := ''r''\<rparr>"])


text \<open>
  A rollback that fails is atomic: whatever stopped the compensation, no task, no step and no
  other row changed but the run's, the run is left rolling back or in \<open>rollback_failed\<close>, and no task
  was announced as rolled back.
\<close>

lemma RollbackWorkflowRun_atomic:
  assumes run: "RollbackWorkflowRun i reason s = (Inr (run, Some e), t)"
  shows "sameButRuns (w_db s) (w_db t) \<and> r_Status run \<in> {RunRollingBack, RunRollbackFailed} \<and>
    (\<exists>evs. w_published t = w_published s @ evs \<and> list_all ofRunEvent evs)"
proof -
  from RollbackWorkflowRun_steps [OF run] obtain r s1 rolling s2 s3 f where
    get: "GetWorkflowRun i s = (Inr r, s1)"
    and acquire: "setRunStatus i RunRollingBack reason s1 = (Inr rolling, s2)"
    and clean: "DeleteWorkflowRunArtifacts i s2 = (Inl e, s3)"
    and final: "setRunStatus i RunRollbackFailed (rollbackText e) s3 = (f, t)"
    and out: "run = (case f of Inl _ \<Rightarrow> rolling | Inr failed \<Rightarrow> failed)"
    by blast
  have "sameButRuns (w_db s) (w_db t)"
    using GetWorkflowRun_Inr [OF get] setRunStatus_frame [OF acquire] setRunStatus_frame [OF final]
      DeleteWorkflowRunArtifacts_Inl [OF clean] by (simp add: sameButRuns_def)
  moreover have "r_Status run \<in> {RunRollingBack, RunRollbackFailed}"
    using setRunStatus_Inr [OF acquire] setRunStatus_Inr [of i RunRollbackFailed "rollbackText e" s3 _ t] final out
    by (cases f) auto
  moreover have "\<exists>evs. w_published t = w_published s @ evs \<and> list_all ofRunEvent evs"
  proof -
    obtain e1 where "w_published s2 = w_published s1 @ e1" "list_all ofRunEvent e1"
      using addsOnlyD [OF setRunStatus_events acquire] by blast
    moreover obtain e2 where "w_published t = w_published s3 @ e2" "list_all ofRunEvent e2"
      using addsOnlyD [OF setRunStatus_events final] by blast
    ultimately show ?thesis
      using silentD [OF silent_run_reads(1) get] DeleteWorkflowRunArtifacts_Inl [OF clean]
      by (intro exI [of _ "e1 @ e2"]) simp
  qed
  ultimately show ?thesis by simp
qed

lemma RollbackWorkflowRun_atomic_example:
  "\<exists>run e t. RollbackWorkflowRun ''r'' ''why'' (worldOf (rolledDb True)) = (Inr (run, Some e), t) \<and>
     d_tasks (w_db t) = d_tasks (rolledDb True)"
proof -
  from RollbackWorkflowRun_quiet [of "worldOf (rolledDb True)" "''r''" "runWith ''r'' RunCompleted" "''why''"]
  obtain run e t where run: "RollbackWorkflowRun ''r'' ''why'' (worldOf (rolledDb True)) = (Inr (run, Some e), t)"
    by (auto simp: rolledDb_facts)
  from RollbackWorkflowRun_atomic [OF run] have "(rolledDb True)\<lparr>d_runs := []\<rparr> = (w_db t)\<lparr>d_runs := []\<rparr>"
    by (simp add: sameButRuns_def)
  then have "d_tasks (rolledDb True) = d_tasks (w_db t)" by (metis db.select_convs(1) db.update_convs(8) db.surjective)
  with run show ?thesis by auto
qed

text \<open>
  Whether a rollback succeeds is decided by the dependencies alone: with no failing statement, a
  run in a status that may be rolled back ends rolled back when no task of another run depends on a
  live task of it, and otherwise ends in \<open>rollback_failed\<close> with a foreign-dependency error.
\<close>

lemma RollbackWorkflowRun_decides:
  assumes "quiet s" and "List.find (\<lambda>r. r_ID r = i) (d_runs (w_db s)) = Some r"
    and "RunCanTransitionTo (r_Status r) RunRollingBack"
  shows "if foreignDependents i (w_db s) = {} then \<exists>run t. RollbackWorkflowRun i reason s = (Inr (run, None), t)
    else \<exists>run e t. RollbackWorkflowRun i reason s = (Inr (run, Some e), t) \<and> isForeignDependency e \<and>
      r_Status run = RunRollbackFailed"
  using assms by (rule RollbackWorkflowRun_quiet)

lemma RollbackWorkflowRun_decides_example:
  "\<exists>run e t. RollbackWorkflowRun ''r'' [] (worldOf (rolledDb True)) = (Inr (run, Some e), t) \<and> isForeignDependency e"
  using RollbackWorkflowRun_decides [of "worldOf (rolledDb True)" "''r''" "runWith ''r'' RunCompleted" "[]"]
  by (auto simp: rolledDb_facts)

end
