(* ===== verification/Run_Cancel.thy ===== *)
theory Run_Cancel
  imports Run_Rollback
begin

text \<open>
  \<open>workflow_run_cancel.go\<close> and \<open>workflow_run_version.go\<close>: cancelling a run is done in two halves, a
  synchronous one that flips the run to \<open>cancelling\<close> and cancels its unfinished tasks, and a deferred
  one that ends it; stopping does both at once and may start the run's workflow again. The cascade is
  best effort: the error of one task does not stop it.
\<close>

definition cancelledTask :: "string \<Rightarrow> task \<Rightarrow> task" where
  "cancelledTask now task =
     task\<lparr>t_Status := TaskStatusCancelled, t_UpdatedAt := now,
          t_CompletedAt := (if t_CompletedAt task = [] then now else t_CompletedAt task)\<rparr>"

definition cancelTask :: "task \<Rightarrow> string \<Rightarrow> unit tm" where
  "cancelTask task reason =
     (if \<not> CanTransitionTo (t_Status task) TaskStatusCancelled then ret ()
      else
        bnd nowStr (\<lambda>now.
        seq (updateQ tasksT (\<lambda>t. t_ID t = t_ID task) (\<lambda>_. taskRow (cancelledTask now task)))
        (seq (publish (TaskCancelledEv (t_ID task) (t_WorkflowRunID task) reason))
        (seq (attempt (closeCaseIfSettled (t_ID task)))
        (ret ())))))"

definition tasksOfRun :: "string \<Rightarrow> task_filter" where
  "tasksOfRun runID = task_filter0\<lparr>tf_WorkflowRunID := runID\<rparr>"

definition cancelUnfinished :: "string \<Rightarrow> task \<Rightarrow> unit tm" where
  "cancelUnfinished reason t =
     (if isTerminalStatus (t_Status t) then ret () else seq (attempt (cancelTask t reason)) (ret ()))"

definition cascadeTaskCancellation :: "string \<Rightarrow> string \<Rightarrow> unit tm" where
  "cascadeTaskCancellation runID reason =
     bnd (attempt (ListTasks (tasksOfRun runID))) (\<lambda>r.
     case r of
       Inl _ \<Rightarrow> ret ()
     | Inr tasks \<Rightarrow> forEach tasks (cancelUnfinished reason))"

definition CancelWorkflowRun :: "string \<Rightarrow> string \<Rightarrow> string \<Rightarrow> instant \<Rightarrow> workflow_run tm" where
  "CancelWorkflowRun runID reason cancelledBy quiesceDeadline =
     bnd (GetWorkflowRun runID) (\<lambda>run.
     if r_Status run = RunCancelling then ret run
     else if r_Status run \<noteq> RunInProgress then fail ErrCannotCancelTerminalRun
     else
       bnd nowT (\<lambda>now.
       let run' = run\<lparr>r_Status := RunCancelling, r_UpdatedAt := fmtRFC3339 now, r_CancelledBy := cancelledBy,
                     r_CancelReason := reason, r_CancellingUntil := fmtRFC3339 quiesceDeadline\<rparr>
       in seq (saveRun run')
          (seq (cascadeTaskCancellation runID reason)
          (seq (publishRunStatusEvent run' now reason)
          (ret run')))))"

definition FinalizeWorkflowRunCancellation :: "string \<Rightarrow> workflow_run tm" where
  "FinalizeWorkflowRunCancellation runID =
     bnd (GetWorkflowRun runID) (\<lambda>run.
     if r_Status run \<noteq> RunCancelling then ret run
     else
       bnd nowT (\<lambda>now.
       let run' = run\<lparr>r_Status := RunCancelled, r_UpdatedAt := fmtRFC3339 now, r_CompletedAt := fmtRFC3339 now\<rparr>
       in seq (saveRun run')
          (seq (publishRunStatusEvent run' now (r_CancelReason run'))
          (ret run'))))"

definition StartWorkflowRun :: "string \<Rightarrow> string \<Rightarrow> int \<Rightarrow> string \<Rightarrow> string \<Rightarrow> workflow_run tm" where
  "StartWorkflowRun name workflowCode workflowVersion triggerEvent initiator =
     (if workflowCode = [] then fail ErrInvalidTask
      else if workflowVersion < 1 then fail ErrInvalidTask
      else openWorkflowRun (workflow_run0\<lparr>r_Name := name, r_TriggerEvent := triggerEvent, r_Initiator := initiator,
             r_WorkflowCode := workflowCode, r_WorkflowVersion := workflowVersion\<rparr>))"

definition ListWorkflowRunsUnderWay :: "string \<Rightarrow> workflow_run list tm" where
  "ListWorkflowRunsUnderWay workflowCode =
     bnd (selectQ runsT (\<lambda>r. r_UnderWay r \<and> (workflowCode = [] \<or> r_WorkflowCode r = workflowCode))) (\<lambda>rows.
     ret (take maxListPage (sortBy (\<lambda>a b. r_CreatedAt b < r_CreatedAt a) rows)))"

definition ListWorkflowRunsClosed :: "string \<Rightarrow> workflow_run list tm" where
  "ListWorkflowRunsClosed workflowCode =
     bnd (selectQ runsT (\<lambda>r. r_Status r = RunClosed \<and> (workflowCode = [] \<or> r_WorkflowCode r = workflowCode))) (\<lambda>rows.
     ret (take maxListPage (sortBy (\<lambda>a b. r_CompletedAt b < r_CompletedAt a) rows)))"

text \<open>A stop that cannot start the workflow again returns the stopped run beside the error.\<close>

definition stoppedRun :: "instant \<Rightarrow> string \<Rightarrow> string \<Rightarrow> workflow_run \<Rightarrow> workflow_run" where
  "stoppedRun now stoppedBy reason run =
     run\<lparr>r_Status := RunCancelled, r_UnderWay := False, r_UpdatedAt := fmtRFC3339 now,
         r_CompletedAt := fmtRFC3339 now, r_CancelledBy := stoppedBy, r_CancelReason := reason\<rparr>"

lemma stoppedRun_sel [simp]:
  "r_ID (stoppedRun now by reason run) = r_ID run" "r_Status (stoppedRun now by reason run) = RunCancelled"
  "r_UnderWay (stoppedRun now by reason run) = False" "r_CancelReason (stoppedRun now by reason run) = reason"
  "r_WorkflowCode (stoppedRun now by reason run) = r_WorkflowCode run"
  by (simp_all add: stoppedRun_def)

definition restartRun :: "workflow_run \<Rightarrow> int \<Rightarrow> (workflow_run_stop \<times> err option) tm" where
  "restartRun run restartOnVersion =
     (let stop = \<lparr>st_Stopped = run, st_Restarted = None\<rparr> in
      if restartOnVersion = 0 then ret (stop, None)
      else
        bnd (attempt (openWorkflowRun (workflow_run0\<lparr>r_TriggerEvent := r_TriggerEvent run,
               r_Initiator := r_Initiator run, r_WorkflowCode := r_WorkflowCode run,
               r_WorkflowVersion := restartOnVersion, r_RestartedFromRunID := r_ID run\<rparr>))) (\<lambda>restarted.
        ret (case restarted of
               Inl e \<Rightarrow> (stop, Some e)
             | Inr new \<Rightarrow> (stop\<lparr>st_Restarted := Some new\<rparr>, None))))"

definition StopWorkflowRun :: "string \<Rightarrow> string \<Rightarrow> string \<Rightarrow> int \<Rightarrow> (workflow_run_stop \<times> err option) tm" where
  "StopWorkflowRun runID stoppedBy reason restartOnVersion =
     bnd (GetWorkflowRun runID) (\<lambda>run.
     seq (unless (\<not> (IsTerminal (r_Status run) \<or> r_Status run = RunRollingBack)) ErrCannotCancelTerminalRun)
     (seq (unless (\<not> restartOnVersion < 0) ErrInvalidTask)
     (seq (unless (\<not> (0 < restartOnVersion \<and> r_WorkflowCode run = [])) ErrInvalidTask)
     (bnd nowT (\<lambda>now.
      let run' = stoppedRun now stoppedBy reason run
      in seq (saveRun run')
         (seq (cascadeTaskCancellation (r_ID run') reason)
         (seq (publishRunStatusEvent run' now reason)
         (restartRun run' restartOnVersion))))))))"

section \<open>Frames\<close>

text \<open>What an invariant needs of the statements a cancellation sends.\<close>

lemma keeps_cancelTask:
  assumes "ignores casesT I"
    and "\<And>now. now \<noteq> [] \<Longrightarrow> keeps I (updateQ tasksT (\<lambda>t. t_ID t = t_ID task) (\<lambda>_. taskRow (cancelledTask now task)))"
  shows "keeps I (cancelTask task reason)"
proof -
  have now: "keeps I (bnd nowStr f)" if "\<And>x. x \<noteq> [] \<Longrightarrow> keeps I (f x)" for f :: "string \<Rightarrow> 'b tm"
    using that by (simp add: keeps_def nowStr_def bnd_def nowT_def ret_def)
  show ?thesis unfolding cancelTask_def by (intro keeps_intros now assms)
qed

lemma keeps_cascade:
  assumes "ignores casesT I"
    and "\<And>now task. now \<noteq> [] \<Longrightarrow>
      keeps I (updateQ tasksT (\<lambda>t. t_ID t = t_ID task) (\<lambda>_. taskRow (cancelledTask now task)))"
  shows "keeps I (cascadeTaskCancellation runID reason)"
  unfolding cascadeTaskCancellation_def cancelUnfinished_def by (intro keeps_intros keeps_cancelTask assms)

lemma keeps_cancel_ops:
  assumes "\<And>run. keeps I (saveRun run)" and "\<And>i reason. keeps I (cascadeTaskCancellation i reason)"
  shows "keeps I (CancelWorkflowRun runID reason by deadline)" and "keeps I (FinalizeWorkflowRunCancellation runID)"
  unfolding CancelWorkflowRun_def FinalizeWorkflowRunCancellation_def Let_def
  by (intro keeps_intros assms)+

lemma keeps_StopWorkflowRun:
  assumes "\<And>run. keeps I (saveRun run)" and "\<And>i reason. keeps I (cascadeTaskCancellation i reason)"
    and "\<And>run. keeps I (openWorkflowRun run)"
  shows "keeps I (StopWorkflowRun runID by reason v)"
  unfolding StopWorkflowRun_def restartRun_def Let_def by (intro keeps_intros assms)

lemma steady_cancelTask [steady_intros]: "steady (cancelTask task reason)"
  unfolding cancelTask_def by (intro steady_intros)

lemma steady_cascade [steady_intros]: "steady (cascadeTaskCancellation runID reason)"
  unfolding cascadeTaskCancellation_def cancelUnfinished_def by (intro steady_intros)

lemma steady_cancel_ops [steady_intros]:
  "steady (CancelWorkflowRun runID reason by deadline)" "steady (FinalizeWorkflowRunCancellation runID)"
  "steady (StopWorkflowRun runID by reason v)" "steady (StartWorkflowRun n c v' e i)"
  unfolding CancelWorkflowRun_def FinalizeWorkflowRunCancellation_def StopWorkflowRun_def restartRun_def StartWorkflowRun_def Let_def
  by (intro steady_intros)+

lemma surely_cascade [surely_intros]: "surely (cascadeTaskCancellation runID reason)"
  unfolding cascadeTaskCancellation_def cancelUnfinished_def by (intro surely_intros)

section \<open>What a cascade does\<close>

definition over :: "task_status \<Rightarrow> bool" where
  "over st \<longleftrightarrow> isTerminalStatus st \<or> \<not> knownTaskStatuses st"

lemma not_cancellable: "\<not> CanTransitionTo st TaskStatusCancelled \<Longrightarrow> over st"
  by (cases st) (simp_all add: over_def isTerminalStatus_def)

lemma cancelTask_quiet:
  assumes quiet: "quiet s" and can: "CanTransitionTo (t_Status u) TaskStatusCancelled"
    and run: "cancelTask u reason s = (r, t)"
  shows "r = Inr () \<and> quiet t \<and>
    (\<exists>now. d_tasks (w_db t) = updWhere (\<lambda>row. t_ID row = t_ID u) (\<lambda>_. taskRow (cancelledTask now u)) (d_tasks (w_db s)))"
proof -
  obtain now s1 where now: "nowStr s = (Inr now, s1)" and q1: "quiet s1" using fineD [OF fine_basic(3) quiet] by blast
  let ?rows = "updWhere (\<lambda>row. t_ID row = t_ID u) (\<lambda>_. taskRow (cancelledTask now u))"
  obtain n s2 where upd: "updateQ tasksT (\<lambda>row. t_ID row = t_ID u) (\<lambda>_. taskRow (cancelledTask now u)) s1 = (Inr n, s2)"
    and q2: "quiet s2" using fineD [OF fine_statements(2) q1] by blast
  define tail where "tail = seq (publish (TaskCancelledEv (t_ID u) (t_WorkflowRunID u) reason))
        (seq (attempt (closeCaseIfSettled (t_ID u))) (ret ()))"
  have tail: "tail s2 = (r, t)"
    using run can now upd by (simp add: cancelTask_def tail_def bnd_def seq_def)
  have sure: "surely tail" "steady tail" unfolding tail_def by (intro surely_intros steady_intros)+
  have "keeps (\<lambda>d. d_tasks d = x) tail" for x
    unfolding tail_def by (intro keeps_intros) (simp_all add: ignores_def)
  then have "r = Inr ()" "quiet t" "d_tasks (w_db t) = d_tasks (w_db s2)"
    using tail surelyD [OF sure(1), of s2] quiet_steady [OF sure(2) tail q2]
      keepsD [of "\<lambda>d. d_tasks d = d_tasks (w_db s2)" tail s2] by auto
  moreover have "d_tasks (w_db s2) = ?rows (d_tasks (w_db s))"
    using nowStr_run [OF now] updateQ_run [OF upd] by simp
  ultimately show ?thesis by auto
qed

text \<open>
  After a cascade over a list of tasks as read, a row with the status it had when it was listed is
  over, and a row outside the list is untouched.
\<close>

lemma cancelUnfinished_loop:
  assumes "forEach us (cancelUnfinished reason) s = (r, t)" and "quiet s"
    and "\<And>row. row \<in> set (d_tasks (w_db s)) \<Longrightarrow> P row \<Longrightarrow>
      over (t_Status row) \<or> (\<exists>u \<in> set us. t_ID u = t_ID row \<and> t_Status u = t_Status row)"
  shows "quiet t \<and> (\<forall>row \<in> set (d_tasks (w_db t)). P row \<longrightarrow> over (t_Status row)) \<and>
    (\<forall>row \<in> set (d_tasks (w_db s)). t_ID row \<notin> t_ID ` set us \<longrightarrow> row \<in> set (d_tasks (w_db t))) \<and>
    map t_ID (d_tasks (w_db t)) = map t_ID (d_tasks (w_db s))"
  using assms
proof (induction us arbitrary: s)
  case Nil
  then show ?case by (auto simp: ret_def)
next
  case (Cons u us)
  obtain x s1 where x: "cancelUnfinished reason u s = (x, s1)" by fastforce
  let ?can = "\<not> isTerminalStatus (t_Status u) \<and> CanTransitionTo (t_Status u) TaskStatusCancelled"
  have step: "x = Inr () \<and> quiet s1 \<and>
     (if ?can then \<exists>now. d_tasks (w_db s1) =
          updWhere (\<lambda>row. t_ID row = t_ID u) (\<lambda>_. taskRow (cancelledTask now u)) (d_tasks (w_db s))
      else d_tasks (w_db s1) = d_tasks (w_db s))"
  proof (cases ?can)
    case True
    obtain y s2 where y: "cancelTask u reason s = (y, s2)" by fastforce
    from cancelTask_quiet [OF Cons.prems(2) _ y] True x y show ?thesis
      by (auto simp: cancelUnfinished_def seq_def bnd_def attempt_def ret_def)
  next
    case False
    then have "x = Inr () \<and> s1 = s"
      using x by (auto simp: cancelUnfinished_def cancelTask_def seq_def bnd_def attempt_def ret_def split: if_splits)
    with False Cons.prems(2) show ?thesis by auto
  qed
  have rest: "forEach us (cancelUnfinished reason) s1 = (r, t)"
    using Cons.prems(1) x step by (simp add: seq_def bnd_def)
  have over_u: "over (t_Status u)" if "\<not> ?can" using that not_cancellable by (auto simp: over_def)
  have covered: "over (t_Status row) \<or> (\<exists>u' \<in> set us. t_ID u' = t_ID row \<and> t_Status u' = t_Status row)"
    if row: "row \<in> set (d_tasks (w_db s1))" "P row" for row
  proof (cases ?can)
    case True
    with step obtain now where d1: "d_tasks (w_db s1) =
        updWhere (\<lambda>row. t_ID row = t_ID u) (\<lambda>_. taskRow (cancelledTask now u)) (d_tasks (w_db s))" by auto
    show ?thesis
    proof (cases "t_ID row = t_ID u")
      case True
      with row(1) have "row = taskRow (cancelledTask now u)"
        unfolding d1 set_updWhere by (auto simp: cancelledTask_def split: if_splits)
      then show ?thesis by (simp add: over_def isTerminalStatus_def cancelledTask_def)
    next
      case False
      with row(1) have "row \<in> set (d_tasks (w_db s))"
        unfolding d1 set_updWhere by (auto simp: cancelledTask_def split: if_splits)
      from Cons.prems(3) [OF this row(2)] False show ?thesis by auto
    qed
  next
    case False
    with step Cons.prems(3) row over_u show ?thesis by fastforce
  qed
  have ids: "map t_ID (d_tasks (w_db s1)) = map t_ID (d_tasks (w_db s))"
    using step by (auto simp: map_updWhere_on cancelledTask_def split: if_splits)
  have stays: "row \<in> set (d_tasks (w_db s1))" if "row \<in> set (d_tasks (w_db s))" "t_ID row \<noteq> t_ID u" for row
    using step that by (auto simp: set_updWhere split: if_splits)
  from Cons.IH [OF rest _ covered] step ids stays show ?case by auto
qed

lemma cascade_quiet:
  assumes quiet: "quiet s" and run: "cascadeTaskCancellation i reason s = (r, t)" and i: "i \<noteq> []"
    and few: "length (filter (\<lambda>row. t_WorkflowRunID row = i \<and> \<not> t_Deleted row) (d_tasks (w_db s))) \<le> maxListPage"
    and unique: "tasksUnique (w_db s)"
  shows "r = Inr () \<and> quiet t \<and>
    (\<forall>row \<in> set (d_tasks (w_db t)). t_WorkflowRunID row = i \<and> \<not> t_Deleted row \<longrightarrow> over (t_Status row)) \<and>
    (\<forall>row \<in> set (d_tasks (w_db s)). \<not> (t_WorkflowRunID row = i \<and> \<not> t_Deleted row) \<longrightarrow> row \<in> set (d_tasks (w_db t)))"
proof -
  obtain us s1 where list: "ListTasks (tasksOfRun i) s = (Inr us, s1)" and q1: "quiet s1"
    using fineD [OF fine_ListTasks quiet] by blast
  have s1: "w_db s1 = w_db s" by (rule keeps_reads [OF keeps_ListTasks list])
  have match: "matchesFilter (tasksOfRun i) = (\<lambda>row. t_WorkflowRunID row = i \<and> \<not> t_Deleted row)"
    using i by (auto simp: matchesFilter_def tasksOfRun_def task_filter0_def fun_eq_iff)
  have limit: "pageLimit (tf_Limit (tasksOfRun i)) = maxListPage"
    by (simp add: pageLimit_def tasksOfRun_def task_filter0_def maxListPage_def)
  let ?rows = "filter (\<lambda>row. t_WorkflowRunID row = i \<and> \<not> t_Deleted row) (d_tasks (w_db s))"
  have all: "list_all2 sameRow ?rows us"
    using listed_tasks [OF list] few unfolding match limit by simp
  have listed: "\<exists>u \<in> set us. t_ID u = t_ID row \<and> t_Status u = t_Status row" if "row \<in> set ?rows" for row
  proof -
    from that obtain n where "n < length ?rows" "?rows ! n = row" by (auto simp only: in_set_conv_nth)
    with all have "n < length us" "sameRow row (us ! n)" by (auto simp: list_all2_conv_all_nth)
    then show ?thesis by (auto simp: sameRow_fields intro!: bexI [of _ "us ! n"])
  qed
  have ids: "t_ID ` set us = t_ID ` set ?rows"
    using all by (induction rule: list_all2_induct) (auto simp: sameRow_fields)
  have loop: "forEach us (cancelUnfinished reason) s1 = (r, t)"
    using run list by (simp add: cascadeTaskCancellation_def bnd_def attempt_def)
  have "surely (forEach us (cancelUnfinished reason))"
    unfolding cancelUnfinished_def by (intro surely_intros)
  from surelyD [OF this, of s1] have "r = Inr ()" using loop by auto
  moreover have "t_ID row \<notin> t_ID ` set us"
    if "row \<in> set (d_tasks (w_db s))" "\<not> (t_WorkflowRunID row = i \<and> \<not> t_Deleted row)" for row
    unfolding ids using unique that by (auto simp: tasksUnique_def dest: distinct_key_eq)
  ultimately show ?thesis
    using cancelUnfinished_loop [OF loop q1, of "\<lambda>row. t_WorkflowRunID row = i \<and> \<not> t_Deleted row"] listed
    unfolding s1 by auto
qed

section \<open>Properties\<close>

lemma cascade_runs:
  assumes "cascadeTaskCancellation i reason s = (r, t)"
  shows "d_runs (w_db t) = d_runs (w_db s)"
proof -
  have "keeps (\<lambda>d. d_runs d = rs) (cascadeTaskCancellation i reason)" for rs
    by (intro keeps_cascade keeps_intros) (simp_all add: ignores_def)
  from keepsD [OF this, of s] assms show ?thesis by (metis snd_conv)
qed

text \<open>The run a successful cancellation leaves: the stored one, or a fresh one now cancelling.\<close>

lemma CancelWorkflowRun_stored:
  assumes run: "CancelWorkflowRun i reason by deadline s = (Inr run, t)"
  shows "r_Status run = RunCancelling \<and>
    (\<exists>row. List.find (\<lambda>r. r_ID r = i) (d_runs (w_db t)) = Some row \<and> r_Status row = RunCancelling)"
proof -
  from run obtain r s1 where get: "GetWorkflowRun i s = (Inr r, s1)"
    and rest: "(if r_Status r = RunCancelling then ret r
     else if r_Status r \<noteq> RunInProgress then fail ErrCannotCancelTerminalRun
     else
       bnd nowT (\<lambda>now.
       let run' = r\<lparr>r_Status := RunCancelling, r_UpdatedAt := fmtRFC3339 now, r_CancelledBy := by,
                     r_CancelReason := reason, r_CancellingUntil := fmtRFC3339 deadline\<rparr>
       in seq (saveRun run')
          (seq (cascadeTaskCancellation i reason)
          (seq (publishRunStatusEvent run' now reason)
          (ret run'))))) s1 = (Inr run, t)"
    unfolding CancelWorkflowRun_def bnd_Inr by blast
  note r = GetWorkflowRun_Inr [OF get]
  show ?thesis
  proof (cases "r_Status r = RunCancelling")
    case True
    with rest r show ?thesis by (auto simp: ret_Inr)
  next
    case False
    with rest obtain now s2 s3 s4 where steps: "nowT s1 = (Inr now, s2)" "saveRun run s2 = (Inr (), s3)"
        "cascadeTaskCancellation i reason s3 = (Inr (), s4)" "publishRunStatusEvent run now reason s4 = (Inr (), t)"
      and out: "run = r\<lparr>r_Status := RunCancelling, r_UpdatedAt := fmtRFC3339 now, r_CancelledBy := by,
                     r_CancelReason := reason, r_CancellingUntil := fmtRFC3339 deadline\<rparr>"
      by (auto simp: Let_def bnd_Inr seq_Inr ret_Inr fail_Inr split: if_splits)
    have "d_runs (w_db t) = updWhere (\<lambda>r. r_ID r = r_ID run) (\<lambda>_. withUnderWay run) (d_runs (w_db s))"
      using steps r saveRun_Inr [OF steps(2)] cascade_runs [OF steps(3)] publishRunStatusEvent_db [OF steps(4)]
      by (simp add: nowT_Inr)
    moreover have "r_ID run = i" using r out by (auto dest: find_Some_in)
    moreover have "List.find (\<lambda>r. r_ID r = i) (updWhere (\<lambda>r. r_ID r = i) (\<lambda>_. withUnderWay run) (d_runs (w_db s))) =
        Some (withUnderWay run)"
      using r \<open>r_ID run = i\<close> by (auto simp: find_updWhere dest: find_Some_in)
    moreover have "r_Status run = RunCancelling" using out by simp
    ultimately show ?thesis by simp
  qed
qed

text \<open>A run in progress with a task under way, and a task outside it.\<close>

definition busyDb :: db where
  "busyDb = emptyDb\<lparr>d_runs := [runWith ''r'' RunInProgress],
     d_tasks := [(taskWith ''t'' TaskStatusInProgress)\<lparr>t_WorkflowRunID := ''r''\<rparr>, taskWith ''u'' TaskStatusPending]\<rparr>"

lemma busyDb_facts:
  "List.find (\<lambda>r. r_ID r = ''r'') (d_runs busyDb) = Some (runWith ''r'' RunInProgress)" "tasksUnique busyDb"
  "length (filter (\<lambda>row. t_WorkflowRunID row = ''r'' \<and> \<not> t_Deleted row) (d_tasks busyDb)) \<le> maxListPage"
  "d_tasks busyDb = [(taskWith ''t'' TaskStatusInProgress)\<lparr>t_WorkflowRunID := ''r''\<rparr>, taskWith ''u'' TaskStatusPending]"
  by (simp_all add: busyDb_def tasksUnique_def maxListPage_def)



text \<open>
  Cancelling is idempotent: once a cancellation has succeeded, with no failing statement any
  further one, whatever its reason, returns a cancelling run and changes nothing.
\<close>

lemma CancelWorkflowRun_idempotent:
  assumes "CancelWorkflowRun i reason by deadline s = (Inr run, t)" and "quiet s"
  shows "\<exists>run'. CancelWorkflowRun i reason' by' deadline' t = (Inr run', t) \<and> r_Status run' = RunCancelling"
proof -
  have "w_faults t = []" using quiet_steady [OF steady_cancel_ops(1) assms] by (simp add: quiet_def)
  with CancelWorkflowRun_stored [OF assms(1)] show ?thesis
    by (auto simp: CancelWorkflowRun_def GetWorkflowRun_def bnd_def takeQ_calm ret_def)
qed

text \<open>
  Stopping a run ends it at once: a stop that succeeds found the run under way and not rolling
  back, left it stored as cancelled and not under way, and, when it was to start again, opened a pending run of
  the same workflow that names the stopped one.
\<close>

lemma StopWorkflowRun_ends:
  assumes run: "StopWorkflowRun i by reason v s = (Inr (stop, None), t)"
  shows "\<exists>r. List.find (\<lambda>r. r_ID r = i) (d_runs (w_db s)) = Some r \<and> \<not> IsTerminal (r_Status r) \<and>
    r_Status r \<noteq> RunRollingBack \<and> r_ID (st_Stopped stop) = i \<and> r_Status (st_Stopped stop) = RunCancelled \<and>
    \<not> r_UnderWay (st_Stopped stop) \<and> r_CancelReason (st_Stopped stop) = reason \<and>
    List.find (\<lambda>r. r_ID r = i) (d_runs (w_db t)) = Some (st_Stopped stop) \<and>
    (case st_Restarted stop of
       None \<Rightarrow> v = 0
     | Some new \<Rightarrow> 0 < v \<and> r_Status new = RunPending \<and> r_UnderWay new \<and> r_RestartedFromRunID new = i \<and>
         r_WorkflowCode new = r_WorkflowCode r \<and> r_WorkflowVersion new = v)"
proof -
  from run obtain r s1 now s2 u1 s3 u2 s4 u3 s5 where get: "GetWorkflowRun i s = (Inr r, s1)"
    and free: "\<not> (IsTerminal (r_Status r) \<or> r_Status r = RunRollingBack)" and v: "\<not> v < 0"
    and now: "nowT s1 = (Inr now, s2)" and save: "saveRun (stoppedRun now by reason r) s2 = (Inr u1, s3)"
    and casc: "cascadeTaskCancellation (r_ID (stoppedRun now by reason r)) reason s3 = (Inr u2, s4)"
    and pub: "publishRunStatusEvent (stoppedRun now by reason r) now reason s4 = (Inr u3, s5)"
    and last: "restartRun (stoppedRun now by reason r) v s5 = (Inr (stop, None), t)"
    unfolding StopWorkflowRun_def Let_def bnd_Inr seq_Inr unless_Inr by blast
  note r = GetWorkflowRun_Inr [OF get]
  from r have id: "r_ID r = i" by (auto dest: find_Some_in)
  define stopped where "stopped = stoppedRun now by reason r"
  have "withUnderWay stopped = stopped" by (simp add: stopped_def withUnderWay_def stoppedRun_def IsTerminal_def)
  moreover have "d_runs (w_db s2) = d_runs (w_db s)" using now r by (auto simp: nowT_Inr)
  ultimately have d5: "d_runs (w_db s5) = updWhere (\<lambda>r. r_ID r = i) (\<lambda>_. stopped) (d_runs (w_db s))"
    using saveRun_Inr [OF save] cascade_runs [OF casc] publishRunStatusEvent_db [OF pub] id by (simp add: stopped_def)
  have "List.find (\<lambda>r. r_ID r = i) (d_runs (w_db s5)) = Some stopped"
    using r id unfolding d5 by (simp add: find_updWhere stopped_def)
  then have stored: "List.find (\<lambda>r. r_ID r = i) (d_runs (w_db s5) @ new) = Some stopped" for new
    by (simp add: find_append)
  show ?thesis
  proof (cases "v = 0")
    case True
    with last r free id stored [of "[]"] show ?thesis by (auto simp: restartRun_def ret_Inr stopped_def)
  next
    case False
    define ask where "ask = workflow_run0\<lparr>r_TriggerEvent := r_TriggerEvent stopped,
               r_Initiator := r_Initiator stopped, r_WorkflowCode := r_WorkflowCode stopped,
               r_WorkflowVersion := v, r_RestartedFromRunID := r_ID stopped\<rparr>"
    have ask: "r_RestartedFromRunID ask = i" "r_WorkflowCode ask = r_WorkflowCode r" "r_WorkflowVersion ask = v"
      using id by (simp_all add: ask_def stopped_def)
    from last False obtain x where new: "openWorkflowRun ask s5 = (x, t)"
      and stop: "(case x of Inl e \<Rightarrow> (\<lparr>st_Stopped = stopped, st_Restarted = None\<rparr>, Some e)
        | Inr new \<Rightarrow> (\<lparr>st_Stopped = stopped, st_Restarted = None\<rparr>\<lparr>st_Restarted := Some new\<rparr>, None)) = (stop, None)"
      unfolding restartRun_def Let_def if_not_P [OF False] stopped_def [symmetric] ask_def [symmetric]
      by (auto simp: bnd_Inr attempt_Inr ret_Inr)
    from openWorkflowRun_runs [OF new] stop obtain opened where x: "x = Inr opened"
      and rows: "d_runs (w_db t) = d_runs (w_db s5) @ [opened]"
      and o: "r_Status opened = RunPending" "r_UnderWay opened" "r_RestartedFromRunID opened = r_RestartedFromRunID ask"
        "r_WorkflowCode opened = r_WorkflowCode ask" "r_WorkflowVersion opened = r_WorkflowVersion ask"
      by auto
    from stop x have "stop = \<lparr>st_Stopped = stopped, st_Restarted = Some opened\<rparr>" by simp
    with stored [of "[opened]"] rows o ask False v r free id show ?thesis by (simp add: stopped_def)
  qed
qed

lemma StopWorkflowRun_quiet:
  assumes quiet: "quiet s" and row: "List.find (\<lambda>r. r_ID r = i) (d_runs (w_db s)) = Some r"
    and free: "\<not> IsTerminal (r_Status r)" "r_Status r \<noteq> RunRollingBack"
  shows "\<exists>stop t. StopWorkflowRun i by reason 0 s = (Inr (stop, None), t)"
proof -
  obtain now s1 where now: "nowT s = (Inr now, s1)" and q1: "quiet s1" using fineD [OF fine_basic(2) quiet] by blast
  let ?run = "stoppedRun now by reason r"
  obtain s2 where save: "saveRun ?run s1 = (Inr (), s2)" and q2: "quiet s2" using fineD [OF fine_saveRun q1] by fastforce
  obtain s3 where casc: "cascadeTaskCancellation (r_ID r) reason s2 = (Inr (), s3)" and q3: "quiet s3"
    using fineD [OF fine_surely [OF surely_cascade steady_cascade] q2] by fastforce
  obtain t where "publishRunStatusEvent ?run now reason s3 = (Inr (), t)"
    using fineD [OF fine_publishRunStatusEvent q3] by fastforce
  with row quiet free now save casc show ?thesis
    by (auto simp: StopWorkflowRun_def GetWorkflowRun_def bnd_def takeQ_calm quiet_def seq_def unless_def ret_def restartRun_def Let_def)
qed

lemma StopWorkflowRun_ends_example:
  "\<exists>stop t. StopWorkflowRun ''r'' [] ''why'' 0 (worldOf busyDb) = (Inr (stop, None), t) \<and>
     r_Status (st_Stopped stop) = RunCancelled"
proof -
  obtain stop t where run: "StopWorkflowRun ''r'' [] ''why'' 0 (worldOf busyDb) = (Inr (stop, None), t)"
    using StopWorkflowRun_quiet [of "worldOf busyDb" "''r''" "runWith ''r'' RunInProgress" "[]" "''why''"] busyDb_facts(1)
    by (auto simp: IsTerminal_def)
  from StopWorkflowRun_ends [OF run] run show ?thesis by blast
qed

end
