(* ===== verification/Failure_Budget.thy ===== *)
theory Failure_Budget
  imports Run_Cancel
begin

text \<open>
  \<open>workflow_run_failure_budget.go\<close>: a root run caps the recovery runs started under it. A charge reads
  the counter and writes it back under the condition that it has not moved; a charge that lost goes
  round again, sixteen times at most. The two statements of a round are separate definitions, so that
  \<open>charges\<close> can interleave the rounds of any number of callers.
\<close>

definition SetFailureBudget :: "string \<Rightarrow> int \<Rightarrow> workflow_run tm" where
  "SetFailureBudget runID budget =
     bnd (GetWorkflowRun runID) (\<lambda>run.
     seq (unless (r_ParentWorkflowRunID run = []) ErrNotRootWorkflowRun)
     (seq (unless (r_FailurePipelineBudget run = 0) ErrFailureBudgetAlreadySet)
     (seq (updateQ runsT (\<lambda>r. r_ID r = runID)
            (\<lambda>r. r\<lparr>r_FailurePipelineBudget := budget, r_RootWorkflowRunID := runID\<rparr>))
     (GetWorkflowRun runID))))"

definition exhaustedAt :: "int \<Rightarrow> int \<Rightarrow> bool" where
  "exhaustedAt used budget \<longleftrightarrow> \<not> budget \<le> 0 \<and> budget < used"

type_synonym charge = "int \<times> int \<times> bool"

definition counterState :: "workflow_run \<Rightarrow> charge" where
  "counterState run = (r_FailurePipelinesUsed run, r_FailurePipelineBudget run,
     exhaustedAt (r_FailurePipelinesUsed run) (r_FailurePipelineBudget run))"

definition maxBudgetAttempts :: nat where
  "maxBudgetAttempts = 16"

text \<open>The read of a round: the state to answer with when the child is already counted, or the run.\<close>

definition readCounter :: "string \<Rightarrow> string \<Rightarrow> (charge + workflow_run) tm" where
  "readCounter rootRunID childRunID =
     bnd (GetWorkflowRun rootRunID) (\<lambda>run.
     seq (unless (r_ParentWorkflowRunID run = []) ErrNotRootWorkflowRun)
     (ret (if childRunID \<in> set (r_CountedChildRunIDs run) then Inl (counterState run) else Inr run)))"

text \<open>The write of a round: \<open>None\<close> when another charge landed first.\<close>

definition writeCounter :: "string \<Rightarrow> string \<Rightarrow> workflow_run \<Rightarrow> charge option tm" where
  "writeCounter rootRunID childRunID run =
     (let newUsed = r_FailurePipelinesUsed run + 1;
          newCounted = r_CountedChildRunIDs run @ [childRunID]
      in bnd (updateQ runsT
           (\<lambda>r. r_ID r = rootRunID \<and> r_FailurePipelinesUsed r = r_FailurePipelinesUsed run)
           (\<lambda>r. r\<lparr>r_FailurePipelinesUsed := newUsed, r_CountedChildRunIDs := newCounted\<rparr>)) (\<lambda>n.
         ret (if n = 1 then Some (newUsed, r_FailurePipelineBudget run,
                                  exhaustedAt newUsed (r_FailurePipelineBudget run))
              else None)))"

fun chargeAttempts :: "nat \<Rightarrow> string \<Rightarrow> string \<Rightarrow> charge tm" where
  "chargeAttempts 0 rootRunID childRunID = fail ErrCounter"
| "chargeAttempts (Suc n) rootRunID childRunID =
     bnd (readCounter rootRunID childRunID) (\<lambda>read.
     case read of
       Inl state \<Rightarrow> ret state
     | Inr run \<Rightarrow>
         bnd (writeCounter rootRunID childRunID run) (\<lambda>written.
         case written of
           Some state \<Rightarrow> ret state
         | None \<Rightarrow> chargeAttempts n rootRunID childRunID))"

definition IncrementFailureBudget :: "string \<Rightarrow> string \<Rightarrow> charge tm" where
  "IncrementFailureBudget rootRunID childRunID = chargeAttempts maxBudgetAttempts rootRunID childRunID"

definition CreateRecoveryWorkflowRun ::
  "string \<Rightarrow> string \<Rightarrow> string \<Rightarrow> string \<Rightarrow> string \<Rightarrow> workflow_run tm" where
  "CreateRecoveryWorkflowRun name triggerEvent initiator parentRunID rootRunID =
     (if parentRunID = [] then fail ErrInvalidTask
      else
        bnd (if rootRunID = []
             then bnd (GetWorkflowRun parentRunID) (\<lambda>parent.
                  ret (if r_RootWorkflowRunID parent = [] then r_ID parent else r_RootWorkflowRunID parent))
             else ret rootRunID) (\<lambda>root.
        bnd (CreateWorkflowRun name triggerEvent initiator) (\<lambda>run.
        seq (updateQ runsT (\<lambda>r. r_ID r = r_ID run)
               (\<lambda>r. r\<lparr>r_ParentWorkflowRunID := parentRunID, r_RootWorkflowRunID := root\<rparr>))
        (GetWorkflowRun (r_ID run)))))"

section \<open>Frames\<close>

lemma keeps_readCounter [keeps_intros]: "keeps I (readCounter i c)"
  unfolding readCounter_def by (intro keeps_intros)

lemma keeps_chargeAttempts:
  assumes "\<And>run. keeps I (writeCounter i c run)"
  shows "keeps I (chargeAttempts n i c)"
  by (induction n) (auto split: sum.split option.split intro!: keeps_intros assms)

lemma keeps_budget_underWay [keeps_intros]:
  "keeps runsUnderWay (SetFailureBudget i b)" "keeps runsUnderWay (IncrementFailureBudget i c)"
  "keeps runsUnderWay (CreateRecoveryWorkflowRun n e a p r)"
proof -
  have "keeps runsUnderWay (writeCounter i c run)" for run
    unfolding writeCounter_def Let_def by (intro keeps_intros keeps_runsUnderWay_update) simp
  then show "keeps runsUnderWay (IncrementFailureBudget i c)"
    unfolding IncrementFailureBudget_def by (rule keeps_chargeAttempts)
qed (unfold SetFailureBudget_def CreateRecoveryWorkflowRun_def CreateWorkflowRun_def,
     (intro keeps_intros keeps_runsUnderWay_update openWorkflowRun_underWay; simp)+)

section \<open>The counter of a run\<close>

text \<open>What the tables hold of a run's counter.\<close>

definition counterView :: "string \<Rightarrow> db \<Rightarrow> (int \<times> string list) option" where
  "counterView i d = map_option (\<lambda>r. (r_FailurePipelinesUsed r, r_CountedChildRunIDs r))
     (List.find (\<lambda>r. r_ID r = i) (d_runs d))"

text \<open>A counter is sound when it counts the children it lists, each once.\<close>

definition soundCounter :: "string \<Rightarrow> db \<Rightarrow> bool" where
  "soundCounter i d \<longleftrightarrow>
     (case counterView i d of None \<Rightarrow> False | Some (used, counted) \<Rightarrow> used = int (length counted) \<and> distinct counted)"

lemma readCounter_Inr:
  assumes "readCounter i c s = (Inr x, t)"
  shows "w_db t = w_db s \<and> (\<exists>run. List.find (\<lambda>r. r_ID r = i) (d_runs (w_db s)) = Some run \<and>
    r_ParentWorkflowRunID run = [] \<and>
    x = (if c \<in> set (r_CountedChildRunIDs run) then Inl (counterState run) else Inr run))"
  using assms by (auto simp: readCounter_def bnd_Inr seq_Inr unless_Inr ret_Inr dest!: GetWorkflowRun_Inr)

lemma affected_id:
  assumes "distinct (map k rs)" and "List.find (\<lambda>r. k r = i) rs = Some r"
  shows "affected (\<lambda>r. k r = i \<and> P r) rs = (if P r then 1 else 0)"
proof (cases "P r")
  case True
  from find_Some_in [OF assms(2)] have r: "r \<in> set rs" "k r = i" by auto
  with True have "affected (\<lambda>r. k r = i \<and> P r) rs \<noteq> 0" by (auto simp: affected_0_iff)
  with affected_key_le_1 [OF assms(1), of i P] True show ?thesis by simp
next
  case False
  have "\<not> (k r' = i \<and> P r')" if "r' \<in> set rs" for r'
    using that find_Some_in [OF assms(2)] distinct_key_eq [OF assms(1)] False by metis
  with False show ?thesis by (simp add: affected_0_iff)
qed

lemma writeCounter_Inr:
  assumes run: "writeCounter i c run s = (Inr x, t)" and ids: "distinct (map r_ID (d_runs (w_db s)))"
    and view: "counterView i (w_db s) = Some (used, counted)"
  shows "distinct (map r_ID (d_runs (w_db t))) \<and>
    (if used = r_FailurePipelinesUsed run
     then x = Some (r_FailurePipelinesUsed run + 1, r_FailurePipelineBudget run,
            exhaustedAt (r_FailurePipelinesUsed run + 1) (r_FailurePipelineBudget run)) \<and>
          counterView i (w_db t) = Some (r_FailurePipelinesUsed run + 1, r_CountedChildRunIDs run @ [c])
     else x = None \<and> counterView i (w_db t) = Some (used, counted))"
proof -
  let ?P = "\<lambda>r. r_ID r = i \<and> r_FailurePipelinesUsed r = r_FailurePipelinesUsed run"
  let ?f = "\<lambda>r :: workflow_run. r\<lparr>r_FailurePipelinesUsed := r_FailurePipelinesUsed run + 1,
      r_CountedChildRunIDs := r_CountedChildRunIDs run @ [c]\<rparr>"
  from run obtain n s1 where upd: "updateQ runsT ?P ?f s = (Inr n, s1)" and t: "t = s1"
    and x: "x = (if n = 1 then Some (r_FailurePipelinesUsed run + 1, r_FailurePipelineBudget run,
        exhaustedAt (r_FailurePipelinesUsed run + 1) (r_FailurePipelineBudget run)) else None)"
    by (auto simp: writeCounter_def Let_def bnd_Inr ret_Inr)
  from view obtain row where row: "List.find (\<lambda>r. r_ID r = i) (d_runs (w_db s)) = Some row"
    and cols: "used = r_FailurePipelinesUsed row" "counted = r_CountedChildRunIDs row"
    by (auto simp: counterView_def)
  note upd' = updateQ_run [OF upd]
  have n: "n = (if used = r_FailurePipelinesUsed run then 1 else 0)"
    using affected_id [OF ids row, of "\<lambda>r. r_FailurePipelinesUsed r = r_FailurePipelinesUsed run"] upd' cols by simp
  have rows: "d_runs (w_db t) = updWhere ?P ?f (d_runs (w_db s))" using upd' t by simp
  have "List.find (\<lambda>r. r_ID r = i) (updWhere ?P ?f (d_runs (w_db s))) =
      map_option (\<lambda>r. if ?P r then ?f r else r) (List.find (\<lambda>r. r_ID r = i) (d_runs (w_db s)))"
    by (rule find_updWhere) simp
  with row have "counterView i (w_db t) = Some (if used = r_FailurePipelinesUsed run
      then (r_FailurePipelinesUsed run + 1, r_CountedChildRunIDs run @ [c]) else (used, counted))"
    using cols find_Some_in [OF row] by (auto simp: counterView_def rows)
  moreover have "distinct (map r_ID (d_runs (w_db t)))" using ids by (simp add: rows map_updWhere)
  ultimately show ?thesis using n x by auto
qed

section \<open>Charges side by side\<close>

text \<open>Where a call of \<open>IncrementFailureBudget\<close> stands between two of its statements.\<close>

datatype phase = Ready nat | Writing nat workflow_run | Charged charge | Refused err

fun chargeRound :: "string \<Rightarrow> string \<Rightarrow> phase \<Rightarrow> world \<Rightarrow> phase \<times> world" where
  "chargeRound i c (Ready 0) s = (Refused ErrCounter, s)"
| "chargeRound i c (Ready (Suc n)) s =
     (case readCounter i c s of
        (Inl e, t) \<Rightarrow> (Refused e, t)
      | (Inr (Inl state), t) \<Rightarrow> (Charged state, t)
      | (Inr (Inr run), t) \<Rightarrow> (Writing n run, t))"
| "chargeRound i c (Writing n run) s =
     (case writeCounter i c run s of
        (Inl e, t) \<Rightarrow> (Refused e, t)
      | (Inr (Some state), t) \<Rightarrow> (Charged state, t)
      | (Inr None, t) \<Rightarrow> (Ready n, t))"
| "chargeRound i c (Charged state) s = (Charged state, s)"
| "chargeRound i c (Refused e) s = (Refused e, s)"

text \<open>
  Any number of callers, each charging one child to the same root, take turns; between two of their
  statements anything else may happen that leaves the counter's columns and the run ids alone.
\<close>

inductive charges :: "string \<Rightarrow> (string \<times> phase) list \<times> world \<Rightarrow> (string \<times> phase) list \<times> world \<Rightarrow> bool"
  for i :: string and start :: "(string \<times> phase) list \<times> world" where
  charges_start: "charges i start start"
| charges_round: "charges i start (cs, s) \<Longrightarrow> k < length cs \<Longrightarrow> cs ! k = (c, p) \<Longrightarrow>
    chargeRound i c p s = (p', s') \<Longrightarrow> charges i start (cs[k := (c, p')], s')"
| charges_other: "charges i start (cs, s) \<Longrightarrow> counterView i (w_db s') = counterView i (w_db s) \<Longrightarrow>
    distinct (map r_ID (d_runs (w_db s'))) \<Longrightarrow> charges i start (cs, s')"

text \<open>Alone, the rounds are the method.\<close>

fun rounds :: "nat \<Rightarrow> string \<Rightarrow> string \<Rightarrow> phase \<Rightarrow> world \<Rightarrow> phase \<times> world" where
  "rounds 0 i c p s = (p, s)"
| "rounds (Suc k) i c p s = (case chargeRound i c p s of (p', s') \<Rightarrow> rounds k i c p' s')"

definition outcome :: "err + charge \<Rightarrow> phase" where
  "outcome r = (case r of Inl e \<Rightarrow> Refused e | Inr state \<Rightarrow> Charged state)"

lemma rounds_done: "rounds k i c (outcome r) s = (outcome r, s)"
  by (induction k) (auto simp: outcome_def split: sum.splits)

lemma chargeAttempts_rounds:
  "rounds (2 * n + 1) i c (Ready n) s = (case chargeAttempts n i c s of (r, t) \<Rightarrow> (outcome r, t))"
proof (induction n arbitrary: s)
  case 0
  then show ?case by (simp add: fail_def outcome_def)
next
  case (Suc n)
  obtain x s1 where x: "readCounter i c s = (x, s1)" by fastforce
  have two: "2 * Suc n + 1 = Suc (Suc (2 * n + 1))" by simp
  show ?case
  proof (cases x)
    case (Inl e)
    then show ?thesis using x rounds_done [of "Suc (2 * n + 1)" i c "Inl e" s1]
      unfolding two by (simp add: bnd_def outcome_def)
  next
    case (Inr y)
    show ?thesis
    proof (cases y)
      case (Inl state)
      with Inr x show ?thesis using rounds_done [of "Suc (2 * n + 1)" i c "Inr state" s1]
        unfolding two by (simp add: bnd_def ret_def outcome_def)
    next
      case (Inr run)
      obtain z s2 where z: "writeCounter i c run s1 = (z, s2)" by fastforce
      note x' = x [unfolded \<open>x = Inr y\<close> Inr]
      show ?thesis
      proof (cases z)
        case (Inl e)
        with x' z rounds_done [of "2 * n + 1" i c "Inl e" s2] show ?thesis
          unfolding two by (simp add: bnd_def outcome_def)
      next
        case (Inr w)
        with x' z Suc [of s2] rounds_done [of "2 * n + 1" i c "Inr (the w)" s2] show ?thesis
          unfolding two by (cases w) (simp_all add: bnd_def ret_def outcome_def)
      qed
    qed
  qed
qed

text \<open>What holds of a caller, given the counter at the start and now.\<close>

fun phaseOk :: "int \<Rightarrow> int \<Rightarrow> string list \<Rightarrow> string \<Rightarrow> phase \<Rightarrow> bool" where
  "phaseOk u0 used counted c (Ready n) \<longleftrightarrow> u0 + (int maxBudgetAttempts - int n) \<le> used"
| "phaseOk u0 used counted c (Writing n run) \<longleftrightarrow>
     c \<notin> set (r_CountedChildRunIDs run) \<and> u0 + (int maxBudgetAttempts - int n) \<le> r_FailurePipelinesUsed run + 1 \<and>
     (r_FailurePipelinesUsed run < used \<or> r_FailurePipelinesUsed run = used \<and> r_CountedChildRunIDs run = counted)"
| "phaseOk u0 used counted c (Charged state) \<longleftrightarrow> c \<in> set counted \<and>
     (case state of (u, b, x) \<Rightarrow> u \<le> used \<and> (x \<longleftrightarrow> exhaustedAt u b))"
| "phaseOk u0 used counted c (Refused e) \<longleftrightarrow> (e = ErrCounter \<longrightarrow> u0 + int maxBudgetAttempts \<le> used)"

definition counterOk :: "string \<Rightarrow> int \<Rightarrow> string list \<Rightarrow> string set \<Rightarrow> (string \<times> phase) list \<Rightarrow> world \<Rightarrow> int \<Rightarrow> string list \<Rightarrow> bool" where
  "counterOk i u0 counted0 children cs s used counted \<longleftrightarrow>
     counterView i (w_db s) = Some (used, counted) \<and> distinct (map r_ID (d_runs (w_db s))) \<and>
     used = int (length counted) \<and> distinct counted \<and>
     set counted0 \<subseteq> set counted \<and> set counted \<subseteq> set counted0 \<union> children \<and>
     fst ` set cs \<subseteq> children \<and> (\<forall>(c, p) \<in> set cs. phaseOk u0 used counted c p)"

lemma phaseOk_mono:
  "phaseOk u0 used counted c p \<Longrightarrow> used < used' \<Longrightarrow> set counted \<subseteq> set counted' \<Longrightarrow> phaseOk u0 used' counted' c p"
  by (cases p) auto

lemma readCounter_error: "readCounter i c s = (Inl e, t) \<Longrightarrow> e \<noteq> ErrCounter"
  by (auto simp: readCounter_def GetWorkflowRun_def bnd_Inl seq_Inl unless_Inl ret_Inl dest!: statement_Inl(2))

lemma writeCounter_error: "writeCounter i c run s = (Inl e, t) \<Longrightarrow> e \<noteq> ErrCounter \<and> w_db t = w_db s"
  by (auto simp: writeCounter_def Let_def bnd_Inl ret_Inl dest!: statement_Inl(3))

text \<open>One statement of one caller keeps the counter sound and every other caller's view of it.\<close>

lemma chargeRound_ok:
  assumes step: "chargeRound i c p s = (p', s')" and view: "counterView i (w_db s) = Some (used, counted)"
    and ids: "distinct (map r_ID (d_runs (w_db s)))" and sound: "used = int (length counted)" "distinct counted"
    and p: "phaseOk u0 used counted c p"
  shows "\<exists>used' counted'. counterView i (w_db s') = Some (used', counted') \<and> distinct (map r_ID (d_runs (w_db s'))) \<and>
    used' = int (length counted') \<and> distinct counted' \<and> set counted \<subseteq> set counted' \<and> set counted' \<subseteq> insert c (set counted) \<and>
    (used' = used \<and> counted' = counted \<or> used < used') \<and> phaseOk u0 used' counted' c p'"
proof (cases "(i, c, p, s)" rule: chargeRound.cases)
  case (2 i' c' n s0)
  obtain x t where x: "readCounter i c s = (x, t)" by fastforce
  have t: "w_db t = w_db s" by (rule keeps_reads [OF keeps_readCounter x])
  have p': "phaseOk u0 used counted c p'" and s': "s' = t"
  proof -
    show "s' = t" using step x 2 by (auto split: sum.splits)
    show "phaseOk u0 used counted c p'"
    proof (cases x)
      case (Inl e)
      with step x 2 readCounter_error show ?thesis by auto
    next
      case (Inr y)
      from readCounter_Inr [OF x [unfolded Inr]] obtain run where
        run: "List.find (\<lambda>r. r_ID r = i) (d_runs (w_db s)) = Some run"
        and y: "y = (if c \<in> set (r_CountedChildRunIDs run) then Inl (counterState run) else Inr run)" by blast
      with view have "used = r_FailurePipelinesUsed run" "counted = r_CountedChildRunIDs run"
        by (auto simp: counterView_def)
      with step x 2 Inr y p show ?thesis by (auto simp: counterState_def split: if_splits)
    qed
  qed
  from p' s' t view ids sound show ?thesis by auto
next
  case (3 i' c' n run s0)
  obtain x t where x: "writeCounter i c run s = (x, t)" by fastforce
  show ?thesis
  proof (cases x)
    case (Inl e)
    with step x 3 writeCounter_error [of i c run s e t] view ids sound show ?thesis by auto
  next
    case (Inr y)
    note w = writeCounter_Inr [OF x [unfolded Inr] ids view]
    show ?thesis
    proof (cases "used = r_FailurePipelinesUsed run")
      case True
      with w step x Inr 3 p sound show ?thesis by auto
    next
      case False
      with w step x Inr 3 p sound show ?thesis by auto
    qed
  qed
qed (use assms in auto)

lemma charges_counterOk:
  assumes "charges i start end"
    and "counterOk i u0 counted0 children (fst start) (snd start) u1 counted1"
  shows "\<exists>used counted. counterOk i u0 counted0 children (fst end) (snd end) used counted"
  using assms
proof (induction rule: charges.induct)
  case (charges_round cs s k c p p' s')
  then obtain used counted where ok: "counterOk i u0 counted0 children cs s used counted" by auto
  from charges_round.hyps have mem: "(c, p) \<in> set cs" by (metis nth_mem)
  with ok have p: "phaseOk u0 used counted c p" and c: "c \<in> children" by (auto simp: counterOk_def)
  have view: "counterView i (w_db s) = Some (used, counted)" "distinct (map r_ID (d_runs (w_db s)))"
    "used = int (length counted)" "distinct counted" using ok by (simp_all add: counterOk_def)
  from chargeRound_ok [OF charges_round.hyps(4) view p] obtain used' counted' where
    new: "counterView i (w_db s') = Some (used', counted')" "distinct (map r_ID (d_runs (w_db s')))"
      "used' = int (length counted')" "distinct counted'" "set counted \<subseteq> set counted'"
      "set counted' \<subseteq> insert c (set counted)" "phaseOk u0 used' counted' c p'"
    and grew: "used' = used \<and> counted' = counted \<or> used < used'" by blast
  have others: "phaseOk u0 used' counted' d q" if "(d, q) \<in> set cs" for d q
  proof -
    from ok that have "phaseOk u0 used counted d q" by (auto simp: counterOk_def)
    with grew phaseOk_mono [OF _ _ new(5)] show ?thesis by blast
  qed
  have sub: "set (cs[k := (c, p')]) \<subseteq> insert (c, p') (set cs)" by (rule set_update_subset_insert)
  have "fst ` set cs \<subseteq> children" using ok by (simp add: counterOk_def)
  then have "fst ` insert (c, p') (set cs) \<subseteq> children" using c by simp
  with sub have callers: "fst ` set (cs[k := (c, p')]) \<subseteq> children" by blast
  have all: "\<forall>(d, q) \<in> set (cs[k := (c, p')]). phaseOk u0 used' counted' d q" using sub others new(7) by auto
  have "set counted0 \<subseteq> set counted" "set counted \<subseteq> set counted0 \<union> children" using ok by (simp_all add: counterOk_def)
  with new(5,6) c have "set counted0 \<subseteq> set counted'" "set counted' \<subseteq> set counted0 \<union> children" by auto
  with new(1-4) callers all have "counterOk i u0 counted0 children (cs[k := (c, p')]) s' used' counted'"
    unfolding counterOk_def by (intro conjI)
  then show ?case by (intro exI) (simp only: fst_conv snd_conv)
next
  case (charges_other cs s s')
  then show ?case by (auto simp: counterOk_def)
qed auto

section \<open>Properties\<close>

text \<open>A root run with a budget, and a run it is the parent of.\<close>

definition budgetRun :: "int \<Rightarrow> string list \<Rightarrow> workflow_run" where
  "budgetRun budget counted = (runWith ''r'' RunInProgress)\<lparr>r_FailurePipelineBudget := budget,
     r_FailurePipelinesUsed := int (length counted), r_CountedChildRunIDs := counted\<rparr>"

definition budgetDb :: "int \<Rightarrow> string list \<Rightarrow> db" where
  "budgetDb budget counted = emptyDb\<lparr>d_runs := [budgetRun budget counted]\<rparr>"

lemma budgetRun_sel [simp]:
  "r_ID (budgetRun b cs) = ''r''" "r_FailurePipelineBudget (budgetRun b cs) = b"
  "r_FailurePipelinesUsed (budgetRun b cs) = int (length cs)" "r_CountedChildRunIDs (budgetRun b cs) = cs"
  "r_ParentWorkflowRunID (budgetRun b cs) = []" "r_Status (budgetRun b cs) = RunInProgress"
  by (simp_all add: budgetRun_def runWith_def workflow_run0_def)

lemma budgetDb_runs [simp]: "d_runs (budgetDb b cs) = [budgetRun b cs]"
  by (simp add: budgetDb_def)

text \<open>
  C13. No charge is lost and none is counted twice: however the statements of any number of concurrent
  charges to one root interleave, the counter always equals the number of distinct children recorded,
  every child whose charge was answered is among them, nothing else was added, and a charge gives up
  only after at least sixteen other increments landed.
\<close>

theorem charges_exact:
  assumes run: "charges i (map (\<lambda>c. (c, Ready maxBudgetAttempts)) children, s) (cs, t)"
    and ids: "distinct (map r_ID (d_runs (w_db s)))"
    and start: "counterView i (w_db s) = Some (int (length counted0), counted0)" and once: "distinct counted0"
  shows "\<exists>counted. counterView i (w_db t) = Some (int (length counted), counted) \<and> distinct counted \<and>
    set counted0 \<subseteq> set counted \<and> set counted \<subseteq> set counted0 \<union> set children \<and>
    (\<forall>c state. (c, Charged state) \<in> set cs \<longrightarrow> c \<in> set counted) \<and>
    ((\<exists>c. (c, Refused ErrCounter) \<in> set cs) \<longrightarrow> length counted0 + maxBudgetAttempts \<le> length counted)"
proof -
  have "counterOk i (int (length counted0)) counted0 (set children)
      (map (\<lambda>c. (c, Ready maxBudgetAttempts)) children) s (int (length counted0)) counted0"
    using ids start once by (auto simp: counterOk_def)
  with charges_counterOk [OF run] obtain used counted where
    ok: "counterOk i (int (length counted0)) counted0 (set children) cs t used counted" by fastforce
  have "c \<in> set counted" if "(c, Charged state) \<in> set cs" for c state
    using ok that by (auto simp: counterOk_def)
  moreover have "length counted0 + maxBudgetAttempts \<le> length counted" if "(c, Refused ErrCounter) \<in> set cs" for c
    using ok that by (auto simp: counterOk_def)
  ultimately show ?thesis using ok by (auto simp: counterOk_def)
qed

text \<open>Two callers read the same counter; the first write lands, the second finds it changed.\<close>

theorem charges_exact_witness:
  "\<exists>cs t. charges ''r'' (map (\<lambda>c. (c, Ready maxBudgetAttempts)) [''a'', ''b''], worldOf (budgetDb 1 [])) (cs, t) \<and>
     cs ! 0 = (''a'', Charged (1, 1, False)) \<and>
     (\<exists>counted. counterView ''r'' (w_db t) = Some (int (length counted), counted) \<and> ''a'' \<in> set counted)"
proof -
  let ?s = "worldOf (budgetDb 1 [])"
  define t where "t = ?s\<lparr>w_db := (budgetDb 1 [])\<lparr>d_runs := [budgetRun 1 [''a'']]\<rparr>\<rparr>"
  have counted: "(budgetRun 1 [])\<lparr>r_FailurePipelinesUsed := 1, r_CountedChildRunIDs := [''a'']\<rparr> = budgetRun 1 [''a'']"
    by (simp add: budgetRun_def)
  have n: "maxBudgetAttempts = Suc 15" by (simp add: maxBudgetAttempts_def)
  have read: "chargeRound ''r'' c (Ready maxBudgetAttempts) ?s = (Writing 15 (budgetRun 1 []), ?s)" for c
    unfolding n chargeRound.simps
    by (simp add: readCounter_def GetWorkflowRun_def bnd_def takeQ_calm seq_def unless_def ret_def)
  have land: "chargeRound ''r'' ''a'' (Writing 15 (budgetRun 1 [])) ?s = (Charged (1, 1, False), t)"
    by (simp add: writeCounter_def bnd_def ret_def updateQ_calm affected_def exhaustedAt_def t_def counted)
  have late: "chargeRound ''r'' ''b'' (Writing 15 (budgetRun 1 [])) t = (Ready 15, t)"
    by (simp add: writeCounter_def bnd_def ret_def updateQ_calm affected_def t_def)
  let ?start = "(map (\<lambda>c. (c, Ready maxBudgetAttempts)) [''a'', ''b''], ?s)"
  have c0: "charges ''r'' ?start ?start" by (rule charges_start)
  have c1: "charges ''r'' ?start ([(''a'', Writing 15 (budgetRun 1 [])), (''b'', Ready maxBudgetAttempts)], ?s)"
    using charges_round [OF c0 _ _ read, of 0 "''a''"] by simp
  have c2: "charges ''r'' ?start ([(''a'', Writing 15 (budgetRun 1 [])), (''b'', Writing 15 (budgetRun 1 []))], ?s)"
    using charges_round [OF c1 _ _ read, of 1 "''b''"] by simp
  have c3: "charges ''r'' ?start ([(''a'', Charged (1, 1, False)), (''b'', Writing 15 (budgetRun 1 []))], t)"
    using charges_round [OF c2 _ _ land, of 0] by simp
  have c4: "charges ''r'' ?start ([(''a'', Charged (1, 1, False)), (''b'', Ready 15)], t)"
    using charges_round [OF c3 _ _ late, of 1] by simp
  have ids: "distinct (map r_ID (d_runs (w_db ?s)))" by simp
  have start: "counterView ''r'' (w_db ?s) = Some (int (length []), [])" by (simp add: counterView_def)
  have once: "distinct ([] :: string list)" by simp
  from charges_exact [OF c4 ids start once] obtain counted where
    "counterView ''r'' (w_db t) = Some (int (length counted), counted) \<and> ''a'' \<in> set counted" by auto
  with c4 show ?thesis by (intro exI conjI) auto
qed

text \<open>
  A charge alone does what it says: with no failing statement, charging a child to a root run
  adds the child and one to the counter unless the child is counted already, and answers with the
  counter, the budget, and whether a positive budget is now exceeded.
\<close>

lemma IncrementFailureBudget_charges:
  assumes calm: "w_faults s = []" and ids: "distinct (map r_ID (d_runs (w_db s)))"
    and row: "List.find (\<lambda>r. r_ID r = i) (d_runs (w_db s)) = Some run" and parent: "r_ParentWorkflowRunID run = []"
  shows "\<exists>used counted t. IncrementFailureBudget i c s =
      (Inr (used, r_FailurePipelineBudget run,
         0 < r_FailurePipelineBudget run \<and> r_FailurePipelineBudget run < used), t) \<and>
    counterView i (w_db t) = Some (used, counted) \<and>
    (if c \<in> set (r_CountedChildRunIDs run)
     then t = s \<and> used = r_FailurePipelinesUsed run
     else used = r_FailurePipelinesUsed run + 1 \<and> counted = r_CountedChildRunIDs run @ [c])"
proof -
  have read: "readCounter i c s = (Inr (if c \<in> set (r_CountedChildRunIDs run) then Inl (counterState run) else Inr run), s)"
    using calm row parent by (simp add: readCounter_def GetWorkflowRun_def bnd_def takeQ_calm seq_def unless_def ret_def)
  have view: "counterView i (w_db s) = Some (r_FailurePipelinesUsed run, r_CountedChildRunIDs run)"
    using row by (simp add: counterView_def)
  obtain n where n: "maxBudgetAttempts = Suc n" by (simp add: maxBudgetAttempts_def)
  show ?thesis
  proof (cases "c \<in> set (r_CountedChildRunIDs run)")
    case True
    with read view show ?thesis
      by (auto simp: IncrementFailureBudget_def n bnd_def ret_def counterState_def exhaustedAt_def)
  next
    case False
    obtain x t where x: "writeCounter i c run s = (Inr x, t)"
      using calm by (simp add: writeCounter_def Let_def bnd_def updateQ_calm ret_def)
    with writeCounter_Inr [OF x ids view] False read show ?thesis
      by (auto simp: IncrementFailureBudget_def n bnd_def ret_def exhaustedAt_def)
  qed
qed

lemma IncrementFailureBudget_charges_example:
  "\<exists>t. IncrementFailureBudget ''r'' ''b'' (worldOf (budgetDb 1 [''a''])) = (Inr (2, 1, True), t)"
  using IncrementFailureBudget_charges [of "worldOf (budgetDb 1 [''a''])" "''r''" "budgetRun 1 [''a'']" "''b''"]
  by auto

text \<open>
  A save of a run read before a charge undoes the charge: every operation that writes a whole run
  row (a status change, a step, a cancellation) puts back the counter it read, so a charge that was
  answered in between is no longer counted.
\<close>

lemma saveRun_undoes_charge:
  assumes "GetWorkflowRun i s = (Inr run, s1)" and "IncrementFailureBudget i c s1 = (Inr state, s2)"
    and "saveRun (run\<lparr>r_Status := st\<rparr>) s2 = (Inr (), t)" and "List.find (\<lambda>r. r_ID r = i) (d_runs (w_db s2)) \<noteq> None"
  shows "counterView i (w_db t) = counterView i (w_db s)"
proof -
  note r = GetWorkflowRun_Inr [OF assms(1)]
  then have id: "r_ID run = i" by (auto dest: find_Some_in)
  from saveRun_Inr [OF assms(3)] have "d_runs (w_db t) =
      updWhere (\<lambda>r. r_ID r = i) (\<lambda>_. withUnderWay (run\<lparr>r_Status := st\<rparr>)) (d_runs (w_db s2))" using id by simp
  moreover have "List.find (\<lambda>r. r_ID r = i) (updWhere (\<lambda>r. r_ID r = i) (\<lambda>_. withUnderWay (run\<lparr>r_Status := st\<rparr>)) (d_runs (w_db s2))) =
      Some (withUnderWay (run\<lparr>r_Status := st\<rparr>))"
    using assms(4) id by (auto simp: find_updWhere dest: find_Some_in)
  ultimately show ?thesis using r by (simp add: counterView_def withUnderWay_def)
qed

lemma saveRun_undoes_charge_example:
  "\<exists>s2 t. IncrementFailureBudget ''r'' ''a'' (worldOf (budgetDb 1 [])) = (Inr (1, 1, False), s2) \<and>
     saveRun ((budgetRun 1 [])\<lparr>r_Status := RunPaused\<rparr>) s2 = (Inr (), t) \<and>
     counterView ''r'' (w_db t) = Some (0, [])"
proof -
  let ?s = "worldOf (budgetDb 1 [])"
  have get: "GetWorkflowRun ''r'' ?s = (Inr (budgetRun 1 []), ?s)" by (simp add: GetWorkflowRun_def takeQ_calm)
  obtain n where n: "maxBudgetAttempts = Suc n" by (simp add: maxBudgetAttempts_def)
  define s2 where "s2 = ?s\<lparr>w_db := (budgetDb 1 [])\<lparr>d_runs := [budgetRun 1 [''a'']]\<rparr>\<rparr>"
  have counted: "(budgetRun 1 [])\<lparr>r_FailurePipelinesUsed := 1, r_CountedChildRunIDs := [''a'']\<rparr> = budgetRun 1 [''a'']"
    by (simp add: budgetRun_def)
  have charge: "IncrementFailureBudget ''r'' ''a'' ?s = (Inr (1, 1, False), s2)"
    by (simp add: IncrementFailureBudget_def n readCounter_def GetWorkflowRun_def writeCounter_def bnd_def takeQ_calm seq_def
        unless_def ret_def updateQ_calm affected_def exhaustedAt_def s2_def counted)
  have "w_faults s2 = []" by (simp add: s2_def)
  then obtain t where save: "saveRun ((budgetRun 1 [])\<lparr>r_Status := RunPaused\<rparr>) s2 = (Inr (), t)"
    by (simp add: saveRun_def seq_def bnd_def updateQ_calm ret_def)
  from saveRun_undoes_charge [OF get charge save] charge save show ?thesis
    by (auto simp: s2_def counterView_def)
qed

text \<open>
  The budget of a run is set once: a set that succeeds found a root run without a budget and left
  it with the budget asked for as its own root; and once a budget is there, every further set is
  refused with nothing changed.
\<close>

lemma SetFailureBudget_once:
  assumes run: "SetFailureBudget i b s = (Inr run, t)"
  shows "\<exists>r. List.find (\<lambda>r. r_ID r = i) (d_runs (w_db s)) = Some r \<and> r_ParentWorkflowRunID r = [] \<and>
    r_FailurePipelineBudget r = 0 \<and> r_FailurePipelineBudget run = b \<and> r_RootWorkflowRunID run = i \<and>
    (b \<noteq> 0 \<and> w_faults t = [] \<longrightarrow> SetFailureBudget i b' t = (Inl ErrFailureBudgetAlreadySet, t))"
proof -
  from run obtain r s1 n s2 where get: "GetWorkflowRun i s = (Inr r, s1)"
    and parent: "r_ParentWorkflowRunID r = []" and zero: "r_FailurePipelineBudget r = 0"
    and upd: "updateQ runsT (\<lambda>r. r_ID r = i)
            (\<lambda>r. r\<lparr>r_FailurePipelineBudget := b, r_RootWorkflowRunID := i\<rparr>) s1 = (Inr n, s2)"
    and again: "GetWorkflowRun i s2 = (Inr run, t)"
    unfolding SetFailureBudget_def bnd_Inr seq_Inr unless_Inr by blast
  note r = GetWorkflowRun_Inr [OF get]
  have "List.find (\<lambda>r. r_ID r = i) (d_runs (w_db s2)) =
      Some (r\<lparr>r_FailurePipelineBudget := b, r_RootWorkflowRunID := i\<rparr>)"
    using updateQ_run [OF upd] r by (auto simp: find_updWhere dest: find_Some_in)
  with GetWorkflowRun_Inr [OF again] have out: "run = r\<lparr>r_FailurePipelineBudget := b, r_RootWorkflowRunID := i\<rparr>"
    "List.find (\<lambda>r. r_ID r = i) (d_runs (w_db t)) = Some run" by auto
  have "SetFailureBudget i b' t = (Inl ErrFailureBudgetAlreadySet, t)" if "b \<noteq> 0" "w_faults t = []"
    using that out parent
    by (simp add: SetFailureBudget_def GetWorkflowRun_def bnd_def takeQ_calm seq_def unless_def ret_def fail_def)
  with r parent zero out show ?thesis by auto
qed

lemma SetFailureBudget_once_example:
  "\<exists>run t. SetFailureBudget ''r'' 3 (worldOf (budgetDb 0 [])) = (Inr run, t) \<and>
     SetFailureBudget ''r'' 5 t = (Inl ErrFailureBudgetAlreadySet, t)"
proof -
  have "\<exists>run t. SetFailureBudget ''r'' 3 (worldOf (budgetDb 0 [])) = (Inr run, t) \<and> w_faults t = []"
    by (simp add: SetFailureBudget_def GetWorkflowRun_def bnd_def takeQ_calm seq_def unless_def ret_def updateQ_calm)
  then obtain run t where run: "SetFailureBudget ''r'' 3 (worldOf (budgetDb 0 [])) = (Inr run, t)" and "w_faults t = []" by blast
  with SetFailureBudget_once [OF run, of 5] show ?thesis by auto
qed

end
