(* ===== verification/Agents.thy ===== *)
theory Agents
  imports Store
begin

text \<open>
  \<open>agent.go\<close>: agents are rows keyed twice, by the id the store gives them and by the external
  \<open>agent_id\<close> slug, which is unique. An upsert merges into the row of the slug or inserts one; a read
  by either key tries the row id first.
\<close>

definition GetAgentByAgentID :: "string \<Rightarrow> agent tm" where
  "GetAgentByAgentID slug =
     (if slug = [] then fail ErrAgentNotFound
      else takeQ agentsT (\<lambda>a. ag_AgentID a = slug) ErrAgentNotFound)"

definition GetAgent :: "string \<Rightarrow> agent tm" where
  "GetAgent idOrSlug =
     bnd (attempt (takeQ agentsT (\<lambda>a. ag_ID a = idOrSlug) ErrAgentNotFound)) (\<lambda>r.
     case r of
       Inr a \<Rightarrow> ret a
     | Inl e \<Rightarrow> if e \<noteq> ErrAgentNotFound then fail e else GetAgentByAgentID idOrSlug)"

definition ListAgents :: "agent list tm" where
  "ListAgents = bnd (selectQ agentsT (\<lambda>_. True)) (\<lambda>rows. ret (take maxListPage rows))"

definition agentClash :: "agent \<Rightarrow> agent \<Rightarrow> bool" where
  "agentClash a a' \<longleftrightarrow> ag_ID a = ag_ID a' \<or> ag_AgentID a = ag_AgentID a'"

text \<open>What the merge branch writes: the slug and the row id stay.\<close>

definition mergedAgent :: "agent \<Rightarrow> agent \<Rightarrow> string \<Rightarrow> agent" where
  "mergedAgent existing agent now =
     existing\<lparr>ag_DisplayName := ag_DisplayName agent, ag_Capability := ag_Capability agent,
       ag_RoleName := ag_RoleName agent, ag_UpdatedAt := now\<rparr>"

definition UpsertAgent :: "agent \<Rightarrow> agent tm" where
  "UpsertAgent agent =
     (if ag_AgentID agent = [] then fail ErrInvalidTask
      else
        bnd nowStr (\<lambda>now.
        bnd (attempt (GetAgentByAgentID (ag_AgentID agent))) (\<lambda>found.
        case found of
          Inr existing \<Rightarrow>
            let row = mergedAgent existing agent now
            in seq (updateQ agentsT (\<lambda>a. ag_ID a = ag_ID existing) (\<lambda>_. row)) (ret row)
        | Inl e \<Rightarrow>
            if e = ErrAgentNotFound
            then bnd newSpecID (\<lambda>i.
                 let a = agent\<lparr>ag_ID := i, ag_CreatedAt := now, ag_UpdatedAt := now\<rparr>
                 in seq (insertQ agentsT agentClash a) (ret a))
            else fail e)))"

section \<open>Frames\<close>

lemma keeps_agent_reads [keeps_intros]:
  "keeps I (GetAgentByAgentID i)" "keeps I (GetAgent i)" "keeps I ListAgents"
  unfolding GetAgent_def GetAgentByAgentID_def ListAgents_def
  by (auto split: sum.split intro!: keeps_intros)

lemma steady_agent_ops [steady_intros]:
  "steady (GetAgentByAgentID i)" "steady (GetAgent i)" "steady ListAgents" "steady (UpsertAgent a)"
  unfolding GetAgent_def GetAgentByAgentID_def ListAgents_def UpsertAgent_def Let_def
  by (intro steady_intros)+

lemma silent_agent_ops [silent_intros]:
  "silent (GetAgentByAgentID i)" "silent (GetAgent i)" "silent ListAgents" "silent (UpsertAgent a)"
  unfolding GetAgent_def GetAgentByAgentID_def ListAgents_def UpsertAgent_def Let_def
  by (intro silent_intros)+

lemma UpsertAgent_frame [keeps_intros]: "ignores agentsT I \<Longrightarrow> keeps I (UpsertAgent a)"
  unfolding UpsertAgent_def Let_def by (intro keeps_intros)

section \<open>The agents of the tables\<close>

definition agentsUnique :: "db \<Rightarrow> bool" where
  "agentsUnique d \<longleftrightarrow> distinct (map ag_ID (d_agents d)) \<and> distinct (map ag_AgentID (d_agents d))"

definition findAgent :: "string \<Rightarrow> db \<Rightarrow> agent option" where
  "findAgent key d =
     (case List.find (\<lambda>a. ag_ID a = key) (d_agents d) of
        Some a \<Rightarrow> Some a
      | None \<Rightarrow> if key = [] then None else List.find (\<lambda>a. ag_AgentID a = key) (d_agents d))"

lemma GetAgentByAgentID_Inr: "GetAgentByAgentID i s = (Inr a, t) \<Longrightarrow>
    i \<noteq> [] \<and> List.find (\<lambda>a. ag_AgentID a = i) (d_agents (w_db s)) = Some a \<and> w_db t = w_db s"
  by (auto simp: GetAgentByAgentID_def succ split: if_splits)

lemma GetAgentByAgentID_NotFound: "GetAgentByAgentID i s = (Inl ErrAgentNotFound, t) \<Longrightarrow>
    (i = [] \<or> List.find (\<lambda>a. ag_AgentID a = i) (d_agents (w_db s)) = None) \<and> w_db t = w_db s"
  by (auto simp: GetAgentByAgentID_def fail_Inl dest!: statement_Inl(2) split: if_splits)

lemma GetAgent_Inr:
  assumes "GetAgent i s = (Inr a, t)"
  shows "findAgent i (w_db s) = Some a \<and> w_db t = w_db s"
proof -
  from assms obtain r s1 where r: "takeQ agentsT (\<lambda>a. ag_ID a = i) ErrAgentNotFound s = (r, s1)"
    and rest: "(case r of Inr a \<Rightarrow> ret a
      | Inl e \<Rightarrow> if e \<noteq> ErrAgentNotFound then fail e else GetAgentByAgentID i) s1 = (Inr a, t)"
    unfolding GetAgent_def bnd_Inr attempt_Inr by blast
  show ?thesis
  proof (cases r)
    case (Inl e)
    with rest have e: "e = ErrAgentNotFound" and get: "GetAgentByAgentID i s1 = (Inr a, t)"
      by (auto simp: fail_Inr split: if_splits)
    from statement_Inl(2) [OF r [unfolded Inl]] e
    have "List.find (\<lambda>a. ag_ID a = i) (d_agents (w_db s)) = None" "w_db s1 = w_db s" by auto
    with GetAgentByAgentID_Inr [OF get] show ?thesis by (simp add: findAgent_def)
  next
    case (Inr b)
    with r rest show ?thesis by (auto simp: findAgent_def succ)
  qed
qed

lemma GetAgent_quiet:
  assumes "quiet s"
  shows "GetAgent i s = (case findAgent i (w_db s) of None \<Rightarrow> Inl ErrAgentNotFound | Some a \<Rightarrow> Inr a, s)"
  using assms
  by (auto simp: GetAgent_def GetAgentByAgentID_def findAgent_def bnd_def attempt_def ret_def fail_def
      quiet_def takeQ_calm split: option.split)

text \<open>What an upsert does to the table: one row of the slug is merged, or one is added.\<close>

lemma UpsertAgent_rows:
  assumes run: "UpsertAgent a s = (Inr b, t)"
  shows "ag_AgentID b = ag_AgentID a \<and> ag_AgentID a \<noteq> [] \<and>
    ag_DisplayName b = ag_DisplayName a \<and> ag_Capability b = ag_Capability a \<and> ag_RoleName b = ag_RoleName a \<and>
    (case List.find (\<lambda>r. ag_AgentID r = ag_AgentID a) (d_agents (w_db s)) of
       Some r \<Rightarrow> ag_ID b = ag_ID r \<and> ag_CreatedAt b = ag_CreatedAt r \<and>
         w_db t = (w_db s)\<lparr>d_agents := updWhere (\<lambda>x. ag_ID x = ag_ID r) (\<lambda>_. b) (d_agents (w_db s))\<rparr>
     | None \<Rightarrow> (\<forall>r \<in> set (d_agents (w_db s)). \<not> agentClash b r) \<and>
         w_db t = (w_db s)\<lparr>d_agents := d_agents (w_db s) @ [b]\<rparr>)"
proof -
  from run have slug: "ag_AgentID a \<noteq> []" by (auto simp: UpsertAgent_def fail_Inr split: if_splits)
  with run obtain now s0 r s1 where now: "nowStr s = (Inr now, s0)"
    and r: "GetAgentByAgentID (ag_AgentID a) s0 = (r, s1)"
    and rest: "(case r of
          Inr existing \<Rightarrow>
            let row = mergedAgent existing a now
            in seq (updateQ agentsT (\<lambda>a. ag_ID a = ag_ID existing) (\<lambda>_. row)) (ret row)
        | Inl e \<Rightarrow>
            if e = ErrAgentNotFound
            then bnd newSpecID (\<lambda>i.
                 let a = a\<lparr>ag_ID := i, ag_CreatedAt := now, ag_UpdatedAt := now\<rparr>
                 in seq (insertQ agentsT agentClash a) (ret a))
            else fail e) s1 = (Inr b, t)"
    unfolding UpsertAgent_def by (auto simp: bnd_Inr attempt_Inr)
  have s0: "w_db s0 = w_db s" using nowStr_run [OF now] by simp
  show ?thesis
  proof (cases r)
    case (Inl e)
    with rest have e: "e = ErrAgentNotFound" by (auto simp: fail_Inr split: if_splits)
    from GetAgentByAgentID_NotFound [OF r [unfolded Inl e]] slug s0
    have none: "List.find (\<lambda>x. ag_AgentID x = ag_AgentID a) (d_agents (w_db s)) = None" "w_db s1 = w_db s" by auto
    from rest Inl e obtain i s2 where i: "newSpecID s1 = (Inr i, s2)"
      and b: "b = a\<lparr>ag_ID := i, ag_CreatedAt := now, ag_UpdatedAt := now\<rparr>"
      and ins: "insertQ agentsT agentClash b s2 = (Inr (), t)"
      by (auto simp: bnd_Inr seq_Inr ret_Inr Let_def)
    from i none have "w_db s2 = w_db s" by (auto simp: newSpecID_Inr)
    with insertQ_run [OF ins] none b slug show ?thesis by simp
  next
    case (Inr existing)
    from GetAgentByAgentID_Inr [OF r [unfolded Inr]] s0
    have some: "List.find (\<lambda>x. ag_AgentID x = ag_AgentID a) (d_agents (w_db s)) = Some existing" "w_db s1 = w_db s" by auto
    from rest [unfolded Inr sum.case Let_def seq_Inr ret_Inr] obtain n where
      upd: "updateQ agentsT (\<lambda>a. ag_ID a = ag_ID existing) (\<lambda>_. mergedAgent existing a now) s1 = (Inr n, t)"
      and b: "b = mergedAgent existing a now" by blast
    have "ag_AgentID existing = ag_AgentID a" using find_Some_in [OF some(1)] by simp
    moreover have "w_db t = (w_db s)\<lparr>d_agents := updWhere (\<lambda>x. ag_ID x = ag_ID existing) (\<lambda>_. b) (d_agents (w_db s))\<rparr>"
      using updateQ_run [OF upd] some(2) unfolding b by simp
    moreover have "ag_AgentID b = ag_AgentID existing" "ag_DisplayName b = ag_DisplayName a" "ag_Capability b = ag_Capability a"
      "ag_RoleName b = ag_RoleName a" "ag_ID b = ag_ID existing" "ag_CreatedAt b = ag_CreatedAt existing"
      unfolding b by (simp_all add: mergedAgent_def)
    ultimately show ?thesis using slug some(1) by (simp only: option.case) simp
  qed
qed

lemma agentsUnique_upsert:
  assumes "agentsUnique (w_db s)" and run: "UpsertAgent a s = (Inr b, t)"
  shows "agentsUnique (w_db t)"
proof (cases "List.find (\<lambda>r. ag_AgentID r = ag_AgentID a) (d_agents (w_db s))")
  case None
  with UpsertAgent_rows [OF run] assms(1) show ?thesis
    by (auto simp: agentsUnique_def agentClash_def)
next
  case (Some r)
  from find_Some_in [OF Some] have r: "r \<in> set (d_agents (w_db s))" "ag_AgentID r = ag_AgentID a" by auto
  from UpsertAgent_rows [OF run] Some have b: "ag_ID b = ag_ID r" "ag_AgentID b = ag_AgentID a"
    and t: "d_agents (w_db t) = updWhere (\<lambda>x. ag_ID x = ag_ID r) (\<lambda>_. b) (d_agents (w_db s))" by simp_all
  have ids: "map ag_ID (updWhere (\<lambda>x. ag_ID x = ag_ID r) (\<lambda>_. b) (d_agents (w_db s))) = map ag_ID (d_agents (w_db s))"
    using b by (auto simp: updWhere_def)
  have same: "ag_AgentID x = ag_AgentID b" if "x \<in> set (d_agents (w_db s))" "ag_ID x = ag_ID r" for x
    using that r b assms(1) distinct_key_eq [of ag_ID "d_agents (w_db s)" x r] by (simp add: agentsUnique_def)
  have slugs: "map ag_AgentID (updWhere (\<lambda>x. ag_ID x = ag_ID r) (\<lambda>_. b) (d_agents (w_db s))) = map ag_AgentID (d_agents (w_db s))"
    using same by (auto simp: updWhere_def)
  show ?thesis using assms(1) unfolding agentsUnique_def t ids slugs .
qed

section \<open>Properties\<close>

text \<open>
  An upsert that succeeds is read back by its slug, keeps both keys unique, and changes no other
  agent.
\<close>

lemma UpsertAgent_roundtrip:
  assumes run: "UpsertAgent a s = (Inr b, t)" and unique: "agentsUnique (w_db s)"
  shows "List.find (\<lambda>r. ag_AgentID r = ag_AgentID a) (d_agents (w_db t)) = Some b \<and> agentsUnique (w_db t) \<and>
    ag_DisplayName b = ag_DisplayName a \<and> ag_Capability b = ag_Capability a \<and> ag_RoleName b = ag_RoleName a \<and>
    (slug \<noteq> ag_AgentID a \<longrightarrow> List.find (\<lambda>r. ag_AgentID r = slug) (d_agents (w_db t)) =
       List.find (\<lambda>r. ag_AgentID r = slug) (d_agents (w_db s)))"
proof -
  note rows = UpsertAgent_rows [OF run]
  have found: "List.find (\<lambda>r. ag_AgentID r = ag_AgentID a) (d_agents (w_db t)) = Some b \<and>
    (slug \<noteq> ag_AgentID a \<longrightarrow> List.find (\<lambda>r. ag_AgentID r = slug) (d_agents (w_db t)) =
       List.find (\<lambda>r. ag_AgentID r = slug) (d_agents (w_db s)))"
  proof (cases "List.find (\<lambda>r. ag_AgentID r = ag_AgentID a) (d_agents (w_db s))")
    case None
    with rows show ?thesis by (simp add: find_append split: option.split)
  next
    case (Some r)
    from find_Some_in [OF Some] have r: "r \<in> set (d_agents (w_db s))" "ag_AgentID r = ag_AgentID a" by auto
    from rows Some have b: "ag_ID b = ag_ID r" "ag_AgentID b = ag_AgentID a"
      and t: "d_agents (w_db t) = updWhere (\<lambda>x. ag_ID x = ag_ID r) (\<lambda>_. b) (d_agents (w_db s))" by simp_all
    have only: "ag_ID x = ag_ID r \<longleftrightarrow> ag_AgentID x = ag_AgentID a" if "x \<in> set (d_agents (w_db s))" for x
      using that r unique distinct_key_eq [of ag_ID "d_agents (w_db s)" x r]
        distinct_key_eq [of ag_AgentID "d_agents (w_db s)" x r] by (auto simp: agentsUnique_def)
    have "List.find (\<lambda>x. ag_AgentID x = k) (updWhere (\<lambda>x. ag_ID x = ag_ID r) (\<lambda>_. b) rs) =
        (if k = ag_AgentID a then map_option (\<lambda>_. b) (List.find (\<lambda>x. ag_AgentID x = k) rs)
         else List.find (\<lambda>x. ag_AgentID x = k) rs)"
      if "set rs \<subseteq> set (d_agents (w_db s))" for k rs
      using that only b(2) by (induction rs) auto
    with Some t show ?thesis by simp
  qed
  with agentsUnique_upsert [OF unique run] rows show ?thesis by simp
qed

definition agentWith :: "string \<Rightarrow> string \<Rightarrow> agent" where
  "agentWith i slug = \<lparr>ag_ID = i, ag_AgentID = slug, ag_DisplayName = [], ag_Capability = [], ag_RoleName = ''dev'',
     ag_CreatedAt = [], ag_UpdatedAt = []\<rparr>"

lemma UpsertAgent_roundtrip_example:
  "\<exists>b t. UpsertAgent ((agentWith [] ''dev-1'')\<lparr>ag_DisplayName := ''Ada''\<rparr>)
       (worldOf (emptyDb\<lparr>d_agents := [agentWith ''a'' ''dev-1'']\<rparr>)) = (Inr b, t) \<and>
     List.find (\<lambda>r. ag_AgentID r = ''dev-1'') (d_agents (w_db t)) = Some b \<and> ag_DisplayName b = ''Ada''"
proof -
  let ?a = "(agentWith [] ''dev-1'')\<lparr>ag_DisplayName := ''Ada''\<rparr>"
  let ?s = "worldOf (emptyDb\<lparr>d_agents := [agentWith ''a'' ''dev-1'']\<rparr>)"
  have "succeeds (UpsertAgent ?a) ?s"
    by (simp add: succeeds_def UpsertAgent_def GetAgentByAgentID_def agentWith_def nowStr_def nowT_def bnd_def
        attempt_def ret_def seq_def takeQ_calm updateQ_calm Let_def)
  then obtain b t where run: "UpsertAgent ?a ?s = (Inr b, t)" using succeedsD by blast
  have "agentsUnique (w_db ?s)" by (simp add: agentsUnique_def)
  from UpsertAgent_roundtrip [OF run this] run show ?thesis by (auto simp: agentWith_def)
qed

end
