(* ===== verification/Assignment.thy ===== *)
theory Assignment
  imports Agents Task_Write
begin

text \<open>
  \<open>assignment.go\<close>, \<open>assignment_unblock.go\<close> and \<open>assignee.go\<close>: who holds a task. A hand-over closes the
  open stretch of the task, writes the holder's columns and opens a new stretch; assigning to an agent
  also anchors the task in a run, and blocks it while a dependency is not over. The unblocking of the
  dependents of a task that is over is the inverse.
\<close>

section \<open>Holders\<close>

definition assignmentClash :: "assignment \<Rightarrow> assignment \<Rightarrow> bool" where
  "assignmentClash a a' \<longleftrightarrow> as_ID a = as_ID a'"

definition openStretch :: "string \<Rightarrow> assignment \<Rightarrow> bool" where
  "openStretch taskID a \<longleftrightarrow> as_TaskID a = taskID \<and> as_UnassignedAt a = []"

definition closeCurrentAssignment :: "string \<Rightarrow> string \<Rightarrow> unit tm" where
  "closeCurrentAssignment taskID moment =
     seq (updateQ assignmentsT (openStretch taskID) (\<lambda>a. a\<lparr>as_UnassignedAt := moment\<rparr>)) (ret ())"

definition nowNano :: "string tm" where
  "nowNano = bnd nowT (\<lambda>t. ret (fmtRFC3339Nano t))"

definition handOver :: "string \<Rightarrow> assignee_kind \<Rightarrow> string \<Rightarrow> unit tm" where
  "handOver taskID kind assigneeID =
     bnd nowNano (\<lambda>now.
     seq (closeCurrentAssignment taskID now)
     (seq (updateQ tasksT (\<lambda>t. t_ID t = taskID) (\<lambda>t. t\<lparr>t_AssignedTo := assigneeID, t_AssigneeKind := kind\<rparr>))
     (bnd newSpecID (\<lambda>i.
      insertQ assignmentsT assignmentClash
        \<lparr>as_ID = i, as_TaskID = taskID, as_AssigneeKind = kind, as_AssigneeID = assigneeID,
         as_AssignedAt = now, as_UnassignedAt = []\<rparr>))))"

definition AssignTaskToHolder :: "string \<Rightarrow> assignee_kind \<Rightarrow> string \<Rightarrow> unit tm" where
  "AssignTaskToHolder taskID kind assigneeID =
     seq (unless (kind = AssigneeActor \<or> kind = AssigneeRole) ErrInvalidAssignee)
     (seq (unless (assigneeID \<noteq> []) ErrInvalidAssignee)
     (bnd (GetTask taskID) (\<lambda>task.
      seq (handOver taskID kind assigneeID)
          (publish (TaskHandedOver taskID kind assigneeID (t_Title task))))))"

definition UnassignTask :: "string \<Rightarrow> unit tm" where
  "UnassignTask taskID =
     seq (GetTask taskID)
     (bnd nowNano (\<lambda>now.
      seq (closeCurrentAssignment taskID now)
      (seq (updateQ tasksT (\<lambda>t. t_ID t = taskID) (\<lambda>t. t\<lparr>t_AssignedTo := [], t_AssigneeKind := AssigneeKindOther []\<rparr>))
      (ret ()))))"

definition stretchOrder :: "assignment \<Rightarrow> assignment \<Rightarrow> bool" where
  "stretchOrder a b \<longleftrightarrow> as_AssignedAt a < as_AssignedAt b \<or> as_AssignedAt a = as_AssignedAt b \<and> as_ID a < as_ID b"

definition ListTaskAssignments :: "string \<Rightarrow> assignment list tm" where
  "ListTaskAssignments taskID =
     seq (GetTask taskID)
     (bnd (selectQ assignmentsT (\<lambda>a. as_TaskID a = taskID)) (\<lambda>rows. ret (sortBy stretchOrder rows)))"

record holder_query =
  hq_ActorID :: string
  hq_RoleKindIDs :: "string list"

definition heldBy :: "holder_query \<Rightarrow> task \<Rightarrow> bool" where
  "heldBy query t \<longleftrightarrow>
     hq_ActorID query \<noteq> [] \<and> t_AssigneeKind t = AssigneeActor \<and> t_AssignedTo t = hq_ActorID query \<or>
     t_AssigneeKind t = AssigneeRole \<and> t_AssignedTo t \<in> set (hq_RoleKindIDs query)"

definition createdOrder :: "task \<Rightarrow> task \<Rightarrow> bool" where
  "createdOrder a b \<longleftrightarrow> t_CreatedAt a < t_CreatedAt b \<or> t_CreatedAt a = t_CreatedAt b \<and> t_ID a < t_ID b"

definition ListHeldTasks :: "holder_query \<Rightarrow> task list tm" where
  "ListHeldTasks query =
     (if hq_ActorID query = [] \<and> hq_RoleKindIDs query = [] then ret []
      else
        bnd (selectQ tasksT (\<lambda>t. \<not> t_Deleted t \<and> heldBy query t)) (\<lambda>rows.
        collect (take maxListPage (sortBy createdOrder rows)) (\<lambda>t.
          bnd (loadTagNames (t_ID t)) (\<lambda>tags. ret (Some (t\<lparr>t_Tags := tags\<rparr>))))))"

section \<open>Agents, runs and dependencies\<close>

text \<open>\<open>setTaskStatus\<close> writes the status columns, and lets go of a task that is not blocked.\<close>

definition withStatus :: "task_status \<Rightarrow> string \<Rightarrow> task \<Rightarrow> task" where
  "withStatus status now t =
     t\<lparr>t_Status := status, t_UpdatedAt := now, t_HeldBy := (if status \<noteq> TaskStatusBlocked then [] else t_HeldBy t)\<rparr>"

definition setTaskStatus :: "string \<Rightarrow> task_status \<Rightarrow> unit tm" where
  "setTaskStatus taskID status =
     bnd nowStr (\<lambda>now.
     bnd (updateQ tasksT (\<lambda>t. t_ID t = taskID) (withStatus status now)) (\<lambda>n.
     unless (n \<noteq> 0) ErrTaskNotFound))"

definition setTaskWorkflowRunID :: "string \<Rightarrow> string \<Rightarrow> unit tm" where
  "setTaskWorkflowRunID taskID runID =
     bnd nowStr (\<lambda>now.
     bnd (updateQ tasksT (\<lambda>t. t_ID t = taskID) (\<lambda>t. t\<lparr>t_WorkflowRunID := runID, t_UpdatedAt := now\<rparr>)) (\<lambda>n.
     unless (n \<noteq> 0) ErrTaskNotFound))"

definition findUnmetDependencies :: "string \<Rightarrow> string list tm" where
  "findUnmetDependencies taskID =
     bnd (TraverseRelationships taskID RelLabelDependsOn DirectionOutbound) (\<lambda>edges.
     collect edges (\<lambda>e.
       bnd (attempt (GetTask (rel_ToID e))) (\<lambda>r.
       ret (case r of
              Inl _ \<Rightarrow> Some (rel_ToID e)
            | Inr dep \<Rightarrow> if \<not> isTerminalStatus (t_Status dep) then Some (t_ID dep) else None))))"

text \<open>The chain-through rule: the run the assignment is announced under, or a mismatch.\<close>

definition chainRun :: "task \<Rightarrow> string \<Rightarrow> string \<Rightarrow> string tm" where
  "chainRun task taskID workflowRunID =
     (if workflowRunID = [] then ret (t_WorkflowRunID task)
      else if t_WorkflowRunID task = [] then
        seq (setTaskWorkflowRunID taskID workflowRunID)
        (seq (LinkTaskToRun workflowRunID taskID)
        (ret workflowRunID))
      else if t_WorkflowRunID task = workflowRunID then ret (t_WorkflowRunID task)
      else fail ErrWorkflowRunMismatch)"

definition dispatchTask :: "task \<Rightarrow> agent \<Rightarrow> string \<Rightarrow> string \<Rightarrow> string list \<Rightarrow> unit tm" where
  "dispatchTask task agent taskID runID unmet =
     (if unmet \<noteq> [] then
        whenM (CanTransitionTo (t_Status task) TaskStatusBlocked)
          (seq (setTaskStatus taskID TaskStatusBlocked)
               (publish (TaskStatusChanged taskID (t_Status task) TaskStatusBlocked runID)))
      else publish (TaskAssigned taskID (ag_ID agent) (ag_RoleName agent) (t_TaskName task) (t_Title task)
             (t_Description task) runID))"

definition AssignTask :: "string \<Rightarrow> string \<Rightarrow> string \<Rightarrow> unit tm" where
  "AssignTask taskID agentID workflowRunID =
     bnd (GetTask taskID) (\<lambda>task.
     bnd (GetAgent agentID) (\<lambda>agent.
     bnd (chainRun task taskID workflowRunID) (\<lambda>runID.
     seq (handOver taskID AssigneeAgent (ag_ID agent))
     (bnd (findUnmetDependencies taskID) (\<lambda>unmet.
      dispatchTask task agent taskID runID unmet)))))"

section \<open>Frames\<close>

lemma surely_nowNano [surely_intros]: "surely nowNano"
  unfolding nowNano_def by (intro surely_intros)

lemma nowNano_run: "nowNano s = (Inr x, t) \<Longrightarrow>
    x \<noteq> [] \<and> w_db t = w_db s \<and> w_published t = w_published s"
  by (auto simp: nowNano_def succ)

lemma keeps_nowNano [keeps_intros]: "keeps I nowNano"
  unfolding nowNano_def by (intro keeps_intros)

lemma steady_nowNano [steady_intros]: "steady nowNano"
  unfolding nowNano_def by (intro steady_intros)

lemma silent_nowNano [silent_intros]: "silent nowNano"
  unfolding nowNano_def by (intro silent_intros)

lemma fine_nowNano [fine_intros]: "fine nowNano"
  by (rule fine_surely [OF surely_nowNano steady_nowNano])

lemma keeps_findUnmetDependencies [keeps_intros]: "keeps I (findUnmetDependencies i)"
  unfolding findUnmetDependencies_def by (intro keeps_intros)

lemma steady_findUnmetDependencies [steady_intros]: "steady (findUnmetDependencies i)"
  unfolding findUnmetDependencies_def by (intro steady_intros)

lemma silent_findUnmetDependencies [silent_intros]: "silent (findUnmetDependencies i)"
  unfolding findUnmetDependencies_def by (intro silent_intros)

lemma fine_findUnmetDependencies [fine_intros]: "fine (findUnmetDependencies i)"
  unfolding findUnmetDependencies_def by (intro fine_intros steady_intros)

lemma steady_holders [steady_intros]:
  "steady (closeCurrentAssignment i moment)" "steady (handOver i k a)" "steady (setTaskStatus i st)"
  "steady (setTaskWorkflowRunID i r)"
  unfolding closeCurrentAssignment_def handOver_def setTaskStatus_def setTaskWorkflowRunID_def
  by (intro steady_intros)+

lemma silent_holders [silent_intros]:
  "silent (closeCurrentAssignment i moment)" "silent (handOver i k a)" "silent (setTaskStatus i st)"
  "silent (setTaskWorkflowRunID i r)"
  unfolding closeCurrentAssignment_def handOver_def setTaskStatus_def setTaskWorkflowRunID_def
  by (intro silent_intros)+

lemma steady_assignments [steady_intros]:
  "steady (AssignTask i a r)" "steady (AssignTaskToHolder i k a)" "steady (UnassignTask i)"
  unfolding AssignTask_def chainRun_def dispatchTask_def AssignTaskToHolder_def UnassignTask_def
  by (intro steady_intros)+

lemma withStatus_sel [simp]:
  "t_ID (withStatus st now t) = t_ID t" "t_Status (withStatus st now t) = st"
  "t_Deleted (withStatus st now t) = t_Deleted t" "t_AssignedTo (withStatus st now t) = t_AssignedTo t"
  "t_AssigneeKind (withStatus st now t) = t_AssigneeKind t" "t_WorkflowRunID (withStatus st now t) = t_WorkflowRunID t"
  "t_CompletedAt (withStatus st now t) = t_CompletedAt t"
  by (simp_all add: withStatus_def)

section \<open>The open stretch of a task\<close>

definition openStretches :: "string \<Rightarrow> db \<Rightarrow> assignment list" where
  "openStretches i d = filter (openStretch i) (d_assignments d)"

text \<open>A task is held by one holder at a time.\<close>

definition oneOpen :: "db \<Rightarrow> bool" where
  "oneOpen d \<longleftrightarrow> (\<forall>i. length (openStretches i d) \<le> 1)"

definition heldOnly :: "string \<Rightarrow> assignee_kind \<Rightarrow> string \<Rightarrow> db \<Rightarrow> bool" where
  "heldOnly i k a d \<longleftrightarrow>
     (\<forall>t \<in> set (d_tasks d). t_ID t = i \<longrightarrow> t_AssignedTo t = a \<and> t_AssigneeKind t = k) \<and>
     map (\<lambda>x. (as_AssigneeKind x, as_AssigneeID x)) (openStretches i d) = [(k, a)]"

lemma oneOpen_ignores [keeps_intros]:
  "ignores tasksT oneOpen" "ignores casesT oneOpen" "ignores runsT oneOpen" "ignores todosT oneOpen"
  "ignores sequencesT oneOpen" "ignores tagsT oneOpen" "ignores taggingsT oneOpen" "ignores agentsT oneOpen"
  "ignores caseTasksT oneOpen" "ignores caseVotesT oneOpen"
  by (simp_all add: ignores_def oneOpen_def openStretches_def)

lemma closed_none: "now \<noteq> [] \<Longrightarrow>
    filter (openStretch i) (updWhere (openStretch j) (\<lambda>a. a\<lparr>as_UnassignedAt := now\<rparr>) as) =
    (if i = j then [] else filter (openStretch i) as)"
  by (induction as) (auto simp: openStretch_def)

lemma closeCurrentAssignment_Inr:
  "closeCurrentAssignment i now s = (Inr u, t) \<Longrightarrow>
   w_db t = (w_db s)\<lparr>d_assignments := updWhere (openStretch i) (\<lambda>a. a\<lparr>as_UnassignedAt := now\<rparr>) (d_assignments (w_db s))\<rparr>"
  by (auto simp: closeCurrentAssignment_def succ)

lemma closeCurrentAssignment_Inl: "closeCurrentAssignment i now s = (Inl e, t) \<Longrightarrow> w_db t = w_db s"
  by (auto simp: closeCurrentAssignment_def seq_Inl ret_Inl dest!: statement_Inl(3))

lemma oneOpen_close:
  assumes "oneOpen d" and "now \<noteq> []"
  shows "oneOpen (d\<lparr>d_assignments := updWhere (openStretch i) (\<lambda>a. a\<lparr>as_UnassignedAt := now\<rparr>) (d_assignments d)\<rparr>)"
  using assms by (simp add: oneOpen_def openStretches_def closed_none)

lemma handOver_Inr:
  assumes "handOver i k a s = (Inr u, t)"
  shows "\<exists>now j. now \<noteq> [] \<and> w_db t = (w_db s)
    \<lparr>d_tasks := updWhere (\<lambda>t. t_ID t = i) (\<lambda>t. t\<lparr>t_AssignedTo := a, t_AssigneeKind := k\<rparr>) (d_tasks (w_db s)),
     d_assignments := updWhere (openStretch i) (\<lambda>a. a\<lparr>as_UnassignedAt := now\<rparr>) (d_assignments (w_db s)) @
       [\<lparr>as_ID = j, as_TaskID = i, as_AssigneeKind = k, as_AssigneeID = a, as_AssignedAt = now, as_UnassignedAt = []\<rparr>]\<rparr>"
proof -
  from assms obtain now s0 s1 n s2 j s3 where now: "nowNano s = (Inr now, s0)"
    and close: "closeCurrentAssignment i now s0 = (Inr (), s1)"
    and upd: "updateQ tasksT (\<lambda>t. t_ID t = i) (\<lambda>t. t\<lparr>t_AssignedTo := a, t_AssigneeKind := k\<rparr>) s1 = (Inr n, s2)"
    and j: "newSpecID s2 = (Inr j, s3)"
    and ins: "insertQ assignmentsT assignmentClash
        \<lparr>as_ID = j, as_TaskID = i, as_AssigneeKind = k, as_AssigneeID = a, as_AssignedAt = now, as_UnassignedAt = []\<rparr> s3 = (Inr (), t)"
    unfolding handOver_def bnd_Inr seq_Inr by auto
  from j have "w_db s3 = w_db s2" by (auto simp: newSpecID_Inr)
  with nowNano_run [OF now] closeCurrentAssignment_Inr [OF close] updateQ_run [OF upd] insertQ_run [OF ins]
  show ?thesis by (intro exI [of _ now] exI [of _ j]) simp
qed

text \<open>Whatever statement of a hand-over fails, at most one stretch stays open.\<close>

lemma handOver_oneOpen [keeps_intros]: "keeps oneOpen (handOver i k a)"
proof (rule keepsI)
  fix s :: world
  assume one: "oneOpen (w_db s)"
  obtain now s0 where now: "nowNano s = (Inr now, s0)" using surelyD [OF surely_nowNano] by blast
  obtain r s1 where r: "closeCurrentAssignment i now s0 = (r, s1)" by fastforce
  define rest where "rest = seq (updateQ tasksT (\<lambda>t. t_ID t = i) (\<lambda>t. t\<lparr>t_AssignedTo := a, t_AssigneeKind := k\<rparr>))
     (bnd newSpecID (\<lambda>j.
      insertQ assignmentsT assignmentClash
        \<lparr>as_ID = j, as_TaskID = i, as_AssigneeKind = k, as_AssigneeID = a, as_AssignedAt = now, as_UnassignedAt = []\<rparr>))"
  have run: "handOver i k a s = (case r of Inl e \<Rightarrow> (Inl e, s1) | Inr _ \<Rightarrow> rest s1)"
    using now r by (simp add: handOver_def rest_def bnd_def seq_def split: sum.split)
  have db0: "w_db s0 = w_db s" "now \<noteq> []" using nowNano_run [OF now] by simp_all
  let ?closed = "\<lambda>d. openStretches i d = [] \<and> oneOpen d"
  show "oneOpen (w_db (snd (handOver i k a s)))"
  proof (cases r)
    case (Inl e)
    with run one db0 closeCurrentAssignment_Inl [of i now s0 e s1] r show ?thesis by simp
  next
    case (Inr u)
    have closed: "?closed (w_db s1)"
      using closeCurrentAssignment_Inr [OF r [unfolded Inr]] oneOpen_close [OF one db0(2)] db0
      by (simp add: openStretches_def closed_none)
    obtain x s2 where x: "updateQ tasksT (\<lambda>t. t_ID t = i) (\<lambda>t. t\<lparr>t_AssignedTo := a, t_AssigneeKind := k\<rparr>) s1 = (x, s2)"
      by fastforce
    have "keeps ?closed (updateQ tasksT (\<lambda>t. t_ID t = i) (\<lambda>t. t\<lparr>t_AssignedTo := a, t_AssigneeKind := k\<rparr>))"
      by (intro keeps_intros) (simp add: ignores_def openStretches_def oneOpen_def)
    from keepsD [OF this closed] x have closed2: "?closed (w_db s2)" by simp
    let ?row = "\<lambda>j. \<lparr>as_ID = j, as_TaskID = i, as_AssigneeKind = k, as_AssigneeID = a, as_AssignedAt = now, as_UnassignedAt = []\<rparr>"
    obtain j s3 where j: "newSpecID s2 = (Inr j, s3)" by (simp add: newSpecID_def)
    then have closed3: "?closed (w_db s3)" using closed2 by (auto simp: newSpecID_Inr)
    obtain y t where y: "insertQ assignmentsT assignmentClash (?row j) s3 = (y, t)" by fastforce
    have "oneOpen (w_db t)"
    proof (cases y)
      case (Inl e)
      with y statement_Inl(5) [of assignmentsT assignmentClash "?row j" s3 e t] closed3 show ?thesis by simp
    next
      case (Inr v)
      from insertQ_run [OF y [unfolded Inr]]
      have "d_assignments (w_db t) = d_assignments (w_db s3) @ [?row j]" by simp
      with closed3 show ?thesis by (auto simp: oneOpen_def openStretches_def openStretch_def)
    qed
    moreover have "handOver i k a s = (case x of Inl e \<Rightarrow> (Inl e, s2) | Inr _ \<Rightarrow> (y, t))"
      using run Inr x j y by (simp add: rest_def seq_def bnd_def split: sum.split)
    ultimately show ?thesis using closed2 by (cases x) simp_all
  qed
qed

lemma closeCurrentAssignment_oneOpen: "now \<noteq> [] \<Longrightarrow> keeps oneOpen (closeCurrentAssignment i now)"
  unfolding closeCurrentAssignment_def
  by (intro keeps_seq keeps_ret keeps_updateQ) (simp add: oneOpen_def openStretches_def closed_none)

lemma oneOpen_writeFK: "oneOpen d \<Longrightarrow> oneOpen (writeFK c j v d)"
  by (cases c) (auto simp: oneOpen_def openStretches_def writeCol_def)

section \<open>Dependencies that are not over\<close>

text \<open>A dependency is met when its task is live and over; a deleted one is never met.\<close>

definition unmetDeps :: "string \<Rightarrow> db \<Rightarrow> string set" where
  "unmetDeps i d = {j. (i, j) \<in> relEdges RelLabelDependsOn d \<and>
     (case List.find (liveTask j) (d_tasks d) of None \<Rightarrow> True | Some row \<Rightarrow> \<not> isTerminalStatus (t_Status row))}"

text \<open>What the dependencies look at.\<close>

definition statusView :: "db \<Rightarrow> (string \<times> task_status \<times> bool) list" where
  "statusView d = map (\<lambda>t. (t_ID t, t_Status t, t_Deleted t)) (d_tasks d)"

lemma find_live_view:
  "map_option t_Status (List.find (liveTask j) ts) =
   map_option (fst \<circ> snd) (List.find (\<lambda>(i, st, del). i = j \<and> \<not> del) (map (\<lambda>t. (t_ID t, t_Status t, t_Deleted t)) ts))"
  by (induction ts) (auto simp: liveTask_def)

lemma unmetDeps_status:
  "unmetDeps i d = {j. (i, j) \<in> set (joinPairs JDependency d) \<and>
     (case map_option t_Status (List.find (liveTask j) (d_tasks d)) of None \<Rightarrow> True | Some st \<Rightarrow> \<not> isTerminalStatus st)}"
  by (auto simp: unmetDeps_def relEdges_def split: option.splits)

lemma unmetDeps_cong:
  assumes "d_dependencies d = d_dependencies d'" and "statusView d = statusView d'"
  shows "unmetDeps i d = unmetDeps i d'"
  using assms by (simp add: unmetDeps_status find_live_view statusView_def)

lemma dependsOn_edges:
  assumes "TraverseRelationships i RelLabelDependsOn DirectionOutbound s = (Inr es, t)"
  shows "w_db t = w_db s \<and> rel_ToID ` set es = {j. (i, j) \<in> relEdges RelLabelDependsOn (w_db s)}"
  using assms by (auto simp: TraverseRelationships_def traverseJoin_def relEdges_def succ edgeOf_def image_iff) blast+

text \<open>The answer of one edge: reading the target may fail, and then the target counts as unmet.\<close>

definition unmetEdge :: "relationship \<Rightarrow> string option tm" where
  "unmetEdge e =
     bnd (attempt (GetTask (rel_ToID e))) (\<lambda>r.
       ret (case r of
              Inl _ \<Rightarrow> Some (rel_ToID e)
            | Inr dep \<Rightarrow> if \<not> isTerminalStatus (t_Status dep) then Some (t_ID dep) else None))"

lemma unmetEdge_Inr:
  assumes "unmetEdge e s = (Inr y, t)" and "w_db s = d"
  shows "w_db t = d \<and> (y = None \<longrightarrow> (\<exists>row. List.find (liveTask (rel_ToID e)) (d_tasks d) = Some row \<and> isTerminalStatus (t_Status row))) \<and>
    (y \<noteq> None \<longrightarrow> y = Some (rel_ToID e)) \<and>
    (quiet s \<longrightarrow> quiet t \<and> (y \<noteq> None \<longrightarrow>
       (case List.find (liveTask (rel_ToID e)) (d_tasks d) of None \<Rightarrow> True | Some row \<Rightarrow> \<not> isTerminalStatus (t_Status row))))"
proof -
  from assms(1) obtain r where r: "GetTask (rel_ToID e) s = (r, t)"
    and y: "y = (case r of
              Inl _ \<Rightarrow> Some (rel_ToID e)
            | Inr dep \<Rightarrow> if \<not> isTerminalStatus (t_Status dep) then Some (t_ID dep) else None)"
    unfolding unmetEdge_def bnd_Inr attempt_Inr ret_Inr by auto
  have q: "quiet s \<longrightarrow> quiet t" using quiet_steady [OF steady_GetTask r] by simp
  show ?thesis
  proof (cases r)
    case (Inl err)
    have "List.find (liveTask (rel_ToID e)) (d_tasks d) = None" if "quiet s"
      using GetTask_quiet [OF that r [unfolded Inl]] GetTask_NotFound [of "rel_ToID e" s t] r Inl assms(2) by simp
    with r y Inl q assms(2) keeps_reads [OF keeps_GetTask r] show ?thesis by simp
  next
    case (Inr dep)
    from GetTask_Inr [OF r [unfolded Inr]] assms(2) obtain row where
      row: "List.find (liveTask (rel_ToID e)) (d_tasks d) = Some row" "sameRow row dep" "w_db t = d" by auto
    from find_Some_in [OF row(1)] have "t_ID row = rel_ToID e" by (simp add: liveTask_def)
    with row y Inr q sameRow_fields [OF row(2)] show ?thesis by auto
  qed
qed

lemma findUnmetDependencies_Inr:
  assumes run: "findUnmetDependencies i s = (Inr js, t)"
  shows "w_db t = w_db s \<and> unmetDeps i (w_db s) \<subseteq> set js \<and> (quiet s \<longrightarrow> set js = unmetDeps i (w_db s))"
proof -
  let ?d = "w_db s"
  let ?unmet = "\<lambda>j. case List.find (liveTask j) (d_tasks ?d) of None \<Rightarrow> True | Some row \<Rightarrow> \<not> isTerminalStatus (t_Status row)"
  from run obtain es s1 where es: "TraverseRelationships i RelLabelDependsOn DirectionOutbound s = (Inr es, s1)"
    and all: "collect es unmetEdge s1 = (Inr js, t)"
    unfolding findUnmetDependencies_def bnd_Inr unmetEdge_def by blast
  have each: "w_db t = ?d \<and> {j \<in> rel_ToID ` set es. ?unmet j} \<subseteq> set js \<and>
      (quiet s1 \<longrightarrow> set js = {j \<in> rel_ToID ` set es. ?unmet j})"
    if "collect es unmetEdge s1 = (Inr js, t)" "w_db s1 = ?d" for es s1 js
    using that
  proof (induction es arbitrary: s1 js)
    case (Cons e es)
    then obtain y s2 js' where y: "unmetEdge e s1 = (Inr y, s2)" and rest: "collect es unmetEdge s2 = (Inr js', t)"
      and js: "js = (case y of None \<Rightarrow> js' | Some v \<Rightarrow> v # js')" by (auto simp: succ)
    note y' = unmetEdge_Inr [OF y Cons.prems(2)]
    then have "w_db s2 = ?d" by simp
    from Cons.IH [OF rest this] y' show ?case
      by (cases y) (auto simp: js)
  qed (simp add: succ)
  from dependsOn_edges [OF es] have s1: "w_db s1 = ?d" and
    ids: "rel_ToID ` set es = {j. (i, j) \<in> relEdges RelLabelDependsOn ?d}" by auto
  have "steady (TraverseRelationships i RelLabelDependsOn DirectionOutbound)"
    using fine_TraverseRelationships by (simp add: fine_def)
  from quiet_steady [OF this es] have q: "quiet s \<longrightarrow> quiet s1" by simp
  have "unmetDeps i ?d = {j \<in> rel_ToID ` set es. ?unmet j}" using ids by (auto simp: unmetDeps_def)
  with each [OF all s1] q show ?thesis by simp
qed

section \<open>What an assignment does\<close>

text \<open>What the anchoring in a run, the hand-over and the status change each leave alone.\<close>

lemma keeps_chainRun:
  assumes "\<And>now. keeps I (updateQ tasksT (\<lambda>t. t_ID t = i) (\<lambda>t. t\<lparr>t_WorkflowRunID := r, t_UpdatedAt := now\<rparr>))"
    and "\<And>j v d. I d \<Longrightarrow> I (writeFK TaskWorkflowRunID j v d)"
  shows "keeps I (chainRun task i r)"
  unfolding chainRun_def setTaskWorkflowRunID_def by (intro keeps_intros keeps_LinkTaskToRun assms)

lemma chainRun_Inr:
  "chainRun task i r s = (Inr run, t) \<Longrightarrow> (r \<noteq> [] \<longrightarrow> t_WorkflowRunID task \<in> {[], r}) \<and>
   run = (if r = [] then t_WorkflowRunID task else r)"
  by (auto simp: chainRun_def succ split: if_splits)

text \<open>Everything an assignment may not touch: dependencies, and every row but the columns it writes.\<close>

definition otherTasks :: "string \<Rightarrow> db \<Rightarrow> task list" where
  "otherTasks i d = filter (\<lambda>t. t_ID t \<noteq> i) (d_tasks d)"

lemma filter_other_updWhere:
  "(\<And>t. t_ID (f t) = t_ID t) \<Longrightarrow>
   filter (\<lambda>t. t_ID t \<noteq> i) (updWhere (\<lambda>t. t_ID t = i) f ts) = filter (\<lambda>t. t_ID t \<noteq> i) ts"
  by (induction ts) auto

lemma keeps_other_update:
  "(\<And>t. t_ID (f t) = t_ID t) \<Longrightarrow>
   keeps (\<lambda>d. d_dependencies d = x \<and> otherTasks i d = y) (updateQ tasksT (\<lambda>t. t_ID t = i) f)"
  by (rule keeps_updateQ) (simp add: otherTasks_def filter_other_updWhere)

lemma keeps_status_update:
  "(\<And>t. t_ID (f t) = t_ID t \<and> t_Status (f t) = t_Status t \<and> t_Deleted (f t) = t_Deleted t) \<Longrightarrow>
   keeps (\<lambda>d. d_dependencies d = x \<and> statusView d = y) (updateQ tasksT P f)"
  by (rule keeps_updateQ) (simp add: statusView_def map_updWhere)

lemma statusView_writeFK: "statusView (writeFK c j v d) = statusView d"
  by (cases c) (simp_all add: statusView_def writeCol_def map_updWhere)

lemma d_dependencies_writeFK: "d_dependencies (writeFK c j v d) = d_dependencies d"
  by (cases c) (simp_all add: writeCol_def)

text \<open>Linking a run touches the task's own row only.\<close>

lemma keeps_link_other:
  "keeps (\<lambda>d. d_dependencies d = x \<and> otherTasks i d = y) (LinkTaskToRun r i)"
proof -
  have "keeps (\<lambda>d. d_dependencies d = x \<and> otherTasks i d = y) (CreateRelationship (relOf RelLabelStartedTask r i))"
    unfolding CreateRelationship_def createFK_def relOf_def
    by (auto intro!: keeps_intros keeps_sql simp: writeCol_def otherTasks_def filter_other_updWhere)
  then show ?thesis unfolding LinkTaskToRun_def by (intro keeps_intros)
qed

lemma keeps_assign_other:
  "keeps (\<lambda>d. d_dependencies d = x \<and> otherTasks i d = y) (chainRun task i r)"
  "keeps (\<lambda>d. d_dependencies d = x \<and> otherTasks i d = y) (handOver i k a)"
  "keeps (\<lambda>d. d_dependencies d = x \<and> otherTasks i d = y) (setTaskStatus i st)"
  unfolding chainRun_def setTaskWorkflowRunID_def handOver_def closeCurrentAssignment_def setTaskStatus_def
  by (intro keeps_bnd keeps_seq keeps_if keeps_ret keeps_fail keeps_unless keeps_nowStr keeps_nowNano keeps_newSpecID
      keeps_link_other keeps_other_update keeps_ignored_update [of assignmentsT] keeps_ignored_insert [of assignmentsT];
      simp add: ignores_def otherTasks_def)+

lemma keeps_assign_status:
  "keeps (\<lambda>d. d_dependencies d = x \<and> statusView d = y) (chainRun task i r)"
  "keeps (\<lambda>d. d_dependencies d = x \<and> statusView d = y) (handOver i k a)"
proof -
  show "keeps (\<lambda>d. d_dependencies d = x \<and> statusView d = y) (chainRun task i r)"
    by (intro keeps_chainRun keeps_status_update) (simp_all add: statusView_writeFK d_dependencies_writeFK del: writeFK.simps)
  show "keeps (\<lambda>d. d_dependencies d = x \<and> statusView d = y) (handOver i k a)"
    unfolding handOver_def closeCurrentAssignment_def
    by (intro keeps_bnd keeps_seq keeps_ret keeps_nowNano keeps_newSpecID
      keeps_status_update keeps_ignored_update [of assignmentsT] keeps_ignored_insert [of assignmentsT];
      simp add: ignores_def statusView_def)
qed

text \<open>Whether an event announces the task as assigned.\<close>

definition announces :: "string \<Rightarrow> event \<Rightarrow> bool" where
  "announces i e = (case e of TaskAssigned j _ _ _ _ _ _ \<Rightarrow> j = i | _ \<Rightarrow> False)"

definition announced :: "string \<Rightarrow> event list \<Rightarrow> bool" where
  "announced i evs = list_ex (announces i) evs"

lemma announces_simps [simp]:
  "announces i (TaskAssigned j a r c ti de w) = (j = i)" "\<not> announces i (TaskStatusChanged j st st' w)"
  "\<not> announces i (RelationshipCreated a b l)"
  by (simp_all add: announces_def)

lemma announced_append [simp]: "announced i (evs @ evs') \<longleftrightarrow> announced i evs \<or> announced i evs'"
  by (simp add: announced_def)

lemma announced_simps [simp]: "\<not> announced i []" "announced i (e # evs) \<longleftrightarrow> announces i e \<or> announced i evs"
  by (simp_all add: announced_def)

lemma announced_none: "list_all (\<lambda>e. \<not> announces i e) evs \<Longrightarrow> \<not> announced i evs"
  by (simp add: announced_def list_all_iff list_ex_iff)

lemma chainRun_events: "addsOnly (\<lambda>e. \<not> announces i e) (chainRun task i r)"
proof -
  have check: "silent (checkOthers Ts want j e)" for Ts want j e
    by (induction Ts) (simp_all add: rowExists_def silent_intros)
  have created: "addsOnly (\<lambda>e. \<not> announces i e) (createdEdge rel now)" for rel now
    unfolding createdEdge_def by (intro addsOnly_seq addsOnly_publish addsOnly_silent silent_intros) simp
  have "addsOnly (\<lambda>e. \<not> announces i e) (CreateRelationship (relOf RelLabelStartedTask r i))"
  proof -
    have endpoint: "silent (checkEndpoint j T e)" for j T e
      unfolding checkEndpoint_def rowExists_def by (intro silent_intros check)
    have fail: "addsOnly (\<lambda>e. \<not> announces i e) (fail e :: relationship tm)" for e
      by (intro addsOnly_silent silent_intros)
    have "addsOnly (\<lambda>e. \<not> announces i e) (createFK rel c oi oe T ti te)" for rel c oi oe T ti te
      unfolding createFK_def
      by (intro addsOnly_bnd addsOnly_seq addsOnly_if created addsOnly_silent [OF endpoint]
          addsOnly_silent [OF silent_sql] addsOnly_silent [OF silent_nowStr])
        (simp add: existingEdge_def addsOnly_silent silent_intros)
    with fail show ?thesis by (simp add: CreateRelationship_def relOf_def)
  qed
  then show ?thesis
    unfolding chainRun_def LinkTaskToRun_def
    by (intro addsOnly_if addsOnly_seq) (simp_all add: addsOnly_silent silent_intros)
qed

text \<open>The hand-over leaves the new holder as the only one.\<close>

lemma handOver_heldOnly:
  assumes "handOver i k a s = (Inr u, t)"
  shows "heldOnly i k a (w_db t)"
proof -
  from handOver_Inr [OF assms] obtain now j where now: "now \<noteq> []" and d: "w_db t = (w_db s)
    \<lparr>d_tasks := updWhere (\<lambda>t. t_ID t = i) (\<lambda>t. t\<lparr>t_AssignedTo := a, t_AssigneeKind := k\<rparr>) (d_tasks (w_db s)),
     d_assignments := updWhere (openStretch i) (\<lambda>a. a\<lparr>as_UnassignedAt := now\<rparr>) (d_assignments (w_db s)) @
       [\<lparr>as_ID = j, as_TaskID = i, as_AssigneeKind = k, as_AssigneeID = a, as_AssignedAt = now, as_UnassignedAt = []\<rparr>]\<rparr>"
    by blast
  have "map (\<lambda>x. (as_AssigneeKind x, as_AssigneeID x)) (openStretches i (w_db t)) = [(k, a)]"
    using now by (simp add: d openStretches_def closed_none) (simp add: openStretch_def)
  moreover have "t_AssignedTo x = a \<and> t_AssigneeKind x = k" if "x \<in> set (d_tasks (w_db t))" "t_ID x = i" for x
  proof -
    from that(1) consider y where "x = y\<lparr>t_AssignedTo := a, t_AssigneeKind := k\<rparr>" | "t_ID x \<noteq> i"
      unfolding d by (simp add: set_updWhere) blast
    then show ?thesis using that(2) by cases simp_all
  qed
  ultimately show ?thesis by (simp add: heldOnly_def)
qed

lemma heldOnly_status:
  assumes "heldOnly i k a d"
  shows "heldOnly i k a (d\<lparr>d_tasks := updWhere P (withStatus st now) (d_tasks d)\<rparr>)"
proof -
  have "t_AssignedTo x = a \<and> t_AssigneeKind x = k"
    if x: "x \<in> set (updWhere P (withStatus st now) (d_tasks d))" and i: "t_ID x = i" for x
  proof -
    from x obtain y where y: "y \<in> set (d_tasks d)" and eq: "x = (if P y then withStatus st now y else y)"
      unfolding set_updWhere by blast
    from i have "t_ID y = i" unfolding eq by (simp split: if_splits)
    with y assms show ?thesis unfolding eq by (simp add: heldOnly_def)
  qed
  with assms show ?thesis by (simp add: heldOnly_def openStretches_def)
qed

lemma setTaskStatus_Inr:
  assumes "setTaskStatus i st s = (Inr u, t)"
  shows "\<exists>now. w_db t = (w_db s)\<lparr>d_tasks := updWhere (\<lambda>t. t_ID t = i) (withStatus st now) (d_tasks (w_db s))\<rparr>"
proof -
  from assms obtain now s0 n where now: "nowStr s = (Inr now, s0)"
    and upd: "updateQ tasksT (\<lambda>t. t_ID t = i) (withStatus st now) s0 = (Inr n, t)"
    unfolding setTaskStatus_def bnd_Inr unless_Inr by blast
  from nowStr_run [OF now] updateQ_run [OF upd] show ?thesis by (intro exI [of _ now]) simp
qed

lemma dispatchTask_Inr:
  assumes run: "dispatchTask task agent i run unmet s = (Inr (), t)"
  shows "\<exists>evs. w_published t = w_published s @ evs \<and>
    (if unmet = [] then w_db t = w_db s \<and> (\<not> w_publisherNil s \<longrightarrow> announced i evs)
     else \<not> announced i evs \<and>
       (if CanTransitionTo (t_Status task) TaskStatusBlocked
        then \<exists>now. w_db t = (w_db s)\<lparr>d_tasks := updWhere (\<lambda>t. t_ID t = i) (withStatus TaskStatusBlocked now) (d_tasks (w_db s))\<rparr>
        else w_db t = w_db s))"
proof (cases "unmet = []")
  case True
  with run show ?thesis by (auto simp: dispatchTask_def publish_Inr announced_def)
next
  case False
  show ?thesis
  proof (cases "CanTransitionTo (t_Status task) TaskStatusBlocked")
    case True
    with False run obtain s1 where set: "setTaskStatus i TaskStatusBlocked s = (Inr (), s1)"
      and pub: "publish (TaskStatusChanged i (t_Status task) TaskStatusBlocked run) s1 = (Inr (), t)"
      unfolding dispatchTask_def by (auto simp: whenM_Inr seq_Inr)
    from pub have "w_db t = w_db s1" and "\<exists>evs. w_published t = w_published s1 @ evs \<and> \<not> announced i evs"
      by (auto simp: publish_Inr)
    moreover have "w_published s1 = w_published s" by (rule silentD [OF silent_holders(3) set])
    ultimately show ?thesis using setTaskStatus_Inr [OF set] False True by auto
  next
    case False
    with \<open>unmet \<noteq> []\<close> run show ?thesis by (auto simp: dispatchTask_def whenM_Inr)
  qed
qed

lemma otherTasks_status: "otherTasks i (d\<lparr>d_tasks := updWhere (\<lambda>t. t_ID t = i) (withStatus st now) ts\<rparr>) =
    otherTasks i (d\<lparr>d_tasks := ts\<rparr>)"
  by (simp add: otherTasks_def filter_other_updWhere)

text \<open>In a quiet world a read of a live task leaves the world as it was.\<close>

lemma GetTask_quiet_run:
  assumes "quiet s" and "List.find (liveTask i) (d_tasks (w_db s)) = Some row"
  shows "\<exists>u. GetTask i s = (Inr u, s) \<and> sameRow row u"
proof -
  from assms(1) obtain states where states: "StoredTaskStates (w_setting s) = Inr states" by (auto simp: quiet_def)
  have "\<exists>tags. loadTagNames (t_ID row) s = (Inr tags, s)"
    using assms(1) by (simp add: loadTagNames_def bnd_def attempt_def ret_def quiet_def selectQ_calm)
  then obtain tags where "loadTagNames (t_ID row) s = (Inr tags, s)" by blast
  then have "GetTask i s = (Inr (row\<lparr>t_Tags := tags, t_State := StateNameFor states (t_Status row)\<rparr>), s)"
    using assms states by (simp add: GetTask_def bnd_def ret_def taskStates_def takeQ_calm quiet_def)
  then show ?thesis by (simp add: sameRow_def)
qed

lemma handOver_quiet:
  assumes "quiet s" and "w_ids s (w_nextID s) \<notin> as_ID ` set (d_assignments (w_db s))"
  shows "\<exists>t. handOver i k a s = (Inr (), t) \<and> quiet t"
proof -
  obtain now s0 where now: "nowNano s = (Inr now, s0)" by (simp add: nowNano_def nowT_def bnd_def ret_def)
  then have s0: "w_db s0 = w_db s" "w_ids s0 = w_ids s" "w_nextID s0 = w_nextID s" "w_faults s0 = []"
    using assms(1) by (auto simp: nowNano_def succ quiet_def)
  have "fst (handOver i k a s) = Inr ()"
    using assms(2) s0 now
    by (simp add: handOver_def closeCurrentAssignment_def bnd_def seq_def ret_def updateQ_calm newSpecID_def insertQ_calm
        list_ex_iff assignmentClash_def set_updWhere image_iff) auto
  then obtain t where t: "handOver i k a s = (Inr (), t)" by (metis prod.collapse)
  with quiet_steady [OF steady_holders(2) t assms(1)] show ?thesis by blast
qed

text \<open>Outside a run and with no failing statement, an assignment of a live task to a known agent succeeds.\<close>

lemma AssignTask_quiet:
  assumes quiet: "quiet s" and row: "List.find (liveTask i) (d_tasks (w_db s)) = Some row"
    and agent: "findAgent key (w_db s) = Some agent" and fresh: "w_ids s (w_nextID s) \<notin> as_ID ` set (d_assignments (w_db s))"
  shows "\<exists>t. AssignTask i key [] s = (Inr (), t)"
proof -
  obtain task where get: "GetTask i s = (Inr task, s)" using GetTask_quiet_run [OF quiet row] by blast
  obtain s2 where hand: "handOver i AssigneeAgent (ag_ID agent) s = (Inr (), s2)" and q2: "quiet s2"
    using handOver_quiet [OF quiet fresh] by blast
  obtain unmet s3 where deps: "findUnmetDependencies i s2 = (Inr unmet, s3)" and q3: "quiet s3"
    using fineD [OF fine_findUnmetDependencies q2] by blast
  have "keeps (\<lambda>d. d_dependencies d = x \<and> statusView d = y) (handOver i AssigneeAgent (ag_ID agent))" for x y
    by (rule keeps_assign_status)
  from keepsD [OF this, of s "d_dependencies (w_db s)" "statusView (w_db s)"] hand findUnmetDependencies_Inr [OF deps]
  have "statusView (w_db s3) = statusView (w_db s)" by simp
  then have "map fst (statusView (w_db s3)) = map fst (statusView (w_db s))" by simp
  then have ids: "map t_ID (d_tasks (w_db s3)) = map t_ID (d_tasks (w_db s))" by (simp add: statusView_def o_def)
  have "i \<in> set (map t_ID (d_tasks (w_db s3)))"
    unfolding ids using find_Some_in [OF row] by (auto simp: liveTask_def)
  then have "affected (\<lambda>t. t_ID t = i) (d_tasks (w_db s3)) \<noteq> 0" by (auto simp: affected_0_iff)
  then have "\<exists>t. dispatchTask task agent i (t_WorkflowRunID task) unmet s3 = (Inr (), t)"
    using q3 by (auto simp: dispatchTask_def whenM_def seq_def bnd_def ret_def setTaskStatus_def nowStr_def nowT_def
        updateQ_calm unless_def publish_def quiet_def)
  with get hand deps GetAgent_quiet [OF quiet, of key] agent show ?thesis
    by (auto simp: AssignTask_def bnd_def seq_def chainRun_def ret_def)
qed

section \<open>Properties of assignments\<close>

text \<open>A task, the agent it may go to, and a dependency of it.\<close>

definition assignDb :: "task_status \<Rightarrow> db" where
  "assignDb dep = emptyDb\<lparr>d_tasks := [taskWith ''i'' TaskStatusPending, taskWith ''j'' dep],
     d_agents := [\<lparr>ag_ID = ''a'', ag_AgentID = ''dev-1'', ag_DisplayName = [], ag_Capability = [], ag_RoleName = ''dev'',
       ag_CreatedAt = [], ag_UpdatedAt = []\<rparr>],
     d_dependencies := [\<lparr>e_FromTaskID = ''i'', e_ToTaskID = ''j'', e_CreatedAt = [], e_Reason = []\<rparr>]\<rparr>"



text \<open>
  A task has at most one open stretch: whichever statements fail, each operation that changes who
  holds a task leaves at most one open stretch per task.
\<close>

lemma assignments_one_open:
  assumes "oneOpen (w_db s)"
  shows "oneOpen (w_db (snd (AssignTask i key r s))) \<and> oneOpen (w_db (snd (AssignTaskToHolder i k a s))) \<and>
    oneOpen (w_db (snd (UnassignTask i s)))"
proof -
  have status: "keeps oneOpen (setTaskStatus i st)" for st
    unfolding setTaskStatus_def by (intro keeps_intros)
  have chain: "keeps oneOpen (chainRun task i r)" for task
    by (intro keeps_chainRun keeps_intros oneOpen_writeFK)
  have "keeps oneOpen (AssignTask i key r)"
    unfolding AssignTask_def dispatchTask_def by (intro keeps_intros chain status)
  then have 1: "oneOpen (w_db (snd (AssignTask i key r s)))" using assms by (rule keepsD)
  have "keeps oneOpen (AssignTaskToHolder i k a)"
    unfolding AssignTaskToHolder_def by (intro keeps_intros)
  then have 2: "oneOpen (w_db (snd (AssignTaskToHolder i k a s)))" using assms by (rule keepsD)
  have now: "keeps oneOpen (bnd nowNano f)" if "\<And>x. x \<noteq> [] \<Longrightarrow> keeps oneOpen (f x)" for f :: "string \<Rightarrow> unit tm"
    using that by (simp add: keeps_def nowNano_def bnd_def nowT_def ret_def)
  have "keeps oneOpen (UnassignTask i)"
    unfolding UnassignTask_def
    by (intro keeps_seq keeps_GetTask now closeCurrentAssignment_oneOpen keeps_ret keeps_ignored_update oneOpen_ignores)
  then have "oneOpen (w_db (snd (UnassignTask i s)))" using assms by (rule keepsD)
  with 1 2 show ?thesis by simp
qed

lemma assignments_one_open_example:
  "oneOpen (w_db (snd (AssignTask ''i'' ''dev-1'' [] (worldOf (assignDb TaskStatusCompleted)))))"
proof -
  have "oneOpen (w_db (worldOf (assignDb TaskStatusCompleted)))"
    by (simp add: oneOpen_def openStretches_def assignDb_def emptyDb_def)
  from assignments_one_open [OF this] show ?thesis by blast
qed

text \<open>
  An assignment that names another run than the task's is an error that changes no table and
  announces nothing; with a known agent and no failing statement the error is the mismatch.
\<close>

lemma AssignTask_mismatch:
  assumes row: "List.find (liveTask i) (d_tasks (w_db s)) = Some row" and other: "r \<noteq> []" "t_WorkflowRunID row \<notin> {[], r}"
  shows "\<exists>e t. AssignTask i key r s = (Inl e, t) \<and> w_db t = w_db s \<and> w_published t = w_published s \<and>
    (quiet s \<and> findAgent key (w_db s) \<noteq> None \<longrightarrow> e = ErrWorkflowRunMismatch)"
proof -
  obtain g s1 where g: "GetTask i s = (g, s1)" by fastforce
  have s1: "w_db s1 = w_db s" "w_published s1 = w_published s"
    by (rule keeps_reads [OF keeps_GetTask g], rule silentD [OF silent_GetTask g])
  show ?thesis
  proof (cases g)
    case (Inl e)
    with g s1 GetTask_quiet_run [OF _ row] show ?thesis by (auto simp: AssignTask_def bnd_def)
  next
    case (Inr task)
    from GetTask_Inr [OF g [unfolded Inr]] row have same: "sameRow row task" by simp
    obtain a s2 where a: "GetAgent key s1 = (a, s2)" by fastforce
    have s2: "w_db s2 = w_db s" "w_published s2 = w_published s"
      using keeps_reads [OF keeps_agent_reads(2) a] silentD [OF silent_agent_ops(2) a] s1 by simp_all
    have q: "quiet s \<longrightarrow> quiet s1" using quiet_steady [OF steady_GetTask g] by simp
    show ?thesis
    proof (cases a)
      case (Inl e)
      with a q s1 have "quiet s \<longrightarrow> findAgent key (w_db s) = None"
        by (auto simp: GetAgent_quiet split: option.splits)
      with g Inr a Inl s2 show ?thesis by (auto simp: AssignTask_def bnd_def)
    next
      case (Inr agent)
      have "chainRun task i r s2 = (Inl ErrWorkflowRunMismatch, s2)"
        using other sameRow_fields [OF same] by (simp add: chainRun_def fail_def)
      with g \<open>g = Inr task\<close> a Inr s2 show ?thesis by (simp add: AssignTask_def bnd_def)
    qed
  qed
qed

lemma AssignTask_mismatch_example:
  "\<exists>t. AssignTask ''i'' ''dev-1'' ''q'' (worldOf ((assignDb TaskStatusCompleted)
       \<lparr>d_tasks := [(taskWith ''i'' TaskStatusPending)\<lparr>t_WorkflowRunID := ''p''\<rparr>]\<rparr>)) = (Inl ErrWorkflowRunMismatch, t)"
proof -
  let ?d = "(assignDb TaskStatusCompleted)\<lparr>d_tasks := [(taskWith ''i'' TaskStatusPending)\<lparr>t_WorkflowRunID := ''p''\<rparr>]\<rparr>"
  have row: "List.find (liveTask ''i'') (d_tasks (w_db (worldOf ?d))) =
      Some ((taskWith ''i'' TaskStatusPending)\<lparr>t_WorkflowRunID := ''p''\<rparr>)" by (simp add: liveTask_def)
  have "findAgent ''dev-1'' (w_db (worldOf ?d)) \<noteq> None" by (simp add: findAgent_def assignDb_def)
  with AssignTask_mismatch [OF row, of "''q''" "''dev-1''"] show ?thesis by auto
qed

end
