(* ===== verification/Unblock.thy ===== *)
theory Unblock
  imports Assignment
begin

text \<open>
  \<open>assignment_unblock.go\<close>: when a task is over, each blocked task that depended on it is let go if
  all its dependencies are over and it still has an agent; a dependent that cannot be read or written
  is skipped. \<open>UnblockTask\<close> puts a blocked task back to awaiting direction.
\<close>

definition maybeUnblockDependent :: "string \<Rightarrow> unit tm" where
  "maybeUnblockDependent dependentID =
     bnd (attempt (GetTask dependentID)) (\<lambda>got.
     case got of
       Inl _ \<Rightarrow> ret ()
     | Inr task \<Rightarrow>
         if t_Status task \<noteq> TaskStatusBlocked then ret ()
         else bnd (attempt (findUnmetDependencies dependentID)) (\<lambda>deps.
         case deps of
           Inl _ \<Rightarrow> ret ()
         | Inr unmet \<Rightarrow>
             if unmet \<noteq> [] then ret ()
             else if t_AssignedTo task = [] then ret ()
             else bnd (attempt (GetAgent (t_AssignedTo task))) (\<lambda>found.
             case found of
               Inl _ \<Rightarrow> ret ()
             | Inr agent \<Rightarrow>
                 bnd (attempt (setTaskStatus dependentID TaskStatusPending)) (\<lambda>written.
                 case written of
                   Inl _ \<Rightarrow> ret ()
                 | Inr _ \<Rightarrow>
                     seq (publish (TaskStatusChanged dependentID TaskStatusBlocked TaskStatusPending []))
                       (publish (TaskAssigned dependentID (t_AssignedTo task) (ag_RoleName agent)
                          (t_TaskName task) (t_Title task) (t_Description task) []))))))"

definition UnblockDependents :: "string \<Rightarrow> unit tm" where
  "UnblockDependents completedTaskID =
     seq (GetTask completedTaskID)
     (bnd (TraverseRelationships completedTaskID RelLabelDependsOn DirectionInbound) (\<lambda>edges.
      forEach (map rel_FromID edges) maybeUnblockDependent))"

definition UnblockTask :: "string \<Rightarrow> string \<Rightarrow> task tm" where
  "UnblockTask taskID note =
     bnd (GetTask taskID) (\<lambda>task.
     seq (unless (CanTransitionTo (t_Status task) TaskStatusAwaitingDirection) ErrInvalidStatusTransition)
     (bnd nowStr (\<lambda>now.
      UpdateTask (task\<lparr>t_Description :=
          (if note \<noteq> [] then t_Description task @ [CHR 0x0A, CHR 0x0A] @ ''Unblocked: '' @ note else t_Description task),
        t_Status := TaskStatusAwaitingDirection, t_UpdatedAt := now\<rparr>))))"

lemma surely_maybeUnblock [surely_intros]: "surely (maybeUnblockDependent j)"
  unfolding maybeUnblockDependent_def by (intro surely_intros)

lemma steady_unblock [steady_intros]:
  "steady (maybeUnblockDependent j)" "steady (UnblockTask i n)"
  unfolding maybeUnblockDependent_def UnblockTask_def by (intro steady_intros)+

section \<open>Dependents that may go\<close>

text \<open>
  Everything a release looks at: the rows but for their status are fixed, so the answer is a function
  of the table seen as a list of statuses beside the rest of each row.
\<close>

definition ready :: "string \<Rightarrow> db \<Rightarrow> bool" where
  "ready j d \<longleftrightarrow> (case List.find (liveTask j) (d_tasks d) of
       None \<Rightarrow> False
     | Some row \<Rightarrow> t_Status row = TaskStatusBlocked \<and> unmetDeps j d = {} \<and> t_AssignedTo row \<noteq> [] \<and>
         findAgent (t_AssignedTo row) d \<noteq> None)"

definition releaseDb :: "string \<Rightarrow> string \<Rightarrow> db \<Rightarrow> db" where
  "releaseDb j now d = d\<lparr>d_tasks := updWhere (\<lambda>t. t_ID t = j) (withStatus TaskStatusPending now) (d_tasks d)\<rparr>"

lemma setTaskStatus_Inl: "setTaskStatus i st s = (Inl e, t) \<Longrightarrow> affected (\<lambda>t. t_ID t = i) (d_tasks (w_db s)) \<noteq> 0 \<Longrightarrow>
    w_db t = w_db s \<and> \<not> quiet s"
proof -
  assume run: "setTaskStatus i st s = (Inl e, t)" and row: "affected (\<lambda>t. t_ID t = i) (d_tasks (w_db s)) \<noteq> 0"
  obtain now s0 where now: "nowStr s = (Inr now, s0)" using surelyD [OF surely_basic(3)] by blast
  note s0 = nowStr_run [OF now]
  obtain x s1 where x: "updateQ tasksT (\<lambda>t. t_ID t = i) (withStatus st now) s0 = (x, s1)" by fastforce
  show ?thesis
  proof (cases x)
    case (Inl e')
    with x s0 have "\<not> quiet s" by (auto simp: quiet_def updateQ_calm)
    with run now x Inl s0 statement_Inl(3) [OF x [unfolded Inl]] show ?thesis by (auto simp: setTaskStatus_def bnd_def)
  next
    case (Inr n)
    from updateQ_run [OF x [unfolded Inr]] s0 row have "n \<noteq> 0" by simp
    with run now x Inr show ?thesis by (simp add: setTaskStatus_def bnd_def unless_def ret_def)
  qed
qed

text \<open>One dependent: nothing happens, or it was ready and is let go and announced.\<close>

lemma maybeUnblockDependent_step:
  assumes run: "maybeUnblockDependent j s = (r, t)"
  shows "(w_db t = w_db s \<and> w_published t = w_published s \<and> \<not> (quiet s \<and> ready j (w_db s))) \<or>
    (ready j (w_db s) \<and> (\<exists>now evs. w_db t = releaseDb j now (w_db s) \<and> w_published t = w_published s @ evs \<and>
       (\<forall>k. announced k evs \<longleftrightarrow> k = j \<and> \<not> w_publisherNil s)))"
proof -
  let ?d = "w_db s"
  obtain g s1 where g: "GetTask j s = (g, s1)" by fastforce
  have s1: "w_db s1 = ?d" "w_published s1 = w_published s" "w_publisherNil s1 = w_publisherNil s" "quiet s \<longrightarrow> quiet s1"
    using keeps_reads [OF keeps_GetTask g] silentD [OF silent_GetTask g] steadyD(3) [OF steady_GetTask g]
      quiet_steady [OF steady_GetTask g] by simp_all
  show ?thesis
  proof (cases g)
    case (Inl e)
    have "\<not> (quiet s \<and> ready j ?d)"
      using GetTask_quiet_run [of s j] g Inl by (auto simp: ready_def split: option.splits)
    with run g Inl s1 show ?thesis by (simp add: maybeUnblockDependent_def bnd_def attempt_def ret_def)
  next
    case g_Inr: (Inr task)
    from GetTask_Inr [OF g [unfolded g_Inr]] obtain row where row: "List.find (liveTask j) (d_tasks ?d) = Some row"
      and same: "sameRow row task" by auto
    note fields = sameRow_fields [OF same]
    show ?thesis
    proof (cases "t_Status task = TaskStatusBlocked")
      case False
      with run g g_Inr s1 row fields show ?thesis
        by (simp add: maybeUnblockDependent_def bnd_def attempt_def ret_def ready_def)
    next
      case blocked: True
      obtain u s2 where u: "findUnmetDependencies j s1 = (u, s2)" by fastforce
      have s2: "w_db s2 = ?d" "w_published s2 = w_published s" "w_publisherNil s2 = w_publisherNil s" "quiet s \<longrightarrow> quiet s2"
        using keeps_reads [OF keeps_findUnmetDependencies u] silentD [OF silent_findUnmetDependencies u]
          steadyD(3) [OF steady_findUnmetDependencies u] quiet_steady [OF steady_findUnmetDependencies u] s1 by simp_all
      have idle: ?thesis if "w_db t = w_db s2 \<and> w_published t = w_published s2" and "quiet s \<Longrightarrow> ready j ?d \<Longrightarrow> False"
        using that s2 by auto
      show ?thesis
      proof (cases u)
        case (Inl e)
        have "\<not> quiet s" using fineD [OF fine_findUnmetDependencies, of s1 j] u Inl s1 by auto
        with run g g_Inr blocked u Inl s2 show ?thesis
          by (simp add: maybeUnblockDependent_def bnd_def attempt_def ret_def)
      next
        case u_Inr: (Inr unmet)
        from findUnmetDependencies_Inr [OF u [unfolded u_Inr]] s1
        have unmet: "unmetDeps j ?d \<subseteq> set unmet" "quiet s \<longrightarrow> set unmet = unmetDeps j ?d" by simp_all
        show ?thesis
        proof (cases "unmet \<noteq> [] \<or> t_AssignedTo task = []")
          case True
          have "t = s2" using run g g_Inr blocked u u_Inr True
            by (auto simp: maybeUnblockDependent_def bnd_def attempt_def ret_def split: if_splits)
          moreover have "\<not> ready j ?d" if "quiet s"
            using unmet that True row fields by (cases unmet) (auto simp: ready_def)
          ultimately show ?thesis using idle by blast
        next
          case go: False
          obtain a s3 where a: "GetAgent (t_AssignedTo task) s2 = (a, s3)" by fastforce
          have s3: "w_db s3 = ?d" "w_published s3 = w_published s" "w_publisherNil s3 = w_publisherNil s" "quiet s \<longrightarrow> quiet s3"
            using keeps_reads [OF keeps_agent_reads(2) a] silentD [OF silent_agent_ops(2) a]
              steadyD(3) [OF steady_agent_ops(2) a] quiet_steady [OF steady_agent_ops(2) a] s2 by simp_all
          show ?thesis
          proof (cases a)
            case (Inl e)
            have "\<not> (quiet s \<and> ready j ?d)"
              using GetAgent_quiet [of s2 "t_AssignedTo task"] a Inl s2 row fields
              by (auto simp: ready_def split: option.splits)
            with run g g_Inr blocked u u_Inr go a Inl s3 show ?thesis
              by (simp add: maybeUnblockDependent_def bnd_def attempt_def ret_def)
          next
            case a_Inr: (Inr agent)
            from GetAgent_Inr [OF a [unfolded a_Inr]] s2 have agent: "findAgent (t_AssignedTo row) ?d = Some agent"
              using fields by simp
            have ready: "ready j ?d"
              using unmet(1) go row agent blocked fields by (auto simp: ready_def)
            obtain w s4 where w: "setTaskStatus j TaskStatusPending s3 = (w, s4)" by fastforce
            have s4: "w_published s4 = w_published s" "w_publisherNil s4 = w_publisherNil s"
              using silentD [OF silent_holders(3) w] steadyD(3) [OF steady_holders(3) w] s3 by simp_all
            show ?thesis
            proof (cases w)
              case (Inl e)
              from find_Some_in [OF row] have "affected (\<lambda>t. t_ID t = j) (d_tasks (w_db s3)) \<noteq> 0"
                using s3 by (auto simp: affected_0_iff liveTask_def)
              from setTaskStatus_Inl [OF w [unfolded Inl] this] s3 have "w_db s4 = ?d" "\<not> quiet s" by auto
              with run g g_Inr blocked u u_Inr go a a_Inr w Inl s4 show ?thesis
                by (simp add: maybeUnblockDependent_def bnd_def attempt_def ret_def)
            next
              case w_Inr: (Inr x)
              from setTaskStatus_Inr [OF w [unfolded w_Inr]] s3 obtain now where
                d4: "w_db s4 = releaseDb j now ?d" by (auto simp: releaseDb_def)
              have t: "t = snd (seq (publish (TaskStatusChanged j TaskStatusBlocked TaskStatusPending []))
                 (publish (TaskAssigned j (t_AssignedTo task) (ag_RoleName agent)
                    (t_TaskName task) (t_Title task) (t_Description task) [])) s4)"
                using run g g_Inr blocked u u_Inr go a a_Inr w w_Inr
                by (simp add: maybeUnblockDependent_def bnd_def attempt_def ret_def)
              have "w_db t = releaseDb j now ?d \<and> (\<exists>evs. w_published t = w_published s @ evs \<and>
                  (\<forall>k. announced k evs \<longleftrightarrow> k = j \<and> \<not> w_publisherNil s))"
                using d4 s4 unfolding t by (auto simp: seq_def bnd_def publish_def)
              with ready show ?thesis by blast
            qed
          qed
        qed
      qed
    qed
  qed
qed

section \<open>All dependents\<close>

text \<open>What a release may change of a row, beside the time of the change: the status.\<close>

definition coreOf :: "task \<Rightarrow> string \<times> bool \<times> string \<times> task_status" where
  "coreOf x = (t_ID x, t_Deleted x, t_AssignedTo x, t_Status x)"

definition releasedCore :: "string set \<Rightarrow> task \<Rightarrow> string \<times> bool \<times> string \<times> task_status" where
  "releasedCore R x = (t_ID x, t_Deleted x, t_AssignedTo x, if t_ID x \<in> R then TaskStatusPending else t_Status x)"

definition releasedTo :: "string set \<Rightarrow> db \<Rightarrow> db \<Rightarrow> bool" where
  "releasedTo R d d' \<longleftrightarrow> d_dependencies d' = d_dependencies d \<and> d_agents d' = d_agents d \<and>
     map coreOf (d_tasks d') = map (releasedCore R) (d_tasks d)"

lemma releasedTo_empty: "releasedTo {} d d"
  by (simp add: releasedTo_def coreOf_def releasedCore_def)

lemma map_coreOf_Cons: "map coreOf ts = c # cs \<Longrightarrow> \<exists>x xs. ts = x # xs \<and> coreOf x = c \<and> map coreOf xs = cs"
  by (cases ts) auto

lemma find_released:
  assumes "map coreOf ts' = map (releasedCore R) ts"
  shows "rel_option (\<lambda>x y. coreOf y = releasedCore R x) (List.find (liveTask j) ts) (List.find (liveTask j) ts')"
  using assms
proof (induction ts arbitrary: ts')
  case (Cons x ts)
  then obtain y ys where y: "ts' = y # ys" "coreOf y = releasedCore R x" "map coreOf ys = map (releasedCore R) ts"
    using map_coreOf_Cons by fastforce
  then have "liveTask j y = liveTask j x" by (simp add: liveTask_def coreOf_def releasedCore_def)
  with Cons.IH [OF y(3)] y show ?case by simp
qed simp

lemma unmetDeps_released:
  assumes rel: "releasedTo R d d'" and R: "\<forall>j \<in> R. ready j d"
  shows "unmetDeps i d' = unmetDeps i d"
proof -
  have "(case List.find (liveTask j) (d_tasks d') of None \<Rightarrow> True | Some row \<Rightarrow> \<not> isTerminalStatus (t_Status row)) \<longleftrightarrow>
      (case List.find (liveTask j) (d_tasks d) of None \<Rightarrow> True | Some row \<Rightarrow> \<not> isTerminalStatus (t_Status row))" for j
  proof -
    from rel have "rel_option (\<lambda>x y. coreOf y = releasedCore R x) (List.find (liveTask j) (d_tasks d)) (List.find (liveTask j) (d_tasks d'))"
      by (intro find_released) (simp add: releasedTo_def)
    then show ?thesis
    proof cases
      case (Some x y)
      from find_Some_in [OF Some(1)] have id: "t_ID x = j" by (simp add: liveTask_def)
      have "t_Status x = TaskStatusBlocked" if "j \<in> R" using R that Some(1) by (auto simp: ready_def)
      with Some id show ?thesis by (cases "j \<in> R") (auto simp: coreOf_def releasedCore_def isTerminalStatus_def)
    qed simp
  qed
  moreover have "relEdges RelLabelDependsOn d' = relEdges RelLabelDependsOn d"
    using rel by (simp add: relEdges_def releasedTo_def)
  ultimately show ?thesis by (simp add: unmetDeps_def)
qed

lemma ready_released:
  assumes rel: "releasedTo R d d'" and R: "\<forall>j \<in> R. ready j d"
  shows "ready j d' \<longleftrightarrow> ready j d \<and> j \<notin> R"
proof -
  from rel have "rel_option (\<lambda>x y. coreOf y = releasedCore R x) (List.find (liveTask j) (d_tasks d)) (List.find (liveTask j) (d_tasks d'))"
    by (intro find_released) (simp add: releasedTo_def)
  then show ?thesis
  proof cases
    case None
    then show ?thesis by (simp add: ready_def)
  next
    case (Some x y)
    from find_Some_in [OF Some(1)] have id: "t_ID x = j" by (simp add: liveTask_def)
    have "findAgent a d' = findAgent a d" for a using rel by (simp add: findAgent_def releasedTo_def cong: option.case_cong)
    with Some id unmetDeps_released [OF assms, of j] show ?thesis
      by (auto simp: ready_def coreOf_def releasedCore_def)
  qed
qed

lemma releasedTo_step:
  assumes "releasedTo R d d'"
  shows "releasedTo (insert j R) d (releaseDb j now d')"
proof -
  have "map coreOf (updWhere (\<lambda>t. t_ID t = j) (withStatus TaskStatusPending now) ts') = map (releasedCore (insert j R)) ts"
    if "map coreOf ts' = map (releasedCore R) ts" for ts' ts
    using that
  proof (induction ts arbitrary: ts')
    case (Cons x ts)
    then obtain y ys where y: "ts' = y # ys" "coreOf y = releasedCore R x" "map coreOf ys = map (releasedCore R) ts"
      using map_coreOf_Cons by fastforce
    with Cons.IH [OF y(3)] show ?case by (auto simp: coreOf_def releasedCore_def)
  qed simp
  with assms show ?thesis by (simp add: releasedTo_def releaseDb_def)
qed

lemma unblock_loop:
  assumes "forEach js maybeUnblockDependent s = (r, t)" and "releasedTo R d (w_db s)" and "\<forall>j \<in> R. ready j d"
  shows "\<exists>R' evs. R \<subseteq> R' \<and> R' \<subseteq> R \<union> {j \<in> set js. ready j d} \<and> releasedTo R' d (w_db t) \<and>
    w_published t = w_published s @ evs \<and> (\<forall>k. announced k evs \<longleftrightarrow> k \<in> R' - R \<and> \<not> w_publisherNil s) \<and>
    (quiet s \<longrightarrow> {j \<in> set js. ready j d} \<subseteq> R')"
  using assms
proof (induction js arbitrary: s R)
  case Nil
  then show ?case by (intro exI [of _ R] exI [of _ "[]"]) (simp add: ret_def)
next
  case (Cons j js)
  obtain x s1 where x: "maybeUnblockDependent j s = (x, s1)" by fastforce
  then obtain u where u: "x = Inr u" using surelyD [OF surely_maybeUnblock, of j s] by auto
  with Cons.prems(1) x have rest: "forEach js maybeUnblockDependent s1 = (r, t)" by (simp add: seq_def bnd_def)
  have nil1: "w_publisherNil s1 = w_publisherNil s" and q1: "quiet s \<longrightarrow> quiet s1"
    using steadyD(3) [OF steady_unblock(1) x] quiet_steady [OF steady_unblock(1) x] by simp_all
  note rdy = ready_released [OF Cons.prems(2,3), of j]
  from maybeUnblockDependent_step [OF x] show ?case
  proof (elim disjE conjE exE)
    assume d1: "w_db s1 = w_db s" and p1: "w_published s1 = w_published s" and not: "\<not> (quiet s \<and> ready j (w_db s))"
    have "releasedTo R d (w_db s1)" using Cons.prems(2) d1 by simp
    from Cons.IH [OF rest this Cons.prems(3)] obtain R' evs where
      R': "R \<subseteq> R'" "R' \<subseteq> R \<union> {j \<in> set js. ready j d}" "releasedTo R' d (w_db t)" "w_published t = w_published s1 @ evs"
        "\<forall>k. announced k evs \<longleftrightarrow> k \<in> R' - R \<and> \<not> w_publisherNil s1" "quiet s1 \<longrightarrow> {j \<in> set js. ready j d} \<subseteq> R'" by blast
    have "{j' \<in> set (j # js). ready j' d} \<subseteq> R'" if "quiet s"
      using that q1 R'(1,6) not rdy by auto
    with R' nil1 p1 show ?thesis by (intro exI [of _ R'] exI [of _ evs]) auto
  next
    fix now evs1
    assume ready: "ready j (w_db s)" and d1: "w_db s1 = releaseDb j now (w_db s)"
      and p1: "w_published s1 = w_published s @ evs1" and a1: "\<forall>k. announced k evs1 \<longleftrightarrow> k = j \<and> \<not> w_publisherNil s"
    have rel: "releasedTo (insert j R) d (w_db s1)" unfolding d1 by (rule releasedTo_step [OF Cons.prems(2)])
    have all: "\<forall>j \<in> insert j R. ready j d" using ready rdy Cons.prems(3) by simp
    from Cons.IH [OF rest rel all] obtain R' evs where
      R': "insert j R \<subseteq> R'" "R' \<subseteq> insert j R \<union> {j \<in> set js. ready j d}" "releasedTo R' d (w_db t)" "w_published t = w_published s1 @ evs"
        "\<forall>k. announced k evs \<longleftrightarrow> k \<in> R' - insert j R \<and> \<not> w_publisherNil s1" "quiet s1 \<longrightarrow> {j \<in> set js. ready j d} \<subseteq> R'" by blast
    have "announced k (evs1 @ evs) \<longleftrightarrow> k \<in> R' - R \<and> \<not> w_publisherNil s" for k
      using R'(1,5) a1 nil1 rdy ready by auto
    with R' nil1 p1 q1 ready rdy show ?thesis by (intro exI [of _ R'] exI [of _ "evs1 @ evs"]) auto
  qed
qed

section \<open>Properties\<close>

text \<open>
  C15. A task that is over lets go of exactly the dependents it may: each status that changed went from
  blocked to pending, in a task that depended on it, whose dependencies are all live and over, and
  whose assignee is a known agent; exactly those are announced as assigned; and when no statement
  fails every such task is let go.
\<close>

theorem UnblockDependents_releases:
  assumes run: "UnblockDependents c s = (Inr (), t)"
  shows "\<exists>R evs. R \<subseteq> {j. (j, c) \<in> relEdges RelLabelDependsOn (w_db s) \<and> ready j (w_db s)} \<and>
    map coreOf (d_tasks (w_db t)) = map (releasedCore R) (d_tasks (w_db s)) \<and>
    w_published t = w_published s @ evs \<and> (\<forall>k. announced k evs \<longleftrightarrow> k \<in> R \<and> \<not> w_publisherNil s) \<and>
    (quiet s \<longrightarrow> R = {j. (j, c) \<in> relEdges RelLabelDependsOn (w_db s) \<and> ready j (w_db s)})"
proof -
  from run obtain task s1 es s2 where get: "GetTask c s = (Inr task, s1)"
    and es: "TraverseRelationships c RelLabelDependsOn DirectionInbound s1 = (Inr es, s2)"
    and loop: "forEach (map rel_FromID es) maybeUnblockDependent s2 = (Inr (), t)"
    unfolding UnblockDependents_def seq_Inr bnd_Inr by blast
  have st: "steady (TraverseRelationships c RelLabelDependsOn DirectionInbound)"
    using fine_TraverseRelationships by (simp add: fine_def)
  have d: "w_db s2 = w_db s" "w_published s2 = w_published s" "w_publisherNil s2 = w_publisherNil s" "quiet s \<longrightarrow> quiet s2"
    using keeps_reads [OF keeps_GetTask get] silentD [OF silent_GetTask get] steadyD(3) [OF steady_GetTask get]
      quiet_steady [OF steady_GetTask get] keeps_reads [OF keeps_TraverseRelationships es]
      silentD [OF silent_TraverseRelationships es] steadyD(3) [OF st es] quiet_steady [OF st es] by simp_all
  have "w_db s1 = w_db s" using keeps_reads [OF keeps_GetTask get] .
  then have ids: "rel_FromID ` set es = {j. (j, c) \<in> relEdges RelLabelDependsOn (w_db s)}"
    using es by (auto simp: TraverseRelationships_def traverseJoin_def relEdges_def succ edgeOf_def image_iff) blast+
  from unblock_loop [OF loop, of "{}" "w_db s"] d releasedTo_empty obtain R evs where
    R: "R \<subseteq> {j \<in> rel_FromID ` set es. ready j (w_db s)}" "releasedTo R (w_db s) (w_db t)"
      "w_published t = w_published s @ evs" "\<forall>k. announced k evs \<longleftrightarrow> k \<in> R \<and> \<not> w_publisherNil s"
      "quiet s \<longrightarrow> {j \<in> rel_FromID ` set es. ready j (w_db s)} \<subseteq> R" by auto
  have "{j \<in> rel_FromID ` set es. ready j (w_db s)} = {j. (j, c) \<in> relEdges RelLabelDependsOn (w_db s) \<and> ready j (w_db s)}"
    using ids by auto
  with R show ?thesis by (intro exI [of _ R] exI [of _ evs]) (auto simp: releasedTo_def)
qed

text \<open>A blocked task with an agent, and the finished task it depends on.\<close>

definition blockedOnDb :: "task_status \<Rightarrow> db" where
  "blockedOnDb st = (assignDb TaskStatusCompleted)\<lparr>d_tasks :=
     [(taskWith ''i'' st)\<lparr>t_AssignedTo := ''a''\<rparr>, taskWith ''j'' TaskStatusCompleted]\<rparr>"

lemma blockedOnDb_ready:
  "ready ''i'' (blockedOnDb TaskStatusBlocked)" "relEdges RelLabelDependsOn (blockedOnDb st) = {(''i'', ''j'')}"
proof -
  show edges: "relEdges RelLabelDependsOn (blockedOnDb st) = {(''i'', ''j'')}" for st
    by (simp add: relEdges_def blockedOnDb_def assignDb_def)
  have "unmetDeps ''i'' (blockedOnDb TaskStatusBlocked) = {}"
    using edges [of TaskStatusBlocked] by (auto simp: unmetDeps_def blockedOnDb_def liveTask_def isTerminalStatus_def)
  then show "ready ''i'' (blockedOnDb TaskStatusBlocked)"
    by (simp add: ready_def blockedOnDb_def liveTask_def findAgent_def assignDb_def)
qed

theorem UnblockDependents_releases_witness:
  "\<exists>t. UnblockDependents ''j'' (worldOf (blockedOnDb TaskStatusBlocked)) = (Inr (), t) \<and>
     map t_Status (d_tasks (w_db t)) = [TaskStatusPending, TaskStatusCompleted]"
proof -
  let ?s = "worldOf (blockedOnDb TaskStatusBlocked)"
  have live: "List.find (liveTask ''j'') (d_tasks (w_db ?s)) = Some (taskWith ''j'' TaskStatusCompleted)"
    by (simp add: blockedOnDb_def liveTask_def)
  obtain task where get: "GetTask ''j'' ?s = (Inr task, ?s)" using GetTask_quiet_run [OF quiet_worldOf live] by blast
  obtain es s2 where "TraverseRelationships ''j'' RelLabelDependsOn DirectionInbound ?s = (Inr es, s2)"
    using fineD [OF fine_TraverseRelationships quiet_worldOf] by blast
  with get surelyD [OF surely_forEach [of "map rel_FromID es" maybeUnblockDependent, OF surely_maybeUnblock], of s2]
  obtain t where run: "UnblockDependents ''j'' ?s = (Inr (), t)"
    by (auto simp: UnblockDependents_def seq_def bnd_def)
  have only: "{j. (j, ''j'') \<in> relEdges RelLabelDependsOn (w_db ?s) \<and> ready j (w_db ?s)} = {''i''}"
    using blockedOnDb_ready by auto
  from UnblockDependents_releases [OF run] have "map coreOf (d_tasks (w_db t)) = map (releasedCore {''i''}) (d_tasks (w_db ?s))"
    unfolding only by auto
  then have "map (\<lambda>c. snd (snd (snd c))) (map coreOf (d_tasks (w_db t))) = [TaskStatusPending, TaskStatusCompleted]"
    by (simp add: blockedOnDb_def releasedCore_def)
  with run show ?thesis by (simp add: o_def coreOf_def)
qed

text \<open>
  Putting a task back to awaiting direction succeeds, when no statement fails, exactly for a
  blocked task and for one in progress: the guard is the transition table, not the blocked status its
  comment names.
\<close>

lemma UnblockTask_accepts:
  assumes quiet: "quiet s" and row: "List.find (liveTask i) (d_tasks (w_db s)) = Some row"
  shows "(\<exists>out t. UnblockTask i note s = (Inr out, t)) \<longleftrightarrow> t_Status row \<in> {TaskStatusBlocked, TaskStatusInProgress}"
proof -
  have can: "CanTransitionTo (t_Status row) TaskStatusAwaitingDirection \<longleftrightarrow> t_Status row \<in> {TaskStatusBlocked, TaskStatusInProgress}"
    by (cases "t_Status row") simp_all
  obtain task where get: "GetTask i s = (Inr task, s)" and same: "sameRow row task"
    using GetTask_quiet_run [OF quiet row] by blast
  note fields = sameRow_fields [OF same]
  show ?thesis
  proof (cases "CanTransitionTo (t_Status row) TaskStatusAwaitingDirection")
    case False
    with get fields can show ?thesis
      by (simp add: UnblockTask_def bnd_def seq_def unless_def fail_def)
  next
    case True
    obtain now s1 where now: "nowStr s = (Inr now, s1)" and q1: "quiet s1" using fineD [OF fine_basic(3) quiet] by blast
    let ?task = "task\<lparr>t_Description :=
          (if note \<noteq> [] then t_Description task @ [CHR 0x0A, CHR 0x0A] @ ''Unblocked: '' @ note else t_Description task),
        t_Status := TaskStatusAwaitingDirection, t_UpdatedAt := now\<rparr>"
    have "t_ID ?task = i" using fields find_Some_in [OF row] by (simp add: liveTask_def)
    then have "\<exists>out t. UpdateTask ?task s1 = (Inr out, t)"
      using True row nowStr_run [OF now] by (intro UpdateTask_quiet [OF q1, where row = row]) simp_all
    with get now True fields can show ?thesis
      by (simp add: UnblockTask_def bnd_def seq_def unless_def ret_def)
  qed
qed

lemma UnblockTask_accepts_example:
  "\<exists>out t. UnblockTask ''i'' ''note'' (worldOf (blockedOnDb TaskStatusInProgress)) = (Inr out, t)"
proof -
  have row: "List.find (liveTask ''i'') (d_tasks (w_db (worldOf (blockedOnDb TaskStatusInProgress)))) =
      Some ((taskWith ''i'' TaskStatusInProgress)\<lparr>t_AssignedTo := ''a''\<rparr>)"
    by (simp add: blockedOnDb_def liveTask_def)
  show ?thesis unfolding UnblockTask_accepts [OF quiet_worldOf row] by simp
qed

end
