(* ===== verification/Step_Limit.thy ===== *)
theory Step_Limit
  imports Run_Cancel
begin

text \<open>
  \<open>workflow_run_step_limit.go\<close>: a step of a run may carry a time limit and the workflow to run when it
  passes. Answering the step clears the limit; a sweep closes every run whose limit has passed, opens
  its cancel run and cancels its unfinished tasks. The sweep collects the errors of single runs beside
  the runs it closed.
\<close>

definition closedByWatchdog :: string where
  "closedByWatchdog = ''watchdog''"

text \<open>\<open>now.Add(time.Duration(n) * time.Minute)\<close>: the product of two 64-bit durations wraps.\<close>

definition addMinutes :: "instant \<Rightarrow> int \<Rightarrow> instant" where
  "addMinutes now n = now + wrap64 (minutesNs n)"

definition steppedRun :: "instant \<Rightarrow> string \<Rightarrow> int \<Rightarrow> string \<Rightarrow> workflow_run \<Rightarrow> workflow_run" where
  "steppedRun now stepCode limitMinutes cancelWorkflowCode run =
     run\<lparr>r_CurrentStepID := stepCode, r_CurrentStepStartedAt := fmtRFC3339 now,
         r_StepDueAt := (if 0 < limitMinutes then fmtRFC3339 (addMinutes now limitMinutes) else []),
         r_StepCancelWorkflowCode := (if 0 < limitMinutes then cancelWorkflowCode else []),
         r_UpdatedAt := fmtRFC3339 now\<rparr>"

definition BeginWorkflowRunStep :: "string \<Rightarrow> string \<Rightarrow> int \<Rightarrow> string \<Rightarrow> workflow_run tm" where
  "BeginWorkflowRunStep runID stepCode limitMinutes cancelWorkflowCode =
     (if TrimSpace stepCode = [] then fail ErrInvalidTask
      else if limitMinutes < 0 then fail ErrInvalidTask
      else if 0 < limitMinutes \<and> cancelWorkflowCode = [] then fail ErrInvalidTask
      else if limitMinutes = 0 \<and> cancelWorkflowCode \<noteq> [] then fail ErrInvalidTask
      else
        bnd (GetWorkflowRun runID) (\<lambda>run.
        seq (unless (\<not> (IsTerminal (r_Status run) \<or> r_Status run = RunRollingBack)) ErrCannotCancelTerminalRun)
        (bnd nowT (\<lambda>now.
         let run' = steppedRun now stepCode limitMinutes cancelWorkflowCode run
         in seq (saveRun run') (ret run')))))"

definition AnswerWorkflowRunStep :: "string \<Rightarrow> workflow_run tm" where
  "AnswerWorkflowRunStep runID =
     bnd (GetWorkflowRun runID) (\<lambda>run.
     if r_StepDueAt run = [] \<or> IsTerminal (r_Status run) then ret run
     else
       bnd nowStr (\<lambda>now.
       let run' = run\<lparr>r_StepDueAt := [], r_StepCancelWorkflowCode := [], r_UpdatedAt := now\<rparr>
       in seq (saveRun run') (ret run')))"

text \<open>The run a passed limit asks for; one of that name that is there already serves.\<close>

definition cancelRequest :: "workflow_run \<Rightarrow> workflow_run" where
  "cancelRequest run =
     workflow_run0\<lparr>r_Name := r_Name run @ ''-closed'', r_TriggerEvent := ''step_limit_passed:'' @ r_ID run,
       r_Initiator := closedByWatchdog, r_WorkflowCode := r_StepCancelWorkflowCode run,
       r_WorkflowVersion := r_WorkflowVersion run\<rparr>"

definition openCancelRun :: "workflow_run \<Rightarrow> workflow_run tm" where
  "openCancelRun run =
     bnd (attempt (openWorkflowRun (cancelRequest run))) (\<lambda>opened.
     case opened of
       Inl e \<Rightarrow> if e = ErrWorkflowRunNameExists then GetWorkflowRunByName (r_Name (cancelRequest run)) else fail e
     | Inr new \<Rightarrow> ret new)"

lemma cancelRequest_Name [simp]: "r_Name (cancelRequest run) = r_Name run @ ''-closed''"
  by (simp add: cancelRequest_def)

text \<open>The row a closed run is saved with.\<close>

definition closedRun :: "instant \<Rightarrow> string \<Rightarrow> workflow_run \<Rightarrow> workflow_run" where
  "closedRun moment cancelRunID run =
     run\<lparr>r_Status := RunClosed, r_UpdatedAt := fmtRFC3339 moment, r_CompletedAt := fmtRFC3339 moment,
         r_CancelledBy := closedByWatchdog,
         r_CancelReason := ''the time limit on step '' @ r_CurrentStepID run @ '' passed at '' @ r_StepDueAt run @
           '' with no answer'',
         r_CancelRunID := cancelRunID\<rparr>"

definition closePastLimit :: "instant \<Rightarrow> workflow_run \<Rightarrow> bool tm" where
  "closePastLimit moment run =
     (if IsTerminal (r_Status run) \<or> r_Status run = RunRollingBack \<or> r_Status run = RunCancelling then ret False
      else if r_StepCancelWorkflowCode run = [] then ret False
      else
        bnd (openCancelRun run) (\<lambda>cancelRun.
        let run' = closedRun moment (r_ID cancelRun) run
        in seq (saveRun run')
           (seq (cascadeTaskCancellation (r_ID run') (r_CancelReason run'))
           (seq (publishRunStatusEvent run' moment (r_CancelReason run'))
           (ret True)))))"

text \<open>The sweep: the runs closed, and the errors of those that were not.\<close>

fun closeDue :: "instant \<Rightarrow> workflow_run list \<Rightarrow> (workflow_run list \<times> err list) tm" where
  "closeDue moment [] = ret ([], [])"
| "closeDue moment (run # runs) =
     bnd (attempt (closePastLimit moment run)) (\<lambda>done.
     bnd (closeDue moment runs) (\<lambda>rest.
     ret (case done of
            Inl e \<Rightarrow> (fst rest, e # snd rest)
          | Inr d \<Rightarrow> (if d then run # fst rest else fst rest, snd rest))))"

definition reread :: "workflow_run list \<Rightarrow> workflow_run list tm" where
  "reread runs =
     collect runs (\<lambda>run.
       bnd (attempt (GetWorkflowRun (r_ID run))) (\<lambda>fresh.
       ret (case fresh of Inl _ \<Rightarrow> None | Inr r \<Rightarrow> Some r)))"

definition pastLimit :: "instant \<Rightarrow> workflow_run \<Rightarrow> bool" where
  "pastLimit moment r \<longleftrightarrow> r_UnderWay r \<and> r_StepDueAt r \<noteq> [] \<and> r_StepDueAt r \<le> fmtRFC3339 moment"

definition CloseWorkflowRunsPastLimit :: "string \<Rightarrow> (workflow_run list \<times> err list) tm" where
  "CloseWorkflowRunsPastLimit asOf =
     bnd nowT (\<lambda>now.
     bnd (if asOf \<noteq> []
          then (case parseRFC3339 asOf of None \<Rightarrow> fail ErrInvalidTask | Some parsed \<Rightarrow> ret parsed)
          else ret now) (\<lambda>moment.
     bnd (selectQ runsT (pastLimit moment)) (\<lambda>rows.
     bnd (closeDue moment (take maxListPage (sortBy (\<lambda>a b. r_StepDueAt a < r_StepDueAt b) rows))) (\<lambda>swept.
     bnd (reread (fst swept)) (\<lambda>closed.
     ret (closed, snd swept))))))"

section \<open>Frames\<close>

lemma steady_step_ops [steady_intros]:
  "steady (BeginWorkflowRunStep i c l w)" "steady (AnswerWorkflowRunStep i)" "steady (openCancelRun run)"
  "steady (closePastLimit moment run)"
  unfolding BeginWorkflowRunStep_def AnswerWorkflowRunStep_def openCancelRun_def closePastLimit_def Let_def
  by (intro steady_intros)+

lemma surely_closeDue [surely_intros]: "surely (closeDue moment runs)"
  by (induction runs) (simp_all add: surely_intros)

lemma keeps_reread [keeps_intros]: "keeps I (reread runs)"
  unfolding reread_def by (intro keeps_intros)

lemma keeps_openCancelRun: "(\<And>run. keeps I (openWorkflowRun run)) \<Longrightarrow> keeps I (openCancelRun run)"
  unfolding openCancelRun_def Let_def by (intro keeps_intros)

lemma keeps_closeDue:
  "(\<And>run. run \<in> set runs \<Longrightarrow> keeps I (closePastLimit moment run)) \<Longrightarrow> keeps I (closeDue moment runs)"
  by (induction runs) (simp_all add: keeps_intros)

lemma step_ops_underWay [keeps_intros]:
  "keeps runsUnderWay (BeginWorkflowRunStep i c l w)" "keeps runsUnderWay (AnswerWorkflowRunStep i)"
  "keeps runsUnderWay (CloseWorkflowRunsPastLimit asOf)"
proof -
  have cascade: "keeps runsUnderWay (cascadeTaskCancellation i reason)" for i reason
    by (intro keeps_cascade keeps_intros) (simp_all add: ignores_def runsUnderWay_def)
  show "keeps runsUnderWay (BeginWorkflowRunStep i c l w)" "keeps runsUnderWay (AnswerWorkflowRunStep i)"
    unfolding BeginWorkflowRunStep_def AnswerWorkflowRunStep_def Let_def by (intro keeps_intros saveRun_underWay)+
  have "keeps runsUnderWay (closePastLimit moment run)" for moment run
    unfolding closePastLimit_def Let_def
    by (intro keeps_intros keeps_openCancelRun openWorkflowRun_underWay saveRun_underWay cascade)
  then show "keeps runsUnderWay (CloseWorkflowRunsPastLimit asOf)"
    unfolding CloseWorkflowRunsPastLimit_def by (intro keeps_intros keeps_closeDue)
qed

section \<open>What a sweep does to the runs\<close>

definition closable :: "workflow_run \<Rightarrow> bool" where
  "closable r \<longleftrightarrow> \<not> (IsTerminal (r_Status r) \<or> r_Status r = RunRollingBack \<or> r_Status r = RunCancelling) \<and>
     r_StepCancelWorkflowCode r \<noteq> []"

definition runNames :: "db \<Rightarrow> (string \<times> string) set" where
  "runNames d = (\<lambda>r. (r_ID r, r_Name r)) ` set (d_runs d)"

lemma openCancelRun_runs:
  assumes run: "openCancelRun r s = (x, t)"
  shows "(\<exists>news. d_runs (w_db t) = d_runs (w_db s) @ news \<and> (\<forall>n \<in> set news. r_Status n = RunPending) \<and>
      (distinct (map r_ID (d_runs (w_db s))) \<longrightarrow> distinct (map r_ID (d_runs (w_db s) @ news)))) \<and>
    (\<forall>c. x = Inr c \<longrightarrow> (r_ID c, r_Name r @ ''-closed'') \<in> runNames (w_db t))"
proof -
  define name where "name = r_Name r @ ''-closed''"
  have nonempty: "name \<noteq> []" by (simp add: name_def)
  obtain y s1 where y: "openWorkflowRun (cancelRequest r) s = (y, s1)" by fastforce
  have rest: "(case y of
        Inl e \<Rightarrow> if e = ErrWorkflowRunNameExists then GetWorkflowRunByName name else fail e
      | Inr new \<Rightarrow> ret new) s1 = (x, t)"
    using run y by (cases y) (auto simp: openCancelRun_def bnd_def attempt_def name_def split: if_splits)
  from openWorkflowRun_runs [OF y] show ?thesis
  proof (elim disjE exE conjE)
    fix e assume e: "y = Inl e" "w_db s1 = w_db s"
    show ?thesis
    proof (cases "e = ErrWorkflowRunNameExists")
      case True
      with rest e have get: "GetWorkflowRunByName name s1 = (x, t)" by simp
      have "w_db t = w_db s" using keeps_reads [OF keeps_GetWorkflowRunByName get] e by simp
      moreover have "(r_ID c, name) \<in> runNames (w_db s)" if "x = Inr c" for c
        using get that nonempty e by (auto simp: GetWorkflowRunByName_def runNames_def succ dest!: find_Some_in)
      ultimately show ?thesis by (auto simp: name_def intro: exI [of _ "[]"])
    next
      case False
      with rest e show ?thesis by (auto simp: fail_def intro: exI [of _ "[]"])
    qed
  next
    fix new
    assume new: "y = Inr new" "w_db s1 = (w_db s)\<lparr>d_runs := d_runs (w_db s) @ [new]\<rparr>"
      "\<forall>r \<in> set (d_runs (w_db s)). \<not> runClash new r" "r_Status new = RunPending" "r_Name (cancelRequest r) \<noteq> [] \<longrightarrow> r_Name new = r_Name (cancelRequest r)"
    have "r_Name new = name" using new(5) by (simp add: name_def)
    moreover have "x = Inr new" "t = s1" using rest new(1) by (simp_all add: ret_def)
    moreover have "distinct (map r_ID (d_runs (w_db s) @ [new]))" if "distinct (map r_ID (d_runs (w_db s)))"
      using that new(3) by (auto simp: runClash_def)
    ultimately show ?thesis using new by (auto simp: runNames_def name_def intro!: exI [of _ "[new]"])
  qed
qed

text \<open>
  One run of a sweep, when the table still holds a run of its id and name: rows of other ids stay,
  and the only row that may come out closed is the run's own, saved as \<open>closedRun\<close> with the id of a
  run that is in the table under the cancel name.
\<close>

definition cameFrom :: "instant \<Rightarrow> db \<Rightarrow> (string \<times> string) set \<Rightarrow> workflow_run \<Rightarrow> bool" where
  "cameFrom moment d names r \<longleftrightarrow> r \<in> set (d_runs d) \<or>
     (\<exists>r0 \<in> set (d_runs d). pastLimit moment r0 \<and> closable r0 \<and>
        r = withUnderWay (closedRun moment (r_CancelRunID r) r0) \<and>
        (r_CancelRunID r, r_Name r0 @ ''-closed'') \<in> names)"

lemma cameFrom_mono: "names \<subseteq> names' \<Longrightarrow> cameFrom moment d names r \<Longrightarrow> cameFrom moment d names' r"
  unfolding cameFrom_def by blast

definition sweepOk :: "instant \<Rightarrow> db \<Rightarrow> db \<Rightarrow> bool" where
  "sweepOk moment d d' \<longleftrightarrow> distinct (map r_ID (d_runs d')) \<and> runNames d \<subseteq> runNames d' \<and>
     (\<forall>r \<in> set (d_runs d). \<not> (pastLimit moment r \<and> closable r) \<longrightarrow> r \<in> set (d_runs d')) \<and>
     (\<forall>r \<in> set (d_runs d'). r_Status r = RunClosed \<longrightarrow> cameFrom moment d (runNames d') r)"

lemma closedRun_sel [simp]:
  "r_ID (closedRun m c r) = r_ID r" "r_Name (closedRun m c r) = r_Name r" "r_Status (closedRun m c r) = RunClosed"
  "r_CancelRunID (closedRun m c r) = c"
  by (simp_all add: closedRun_def)

lemma withUnderWay_cancelRun [simp]: "r_CancelRunID (withUnderWay r) = r_CancelRunID r"
  by (simp add: withUnderWay_def)

lemma closePastLimit_runs:
  assumes run: "closePastLimit moment r s = (x, t)"
  shows "\<exists>news. (\<forall>n \<in> set news. r_Status n = RunPending) \<and>
    (distinct (map r_ID (d_runs (w_db s))) \<longrightarrow> distinct (map r_ID (d_runs (w_db s) @ news))) \<and>
    (x \<noteq> Inr True \<and> d_runs (w_db t) = d_runs (w_db s) @ news \<or>
     x = Inr True \<and> closable r \<and> (\<exists>c. d_runs (w_db t) =
         updWhere (\<lambda>y. r_ID y = r_ID r) (\<lambda>_. withUnderWay (closedRun moment c r)) (d_runs (w_db s) @ news) \<and>
       (c, r_Name r @ ''-closed'') \<in> (\<lambda>y. (r_ID y, r_Name y)) ` set (d_runs (w_db s) @ news)))"
proof (cases "closable r")
  case False
  then have "t = s" "x = Inr False"
    using run by (auto simp: closePastLimit_def closable_def ret_def split: if_splits)
  then show ?thesis by (auto intro: exI [of _ "[]"])
next
  case True
  then have unf: "closePastLimit moment r = bnd (openCancelRun r) (\<lambda>cancelRun.
        let run' = closedRun moment (r_ID cancelRun) r
        in seq (saveRun run')
           (seq (cascadeTaskCancellation (r_ID run') (r_CancelReason run'))
           (seq (publishRunStatusEvent run' moment (r_CancelReason run'))
           (ret True))))"
    by (simp add: closePastLimit_def closable_def)
  obtain y s1 where y: "openCancelRun r s = (y, s1)" by fastforce
  from openCancelRun_runs [OF y] obtain news where
    news: "d_runs (w_db s1) = d_runs (w_db s) @ news" "\<forall>n \<in> set news. r_Status n = RunPending"
      "distinct (map r_ID (d_runs (w_db s))) \<longrightarrow> distinct (map r_ID (d_runs (w_db s) @ news))"
    and name: "\<forall>c. y = Inr c \<longrightarrow> (r_ID c, r_Name r @ ''-closed'') \<in> runNames (w_db s1)" by blast
  show ?thesis
  proof (cases y)
    case (Inl e)
    with run y unf news show ?thesis by (auto simp: bnd_def intro!: exI [of _ news])
  next
    case (Inr c)
    let ?run = "closedRun moment (r_ID c) r"
    obtain z s2 where z: "saveRun ?run s1 = (z, s2)" by fastforce
    show ?thesis
    proof (cases z)
      case (Inl e)
      from saveRun_Inl [OF z [unfolded Inl]] news have "d_runs (w_db s2) = d_runs (w_db s) @ news" by simp
      with run y unf Inr z Inl news show ?thesis by (auto simp: bnd_def seq_def Let_def intro!: exI [of _ news])
    next
      case z_Inr: (Inr u)
      from saveRun_Inr [OF z [unfolded z_Inr]] news
      have d2: "d_runs (w_db s2) = updWhere (\<lambda>y. r_ID y = r_ID r) (\<lambda>_. withUnderWay ?run) (d_runs (w_db s) @ news)" by simp
      obtain v s3 where v: "cascadeTaskCancellation (r_ID ?run) (r_CancelReason ?run) s2 = (Inr v, s3)"
        using surelyD [OF surely_cascade] by blast
      obtain w s4 where w: "publishRunStatusEvent ?run moment (r_CancelReason ?run) s3 = (Inr w, s4)"
        using surelyD [OF surely_publishRunStatusEvent] by blast
      have "x = Inr True" "t = s4" using run y unf Inr z z_Inr v w by (simp_all add: bnd_def seq_def Let_def ret_def)
      moreover have "d_runs (w_db s4) = d_runs (w_db s2)"
        using cascade_runs [OF v] publishRunStatusEvent_db [OF w] by simp
      ultimately show ?thesis using True d2 news name Inr by (auto simp: runNames_def intro!: exI [of _ news] exI [of _ "r_ID c"])
    qed
  qed
qed

lemma sweepOk_refl: "distinct (map r_ID (d_runs d)) \<Longrightarrow> sweepOk moment d d"
  by (simp add: sweepOk_def cameFrom_def)

lemma runNames_append: "runNames (d\<lparr>d_runs := rs @ news\<rparr>) = (\<lambda>y. (r_ID y, r_Name y)) ` (set rs \<union> set news)"
  by (simp add: runNames_def)

text \<open>A step on a run as it was read at the start, when it is the table's run of that id and name.\<close>

lemma sweepOk_step:
  assumes ok: "sweepOk moment d (w_db s)" and r: "r \<in> set (d_runs d)" "pastLimit moment r"
    and ids: "distinct (map r_ID (d_runs d))" and run: "closePastLimit moment r s = (x, t)"
  shows "sweepOk moment d (w_db t) \<and> (x = Inr True \<longrightarrow> closable r \<and>
    (\<exists>c. withUnderWay (closedRun moment c r) \<in> set (d_runs (w_db t))))"
proof -
  let ?rs = "d_runs (w_db s)" and ?names = "\<lambda>rs. (\<lambda>y. (r_ID y, r_Name y)) ` set rs"
  from closePastLimit_runs [OF run] ok obtain news where
    pending: "\<forall>n \<in> set news. r_Status n = RunPending" and dis: "distinct (map r_ID (?rs @ news))"
    and effect: "x \<noteq> Inr True \<and> d_runs (w_db t) = ?rs @ news \<or>
     x = Inr True \<and> closable r \<and> (\<exists>c. d_runs (w_db t) =
         updWhere (\<lambda>y. r_ID y = r_ID r) (\<lambda>_. withUnderWay (closedRun moment c r)) (?rs @ news) \<and>
       (c, r_Name r @ ''-closed'') \<in> ?names (?rs @ news))"
    unfolding sweepOk_def by blast
  have old: "?names (d_runs d) \<subseteq> ?names ?rs" using ok by (simp add: sweepOk_def runNames_def)
  from effect show ?thesis
  proof (elim disjE conjE exE)
    assume x: "x \<noteq> Inr True" and rows: "d_runs (w_db t) = ?rs @ news"
    have more: "?names ?rs \<subseteq> ?names (?rs @ news)" by auto
    have A: "cameFrom moment d (?names (?rs @ news)) y" if y: "y \<in> set (?rs @ news)" "r_Status y = RunClosed" for y
    proof -
      from y pending have "y \<in> set ?rs" by auto
      with ok y(2) have "cameFrom moment d (?names ?rs) y" by (simp add: sweepOk_def runNames_def)
      then show ?thesis by (rule cameFrom_mono [OF more])
    qed
    have B: "?names (d_runs d) \<subseteq> ?names (?rs @ news)" using old more by blast
    have C: "y \<in> set (?rs @ news)" if "y \<in> set (d_runs d)" "\<not> (pastLimit moment y \<and> closable y)" for y
      using ok that by (simp add: sweepOk_def)
    have "sweepOk moment d (w_db t)" unfolding sweepOk_def rows runNames_def
      by (intro conjI ballI impI; (rule dis | rule B | erule (1) C | erule (1) A))
    with x show ?thesis by simp
  next
    fix c
    assume x: "x = Inr True" and can: "closable r" and c: "(c, r_Name r @ ''-closed'') \<in> ?names (?rs @ news)"
      and rows: "d_runs (w_db t) =
         updWhere (\<lambda>y. r_ID y = r_ID r) (\<lambda>_. withUnderWay (closedRun moment c r)) (?rs @ news)"
    let ?new = "withUnderWay (closedRun moment c r)"
    have rid: "(r_ID r, r_Name r) \<in> ?names (?rs @ news)" using old r(1) by auto
    have one: "r_Name y = r_Name r" if "y \<in> set (?rs @ news)" "r_ID y = r_ID r" for y
    proof -
      from rid obtain z where z: "z \<in> set (?rs @ news)" "r_ID z = r_ID r" "r_Name z = r_Name r"
        by (elim imageE) (simp only: prod.inject)
      from distinct_key_eq [OF dis that(1) z(1)] that(2) z show ?thesis by simp
    qed
    have names: "?names (d_runs (w_db t)) = ?names (?rs @ news)"
      unfolding rows set_updWhere image_image using one by (intro image_cong) auto
    have ids': "map r_ID (d_runs (w_db t)) = map r_ID (?rs @ news)"
      unfolding rows by (rule map_updWhere_on) simp
    have kept: "y \<in> set (d_runs (w_db t))" if "y \<in> set (?rs @ news)" "r_ID y \<noteq> r_ID r" for y
      using that unfolding rows set_updWhere by (auto intro!: image_eqI [of y _ y])
    have came: "y = ?new \<or> y \<in> set (?rs @ news)" if "y \<in> set (d_runs (w_db t))" for y
      using that unfolding rows set_updWhere by auto
    have stay: "y \<in> set (d_runs (w_db t))" if "y \<in> set (d_runs d)" "\<not> (pastLimit moment y \<and> closable y)" for y
    proof -
      have "r_ID y \<noteq> r_ID r" using that r can distinct_key_eq [OF ids that(1) r(1)] by auto
      moreover have "y \<in> set ?rs" using ok that by (simp add: sweepOk_def)
      ultimately show ?thesis using kept by simp
    qed
    have mono: "?names ?rs \<subseteq> ?names (d_runs (w_db t))" unfolding names by auto
    have ended: "cameFrom moment d (?names (d_runs (w_db t))) y"
      if y: "y \<in> set (d_runs (w_db t))" "r_Status y = RunClosed" for y
    proof (cases "y = ?new")
      case True
      with r can c names show ?thesis unfolding cameFrom_def by (intro disjI2 bexI [of _ r]) simp_all
    next
      case False
      with came [OF y(1)] pending y(2) have "y \<in> set ?rs" by auto
      with ok y(2) have "cameFrom moment d (?names ?rs) y" by (simp add: sweepOk_def runNames_def)
      then show ?thesis by (rule cameFrom_mono [OF mono])
    qed
    have sub: "?names (d_runs d) \<subseteq> ?names (d_runs (w_db t))" unfolding names using old by auto
    have new: "?new \<in> set (d_runs (w_db t))"
    proof -
      from rid obtain z where "z \<in> set (?rs @ news)" "r_ID z = r_ID r" by (elim imageE) (simp only: prod.inject)
      then show ?thesis unfolding rows set_updWhere by (auto intro!: image_eqI [of _ _ z])
    qed
    have dis': "distinct (map r_ID (d_runs (w_db t)))" using ids' dis by simp
    have "sweepOk moment d (w_db t)" unfolding sweepOk_def runNames_def
      by (intro conjI ballI impI; (rule dis' | rule sub | erule (1) stay | erule (1) ended))
    with can new show ?thesis by blast
  qed
qed

lemma closeDue_ok:
  assumes "closeDue moment rs s = (Inr (ended, errs), t)" and "sweepOk moment d (w_db s)"
    and "\<forall>r \<in> set rs. r \<in> set (d_runs d) \<and> pastLimit moment r" and ids: "distinct (map r_ID (d_runs d))"
  shows "sweepOk moment d (w_db t) \<and> set ended \<subseteq> {r \<in> set rs. closable r}"
  using assms(1-3)
proof (induction rs arbitrary: s ended errs)
  case (Cons r rs)
  obtain x s1 where x: "closePastLimit moment r s = (x, s1)" by fastforce
  from Cons.prems(1) x obtain rest where rest: "closeDue moment rs s1 = (Inr rest, t)"
    and out: "(ended, errs) = (case x of Inl e \<Rightarrow> (fst rest, e # snd rest)
          | Inr d \<Rightarrow> (if d then r # fst rest else fst rest, snd rest))"
    by (auto simp: bnd_Inr attempt_Inr ret_Inr)
  note step = sweepOk_step [OF Cons.prems(2) _ _ ids x]
  have "sweepOk moment d (w_db s1)" "x = Inr True \<longrightarrow> closable r" using step Cons.prems(3) by auto
  with Cons.IH [of s1 "fst rest" "snd rest"] rest Cons.prems(3) out show ?case
    by (cases x) (auto split: if_splits)
qed (simp add: ret_Inr)

lemma CloseWorkflowRunsPastLimit_ok:
  assumes run: "CloseWorkflowRunsPastLimit asOf s = (Inr (ended, errs), t)"
    and ids: "distinct (map r_ID (d_runs (w_db s)))"
  shows "\<exists>moment. (asOf \<noteq> [] \<longrightarrow> parseRFC3339 asOf = Some moment) \<and> sweepOk moment (w_db s) (w_db t)"
proof -
  from run obtain now s0 moment s1 rows s2 swept s3 out where now: "nowT s = (Inr now, s0)"
    and m: "(if asOf \<noteq> []
          then (case parseRFC3339 asOf of None \<Rightarrow> fail ErrInvalidTask | Some parsed \<Rightarrow> ret parsed)
          else ret now) s0 = (Inr moment, s1)"
    and sel: "selectQ runsT (pastLimit moment) s1 = (Inr rows, s2)"
    and sweep: "closeDue moment (take maxListPage (sortBy (\<lambda>a b. r_StepDueAt a < r_StepDueAt b) rows)) s2 = (Inr swept, s3)"
    and fresh: "reread (fst swept) s3 = (Inr out, t)"
    unfolding CloseWorkflowRunsPastLimit_def bnd_Inr ret_Inr by blast
  have parsed: "asOf \<noteq> [] \<longrightarrow> parseRFC3339 asOf = Some moment" and s1: "w_db s1 = w_db s"
    using m now by (auto simp: succ split: if_splits option.splits)
  note sel' = selectQ_run [OF sel]
  have t: "w_db t = w_db s3" by (rule keeps_reads [OF keeps_reread fresh])
  have due: "r \<in> set (d_runs (w_db s)) \<and> pastLimit moment r"
    if "r \<in> set (take maxListPage (sortBy (\<lambda>a b. r_StepDueAt a < r_StepDueAt b) rows))" for r
    using in_set_takeD [OF that] sel' s1 by simp
  have "sweepOk moment (w_db s) (w_db s2)" using sel' s1 ids by (simp add: sweepOk_refl)
  with closeDue_ok [of moment _ s2 "fst swept" "snd swept" s3 "w_db s"] sweep due ids
  have ok: "sweepOk moment (w_db s) (w_db t)" unfolding t by simp
  with parsed show ?thesis by blast
qed

lemma sweep_keeps:
  assumes "CloseWorkflowRunsPastLimit asOf s = (Inr (ended, errs), t)" and "distinct (map r_ID (d_runs (w_db s)))"
    and "r \<in> set (d_runs (w_db s))" and "\<And>moment. \<not> (pastLimit moment r \<and> closable r)"
  shows "r \<in> set (d_runs (w_db t))"
  using CloseWorkflowRunsPastLimit_ok [OF assms(1,2)] assms(3,4) unfolding sweepOk_def by blast

section \<open>Properties\<close>


text \<open>A run in progress whose step was due at the epoch, and the workflow to run instead.\<close>

definition dueRun :: workflow_run where
  "dueRun = (runWith ''r'' RunInProgress)\<lparr>r_Name := ''p'', r_UnderWay := True, r_CurrentStepID := ''s'',
     r_StepDueAt := ''1970-01-01T00:00:00Z'', r_StepCancelWorkflowCode := ''undo''\<rparr>"

definition dueDb :: db where
  "dueDb = emptyDb\<lparr>d_runs := [dueRun]\<rparr>"

lemma CloseWorkflowRunsPastLimit_quiet:
  assumes "quiet s"
  shows "\<exists>out t. CloseWorkflowRunsPastLimit [] s = (Inr out, t)"
proof -
  obtain now s0 where now: "nowT s = (Inr now, s0)" and q0: "quiet s0" using fineD [OF fine_basic(2) assms] by blast
  obtain rows s1 where rows: "selectQ runsT (pastLimit now) s0 = (Inr rows, s1)"
    using fineD [OF fine_statements(1) q0] by blast
  obtain swept s2 where sweep: "closeDue now (take maxListPage (sortBy (\<lambda>a b. r_StepDueAt a < r_StepDueAt b) rows)) s1 = (Inr swept, s2)"
    using surelyD [OF surely_closeDue] by blast
  have "surely (collect runs (\<lambda>run. bnd (attempt (GetWorkflowRun (r_ID run))) (\<lambda>fresh.
       ret (case fresh of Inl _ \<Rightarrow> None | Inr r \<Rightarrow> Some r))))" for runs
    by (induction runs) (simp_all add: surely_intros)
  then have "surely (reread (fst swept))" by (simp add: reread_def)
  from surelyD [OF this] obtain out t where "reread (fst swept) s2 = (Inr out, t)" by blast
  with now rows sweep show ?thesis by (simp add: CloseWorkflowRunsPastLimit_def bnd_def ret_def)
qed


text \<open>
  An answered step is safe: once a run's step is answered, a later sweep at any moment leaves the
  run as the answer left it.
\<close>

lemma AnswerWorkflowRunStep_safe:
  assumes answer: "AnswerWorkflowRunStep i s = (Inr run, s1)" and way: "runsUnderWay (w_db s)"
    and ids: "distinct (map r_ID (d_runs (w_db s)))" and sweep: "CloseWorkflowRunsPastLimit asOf s1 = (Inr out, t)"
  shows "\<exists>row. List.find (\<lambda>r. r_ID r = i) (d_runs (w_db s1)) = Some row \<and> row \<in> set (d_runs (w_db t)) \<and>
    (r_StepDueAt row = [] \<or> IsTerminal (r_Status row))"
proof -
  from answer obtain r s0 where get: "GetWorkflowRun i s = (Inr r, s0)"
    and rest: "(if r_StepDueAt r = [] \<or> IsTerminal (r_Status r) then ret r
     else
       bnd nowStr (\<lambda>now.
       let run' = r\<lparr>r_StepDueAt := [], r_StepCancelWorkflowCode := [], r_UpdatedAt := now\<rparr>
       in seq (saveRun run') (ret run'))) s0 = (Inr run, s1)"
    unfolding AnswerWorkflowRunStep_def bnd_Inr by blast
  note r = GetWorkflowRun_Inr [OF get]
  have id: "r_ID r = i" using r by (auto dest: find_Some_in)
  have "\<exists>row. List.find (\<lambda>r. r_ID r = i) (d_runs (w_db s1)) = Some row \<and> (r_StepDueAt row = [] \<or> IsTerminal (r_Status row)) \<and>
    map r_ID (d_runs (w_db s1)) = map r_ID (d_runs (w_db s)) \<and>
    (row \<in> set (d_runs (w_db s)) \<or> r_UnderWay row = (\<not> IsTerminal (r_Status row)))"
  proof (cases "r_StepDueAt r = [] \<or> IsTerminal (r_Status r)")
    case True
    with rest r show ?thesis by (auto simp: ret_Inr dest: find_Some_in)
  next
    case False
    then obtain now s2 u where now: "nowStr s0 = (Inr now, s2)"
      and save: "saveRun (r\<lparr>r_StepDueAt := [], r_StepCancelWorkflowCode := [], r_UpdatedAt := now\<rparr>) s2 = (Inr u, s1)"
      using rest by (auto simp: bnd_Inr seq_Inr ret_Inr Let_def)
    let ?new = "withUnderWay (r\<lparr>r_StepDueAt := [], r_StepCancelWorkflowCode := [], r_UpdatedAt := now\<rparr>)"
    have rows: "d_runs (w_db s1) = updWhere (\<lambda>x. r_ID x = i) (\<lambda>_. ?new) (d_runs (w_db s))"
      using saveRun_Inr [OF save] nowStr_run [OF now] r id by simp
    have "List.find (\<lambda>x. r_ID x = i) (d_runs (w_db s1)) = Some ?new"
      unfolding rows using r id by (simp add: find_updWhere)
    moreover have "map r_ID (d_runs (w_db s1)) = map r_ID (d_runs (w_db s))"
      unfolding rows by (rule map_updWhere_on) (simp add: id)
    ultimately show ?thesis by (auto simp: withUnderWay_def)
  qed
  then obtain row where row: "List.find (\<lambda>r. r_ID r = i) (d_runs (w_db s1)) = Some row"
    and answered: "r_StepDueAt row = [] \<or> IsTerminal (r_Status row)"
    and same: "map r_ID (d_runs (w_db s1)) = map r_ID (d_runs (w_db s))"
    and flag: "row \<in> set (d_runs (w_db s)) \<or> r_UnderWay row = (\<not> IsTerminal (r_Status row))" by blast
  have "r_UnderWay row = (\<not> IsTerminal (r_Status row))" using flag way by (auto simp: runsUnderWay_def)
  with answered have safe: "\<not> (pastLimit moment row \<and> closable row)" for moment by (auto simp: pastLimit_def)
  obtain ended errs where out: "out = (ended, errs)" by (cases out)
  have "row \<in> set (d_runs (w_db t))"
    using sweep_keeps [OF sweep [unfolded out]] same ids safe find_Some_in [OF row] by auto
  with row answered show ?thesis by blast
qed

lemma wrap64_over:
  assumes "2 ^ 63 \<le> x" and "x < 2 ^ 64"
  shows "wrap64 x = x - 2 ^ 64"
proof -
  have "wrap64 x = (x + 2 ^ 63) mod 2 ^ 64 - 2 ^ 63"
    by (simp add: wrap64_def sint_sbintrunc' signed_take_bit_eq_take_bit_shift take_bit_eq_mod)
  also have "(x + 2 ^ 63) mod 2 ^ 64 = x + 2 ^ 63 - 2 ^ 64"
  proof -
    have "x + 2 ^ 63 = (x - 2 ^ 63) + 2 ^ 64" by simp
    then have "(x + 2 ^ 63) mod 2 ^ 64 = (x - 2 ^ 63) mod 2 ^ 64" by (simp only: mod_add_self2)
    also have "\<dots> = x - 2 ^ 63" using assms by (intro mod_pos_pos_trivial) simp_all
    finally show ?thesis by simp
  qed
  finally show ?thesis by simp
qed



lemma AnswerWorkflowRunStep_safe_example:
  "\<exists>run s1 out t. AnswerWorkflowRunStep ''r'' (worldOf dueDb) = (Inr run, s1) \<and>
     CloseWorkflowRunsPastLimit [] s1 = (Inr out, t) \<and> (\<exists>row \<in> set (d_runs (w_db t)). r_StepDueAt row = [] \<or> IsTerminal (r_Status row))"
proof -
  have get: "GetWorkflowRun ''r'' (worldOf dueDb) = (Inr dueRun, worldOf dueDb)"
    by (simp add: GetWorkflowRun_def takeQ_calm dueDb_def) (simp add: dueRun_def)
  have due: "r_StepDueAt dueRun \<noteq> []" "\<not> IsTerminal (r_Status dueRun)" by (simp_all add: dueRun_def IsTerminal_def)
  have fine: "fine (bnd nowStr (\<lambda>now. let run' = dueRun\<lparr>r_StepDueAt := [], r_StepCancelWorkflowCode := [], r_UpdatedAt := now\<rparr>
       in seq (saveRun run') (ret run')))" unfolding Let_def by (intro fine_intros)
  from fineD [OF fine quiet_worldOf, of dueDb] get due obtain run s1 where
    answer: "AnswerWorkflowRunStep ''r'' (worldOf dueDb) = (Inr run, s1)" and q: "quiet s1"
    by (auto simp: AnswerWorkflowRunStep_def bnd_def)
  obtain out t where sweep: "CloseWorkflowRunsPastLimit [] s1 = (Inr out, t)"
    using CloseWorkflowRunsPastLimit_quiet [OF q] by blast
  have way: "runsUnderWay (w_db (worldOf dueDb))" by (simp add: runsUnderWay_def dueDb_def dueRun_def IsTerminal_def)
  have ids: "distinct (map r_ID (d_runs (w_db (worldOf dueDb))))" by (simp add: dueDb_def)
  from AnswerWorkflowRunStep_safe [OF answer way ids sweep] answer sweep show ?thesis by blast
qed

end
