(* ===== verification/Watchdog.thy ===== *)
theory Watchdog
  imports Run_Rollback
begin

text \<open>
  \<open>workflow_run_watchdog.go\<close>: the queries a sweeper asks for runs that went quiet, and the two
  handlers of the timeouts it publishes. A run timeout fails the run and then each of its tasks by an
  ordinary update, so a task whose status may not become failed is passed over.
\<close>

definition staleSince :: "string \<Rightarrow> workflow_run \<Rightarrow> bool" where
  "staleSince cutoff r \<longleftrightarrow>
     r_PausedAt r = [] \<and> \<not> r_TimeoutPublished r \<and> r_LastEventAt r \<noteq> [] \<and> r_LastEventAt r < cutoff"

definition ListWorkflowRunsStaleSince :: "instant \<Rightarrow> workflow_run list tm" where
  "ListWorkflowRunsStaleSince cutoff =
     bnd (selectQ runsT (staleSince (fmtRFC3339 cutoff))) (\<lambda>rows.
     ret (filter (\<lambda>r. \<not> IsTerminal (r_Status r)) (take maxListPage rows)))"

definition stepStaleSince :: "string \<Rightarrow> workflow_run \<Rightarrow> bool" where
  "stepStaleSince cutoff r \<longleftrightarrow>
     r_PausedAt r = [] \<and> r_CurrentStepID r \<noteq> [] \<and> r_CurrentStepStartedAt r \<noteq> [] \<and>
     r_CurrentStepStartedAt r < cutoff"

definition ListWorkflowRunsStepStaleSince :: "instant \<Rightarrow> workflow_run list tm" where
  "ListWorkflowRunsStepStaleSince cutoff =
     bnd (selectQ runsT (stepStaleSince (fmtRFC3339 cutoff))) (\<lambda>rows.
     ret (filter (\<lambda>r. \<not> IsTerminal (r_Status r)) (take maxListPage rows)))"

definition MarkTimeoutPublished :: "string \<Rightarrow> unit tm" where
  "MarkTimeoutPublished runID =
     seq (updateQ runsT (\<lambda>r. r_ID r = runID) (\<lambda>r. r\<lparr>r_TimeoutPublished := True\<rparr>)) (ret ())"

definition ListTasksForRun :: "string \<Rightarrow> task list tm" where
  "ListTasksForRun runID = ListTasks (task_filter0\<lparr>tf_WorkflowRunID := runID\<rparr>)"

text \<open>A task of a run that timed out; the error of its update is dropped.\<close>

definition failTask :: "string \<Rightarrow> task \<Rightarrow> unit tm" where
  "failTask runID t =
     (if t_Status t = TaskStatusCompleted \<or> t_Status t = TaskStatusFailed \<or> t_Status t = TaskStatusCancelled then ret ()
      else
        bnd (attempt (UpdateTask (t\<lparr>t_Status := TaskStatusFailed\<rparr>))) (\<lambda>updated.
        case updated of
          Inl _ \<Rightarrow> ret ()
        | Inr _ \<Rightarrow> publish (TaskFailedEv (t_ID t) ''run_timeout'' runID)))"

definition HandleRunTimeout :: "string \<Rightarrow> unit tm" where
  "HandleRunTimeout runID =
     bnd (attempt (GetWorkflowRun runID)) (\<lambda>got.
     case got of
       Inl e \<Rightarrow> if e = ErrWorkflowRunNotFound then ret () else fail e
     | Inr run \<Rightarrow>
         if IsTerminal (r_Status run) then ret ()
         else
           seq (UpdateWorkflowRunStatus runID RunFailed ''stale'')
           (bnd (attempt (ListTasksForRun runID)) (\<lambda>tasks.
            forEach (case tasks of Inl _ \<Rightarrow> [] | Inr ts \<Rightarrow> ts) (failTask runID))))"

definition HandleTaskTimeout :: "string \<Rightarrow> string \<Rightarrow> unit tm" where
  "HandleTaskTimeout taskOrTodoID runID =
     bnd (attempt (GetTask taskOrTodoID)) (\<lambda>got.
     case got of
       Inl e \<Rightarrow> if e = ErrTaskNotFound then ret () else fail e
     | Inr task \<Rightarrow>
         if t_Status task = TaskStatusCompleted \<or> t_Status task = TaskStatusFailed \<or> t_Status task = TaskStatusCancelled
         then ret ()
         else
           seq (UpdateTask (task\<lparr>t_Status := TaskStatusFailed\<rparr>))
             (publish (TaskFailedEv taskOrTodoID ''step_timeout'' runID)))"

section \<open>Frames\<close>

lemma keeps_stale_reads [keeps_intros]:
  "keeps I (ListWorkflowRunsStaleSince c)" "keeps I (ListWorkflowRunsStepStaleSince c)" "keeps I (ListTasksForRun i)"
  unfolding ListWorkflowRunsStaleSince_def ListWorkflowRunsStepStaleSince_def ListTasksForRun_def
  by (intro keeps_intros)+

lemma keeps_failTask: "keeps I (UpdateTask (t\<lparr>t_Status := TaskStatusFailed\<rparr>)) \<Longrightarrow> keeps I (failTask r t)"
  unfolding failTask_def by (intro keeps_intros)

lemma keeps_HandleRunTimeout:
  assumes "keeps I (setRunStatus i RunFailed ''stale'')" and "\<And>t. keeps I (UpdateTask (t\<lparr>t_Status := TaskStatusFailed\<rparr>))"
  shows "keeps I (HandleRunTimeout i)"
  unfolding HandleRunTimeout_def UpdateWorkflowRunStatus_def rollbackOwned_def
  by (intro keeps_intros keeps_failTask assms)

lemma keeps_HandleTaskTimeout:
  "(\<And>t. keeps I (UpdateTask (t\<lparr>t_Status := TaskStatusFailed\<rparr>))) \<Longrightarrow> keeps I (HandleTaskTimeout i r)"
  unfolding HandleTaskTimeout_def by (intro keeps_intros) (auto split: sum.split intro!: keeps_intros)

text \<open>A rejected update changes no table, whatever the fault schedule.\<close>

lemma UpdateTask_rejected:
  assumes "\<forall>row \<in> set (d_tasks (w_db s)). liveTask (t_ID task) row \<longrightarrow>
      \<not> (t_Status row = t_Status task \<or> CanTransitionTo (t_Status row) (t_Status task))"
    and "UpdateTask task s = (r, t)"
  shows "w_db t = w_db s"
proof -
  obtain g s1 where g: "GetTask (t_ID task) s = (g, s1)" by fastforce
  have s1: "w_db s1 = w_db s" by (rule keeps_reads [OF keeps_GetTask g])
  show ?thesis
  proof (cases g)
    case (Inl e)
    with g s1 assms(2) show ?thesis by (simp add: UpdateTask_def bnd_def)
  next
    case (Inr current)
    from GetTask_Inr [OF g [unfolded Inr]] obtain row where
      row: "List.find (liveTask (t_ID task)) (d_tasks (w_db s)) = Some row" and same: "sameRow row current" by auto
    from find_Some_in [OF row] assms(1) have
      "\<not> (t_Status current = t_Status task \<or> CanTransitionTo (t_Status current) (t_Status task))"
      using sameRow_fields [OF same] by auto
    with g Inr s1 assms(2) show ?thesis by (simp add: UpdateTask_def bnd_def seq_def unless_def fail_def)
  qed
qed

text \<open>An update of another task leaves the status of a task alone.\<close>

definition allStatus :: "string \<Rightarrow> task_status \<Rightarrow> db \<Rightarrow> bool" where
  "allStatus i st d \<longleftrightarrow> (\<forall>x \<in> set (d_tasks d). t_ID x = i \<longrightarrow> t_Status x = st)"

lemma allStatus_ignores [keeps_intros]:
  "ignores sequencesT (allStatus i st)" "ignores tagsT (allStatus i st)" "ignores taggingsT (allStatus i st)"
  "ignores casesT (allStatus i st)" "ignores runsT (allStatus i st)"
  by (simp_all add: ignores_def allStatus_def)

lemma allStatus_writeFK: "allStatus i st d \<Longrightarrow> allStatus i st (writeFK c j v d)"
  by (cases c) (auto simp: allStatus_def writeCol_def set_updWhere)

lemma UpdateTask_allStatus:
  assumes no: "\<not> (st = t_Status task \<or> CanTransitionTo st (t_Status task))"
  shows "keeps (allStatus i st) (UpdateTask task)"
proof (cases "t_ID task = i")
  case True
  show ?thesis
  proof (rule keepsI)
    fix s :: world
    assume all: "allStatus i st (w_db s)"
    obtain r t where run: "UpdateTask task s = (r, t)" by fastforce
    have "w_db t = w_db s"
      by (rule UpdateTask_rejected [OF _ run]) (use all no True in \<open>auto simp: allStatus_def liveTask_def\<close>)
    with all run show "allStatus i st (w_db (snd (UpdateTask task s)))" by simp
  qed
next
  case False
  show ?thesis
  proof (rule keeps_UpdateTask, rule keeps_applyUpdate)
    fix current :: task and now :: string
    show "keeps (allStatus i st) (updateQ tasksT (liveTask (t_ID task)) (\<lambda>_. taskRow (mergedTask current task now)))"
      by (rule keeps_updateQ) (use False in \<open>auto simp: allStatus_def set_updWhere liveTask_def\<close>)
  qed (simp_all add: allStatus_ignores allStatus_writeFK del: writeFK.simps)
qed

lemma UpdateTask_runs: "keeps (\<lambda>d. d_runs d = x) (UpdateTask task)"
proof (rule keeps_UpdateTask, rule keeps_applyUpdate)
  show "d_runs (writeFK TaskWorkflowRunID j v d) = x" if "d_runs d = x" for j v d
    using that by (simp add: writeCol_def)
  show "keeps (\<lambda>d. d_runs d = x) (updateQ tasksT (liveTask (t_ID task)) (\<lambda>_. taskRow (mergedTask current task now)))"
    for current now by (rule keeps_ignored_update) (simp add: ignores_def)
qed (simp_all add: ignores_def)

section \<open>Properties\<close>

text \<open>
  A timeout that goes through fails the run, and fails only the tasks that may: a task whose
  status may not become failed (pending, blocked, awaiting direction) keeps it, although its run has
  failed; and a run that was over keeps its row.
\<close>

lemma HandleRunTimeout_fails:
  assumes run: "HandleRunTimeout i s = (Inr (), t)" and row: "List.find (\<lambda>r. r_ID r = i) (d_runs (w_db s)) = Some r"
  shows "(if IsTerminal (r_Status r) then w_db t = w_db s
      else \<exists>r'. List.find (\<lambda>r. r_ID r = i) (d_runs (w_db t)) = Some r' \<and> r_Status r' = RunFailed \<and> \<not> r_UnderWay r') \<and>
    (\<forall>j st. \<not> CanTransitionTo st TaskStatusFailed \<and> st \<noteq> TaskStatusFailed \<and> allStatus j st (w_db s) \<longrightarrow> allStatus j st (w_db t))"
proof -
  obtain g s1 where g: "GetWorkflowRun i s = (g, s1)" by fastforce
  have s1: "w_db s1 = w_db s" by (rule keeps_reads [OF keeps_GetWorkflowRun g])
  have status: "keeps (allStatus j st) (HandleRunTimeout i)"
    if "\<not> CanTransitionTo st TaskStatusFailed \<and> st \<noteq> TaskStatusFailed" for j st
  proof (rule keeps_HandleRunTimeout)
    show "keeps (allStatus j st) (setRunStatus i RunFailed ''stale'')"
      unfolding setRunStatus_def saveRun_def Let_def by (intro keeps_intros)
  qed (use that in \<open>auto intro: UpdateTask_allStatus\<close>)
  have "if IsTerminal (r_Status r) then w_db t = w_db s
      else \<exists>r'. List.find (\<lambda>r. r_ID r = i) (d_runs (w_db t)) = Some r' \<and> r_Status r' = RunFailed \<and> \<not> r_UnderWay r'"
  proof (cases g)
    case (Inl e)
    with g have "e = ErrDatabase" using row by (auto simp: GetWorkflowRun_def dest!: statement_Inl(2))
    with run g Inl show ?thesis by (simp add: HandleRunTimeout_def bnd_def attempt_def fail_def)
  next
    case (Inr r0)
    with GetWorkflowRun_Inr [of i s r0 s1] g row have r0: "r0 = r" by simp
    show ?thesis
    proof (cases "IsTerminal (r_Status r)")
      case True
      with run g Inr r0 s1 show ?thesis by (simp add: HandleRunTimeout_def bnd_def attempt_def ret_def)
    next
      case False
      with run g Inr r0 obtain run' s2 ts s3 where upd: "UpdateWorkflowRunStatus i RunFailed ''stale'' s1 = (Inr run', s2)"
        and list: "ListTasksForRun i s2 = (ts, s3)"
        and loop: "forEach (case ts of Inl _ \<Rightarrow> [] | Inr ts \<Rightarrow> ts) (failTask i) s3 = (Inr (), t)"
        by (auto simp: HandleRunTimeout_def bnd_Inr seq_Inr attempt_Inr)
      from upd have set: "setRunStatus i RunFailed ''stale'' s1 = (Inr run', s2)"
        by (simp add: UpdateWorkflowRunStatus_def rollbackOwned_def)
      have "w_db s3 = w_db s2" by (rule keeps_reads [OF keeps_stale_reads(3) list])
      moreover have "keeps (\<lambda>d. d_runs d = x) (forEach us (failTask i))" for x us
        by (intro keeps_forEach keeps_failTask UpdateTask_runs)
      ultimately have "d_runs (w_db t) = d_runs (w_db s2)"
        using keepsD [of "\<lambda>d. d_runs d = d_runs (w_db s3)" "forEach (case ts of Inl _ \<Rightarrow> [] | Inr ts \<Rightarrow> ts) (failTask i)" s3] loop
        by simp
      moreover from setRunStatus_Inr [OF set] s1 have
        d2: "d_runs (w_db s2) = updWhere (\<lambda>r. r_ID r = i) (\<lambda>_. withUnderWay run') (d_runs (w_db s))"
        and run': "r_ID run' = i" "r_Status run' = RunFailed" by auto
      moreover have "List.find (\<lambda>r. r_ID r = i) (d_runs (w_db s2)) = Some (withUnderWay run')"
        unfolding d2 using row run' by (auto simp: find_updWhere dest: find_Some_in)
      ultimately show ?thesis using False by (simp add: IsTerminal_def)
    qed
  qed
  moreover have "allStatus j st (w_db t)" if "\<not> CanTransitionTo st TaskStatusFailed \<and> st \<noteq> TaskStatusFailed" "allStatus j st (w_db s)" for j st
    using keepsD [OF status [OF that(1)] that(2)] run by simp
  ultimately show ?thesis by blast
qed

lemma HandleRunTimeout_quiet:
  assumes quiet: "quiet s" and row: "List.find (\<lambda>r. r_ID r = i) (d_runs (w_db s)) = Some r"
    and can: "\<not> IsTerminal (r_Status r)" "RunCanTransitionTo (r_Status r) RunFailed"
  shows "\<exists>t. HandleRunTimeout i s = (Inr (), t)"
proof -
  have get: "GetWorkflowRun i s = (Inr r, s)" using quiet row by (simp add: GetWorkflowRun_def takeQ_calm quiet_def)
  obtain run' s1 where set: "setRunStatus i RunFailed ''stale'' s = (Inr run', s1)"
    using setRunStatus_quiet [OF quiet row can(2)] by blast
  obtain ts s2 where list: "ListTasksForRun i s1 = (ts, s2)" by fastforce
  have "surely (failTask i u)" for u unfolding failTask_def by (intro surely_intros)
  then have "surely (forEach us (failTask i))" for us by (intro surely_forEach)
  from surelyD [OF this] obtain t where "forEach (case ts of Inl _ \<Rightarrow> [] | Inr ts \<Rightarrow> ts) (failTask i) s2 = (Inr (), t)" by fastforce
  with get set list can(1) show ?thesis
    by (auto simp: HandleRunTimeout_def bnd_def seq_def attempt_def UpdateWorkflowRunStatus_def rollbackOwned_def)
qed

text \<open>A run in progress with a task that has not started.\<close>

lemma HandleRunTimeout_fails_example:
  "\<exists>t r'. HandleRunTimeout ''r'' (worldOf (emptyDb\<lparr>d_runs := [runWith ''r'' RunInProgress],
       d_tasks := [(taskWith ''u'' TaskStatusPending)\<lparr>t_WorkflowRunID := ''r''\<rparr>]\<rparr>)) = (Inr (), t) \<and>
     List.find (\<lambda>r. r_ID r = ''r'') (d_runs (w_db t)) = Some r' \<and> r_Status r' = RunFailed \<and>
     allStatus ''u'' TaskStatusPending (w_db t)"
proof -
  let ?d = "emptyDb\<lparr>d_runs := [runWith ''r'' RunInProgress],
       d_tasks := [(taskWith ''u'' TaskStatusPending)\<lparr>t_WorkflowRunID := ''r''\<rparr>]\<rparr>"
  have row: "List.find (\<lambda>r. r_ID r = ''r'') (d_runs (w_db (worldOf ?d))) = Some (runWith ''r'' RunInProgress)" by simp
  have way: "\<not> IsTerminal (r_Status (runWith ''r'' RunInProgress))" by (simp add: IsTerminal_def)
  obtain t where run: "HandleRunTimeout ''r'' (worldOf ?d) = (Inr (), t)"
    using HandleRunTimeout_quiet [OF quiet_worldOf row way] by auto
  have "allStatus ''u'' TaskStatusPending (w_db (worldOf ?d))" by (simp add: allStatus_def)
  with HandleRunTimeout_fails [OF run row] way run show ?thesis by auto
qed

end
