(* ===== verification/Case_End.thy ===== *)
theory Case_End
  imports Run_Cancel
begin

text \<open>
  Ending a case by hand (\<open>EndCase\<close> of \<open>case.go\<close>): done, when all its live tasks are settled, or
  cancelled, which cancels those that are not. The case is closed first; the tasks follow, one by one,
  outside a transaction.
\<close>

definition cancelOpenTask :: "task \<Rightarrow> unit tm" where
  "cancelOpenTask t = (if settlesCase (t_Status t) then ret () else cancelTask t ''case cancelled'')"

definition endedCase :: "case_status \<Rightarrow> string \<Rightarrow> string \<Rightarrow> case_rec \<Rightarrow> case_rec" where
  "endedCase status reply now c = c\<lparr>c_Status := status, c_Reply := reply, c_ClosedAt := now, c_UpdatedAt := now\<rparr>"

definition EndCase :: "string \<Rightarrow> case_status \<Rightarrow> string \<Rightarrow> case_rec tm" where
  "EndCase caseID status reply =
     seq (unless (status = CaseStatusDone \<or> status = CaseStatusCancelled) ErrInvalidCase)
     (bnd (GetCase caseID) (\<lambda>c.
      seq (unless (c_Status c = CaseStatusOpen) ErrCaseNotOpen)
      (bnd (liveCaseTasks caseID) (\<lambda>tasks.
       seq (unless (status = CaseStatusDone \<longrightarrow> list_all (\<lambda>t. settlesCase (t_Status t)) tasks) ErrCaseHasOpenTask)
       (bnd nowStr (\<lambda>now.
        bnd (updateQ casesT (\<lambda>c. c_ID c = caseID \<and> c_Status c = CaseStatusOpen) (endedCase status reply now)) (\<lambda>n.
        seq (unless (n \<noteq> 0) ErrCaseNotOpen)
        (seq (whenM (status = CaseStatusCancelled) (forEach tasks cancelOpenTask))
        (seq (publish (CaseClosed caseID status now))
        (GetCase caseID)))))))))) "

lemma steady_EndCase [steady_intros]: "steady (EndCase i st r)"
  unfolding EndCase_def cancelOpenTask_def by (intro steady_intros)

text \<open>The live row of a task is settled, or in a status of no transition.\<close>

definition taskSettled :: "string \<Rightarrow> db \<Rightarrow> bool" where
  "taskSettled j d \<longleftrightarrow> (\<forall>row. List.find (liveTask j) (d_tasks d) = Some row \<longrightarrow>
     settlesCase (t_Status row) \<or> \<not> knownTaskStatuses (t_Status row))"

lemma find_live_other:
  "i \<noteq> j \<Longrightarrow> t_ID new = i \<Longrightarrow>
   List.find (liveTask j) (updWhere (\<lambda>t. t_ID t = i) (\<lambda>_. new) ts) = List.find (liveTask j) ts"
  by (induction ts) (auto simp: liveTask_def)

lemma find_live_same:
  "t_ID new = j \<Longrightarrow> List.find (liveTask j) (updWhere (\<lambda>t. t_ID t = j) (\<lambda>_. new) ts) = Some row \<Longrightarrow> row = new"
  by (induction ts) (auto simp: liveTask_def split: if_splits)

text \<open>Whatever happens in the cancelling of a task, a settled task stays settled.\<close>

lemma cancelTask_settled: "keeps (taskSettled j) (cancelTask u reason)"
proof (rule keeps_cancelTask)
  fix now
  let ?new = "taskRow (cancelledTask now u)"
  show "keeps (taskSettled j) (updateQ tasksT (\<lambda>t. t_ID t = t_ID u) (\<lambda>_. ?new))"
  proof (rule keeps_updateQ)
    fix d assume ok: "taskSettled j d"
    have new: "t_ID ?new = t_ID u" "t_Status ?new = TaskStatusCancelled" by (simp_all add: cancelledTask_def)
    show "taskSettled j (snd tasksT (updWhere (\<lambda>t. t_ID t = t_ID u) (\<lambda>_. ?new)) d)"
    proof (cases "t_ID u = j")
      case True
      with find_live_same [of ?new j "d_tasks d"] new show ?thesis
        by (auto simp: taskSettled_def settlesCase_def)
    next
      case False
      with ok find_live_other [of "t_ID u" j ?new "d_tasks d"] new show ?thesis by (simp add: taskSettled_def)
    qed
  qed
qed (simp add: ignores_def taskSettled_def)

lemma cancelTask_settles:
  assumes run: "cancelTask u reason s = (Inr x, t)" and can: "CanTransitionTo (t_Status u) TaskStatusCancelled"
  shows "taskSettled (t_ID u) (w_db t)"
proof -
  from run can obtain now s1 n s2 s3 where now: "nowStr s = (Inr now, s1)"
    and upd: "updateQ tasksT (\<lambda>t. t_ID t = t_ID u) (\<lambda>_. taskRow (cancelledTask now u)) s1 = (Inr n, s2)"
    and pub: "publish (TaskCancelledEv (t_ID u) (t_WorkflowRunID u) reason) s2 = (Inr (), s3)"
    and tail: "seq (attempt (closeCaseIfSettled (t_ID u))) (ret ()) s3 = (Inr x, t)"
    by (auto simp: cancelTask_def bnd_Inr seq_Inr [where m = "updateQ T P f" for T P f] seq_Inr [where m = "publish e" for e])
  have "keeps (taskSettled (t_ID u)) (seq (attempt (closeCaseIfSettled (t_ID u))) (ret ()))"
    by (intro keeps_intros) (simp add: ignores_def taskSettled_def)
  moreover have "taskSettled (t_ID u) (w_db s3)"
  proof -
    have "w_db s3 = w_db s2" using pub by (auto simp: publish_Inr)
    then show ?thesis
      using updateQ_run [OF upd] find_live_same [of "taskRow (cancelledTask now u)" "t_ID u" "d_tasks (w_db s1)"]
      by (auto simp: taskSettled_def settlesCase_def cancelledTask_def)
  qed
  ultimately show ?thesis using keepsD [of "taskSettled (t_ID u)" "seq (attempt (closeCaseIfSettled (t_ID u))) (ret ())" s3] tail
    by simp
qed

lemma cancelOpenTasks_settle:
  assumes "forEach us cancelOpenTask s = (Inr x, t)"
    and "\<forall>u \<in> set us. settlesCase (t_Status u) \<or> \<not> CanTransitionTo (t_Status u) TaskStatusCancelled \<longrightarrow>
      taskSettled (t_ID u) (w_db s)"
  shows "(\<forall>u \<in> set us. taskSettled (t_ID u) (w_db t)) \<and> (\<forall>j. taskSettled j (w_db s) \<longrightarrow> taskSettled j (w_db t))"
  using assms
proof (induction us arbitrary: s)
  case Nil
  then show ?case by (simp add: ret_Inr)
next
  case (Cons u us)
  then obtain y s1 where y: "cancelOpenTask u s = (Inr y, s1)" and rest: "forEach us cancelOpenTask s1 = (Inr x, t)"
    by (auto simp: seq_Inr)
  have "keeps (taskSettled j) (cancelOpenTask u)" for j
    unfolding cancelOpenTask_def by (intro keeps_intros cancelTask_settled)
  from keepsD [OF this] y have stays: "taskSettled j (w_db s) \<Longrightarrow> taskSettled j (w_db s1)" for j by (metis snd_conv)
  have "taskSettled (t_ID u) (w_db s1)"
  proof (cases "settlesCase (t_Status u) \<or> \<not> CanTransitionTo (t_Status u) TaskStatusCancelled")
    case True
    with Cons.prems(2) have "taskSettled (t_ID u) (w_db s)" by auto
    then show ?thesis by (rule stays)
  next
    case False
    with y have "cancelTask u ''case cancelled'' s = (Inr y, s1)" by (simp add: cancelOpenTask_def)
    from cancelTask_settles [OF this] False show ?thesis by simp
  qed
  with Cons.IH [OF rest] Cons.prems(2) stays show ?case by auto
qed

text \<open>Every live linked task is among the tasks read.\<close>

lemma liveCaseTasks_complete:
  assumes "liveCaseTasks i s = (Inr ts, t)" and "l \<in> set (d_caseTasks (w_db s))" and "ct_CaseID l = i"
    and "List.find (liveTask (ct_TaskID l)) (d_tasks (w_db s)) = Some row"
  shows "\<exists>u \<in> set ts. t_ID u = ct_TaskID l"
proof -
  have all: "\<exists>u \<in> set us. t_ID u = ct_TaskID l"
    if "collect ls (\<lambda>l. GetTaskIfLive (ct_TaskID l)) s' = (Inr us, t)" "w_db s' = w_db s" "l \<in> set ls" for ls s' us
    using that
  proof (induction ls arbitrary: s' us)
    case (Cons k ls)
    then obtain y s1 us' where y: "GetTaskIfLive (ct_TaskID k) s' = (Inr y, s1)"
      and rest: "collect ls (\<lambda>l. GetTaskIfLive (ct_TaskID l)) s1 = (Inr us', t)"
      and us: "us = (case y of None \<Rightarrow> us' | Some v \<Rightarrow> v # us')"
      by (auto simp: succ)
    have s1: "w_db s1 = w_db s" and rel: "rel_option sameRow (List.find (liveTask (ct_TaskID k)) (d_tasks (w_db s))) y"
      using GetTaskIfLive_Inr [OF y] Cons.prems(2) by simp_all
    show ?case
    proof (cases "k = l")
      case True
      with rel assms(4) obtain u where "y = Some u" "sameRow row u" by (auto simp: option_rel_Some1)
      moreover have "t_ID row = ct_TaskID l" using find_Some_in [OF assms(4)] by (simp add: liveTask_def)
      ultimately show ?thesis using us by (auto simp: sameRow_fields)
    next
      case False
      with Cons.prems(3) Cons.IH [OF rest s1] us show ?thesis by (auto split: option.splits)
    qed
  qed simp
  from assms(1) obtain ls s' where "caseLinks i s = (Inr ls, s')"
    and run: "collect ls (\<lambda>l. GetTaskIfLive (ct_TaskID l)) s' = (Inr ts, t)"
    by (auto simp: liveCaseTasks_def succ)
  then have "set ls = {l \<in> set (d_caseTasks (w_db s)). ct_CaseID l = i}" and "w_db s' = w_db s"
    by (auto simp: caseLinks_def succ)
  with all [OF run] assms(2,3) show ?thesis by simp
qed

lemma cancelTask_closed:
  assumes "c_Status row \<noteq> CaseStatusOpen"
  shows "keeps (\<lambda>d. List.find (\<lambda>c. c_ID c = i) (d_cases d) = Some row \<and> d_caseTasks d = ls) (cancelTask u reason)"
    (is "keeps ?I _")
proof -
  have close: "keeps ?I (closeCaseIfSettled j)" for j
  proof (rule keeps_closeCaseIfSettled, rule keeps_updateQ)
    fix d caseID now assume I: "?I d"
    let ?P = "\<lambda>c. c_ID c = caseID \<and> c_Status c = CaseStatusOpen"
      and ?f = "\<lambda>c. c\<lparr>c_Status := CaseStatusDone, c_ClosedAt := now, c_UpdatedAt := now\<rparr>"
    have "List.find (\<lambda>c. c_ID c = i) (updWhere ?P ?f (d_cases d)) =
        map_option (\<lambda>c. if ?P c then ?f c else c) (List.find (\<lambda>c. c_ID c = i) (d_cases d))"
      by (rule find_updWhere) simp
    with I assms show "?I (snd casesT (updWhere ?P ?f) d)" by simp
  qed
  show ?thesis
    unfolding cancelTask_def
    by (intro keeps_if keeps_bnd keeps_seq keeps_attempt close keeps_ret keeps_nowStr keeps_publish keeps_updateQ) simp
qed

section \<open>Properties\<close>

text \<open>
  C18. A case that was ended is over with its tasks: a call that succeeds found the case open, stored it
  with the outcome and the reply, and left no linked live task unsettled, unless in a status the
  transition table does not know.
\<close>

theorem EndCase_ends:
  assumes run: "EndCase i st reply s = (Inr out, t)"
  shows "st \<in> {CaseStatusDone, CaseStatusCancelled} \<and>
    (\<exists>c. List.find (\<lambda>c. c_ID c = i) (d_cases (w_db s)) = Some c \<and> c_Status c = CaseStatusOpen) \<and>
    List.find (\<lambda>c. c_ID c = i) (d_cases (w_db t)) = Some out \<and> c_Status out = st \<and> c_Reply out = reply \<and>
    (\<forall>x \<in> caseStatuses i (w_db t). settlesCase x \<or> \<not> knownTaskStatuses x)"
proof -
  from run obtain c s1 tasks s2 now s3 n s4 u s5 v s6 where st: "st = CaseStatusDone \<or> st = CaseStatusCancelled"
    and get: "GetCase i s = (Inr c, s1)" and opn: "c_Status c = CaseStatusOpen"
    and live: "liveCaseTasks i s1 = (Inr tasks, s2)"
    and done': "st = CaseStatusDone \<longrightarrow> list_all (\<lambda>t. settlesCase (t_Status t)) tasks"
    and now: "nowStr s2 = (Inr now, s3)"
    and upd: "updateQ casesT (\<lambda>c. c_ID c = i \<and> c_Status c = CaseStatusOpen) (endedCase st reply now) s3 = (Inr n, s4)"
    and cancel: "whenM (st = CaseStatusCancelled) (forEach tasks cancelOpenTask) s4 = (Inr u, s5)"
    and pub: "publish (CaseClosed i st now) s5 = (Inr v, s6)" and again: "GetCase i s6 = (Inr out, t)"
    unfolding EndCase_def bnd_Inr seq_Inr unless_Inr by blast
  from get have c: "List.find (\<lambda>c. c_ID c = i) (d_cases (w_db s)) = Some c" and s1: "w_db s1 = w_db s"
    by (auto simp: GetCase_def dest!: takeQ_run)
  note live' = liveCaseTasks_Inr [OF live]
  have s3: "w_db s3 = w_db s" using live' nowStr_run [OF now] s1 by simp
  have cases4: "d_cases (w_db s4) = updWhere (\<lambda>c. c_ID c = i \<and> c_Status c = CaseStatusOpen) (endedCase st reply now) (d_cases (w_db s))"
    and tasks4: "d_tasks (w_db s4) = d_tasks (w_db s)" "d_caseTasks (w_db s4) = d_caseTasks (w_db s)"
    using updateQ_run [OF upd] s3 by simp_all
  have found4: "List.find (\<lambda>c. c_ID c = i) (d_cases (w_db s4)) = Some (endedCase st reply now c)"
  proof -
    have "List.find (\<lambda>c. c_ID c = i) (updWhere (\<lambda>c. c_ID c = i \<and> c_Status c = CaseStatusOpen) (endedCase st reply now) cs) =
        map_option (\<lambda>c. if c_ID c = i \<and> c_Status c = CaseStatusOpen then endedCase st reply now c else c) (List.find (\<lambda>c. c_ID c = i) cs)" for cs
      by (rule find_updWhere) (simp add: endedCase_def)
    with c opn find_Some_in [OF c] show ?thesis by (simp add: cases4)
  qed
  have closed: "keeps (\<lambda>d. List.find (\<lambda>c. c_ID c = i) (d_cases d) = Some row \<and> d_caseTasks d = ls)
      (whenM (st = CaseStatusCancelled) (forEach tasks cancelOpenTask))" if "c_Status row \<noteq> CaseStatusOpen" for row ls
    unfolding cancelOpenTask_def
    by (intro keeps_whenM keeps_forEach keeps_if keeps_ret cancelTask_closed that)
  have "c_Status (endedCase st reply now c) \<noteq> CaseStatusOpen" using st by (auto simp: endedCase_def)
  from keepsD [OF closed [OF this], of s4] cancel found4 tasks4(2)
  have five: "List.find (\<lambda>c. c_ID c = i) (d_cases (w_db s5)) = Some (endedCase st reply now c)"
    "d_caseTasks (w_db s5) = d_caseTasks (w_db s)"
    by simp_all
  have t: "w_db t = w_db s5" "List.find (\<lambda>c. c_ID c = i) (d_cases (w_db s5)) = Some out"
    using pub again by (auto simp: GetCase_def publish_Inr split: if_splits dest!: takeQ_run)
  have settled: "(\<forall>u \<in> set tasks. taskSettled (t_ID u) (w_db s5)) \<and> (\<forall>j. taskSettled j (w_db s) \<longrightarrow> taskSettled j (w_db s5))"
  proof -
    have rows: "\<exists>row. List.find (liveTask (t_ID u)) (d_tasks (w_db s)) = Some row \<and> t_Status row = t_Status u"
      if "u \<in> set tasks" for u
      using live' that s1 by (auto simp: sameRow_fields)
    have before: "taskSettled (t_ID u) (w_db s)"
      if "u \<in> set tasks" "settlesCase (t_Status u) \<or> \<not> CanTransitionTo (t_Status u) TaskStatusCancelled" for u
    proof -
      have "settlesCase (t_Status u) \<or> \<not> knownTaskStatuses (t_Status u)"
        using that(2) by (cases "t_Status u") (auto simp: settlesCase_def)
      with rows [OF that(1)] show ?thesis by (auto simp: taskSettled_def)
    qed
    have same: "taskSettled j (w_db s4) = taskSettled j (w_db s)" for j by (simp add: taskSettled_def tasks4(1))
    show ?thesis
    proof (cases "st = CaseStatusCancelled")
      case True
      with cancel have "forEach tasks cancelOpenTask s4 = (Inr u, s5)" by (simp add: whenM_Inr)
      from cancelOpenTasks_settle [OF this] before show ?thesis by (simp add: same)
    next
      case False
      with cancel st done' have "s5 = s4" "list_all (\<lambda>t. settlesCase (t_Status t)) tasks" by (auto simp: whenM_Inr)
      with before show ?thesis by (auto simp: same list_all_iff)
    qed
  qed
  have left: "settlesCase x \<or> \<not> knownTaskStatuses x" if x: "x \<in> caseStatuses i (w_db t)" for x
  proof -
    from x obtain l row where l: "l \<in> set (d_caseTasks (w_db s))" "ct_CaseID l = i"
      and row: "List.find (liveTask (ct_TaskID l)) (d_tasks (w_db s5)) = Some row" "x = t_Status row"
      by (auto simp: caseStatuses_def t(1) five(2))
    have "taskSettled (ct_TaskID l) (w_db s5)"
    proof (cases "List.find (liveTask (ct_TaskID l)) (d_tasks (w_db s))")
      case None
      then have "taskSettled (ct_TaskID l) (w_db s)" by (simp add: taskSettled_def)
      with settled show ?thesis by blast
    next
      case (Some old)
      with liveCaseTasks_complete [OF live, of l old] l s1 settled show ?thesis by force
    qed
    with row show ?thesis by (auto simp: taskSettled_def)
  qed
  have "List.find (\<lambda>c. c_ID c = i) (d_cases (w_db t)) = Some out \<and> c_Status out = st \<and> c_Reply out = reply"
    using five(1) t by (auto simp: endedCase_def)
  with st c opn left show ?thesis by blast
qed

text \<open>A case with one task under way.\<close>

definition dossierDb :: db where
  "dossierDb = emptyDb\<lparr>d_cases := [\<lparr>c_ID = ''c'', c_RequesterID = ''m'', c_SubjectKind = [], c_SubjectID = [],
       c_Title = [], c_Status = CaseStatusOpen, c_OpenedAt = [], c_ClosedAt = [], c_Reply = [], c_CreatedAt = [],
       c_UpdatedAt = []\<rparr>],
     d_caseTasks := [\<lparr>ct_TaskID = ''t'', ct_CaseID = ''c'', ct_LinkedAt = []\<rparr>],
     d_tasks := [taskWith ''t'' TaskStatusInProgress]\<rparr>"

lemmas ending_run = EndCase_def dossierDb_def emptyDb_def GetCase_def liveCaseTasks_def caseLinks_def sortBy_def
  GetTaskIfLive_def GetTask_def liveTask_def taskWith_def task0_def settlesCase_def cancelOpenTask_def cancelTask_def
  tm_basic sql_def selectQ_def takeQ_def updateQ_def loadTagNames_def affected_def taskSettled_def closeCaseIfSettled_def
  caseOfTask_def endedCase_def

theorem EndCase_ends_witness:
  "\<exists>out t. EndCase ''c'' CaseStatusCancelled ''no'' (worldOf dossierDb) = (Inr out, t) \<and>
     c_Status out = CaseStatusCancelled \<and> (\<forall>x \<in> caseStatuses ''c'' (w_db t). settlesCase x \<or> \<not> knownTaskStatuses x)"
proof -
  have "\<exists>out t. EndCase ''c'' CaseStatusCancelled ''no'' (worldOf dossierDb) = (Inr out, t)"
    by (simp add: ending_run)
  then obtain out t where run: "EndCase ''c'' CaseStatusCancelled ''no'' (worldOf dossierDb) = (Inr out, t)" by blast
  from EndCase_ends [OF run] run show ?thesis by blast
qed



end
