(* ===== verification/Vote_Key.thy ===== *)
theory Vote_Key
  imports Prelude
begin

text \<open>
  The key of a vote, \<open>caseVoteKey\<close> of \<open>case_vote.go\<close>: the SHA-256 digest, in hexadecimal, of the case
  id behind its length and the member id. SHA-256 (\<open>crypto/sha256\<close>) is written out on 32-bit words,
  so keys can be computed; what the vote operations need of it is only that the keys of the pairs at
  hand differ. The text that is hashed is shown to determine the pair.
\<close>

unbundle bit_operations_syntax

section \<open>SHA-256\<close>

type_synonym w32 = "32 word"

definition rotr32 :: "nat \<Rightarrow> w32 \<Rightarrow> w32" where
  "rotr32 n x = drop_bit n x OR push_bit (32 - n) x"

text \<open>
  The constants of the standard: the first 32 bits behind the binary point of the cube roots of the first
  64 primes, and of the square roots of the first eight. The root is found bit by bit, from the 35th down,
  which is high enough because the cube root of the largest prime (311) is below 8.
\<close>

definition isPrime :: "nat \<Rightarrow> bool" where
  "isPrime n \<longleftrightarrow> 1 < n \<and> list_all (\<lambda>k. n mod k \<noteq> 0) [2..<n]"

fun rootBits :: "nat \<Rightarrow> int \<Rightarrow> nat \<Rightarrow> int \<Rightarrow> int" where
  "rootBits e N 0 r = r"
| "rootBits e N (Suc b) r = rootBits e N b (if (r + 2 ^ b) ^ e \<le> N then r + 2 ^ b else r)"

definition fracRoot :: "nat \<Rightarrow> nat \<Rightarrow> w32" where
  "fracRoot e p = word_of_int (rootBits e (int p * 2 ^ (32 * e)) 35 0)"

definition shaK :: "w32 list" where
  "shaK = map (fracRoot 3) (filter isPrime [2..<312])"

definition shaH :: "w32 list" where
  "shaH = map (fracRoot 2) (filter isPrime [2..<20])"

definition bigEndian :: "nat \<Rightarrow> nat \<Rightarrow> nat list" where
  "bigEndian w n = map (\<lambda>i. n div 256 ^ i mod 256) (rev [0..<w])"

definition shaPad :: "nat list \<Rightarrow> nat list" where
  "shaPad m = m @ [0x80] @ replicate ((119 - length m mod 64) mod 64) 0 @ bigEndian 8 (8 * length m)"

fun wordsOf :: "nat list \<Rightarrow> w32 list" where
  "wordsOf (a # b # c # d # rest) = of_nat (((a * 256 + b) * 256 + c) * 256 + d) # wordsOf rest"
| "wordsOf _ = []"

text \<open>The message schedule, latest word first.\<close>

fun shaSchedule :: "nat \<Rightarrow> w32 list \<Rightarrow> w32 list" where
  "shaSchedule 0 ws = rev ws"
| "shaSchedule (Suc n) ws =
     (let x = ws ! 14; y = ws ! 1;
          s0 = rotr32 7 x XOR rotr32 18 x XOR drop_bit 3 x;
          s1 = rotr32 17 y XOR rotr32 19 y XOR drop_bit 10 y
      in shaSchedule n ((ws ! 15 + s0 + ws ! 6 + s1) # ws))"

fun shaRound :: "w32 list \<Rightarrow> w32 \<times> w32 \<Rightarrow> w32 list" where
  "shaRound [a, b, c, d, e, f, g, h] (k, w) =
     (let S1 = rotr32 6 e XOR rotr32 11 e XOR rotr32 25 e;
          ch = (e AND f) XOR (NOT e AND g);
          t1 = h + S1 + ch + k + w;
          S0 = rotr32 2 a XOR rotr32 13 a XOR rotr32 22 a;
          mj = (a AND b) XOR (a AND c) XOR (b AND c)
      in [t1 + S0 + mj, a, b, c, d + t1, e, f, g])"
| "shaRound st kw = st"

definition shaBlock :: "w32 list \<Rightarrow> w32 list \<Rightarrow> w32 list" where
  "shaBlock hash block =
     map (\<lambda>(x, y). x + y) (zip hash (foldl shaRound hash (zip shaK (shaSchedule 48 (rev block)))))"

fun shaBlocks :: "nat \<Rightarrow> w32 list \<Rightarrow> w32 list \<Rightarrow> w32 list" where
  "shaBlocks 0 hash ws = hash"
| "shaBlocks (Suc n) hash ws = shaBlocks n (shaBlock hash (take 16 ws)) (drop 16 ws)"

text \<open>\<open>hex.EncodeToString(sha256.Sum256(\<dots>))\<close>.\<close>

definition sha256Hex :: "string \<Rightarrow> string" where
  "sha256Hex text =
     (let bytes = shaPad (map of_char text)
      in concat (map (\<lambda>w. hexWidth 8 (unat w)) (shaBlocks (length bytes div 64) shaH (wordsOf bytes))))"

section \<open>The key\<close>

text \<open>\<open>fmt.Sprintf("%d:%s%s", len(caseID), caseID, memberID)\<close>.\<close>

definition voteText :: "string \<Rightarrow> string \<Rightarrow> string" where
  "voteText caseID memberID = dec (length caseID) @ '':'' @ caseID @ memberID"

definition caseVoteKey :: "string \<Rightarrow> string \<Rightarrow> string" where
  "caseVoteKey caseID memberID = sha256Hex (voteText caseID memberID)"

text \<open>The length in front makes the text of a pair its own: no two pairs are hashed as one text.\<close>

lemma voteText_inject: "voteText c m = voteText c' m' \<longleftrightarrow> c = c' \<and> m = m'"
proof
  assume eq: "voteText c m = voteText c' m'"
  have colon: "\<not> isDigit (CHR '':'')" by (simp add: isDigit_def)
  have digits: "\<forall>x \<in> set (dec n). isDigit x" for n using dec_isDigit by blast
  from eq have "dec (length c) @ CHR '':'' # (c @ m) = dec (length c') @ CHR '':'' # (c' @ m')"
    by (simp add: voteText_def)
  from digits_prefix_unique [OF this digits digits colon colon]
  show "c = c' \<and> m = m'" by (auto simp: append_eq_append_conv)
qed simp

end
