(* ===== verification/Sort_Multiset.thy ===== *)
theory Sort_Multiset
  imports Prelude "HOL-Library.Multiset"
begin

text \<open>
  What a sort keeps: the elements with their number, and with a total comparison the order. Shared by the
  ranking of cases and the overdue list.
\<close>

lemma mset_insertBy: "mset (insertBy lt x ys) = add_mset x (mset ys)"
  by (induction ys) auto

lemma mset_sortBy: "mset (sortBy lt xs) = mset xs"
  unfolding sortBy_def by (induction xs) (simp_all add: mset_insertBy)

text \<open>A page of a sorted list: nothing behind the page comes before anything on it.\<close>

lemma sorted_page:
  assumes "sorted_wrt (\<lambda>a b. \<not> lt b a) xs" and "x \<in> set xs" and "x \<notin> set (take n xs)" and "y \<in> set (take n xs)"
  shows "\<not> lt x y"
proof -
  have "sorted_wrt (\<lambda>a b. \<not> lt b a) (take n xs @ drop n xs)" using assms(1) by simp
  moreover have "x \<in> set (drop n xs)" using assms(2,3) by (metis Un_iff append_take_drop_id set_append)
  ultimately show ?thesis using assms(4) unfolding sorted_wrt_append by blast
qed

lemma mset_take: "mset (take n xs) \<subseteq># mset xs"
  by (metis append_take_drop_id mset_append mset_subset_eq_add_left)

end
