(* ===== verification/Case_Votes.thy ===== *)
theory Case_Votes
  imports Case_End Vote_Key Sort_Multiset
begin

text \<open>
  \<open>case_vote.go\<close>: members vote for an open case, once each; the requester's own vote is the first and
  is never stored. A vote is stored under the digest of its case and member, and cases are listed by
  their votes.
\<close>

definition memberVoterKind :: string where
  "memberVoterKind = ''member''"

definition openCaseToVoteOn :: "string \<Rightarrow> case_rec tm" where
  "openCaseToVoteOn caseID =
     bnd (GetCase caseID) (\<lambda>c. seq (unless (c_Status c = CaseStatusOpen) ErrCaseNotOpen) (ret c))"

definition caseVote :: "string \<Rightarrow> case_vote option tm" where
  "caseVote key =
     bnd (attempt (takeQ caseVotesT (\<lambda>v. v_VoteKey v = key) ErrVoteNotFound)) (\<lambda>r.
     case r of
       Inl e \<Rightarrow> if e = ErrVoteNotFound then ret None else fail e
     | Inr v \<Rightarrow> ret (Some v))"

text \<open>The stored votes and the requester's.\<close>

definition votesOn :: "string \<Rightarrow> int tm" where
  "votesOn caseID =
     bnd (sql (\<lambda>d. (Inr (affected (\<lambda>v. v_CaseID v = caseID) (d_caseVotes d)), d))) (\<lambda>stored.
     ret (int stored + 1))"

definition rankedCase :: "case_rec \<Rightarrow> ranked_case tm" where
  "rankedCase c = bnd (votesOn (c_ID c)) (\<lambda>n. ret \<lparr>rc_Case = c, rc_Votes = n\<rparr>)"

definition voteClash :: "case_vote \<Rightarrow> case_vote \<Rightarrow> bool" where
  "voteClash v v' \<longleftrightarrow> v_VoteKey v = v_VoteKey v'"

text \<open>An insert refused is no error when the vote is there by now.\<close>

definition recordVote :: "string \<Rightarrow> string \<Rightarrow> string \<Rightarrow> unit tm" where
  "recordVote caseID memberID castBy =
     (let key = caseVoteKey caseID memberID in
      bnd (caseVote key) (\<lambda>found.
      if found \<noteq> None then ret ()
      else
        bnd nowStr (\<lambda>now.
        bnd (attempt (insertQ caseVotesT voteClash
               \<lparr>v_VoteKey = key, v_CaseID = caseID, v_MemberID = memberID, v_CastBy = castBy, v_VotedAt = now\<rparr>)) (\<lambda>r.
        case r of
          Inr _ \<Rightarrow> ret ()
        | Inl err \<Rightarrow>
            bnd (attempt (caseVote key)) (\<lambda>again.
            case again of
              Inr (Some v) \<Rightarrow> ret ()
            | _ \<Rightarrow> fail err)))))"

definition VoteCase :: "string \<Rightarrow> string \<Rightarrow> string \<Rightarrow> string \<Rightarrow> ranked_case tm" where
  "VoteCase caseID memberID castBy memberKind =
     (let voter = (if memberID = [] then castBy else memberID) in
      seq (unless (\<not> (caseID = [] \<or> voter = [] \<or> castBy = [])) ErrInvalidVote)
      (seq (unless (\<not> (memberKind \<noteq> [] \<and> memberKind \<noteq> memberVoterKind)) ErrVoterNotMember)
      (bnd (openCaseToVoteOn caseID) (\<lambda>c.
       seq (whenM (voter \<noteq> c_RequesterID c) (recordVote (c_ID c) voter castBy))
       (rankedCase c)))))"

definition TakeBackVote :: "string \<Rightarrow> string \<Rightarrow> ranked_case tm" where
  "TakeBackVote caseID memberID =
     seq (unless (\<not> (caseID = [] \<or> memberID = [])) ErrInvalidVote)
     (bnd (openCaseToVoteOn caseID) (\<lambda>c.
      seq (unless (memberID \<noteq> c_RequesterID c) ErrRequesterVoteStays)
      (bnd (deleteQ caseVotesT (\<lambda>v. v_VoteKey v = caseVoteKey caseID memberID)) (\<lambda>n.
       seq (unless (n \<noteq> 0) ErrVoteNotFound)
       (rankedCase c)))))"

definition voteOrder :: "case_vote \<Rightarrow> case_vote \<Rightarrow> bool" where
  "voteOrder a b \<longleftrightarrow> v_VotedAt a < v_VotedAt b \<or> v_VotedAt a = v_VotedAt b \<and> v_MemberID a < v_MemberID b"

definition ListCaseVotes :: "string \<Rightarrow> case_vote list tm" where
  "ListCaseVotes caseID =
     seq (GetCase caseID)
     (bnd (selectQ caseVotesT (\<lambda>v. v_CaseID v = caseID)) (\<lambda>rows.
      ret (take maxListPage (sortBy voteOrder rows))))"

text \<open>\<open>GROUP BY case_id\<close> over the votes of the listed cases: a map without the cases nobody voted for.\<close>

definition storedVotesByCase :: "case_rec list \<Rightarrow> (string \<rightharpoonup> int) tm" where
  "storedVotesByCase cs =
     (if cs = [] then ret Map.empty
      else sql (\<lambda>d. (Inr (\<lambda>i.
        let n = affected (\<lambda>v. v_CaseID v \<in> c_ID ` set cs \<and> v_CaseID v = i) (d_caseVotes d)
        in if n = 0 then None else Some (int n)), d)))"

definition rankOrder :: "ranked_case \<Rightarrow> ranked_case \<Rightarrow> bool" where
  "rankOrder a b \<longleftrightarrow>
     (if rc_Votes a \<noteq> rc_Votes b then rc_Votes b < rc_Votes a
      else if c_OpenedAt (rc_Case a) \<noteq> c_OpenedAt (rc_Case b) then c_OpenedAt (rc_Case a) < c_OpenedAt (rc_Case b)
      else c_ID (rc_Case a) < c_ID (rc_Case b))"

definition ListCasesByVotes :: "case_filter \<Rightarrow> ranked_case list tm" where
  "ListCasesByVotes f =
     bnd (ListCases (if cf_Status f = CaseStatusOther [] then f\<lparr>cf_Status := CaseStatusOpen\<rparr> else f)) (\<lambda>cs.
     bnd (storedVotesByCase cs) (\<lambda>counts.
     ret (sortBy rankOrder
       (map (\<lambda>c. \<lparr>rc_Case = c, rc_Votes = (case counts (c_ID c) of None \<Rightarrow> 0 | Some n \<Rightarrow> n) + 1\<rparr>) cs))))"

section \<open>The votes as the tables hold them\<close>

text \<open>The members whose votes for a case are stored, and what every operation keeps of the votes.\<close>

definition voters :: "string \<Rightarrow> db \<Rightarrow> string set" where
  "voters i d = v_MemberID ` {v \<in> set (d_caseVotes d). v_CaseID v = i}"

definition votesOk :: "db \<Rightarrow> bool" where
  "votesOk d \<longleftrightarrow>
     distinct (map v_VoteKey (d_caseVotes d)) \<and>
     (\<forall>v \<in> set (d_caseVotes d). v_VoteKey v = caseVoteKey (v_CaseID v) (v_MemberID v) \<and>
        (\<exists>c. List.find (\<lambda>c. c_ID c = v_CaseID v) (d_cases d) = Some c \<and> c_RequesterID c \<noteq> v_MemberID v))"

text \<open>The digest tells the pair apart from every stored one.\<close>

definition keyFresh :: "string \<Rightarrow> string \<Rightarrow> db \<Rightarrow> bool" where
  "keyFresh i member d \<longleftrightarrow> (\<forall>v \<in> set (d_caseVotes d). v_VoteKey v = caseVoteKey i member \<longrightarrow>
     v_CaseID v = i \<and> v_MemberID v = member)"

lemma stored_count:
  assumes "votesOk d"
  shows "affected (\<lambda>v. v_CaseID v = i) (d_caseVotes d) = card (voters i d)"
proof -
  let ?vs = "filter (\<lambda>v. v_CaseID v = i) (d_caseVotes d)"
  have "distinct (map v_VoteKey ?vs)" using assms by (simp add: votesOk_def distinct_map_filter)
  moreover have "map v_VoteKey ?vs = map (caseVoteKey i) (map v_MemberID ?vs)"
    using assms by (auto simp: votesOk_def)
  ultimately have "distinct (map v_MemberID ?vs)" by (metis distinct_map)
  then have "card (v_MemberID ` set ?vs) = length ?vs" by (metis distinct_card length_map list.set_map)
  then show ?thesis by (simp add: voters_def affected_def)
qed

lemma caseVote_Inr:
  assumes "caseVote key s = (Inr found, t)"
  shows "w_db t = w_db s \<and> w_published t = w_published s \<and>
    found = List.find (\<lambda>v. v_VoteKey v = key) (d_caseVotes (w_db s))"
proof -
  obtain r s1 where take: "takeQ caseVotesT (\<lambda>v. v_VoteKey v = key) ErrVoteNotFound s = (r, s1)" by fastforce
  show ?thesis
  proof (cases r)
    case (Inl e)
    with assms take have "e = ErrVoteNotFound" "t = s1" "found = None"
      by (auto simp: caseVote_def bnd_def attempt_def ret_def fail_def split: if_splits)
    with statement_Inl(2) [OF take [unfolded Inl]] show ?thesis by simp
  next
    case (Inr v)
    with assms take have "t = s1" "found = Some v" by (auto simp: caseVote_def bnd_def attempt_def ret_def)
    with takeQ_run [OF take [unfolded Inr]] show ?thesis by simp
  qed
qed

lemma keeps_caseVote [keeps_intros]: "keeps I (caseVote key)"
  unfolding caseVote_def by (intro keeps_intros)

lemma keeps_votesOn [keeps_intros]: "keeps I (votesOn i)"
  unfolding votesOn_def by (intro keeps_intros keeps_sql) simp

lemma keeps_vote_reads [keeps_intros]: "keeps I (openCaseToVoteOn i)" "keeps I (rankedCase c)"
  unfolding openCaseToVoteOn_def rankedCase_def by (intro keeps_intros)+

lemma openCaseToVoteOn_Inr:
  assumes "openCaseToVoteOn i s = (Inr c, t)"
  shows "w_db t = w_db s \<and> List.find (\<lambda>c. c_ID c = i) (d_cases (w_db s)) = Some c \<and> c_ID c = i \<and> c_Status c = CaseStatusOpen"
  using assms by (auto simp: openCaseToVoteOn_def GetCase_def succ dest: find_Some_in)

lemma rankedCase_Inr:
  assumes "rankedCase c s = (Inr out, t)"
  shows "w_db t = w_db s \<and> rc_Case out = c \<and>
    rc_Votes out = int (affected (\<lambda>v. v_CaseID v = c_ID c) (d_caseVotes (w_db s))) + 1"
  using assms by (auto simp: rankedCase_def votesOn_def succ)

text \<open>Recording a vote adds the row of the pair, unless the key is there.\<close>

lemma recordVote_Inr:
  assumes run: "recordVote i member castBy s = (Inr u, t)"
  shows "(\<exists>v. List.find (\<lambda>v. v_VoteKey v = caseVoteKey i member) (d_caseVotes (w_db s)) = Some v) \<and> w_db t = w_db s \<or>
    (\<exists>v. v_VoteKey v = caseVoteKey i member \<and> v_CaseID v = i \<and> v_MemberID v = member \<and> v_CastBy v = castBy \<and>
      List.find (\<lambda>v. v_VoteKey v = caseVoteKey i member) (d_caseVotes (w_db s)) = None \<and>
      w_db t = (w_db s)\<lparr>d_caseVotes := d_caseVotes (w_db s) @ [v]\<rparr>)"
proof -
  let ?key = "caseVoteKey i member"
  let ?row = "\<lambda>now. \<lparr>v_VoteKey = ?key, v_CaseID = i, v_MemberID = member, v_CastBy = castBy, v_VotedAt = now\<rparr>"
  from run obtain found s1 where found: "caseVote ?key s = (Inr found, s1)"
    and rest: "(if found \<noteq> None then ret ()
      else bnd nowStr (\<lambda>now. bnd (attempt (insertQ caseVotesT voteClash (?row now))) (\<lambda>r.
        case r of Inr _ \<Rightarrow> ret () | Inl err \<Rightarrow> bnd (attempt (caseVote ?key)) (\<lambda>again.
            case again of Inr (Some v) \<Rightarrow> ret () | _ \<Rightarrow> fail err)))) s1 = (Inr u, t)"
    unfolding recordVote_def Let_def bnd_Inr by blast
  note found' = caseVote_Inr [OF found]
  show ?thesis
  proof (cases found)
    case (Some v)
    with rest have "s1 = t" by (simp add: ret_Inr)
    with found' Some show ?thesis by (metis (full_types))
  next
    case None
    from rest [unfolded None] obtain now s2 r s3 where now: "nowStr s1 = (Inr now, s2)"
      and ins: "insertQ caseVotesT voteClash (?row now) s2 = (r, s3)"
      and tail: "(case r of Inr _ \<Rightarrow> ret () | Inl err \<Rightarrow> bnd (attempt (caseVote ?key)) (\<lambda>again.
            case again of Inr (Some v) \<Rightarrow> ret () | _ \<Rightarrow> fail err)) s3 = (Inr u, t)"
      unfolding simp_thms if_False bnd_Inr attempt_Inr by blast
    have s2: "w_db s2 = w_db s" using nowStr_run [OF now] found' by simp
    show ?thesis
    proof (cases r)
      case (Inr w)
      with tail have "t = s3" by (simp add: ret_Inr)
      with insertQ_run [OF ins [unfolded Inr]] s2 None found' show ?thesis
        by (intro disjI2 exI [of _ "?row now"]) simp
    next
      case (Inl err)
      with tail obtain again s4 where again: "caseVote ?key s3 = (again, s4)"
        and "(case again of Inr (Some v) \<Rightarrow> ret () | _ \<Rightarrow> fail err) s4 = (Inr u, t)"
        by (auto simp: bnd_Inr attempt_Inr)
      then obtain v where "again = Inr (Some v)" by (auto simp: fail_Inr split: sum.splits option.splits)
      with caseVote_Inr again statement_Inl(5) [OF ins [unfolded Inl]] s2 None found' show ?thesis by fastforce
    qed
  qed
qed

lemma voters_append: "voters j (d\<lparr>d_caseVotes := d_caseVotes d @ [v]\<rparr>) = (if v_CaseID v = j then {v_MemberID v} else {}) \<union> voters j d"
  by (auto simp: voters_def)

section \<open>The invariant of the votes\<close>

lemma votesOk_ignores [keeps_intros]: "ignores tasksT votesOk" "ignores caseTasksT votesOk"
  by (simp_all add: ignores_def votesOk_def)

lemma votesOk_cases:
  assumes "votesOk d" and "\<And>c. c_ID (f c) = c_ID c" and "\<And>c. c_RequesterID (f c) = c_RequesterID c"
  shows "votesOk (d_cases_update (updWhere P f) d)"
proof -
  have find: "List.find (\<lambda>c. c_ID c = i) (updWhere P f cs) = map_option (\<lambda>c. if P c then f c else c) (List.find (\<lambda>c. c_ID c = i) cs)" for i cs
    by (rule find_updWhere) (simp add: assms)
  have "\<exists>c'. List.find (\<lambda>c. c_ID c = i) (updWhere P f (d_cases d)) = Some c' \<and> c_RequesterID c' \<noteq> j"
    if "List.find (\<lambda>c. c_ID c = i) (d_cases d) = Some c" "c_RequesterID c \<noteq> j" for i j c
    using that by (auto simp: find assms)
  with assms(1) show ?thesis by (auto simp: votesOk_def)
qed

lemma votesOk_cases_update:
  "(\<And>c. c_ID (f c) = c_ID c) \<Longrightarrow> (\<And>c. c_RequesterID (f c) = c_RequesterID c) \<Longrightarrow> keeps votesOk (updateQ casesT P f)"
  by (rule keeps_updateQ) (simp add: votesOk_cases)

lemma votesOk_case_added: "votesOk d \<Longrightarrow> votesOk (d_cases_update (\<lambda>cs. cs @ [c]) d)"
  by (fastforce simp: votesOk_def find_append)

lemma votesOk_case_insert: "keeps votesOk (insertQ casesT caseClash c)"
  by (rule keeps_insertQ) (simp add: votesOk_case_added)

lemma votesOk_delete: "keeps votesOk (deleteQ caseVotesT P)"
  by (rule keeps_deleteQ) (auto simp: votesOk_def delWhere_def distinct_map_filter)

text \<open>What an invariant needs of the one insert of a vote: the case is there and the member did not open it.\<close>

lemma keeps_recordVote:
  "(\<And>now. keeps I (insertQ caseVotesT voteClash
      \<lparr>v_VoteKey = caseVoteKey i member, v_CaseID = i, v_MemberID = member, v_CastBy = castBy, v_VotedAt = now\<rparr>)) \<Longrightarrow>
   keeps I (recordVote i member castBy)"
  unfolding recordVote_def Let_def
  by (intro keeps_bnd keeps_if keeps_ret keeps_caseVote keeps_nowStr keeps_attempt keeps_case_sum keeps_case_option keeps_fail)

lemma keeps_VoteCase:
  assumes "\<And>c voter. c_RequesterID c \<noteq> voter \<Longrightarrow>
    keeps (\<lambda>d. I d \<and> List.find (\<lambda>c. c_ID c = i) (d_cases d) = Some c) (recordVote i voter castBy)"
  shows "keeps I (VoteCase i member castBy kind)"
proof -
  have main: "keeps I (bnd (openCaseToVoteOn i) (\<lambda>c.
       seq (whenM (voter \<noteq> c_RequesterID c) (recordVote (c_ID c) voter castBy)) (rankedCase c)))" for voter
  proof (rule keepsI)
    fix s :: world assume ok: "I (w_db s)"
    let ?m = "\<lambda>c. seq (whenM (voter \<noteq> c_RequesterID c) (recordVote (c_ID c) voter castBy)) (rankedCase c)"
    obtain r s1 where open': "openCaseToVoteOn i s = (r, s1)" by fastforce
    have s1: "w_db s1 = w_db s" by (rule keeps_reads [OF keeps_vote_reads(1) open'])
    show "I (w_db (snd (bnd (openCaseToVoteOn i) ?m s)))"
    proof (cases r)
      case (Inl e)
      with open' s1 ok show ?thesis by (simp add: bnd_def)
    next
      case (Inr c)
      note c = openCaseToVoteOn_Inr [OF open' [unfolded Inr]]
      obtain x s2 where x: "whenM (voter \<noteq> c_RequesterID c) (recordVote (c_ID c) voter castBy) s1 = (x, s2)" by fastforce
      have "I (w_db s2)"
        using keepsD [OF assms [of c voter], of s1] c s1 ok x by (auto simp: whenM_def ret_def split: if_splits)
      then have "I (w_db (snd (rankedCase c s2)))" by (rule keepsD [OF keeps_vote_reads(2)])
      with \<open>I (w_db s2)\<close> open' Inr x show ?thesis by (cases x) (simp_all add: bnd_def seq_def)
    qed
  qed
  show ?thesis unfolding VoteCase_def Let_def by (intro keeps_seq keeps_unless main)
qed

lemma votesOk_vote:
  "c_RequesterID c \<noteq> member \<Longrightarrow> keeps (\<lambda>d. votesOk d \<and> List.find (\<lambda>c. c_ID c = i) (d_cases d) = Some c)
    (insertQ caseVotesT voteClash
      \<lparr>v_VoteKey = caseVoteKey i member, v_CaseID = i, v_MemberID = member, v_CastBy = castBy, v_VotedAt = now\<rparr>)"
  by (rule keeps_insertQ) (auto simp: votesOk_def voteClash_def)

lemma VoteCase_votesOk: "keeps votesOk (VoteCase i member castBy kind)"
  by (intro keeps_VoteCase keeps_recordVote votesOk_vote)

section \<open>Properties\<close>

text \<open>
  Votes stay one per member and case: whatever statements fail, voting, taking a vote back, opening,
  ending and linking keep every stored vote under its own digest, for a case that is there, of a member
  who is not its requester.
\<close>

lemma votesOk_kept:
  "keeps votesOk (VoteCase i member castBy kind) \<and> keeps votesOk (TakeBackVote i member) \<and>
   keeps votesOk (OpenCase requester c) \<and> keeps votesOk (EndCase i st reply) \<and> keeps votesOk (LinkCaseTask i j)"
proof (intro conjI)
  show "keeps votesOk (VoteCase i member castBy kind)" by (rule VoteCase_votesOk)
  show "keeps votesOk (TakeBackVote i member)"
    unfolding TakeBackVote_def by (intro keeps_intros votesOk_delete)
  show "keeps votesOk (OpenCase requester c)"
    unfolding OpenCase_def Let_def by (intro keeps_intros votesOk_case_insert)
  have close: "keeps votesOk (closeCaseIfSettled k)" for k
    by (rule keeps_closeCaseIfSettled) (rule votesOk_cases_update; simp)
  show "keeps votesOk (EndCase i st reply)"
    unfolding EndCase_def cancelOpenTask_def cancelTask_def
    by (intro keeps_seq keeps_bnd keeps_unless keeps_GetCase keeps_liveCaseTasks keeps_nowStr votesOk_cases_update
        keeps_whenM keeps_forEach keeps_if keeps_ret keeps_publish keeps_attempt close
        keeps_ignored_update votesOk_ignores) (simp_all add: endedCase_def)
  show "keeps votesOk (LinkCaseTask i j)"
    unfolding LinkCaseTask_def by (intro keeps_intros)
qed

text \<open>
  C20. One member, one vote: a vote that succeeds was cast by a member on an open case; afterwards the
  voter is among those who stand behind the case, beside exactly those who did before, and the answer
  counts them, the requester first. (The digest of the voter tells him apart from the stored ones.)
\<close>

theorem VoteCase_counts:
  assumes run: "VoteCase i member castBy kind s = (Inr out, t)" and ok: "votesOk (w_db s)"
    and fresh: "keyFresh i (if member = [] then castBy else member) (w_db s)"
  shows "kind \<in> {[], memberVoterKind} \<and> c_Status (rc_Case out) = CaseStatusOpen \<and>
    insert (c_RequesterID (rc_Case out)) (voters i (w_db t)) =
      insert (if member = [] then castBy else member) (insert (c_RequesterID (rc_Case out)) (voters i (w_db s))) \<and>
    rc_Votes out = int (card (insert (c_RequesterID (rc_Case out)) (voters i (w_db t)))) \<and>
    (\<forall>j. j \<noteq> i \<longrightarrow> voters j (w_db t) = voters j (w_db s))"
proof -
  define voter where "voter = (if member = [] then castBy else member)"
  from run obtain c s1 s2 u where kind: "\<not> (kind \<noteq> [] \<and> kind \<noteq> memberVoterKind)"
    and c: "openCaseToVoteOn i s = (Inr c, s1)"
    and rec: "whenM (voter \<noteq> c_RequesterID c) (recordVote (c_ID c) voter castBy) s1 = (Inr u, s2)"
    and ranked: "rankedCase c s2 = (Inr out, t)"
    unfolding VoteCase_def Let_def voter_def [symmetric] seq_Inr bnd_Inr unless_Inr by blast
  note c' = openCaseToVoteOn_Inr [OF c] and out = rankedCase_Inr [OF ranked]
  have voters: "insert (c_RequesterID c) (voters i (w_db s2)) = insert voter (insert (c_RequesterID c) (voters i (w_db s)))"
    "j \<noteq> i \<Longrightarrow> voters j (w_db s2) = voters j (w_db s)" for j
  proof -
    have "insert (c_RequesterID c) (voters i (w_db s2)) = insert voter (insert (c_RequesterID c) (voters i (w_db s))) \<and>
        (\<forall>j. j \<noteq> i \<longrightarrow> voters j (w_db s2) = voters j (w_db s))"
    proof (cases "voter = c_RequesterID c")
      case True
      with rec c' show ?thesis by (simp add: whenM_Inr)
    next
      case False
      with rec c' have "recordVote i voter castBy s1 = (Inr u, s2)" by (simp add: whenM_Inr)
      from recordVote_Inr [OF this] c' consider
          v where "List.find (\<lambda>v. v_VoteKey v = caseVoteKey i voter) (d_caseVotes (w_db s)) = Some v" "w_db s2 = w_db s"
        | v where "v_CaseID v = i" "v_MemberID v = voter" "w_db s2 = (w_db s)\<lparr>d_caseVotes := d_caseVotes (w_db s) @ [v]\<rparr>"
        by auto
      then show ?thesis
      proof cases
        case 1
        from find_Some_in [OF this(1)] have "voter \<in> voters i (w_db s)"
          using fresh by (force simp: keyFresh_def voters_def voter_def)
        with 1 show ?thesis by auto
      next
        case 2
        then show ?thesis by (auto simp: voters_append)
      qed
    qed
    then show "insert (c_RequesterID c) (voters i (w_db s2)) = insert voter (insert (c_RequesterID c) (voters i (w_db s)))"
      "j \<noteq> i \<Longrightarrow> voters j (w_db s2) = voters j (w_db s)" for j by simp_all
  qed
  have okt: "votesOk (w_db t)" using keepsD [OF VoteCase_votesOk ok] run by (metis snd_conv)
  have "d_cases (w_db s2) = d_cases (w_db s)"
    using rec c' recordVote_Inr [of i voter castBy s1 u s2] by (auto simp: whenM_Inr split: if_splits)
  with okt out c' have "c_RequesterID c \<notin> voters i (w_db t)" by (fastforce simp: votesOk_def voters_def)
  moreover have "finite (voters i (w_db t))" by (simp add: voters_def)
  ultimately have "rc_Votes out = int (card (insert (c_RequesterID c) (voters i (w_db t))))"
    using out c' stored_count [OF okt] by simp
  with kind c' out voters show ?thesis by (simp add: voter_def)
qed

lemmas voting_run = VoteCase_def openCaseToVoteOn_def recordVote_def caseVote_def rankedCase_def votesOn_def
  GetCase_def tm_basic sql_def takeQ_def insertQ_def deleteQ_def Let_def

theorem VoteCase_counts_witness:
  "\<exists>out t. VoteCase ''c'' [] ''n'' [] (worldOf dossierDb) = (Inr out, t) \<and>
     insert ''m'' (voters ''c'' (w_db t)) = {''n'', ''m''} \<and> rc_Votes out = 2"
proof -
  have "\<exists>out t. VoteCase ''c'' [] ''n'' [] (worldOf dossierDb) = (Inr out, t) \<and> c_RequesterID (rc_Case out) = ''m''"
    by (simp add: voting_run dossierDb_def emptyDb_def)
  then obtain out t where run: "VoteCase ''c'' [] ''n'' [] (worldOf dossierDb) = (Inr out, t)"
    and m: "c_RequesterID (rc_Case out) = ''m''" by blast
  have "votesOk (w_db (worldOf dossierDb))" "keyFresh ''c'' (if [] = [] then ''n'' else []) (w_db (worldOf dossierDb))"
    "voters ''c'' (w_db (worldOf dossierDb)) = {}"
    by (simp_all add: votesOk_def keyFresh_def voters_def dossierDb_def emptyDb_def)
  with VoteCase_counts [OF run] m run show ?thesis by auto
qed

text \<open>
  A vote is taken back whole: with no failing statement, a member other than the requester who has
  not voted for an open case may vote and take the vote back; both calls succeed, the second answer counts one
  vote less than the first, and the tables are as they were.
\<close>

lemma vote_taken_back:
  assumes quiet: "quiet s" and open': "List.find (\<lambda>c. c_ID c = i) (d_cases (w_db s)) = Some c" "c_Status c = CaseStatusOpen"
    and member: "i \<noteq> []" "member \<noteq> []" "castBy \<noteq> []" "member \<noteq> c_RequesterID c"
    and new: "\<forall>v \<in> set (d_caseVotes (w_db s)). v_VoteKey v \<noteq> caseVoteKey i member"
  shows "\<exists>voted s1 back t. VoteCase i member castBy [] s = (Inr voted, s1) \<and> TakeBackVote i member s1 = (Inr back, t) \<and>
    rc_Votes voted = rc_Votes back + 1 \<and> w_db t = w_db s"
proof -
  have i: "c_ID c = i" using open' by (auto dest: find_Some_in)
  have none: "List.find (\<lambda>v. v_VoteKey v = caseVoteKey i member) (d_caseVotes (w_db s)) = None"
    using new by (simp add: find_None_iff)
  have new': "\<forall>v \<in> set (d_caseVotes (w_db s)). caseVoteKey i member \<noteq> v_VoteKey v" using new by metis
  define now where "now = fmtRFC3339 (w_clock s (w_ticks s))"
  define row where "row = \<lparr>v_VoteKey = caseVoteKey i member, v_CaseID = i, v_MemberID = member, v_CastBy = castBy, v_VotedAt = now\<rparr>"
  define s1 where "s1 = s\<lparr>w_db := (w_db s)\<lparr>d_caseVotes := d_caseVotes (w_db s) @ [row]\<rparr>, w_ticks := Suc (w_ticks s)\<rparr>"
  define n where "n = affected (\<lambda>v. v_CaseID v = i) (d_caseVotes (w_db s))"
  have faults: "w_faults s = []" using quiet by (simp add: quiet_def)
  have vote: "VoteCase i member castBy [] s = (Inr \<lparr>rc_Case = c, rc_Votes = int n + 2\<rparr>, s1)"
    using faults open' member new' none i
    by (simp add: voting_run list_ex_iff voteClash_def s1_def row_def now_def n_def affected_def)
  have last: "delWhere (\<lambda>v. v_VoteKey v = caseVoteKey i member) (d_caseVotes (w_db s) @ [row]) = d_caseVotes (w_db s)"
    using new by (auto simp: delWhere_def row_def filter_id_conv)
  have one: "affected (\<lambda>v. v_VoteKey v = caseVoteKey i member) (d_caseVotes (w_db s) @ [row]) = 1"
    using new by (simp add: affected_def row_def filter_empty_conv)
  have "TakeBackVote i member s1 = (Inr \<lparr>rc_Case = c, rc_Votes = int n + 1\<rparr>, s1\<lparr>w_db := w_db s\<rparr>)"
    using faults open' member i last one
    by (simp add: TakeBackVote_def voting_run s1_def n_def)
  with vote show ?thesis by simp
qed

lemma vote_taken_back_example:
  "\<exists>voted s1 back t. VoteCase ''c'' ''n'' ''n'' [] (worldOf dossierDb) = (Inr voted, s1) \<and>
     TakeBackVote ''c'' ''n'' s1 = (Inr back, t) \<and> rc_Votes voted = rc_Votes back + 1 \<and> w_db t = dossierDb"
proof -
  have "\<exists>c. List.find (\<lambda>c. c_ID c = ''c'') (d_cases (w_db (worldOf dossierDb))) = Some c \<and>
      c_Status c = CaseStatusOpen \<and> c_RequesterID c = ''m''" "d_caseVotes (w_db (worldOf dossierDb)) = []"
    by (simp_all add: dossierDb_def emptyDb_def)
  with vote_taken_back [OF quiet_worldOf, of "''c''" dossierDb _ "''n''" "''n''"] show ?thesis by fastforce
qed

section \<open>The ranking\<close>

lemma sorted_ranking: "sorted_wrt (\<lambda>a b. \<not> rankOrder b a) (sortBy rankOrder xs)"
  by (rule sorted_sortBy) (auto simp: rankOrder_def split: if_splits)

lemma storedVotesByCase_Inr:
  assumes "storedVotesByCase cs s = (Inr counts, t)" and "c \<in> set cs"
  shows "w_db t = w_db s \<and>
    (case counts (c_ID c) of None \<Rightarrow> 0 | Some n \<Rightarrow> n) = int (affected (\<lambda>v. v_CaseID v = c_ID c) (d_caseVotes (w_db s)))"
proof -
  have "affected (\<lambda>v. v_CaseID v \<in> c_ID ` set cs \<and> v_CaseID v = c_ID c) vs = affected (\<lambda>v. v_CaseID v = c_ID c) vs" for vs
    using assms(2) by (auto simp: affected_def intro!: arg_cong [where f = length] filter_cong)
  note count = this
  from assms have "cs \<noteq> []" by auto
  with assms(1) have "w_db t = w_db s" and "counts = (\<lambda>i.
      let n = affected (\<lambda>v. v_CaseID v \<in> c_ID ` set cs \<and> v_CaseID v = i) (d_caseVotes (w_db s))
      in if n = 0 then None else Some (int n))"
    by (simp_all add: storedVotesByCase_def sql_Inr)
  then show ?thesis by (simp add: Let_def count)
qed

text \<open>
  The list of cases by votes is the list of cases, those not over when no status is asked for,
  each with one more than its stored votes, in the order of the ranking: more votes first, then the
  earlier opened, then the smaller id.
\<close>

lemma ListCasesByVotes_ranked:
  assumes run: "ListCasesByVotes f s = (Inr out, t)"
  shows "\<exists>cs s1. ListCases (if cf_Status f = CaseStatusOther [] then f\<lparr>cf_Status := CaseStatusOpen\<rparr> else f) s = (Inr cs, s1) \<and>
    mset (map rc_Case out) = mset cs \<and> sorted_wrt (\<lambda>a b. \<not> rankOrder b a) out \<and>
    (\<forall>x \<in> set out. rc_Votes x = int (affected (\<lambda>v. v_CaseID v = c_ID (rc_Case x)) (d_caseVotes (w_db s))) + 1)"
proof -
  let ?f = "if cf_Status f = CaseStatusOther [] then f\<lparr>cf_Status := CaseStatusOpen\<rparr> else f"
  let ?rank = "\<lambda>counts c. \<lparr>rc_Case = c, rc_Votes = (case counts (c_ID c) of None \<Rightarrow> 0 | Some n \<Rightarrow> n) + 1\<rparr>"
  from run obtain cs s1 counts where cs: "ListCases ?f s = (Inr cs, s1)"
    and counts: "storedVotesByCase cs s1 = (Inr counts, t)" and out: "out = sortBy rankOrder (map (?rank counts) cs)"
    unfolding ListCasesByVotes_def bnd_Inr ret_Inr by blast
  have s1: "w_db s1 = w_db s" by (rule keeps_reads [OF keeps_ListCases cs])
  have "mset (map rc_Case out) = image_mset rc_Case (mset (map (?rank counts) cs))" by (simp only: out mset_map mset_sortBy)
  then have "mset (map rc_Case out) = mset cs" by (simp add: multiset.map_comp comp_def)
  moreover have "rc_Votes x = int (affected (\<lambda>v. v_CaseID v = c_ID (rc_Case x)) (d_caseVotes (w_db s))) + 1"
    if "x \<in> set out" for x
  proof -
    from that obtain c where c: "c \<in> set cs" "x = ?rank counts c" by (auto simp: out)
    from storedVotesByCase_Inr [OF counts c(1)] c(2) s1 show ?thesis by simp
  qed
  moreover have "sorted_wrt (\<lambda>a b. \<not> rankOrder b a) out" unfolding out by (rule sorted_ranking)
  ultimately show ?thesis using cs by blast
qed

lemma ListCasesByVotes_ranked_example:
  "\<exists>out t. ListCasesByVotes \<lparr>cf_RequesterID = [], cf_SubjectKind = [], cf_SubjectID = [], cf_Status = CaseStatusOther []\<rparr>
       (worldOf dossierDb) = (Inr out, t) \<and> (\<forall>x \<in> set out. rc_Votes x = 1) \<and> length out = 1"
proof -
  let ?f = "\<lparr>cf_RequesterID = [], cf_SubjectKind = [], cf_SubjectID = [], cf_Status = CaseStatusOther []\<rparr>"
  have "\<exists>out t. ListCasesByVotes ?f (worldOf dossierDb) = (Inr out, t) \<and> length out = 1"
    by (simp add: ListCasesByVotes_def ListCases_def storedVotesByCase_def bnd_def ret_def selectQ_def sql_def
        dossierDb_def emptyDb_def matchesCase_def maxListPage_def sortBy_def)
  then obtain out t where run: "ListCasesByVotes ?f (worldOf dossierDb) = (Inr out, t)" and "length out = 1" by blast
  moreover have "d_caseVotes (w_db (worldOf dossierDb)) = []" by (simp add: dossierDb_def emptyDb_def)
  ultimately show ?thesis using ListCasesByVotes_ranked [OF run] by (auto simp: affected_def)
qed

end
