(* ===== verification/Todos.thy ===== *)
theory Todos
  imports Run_Core Code_Sequence
begin

text \<open>
  \<open>todo.go\<close> and \<open>deliverable.go\<close>: the steps of a task, created with a code minted in the same
  transaction, dispatched and moved between statuses; the deliverables and acceptance criteria of a
  task, read, and the reviewer's result written on a criterion.
\<close>

text \<open>Two steps may share neither the primary key nor the code.\<close>

definition todoClash :: "task_todo \<Rightarrow> task_todo \<Rightarrow> bool" where
  "todoClash d d' \<longleftrightarrow> td_ID d = td_ID d' \<or> td_Code d = td_Code d'"

definition CreateTaskTodo :: "task_todo \<Rightarrow> task_todo tm" where
  "CreateTaskTodo todo =
     bnd newSpecID (\<lambda>i.
     seq (unless (\<not> (td_Title todo = [] \<or> td_Instructions todo = [] \<or> td_ParentTaskID todo = [])) ErrInvalidTask)
     (bnd nowStr (\<lambda>now.
      let todo1 = todo\<lparr>td_ID := i, td_Status := (if td_DependsOn todo \<noteq> [] then TodoStatusBlocked else TodoStatusPending),
                       td_CreatedAt := now, td_UpdatedAt := now\<rparr>
      in transaction
           (bnd (nextCode ''task_todo'' ''TD'') (\<lambda>code.
            let todo2 = todo1\<lparr>td_Code := code\<rparr>
            in seq (insertQ todosT todoClash todo2) (ret todo2))))))"

definition DispatchTaskTodo :: "string \<Rightarrow> unit tm" where
  "DispatchTaskTodo todoID =
     bnd (GetTaskTodo todoID) (\<lambda>todo.
     bnd (if td_Status todo = TodoStatusBlocked then
            bnd nowStr (\<lambda>now.
            seq (updateQ todosT (\<lambda>d. td_ID d = todoID) (\<lambda>d. d\<lparr>td_Status := TodoStatusPending, td_UpdatedAt := now\<rparr>))
            (ret (todo\<lparr>td_Status := TodoStatusPending, td_UpdatedAt := now\<rparr>)))
          else ret todo) (\<lambda>todo1.
     publish (TodoDispatched (td_ID todo1) (td_ParentTaskID todo1) (td_ParentTaskID todo1) (td_DecompRunID todo1)
       (td_AgentID todo1) (td_Title todo1) (td_Instructions todo1) (td_Ordinality todo1) (td_CanRunParallel todo1)
       (td_DependsOn todo1) (td_Precalls todo1) (td_WorkflowRunID todo1))))"

definition UpdateTaskTodoStatus :: "string \<Rightarrow> todo_status \<Rightarrow> task_todo tm" where
  "UpdateTaskTodoStatus todoID status =
     seq (GetTaskTodo todoID)
     (bnd nowStr (\<lambda>now.
      bnd (updateQ todosT (\<lambda>d. td_ID d = todoID \<and> \<not> td_Deleted d) (\<lambda>d. d\<lparr>td_Status := status, td_UpdatedAt := now\<rparr>)) (\<lambda>n.
      seq (unless (n \<noteq> 0) ErrTaskTodoNotFound)
      (GetTaskTodo todoID))))"

definition ListTaskTodos :: "string \<Rightarrow> task_todo list tm" where
  "ListTaskTodos workflowRunID =
     bnd (selectQ todosT (\<lambda>d. \<not> td_Deleted d \<and> (workflowRunID \<noteq> [] \<longrightarrow> td_WorkflowRunID d = workflowRunID))) (\<lambda>rows.
     ret (take maxListPage rows))"

section \<open>Deliverables and acceptance criteria\<close>

definition ListDeliverablesForTask :: "string \<Rightarrow> deliverable list tm" where
  "ListDeliverablesForTask taskID =
     bnd (selectQ deliverablesT (\<lambda>r. dl_ParentID r = taskID)) (\<lambda>rows. ret (take maxListPage rows))"

definition ListAcceptanceCriteriaForTask :: "string \<Rightarrow> acceptance_criteria list tm" where
  "ListAcceptanceCriteriaForTask taskID =
     bnd (selectQ criteriaT (\<lambda>r. ac_ParentID r = taskID)) (\<lambda>rows. ret (take maxListPage rows))"

definition WriteAcceptanceCriteriaResult :: "string \<Rightarrow> string \<Rightarrow> string \<Rightarrow> unit tm" where
  "WriteAcceptanceCriteriaResult criteriaID result notes =
     bnd nowStr (\<lambda>now.
     bnd (updateQ criteriaT (\<lambda>r. ac_ID r = criteriaID)
            (\<lambda>r. r\<lparr>ac_Result := result, ac_ResultNotes := notes, ac_UpdatedAt := now\<rparr>)) (\<lambda>n.
     unless (n \<noteq> 0) ErrAcceptanceCriteriaNotFound))"

lemma keeps_ListTaskTodos [keeps_intros]: "keeps I (ListTaskTodos r)"
  unfolding ListTaskTodos_def by (intro keeps_intros)

lemma steady_todos [steady_intros]:
  "steady (CreateTaskTodo todo)" "steady (DispatchTaskTodo i)" "steady (UpdateTaskTodoStatus i st)"
  unfolding CreateTaskTodo_def DispatchTaskTodo_def UpdateTaskTodoStatus_def Let_def by (intro steady_intros)+

lemma silent_nextCode [silent_intros]: "silent (nextCode et p)"
  unfolding nextCode_def by (auto split: list.split intro!: silent_intros)

lemma nextCode_todos: "keeps (\<lambda>d. d_todos d = ts) (nextCode et p)"
  unfolding nextCode_def
  by (auto split: list.split intro!: keeps_seq keeps_bnd keeps_sql keeps_updateQ keeps_unless keeps_selectQ keeps_ret keeps_fail)

section \<open>Properties\<close>

text \<open>
  A step is created with its code or not at all: a creation that succeeds appends one step, waiting
  exactly when it depends on others, under the next code of its kind, and moves the counter on by one;
  a creation that fails leaves every table as it was, the counter too.
\<close>

lemma CreateTaskTodo_atomic:
  assumes run: "CreateTaskTodo todo s = (r, t)"
  shows "case r of
      Inl e \<Rightarrow> w_db t = w_db s
    | Inr out \<Rightarrow> d_todos (w_db t) = d_todos (w_db s) @ [out] \<and> td_Title out = td_Title todo \<and>
        td_Status out = (if td_DependsOn todo = [] then TodoStatusPending else TodoStatusBlocked) \<and>
        td_Code out = ''TD-'' @ decInt (counterOf ''task_todo'' (w_db s)) \<and>
        td_Code out \<notin> td_Code ` set (d_todos (w_db s)) \<and>
        counterOf ''task_todo'' (w_db t) = counterOf ''task_todo'' (w_db s) + 1"
proof -
  define row where "row now code = todo\<lparr>td_ID := w_ids s (w_nextID s),
      td_Status := (if td_DependsOn todo \<noteq> [] then TodoStatusBlocked else TodoStatusPending),
      td_CreatedAt := now, td_UpdatedAt := now, td_Code := code\<rparr>" for now code
  let ?tx = "\<lambda>now. transaction (bnd (nextCode ''task_todo'' ''TD'') (\<lambda>code.
      seq (insertQ todosT todoClash (row now code)) (ret (row now code))))"
  have tx: "r = Inl ErrInvalidTask \<and> w_db t = w_db s \<or> (\<exists>now s1. w_db s1 = w_db s \<and> ?tx now s1 = (r, t))"
    using run by (auto simp: CreateTaskTodo_def row_def Let_def tm_basic split: if_splits)
  show ?thesis
  proof (cases r)
    case (Inl e)
    with tx show ?thesis by (auto dest: transaction_Inl)
  next
    case (Inr out)
    with tx obtain now s1 where s1: "w_db s1 = w_db s" and "?tx now s1 = (Inr out, t)" by auto
    from transaction_Inr [OF this(2)] obtain s2 where
      t: "w_db t = w_db s2" and body: "bnd (nextCode ''task_todo'' ''TD'') (\<lambda>code.
      seq (insertQ todosT todoClash (row now code)) (ret (row now code))) s1 = (Inr out, s2)" by blast
    then obtain code s3 u where code: "nextCode ''task_todo'' ''TD'' s1 = (Inr code, s3)"
      and ins: "insertQ todosT todoClash (row now code) s3 = (Inr u, s2)" and out: "out = row now code"
      unfolding bnd_Inr seq_Inr ret_Inr by blast
    have "d_todos (w_db s3) = d_todos (w_db s)"
      using keepsD [OF nextCode_todos, of s1 "d_todos (w_db s)" "''task_todo''" "''TD''"] code s1 by simp
    moreover have "counterOf et (d_todos_update f (w_db s3)) = counterOf et (w_db s3)" for et f by (simp add: counterOf_def)
    ultimately show ?thesis
      using insertQ_run [OF ins] nextCode_Inr [OF code] s1 t
      by (auto simp: Inr out row_def todoClash_def)
  qed
qed

text \<open>The step that breaks a chain: one that depends on the first, in a world without steps.\<close>

definition stepOf :: "string \<Rightarrow> int list \<Rightarrow> task_todo" where
  "stepOf title deps = \<lparr>td_ID = [], td_Code = [], td_Title = title, td_Description = [], td_Instructions = ''do'',
     td_Ordinality = 1, td_CanRunParallel = False, td_DependsOn = deps, td_Status = TodoStatusOther [],
     td_ParentTaskID = ''t'', td_DecompRunID = [], td_AgentID = [], td_Precalls = [], td_CreatedAt = [],
     td_UpdatedAt = [], td_WorkflowRunID = [], td_Deleted = False\<rparr>"

lemma CreateTaskTodo_atomic_example:
  "\<exists>out t. CreateTaskTodo (stepOf ''s'' [1]) calmWorld = (Inr out, t) \<and> td_Status out = TodoStatusBlocked \<and>
     td_Code out = ''TD-1'' \<and> d_todos (w_db t) = [out]"
proof -
  have "\<exists>out t. CreateTaskTodo (stepOf ''s'' [1]) calmWorld = (Inr out, t)"
    by (simp add: CreateTaskTodo_def stepOf_def calmWorld_def emptyDb_def transaction_def nextCode_def tm_basic sql_def
        updateQ_def selectQ_def insertQ_def affected_def Let_def)
  then obtain out t where run: "CreateTaskTodo (stepOf ''s'' [1]) calmWorld = (Inr out, t)" by blast
  have "counterOf ''task_todo'' (w_db calmWorld) = 1" "d_todos (w_db calmWorld) = []"
    by (simp_all add: calmWorld_def counterOf_def emptyDb_def)
  moreover have "decInt 1 = ''1''" by code_simp
  ultimately show ?thesis using CreateTaskTodo_atomic [OF run] run by (simp add: stepOf_def)
qed

text \<open>
  A dispatched step is announced once, whole: a dispatch that succeeds found the step live, released
  it if it was blocked, changed no other status, and published one event with the step's task, place and
  dependencies.
\<close>

lemma DispatchTaskTodo_announces:
  assumes run: "DispatchTaskTodo i s = (Inr u, t)" and pub: "\<not> w_publisherNil s"
  shows "\<exists>todo. List.find (\<lambda>d. td_ID d = i \<and> \<not> td_Deleted d) (d_todos (w_db s)) = Some todo \<and>
    map td_Status (d_todos (w_db t)) = map (\<lambda>d. if td_ID d = i \<and> td_Status todo = TodoStatusBlocked
      then TodoStatusPending else td_Status d) (d_todos (w_db s)) \<and>
    w_published t = w_published s @ [TodoDispatched i (td_ParentTaskID todo) (td_ParentTaskID todo) (td_DecompRunID todo)
       (td_AgentID todo) (td_Title todo) (td_Instructions todo) (td_Ordinality todo) (td_CanRunParallel todo)
       (td_DependsOn todo) (td_Precalls todo) (td_WorkflowRunID todo)]"
proof -
  from run obtain todo s1 todo1 s2 where todo: "GetTaskTodo i s = (Inr todo, s1)"
    and rel: "(if td_Status todo = TodoStatusBlocked then
            bnd nowStr (\<lambda>now.
            seq (updateQ todosT (\<lambda>d. td_ID d = i) (\<lambda>d. d\<lparr>td_Status := TodoStatusPending, td_UpdatedAt := now\<rparr>))
            (ret (todo\<lparr>td_Status := TodoStatusPending, td_UpdatedAt := now\<rparr>)))
          else ret todo) s1 = (Inr todo1, s2)"
    and ev: "publish (TodoDispatched (td_ID todo1) (td_ParentTaskID todo1) (td_ParentTaskID todo1) (td_DecompRunID todo1)
       (td_AgentID todo1) (td_Title todo1) (td_Instructions todo1) (td_Ordinality todo1) (td_CanRunParallel todo1)
       (td_DependsOn todo1) (td_Precalls todo1) (td_WorkflowRunID todo1)) s2 = (Inr u, t)"
    unfolding DispatchTaskTodo_def bnd_Inr by blast
  have found: "List.find (\<lambda>d. td_ID d = i \<and> \<not> td_Deleted d) (d_todos (w_db s)) = Some todo" "td_ID todo = i"
    and s1: "w_db s1 = w_db s" "w_published s1 = w_published s"
    using todo by (auto simp: GetTaskTodo_def dest!: takeQ_run dest: find_Some_in)
  have nil1: "\<not> w_publisherNil s1" using steadyD(3) [OF steady_run_reads(3) todo] pub by simp
  show ?thesis
  proof (cases "td_Status todo = TodoStatusBlocked")
    case True
    with rel obtain now s3 n where now: "nowStr s1 = (Inr now, s3)"
      and upd: "updateQ todosT (\<lambda>d. td_ID d = i) (\<lambda>d. d\<lparr>td_Status := TodoStatusPending, td_UpdatedAt := now\<rparr>) s3 = (Inr n, s2)"
      and todo1: "todo1 = todo\<lparr>td_Status := TodoStatusPending, td_UpdatedAt := now\<rparr>"
      by (auto simp: bnd_Inr seq_Inr ret_Inr simp del: updateQ_Inr nowStr_Inr)
    have "\<not> w_publisherNil s2" using now upd nil1 by (simp add: nowStr_Inr updateQ_Inr)
    with ev found s1 now updateQ_run [OF upd] nowStr_run [OF now] True todo1 show ?thesis
      by (simp add: publish_Inr updWhere_def)
  next
    case False
    with rel ev found s1 nil1 show ?thesis by (simp add: ret_Inr publish_Inr)
  qed
qed

end
