(* ===== verification/Run_Closure.thy ===== *)
theory Run_Closure
  imports Todos Run_Rollback
begin

text \<open>
  \<open>GetWorkflowRunClosure\<close> of \<open>workflow_run.go\<close>: the tasks a run started, the steps it started or that
  belong to those tasks, and the edges met on the way. Go's maps \<open>taskIDs\<close>, \<open>todoIDs\<close> and \<open>edgeKeys\<close>
  are lists without repetition, walked in the order of insertion.
\<close>

definition addEdge :: "relationship list \<Rightarrow> relationship \<Rightarrow> relationship list" where
  "addEdge edges rel = (if rel_ID rel \<in> rel_ID ` set edges then edges else edges @ [rel])"

definition addKey :: "string list \<Rightarrow> string \<Rightarrow> string list" where
  "addKey keys k = (if k \<in> set keys then keys else keys @ [k])"

text \<open>Step 3, for one task: an edge list that cannot be read is left out.\<close>

definition walkEdges ::
  "string \<Rightarrow> rel_label \<Rightarrow> direction \<Rightarrow> bool \<Rightarrow> relationship list \<times> string list \<Rightarrow> (relationship list \<times> string list) tm" where
  "walkEdges taskID label dir asTodos acc =
     bnd (attempt (TraverseRelationships taskID label dir)) (\<lambda>r.
     ret (case r of
            Inl _ \<Rightarrow> acc
          | Inr es \<Rightarrow> (foldl addEdge (fst acc) es,
              if asTodos then foldl addKey (snd acc) (map rel_ToID es) else snd acc)))"

definition walkTask :: "string \<Rightarrow> relationship list \<times> string list \<Rightarrow> (relationship list \<times> string list) tm" where
  "walkTask taskID acc =
     bnd (walkEdges taskID RelLabelHasTodo DirectionOutbound True acc) (\<lambda>acc1.
     bnd (walkEdges taskID RelLabelAssignedTo DirectionOutbound False acc1) (\<lambda>acc2.
     bnd (walkEdges taskID RelLabelDependsOn DirectionOutbound False acc2) (\<lambda>acc3.
     walkEdges taskID RelLabelDependsOn DirectionInbound False acc3)))"

fun walkTasks :: "string list \<Rightarrow> relationship list \<times> string list \<Rightarrow> (relationship list \<times> string list) tm" where
  "walkTasks [] acc = ret acc"
| "walkTasks (i # is) acc = bnd (walkTask i acc) (walkTasks is)"

definition taskOrSkip :: "string \<Rightarrow> task option tm" where
  "taskOrSkip i = bnd (attempt (GetTask i)) (\<lambda>r. ret (case r of Inl _ \<Rightarrow> None | Inr t \<Rightarrow> Some t))"

definition todoOrSkip :: "string \<Rightarrow> task_todo option tm" where
  "todoOrSkip i = bnd (attempt (GetTaskTodo i)) (\<lambda>r. ret (case r of Inl _ \<Rightarrow> None | Inr d \<Rightarrow> Some d))"

definition todoOrder :: "task_todo \<Rightarrow> task_todo \<Rightarrow> bool" where
  "todoOrder a b \<longleftrightarrow>
     (if td_ParentTaskID a \<noteq> td_ParentTaskID b then td_ParentTaskID a < td_ParentTaskID b
      else td_Ordinality a < td_Ordinality b)"

definition GetWorkflowRunClosure :: "string \<Rightarrow> workflow_run_closure tm" where
  "GetWorkflowRunClosure runID =
     bnd (GetWorkflowRun runID) (\<lambda>run.
     bnd (TraverseRelationships runID RelLabelStartedTask DirectionOutbound) (\<lambda>startedTasks.
     let edges1 = foldl addEdge [] startedTasks;
         taskIDs = foldl addKey [] (map rel_ToID startedTasks)
     in bnd (TraverseRelationships runID RelLabelStartedTodo DirectionOutbound) (\<lambda>startedTodos.
        let edges2 = foldl addEdge edges1 startedTodos;
            todoIDs = foldl addKey [] (map rel_ToID startedTodos)
        in bnd (walkTasks taskIDs (edges2, todoIDs)) (\<lambda>acc.
           bnd (collect taskIDs taskOrSkip) (\<lambda>tasks.
           bnd (collect (snd acc) todoOrSkip) (\<lambda>todos.
           ret \<lparr>cl_Run = run, cl_Tasks = sortBy (\<lambda>a b. t_CreatedAt a < t_CreatedAt b) tasks,
                cl_Todos = sortBy todoOrder todos, cl_Edges = fst acc, cl_AgentRunIDs = r_AgentRunIDs run,
                cl_FunctionJobIDs = r_FunctionJobIDs run, cl_BranchNames = r_BranchNames run\<rparr>))))))"

section \<open>The walk\<close>

lemma set_addKeys: "set (foldl addKey keys ks) = set keys \<union> set ks"
  by (induction ks arbitrary: keys) (auto simp: addKey_def)

lemma keys_addEdges: "rel_ID ` set (foldl addEdge edges es) = rel_ID ` set edges \<union> rel_ID ` set es"
  by (induction es arbitrary: edges) (auto simp: addEdge_def)

text \<open>The edges of one label at one vertex, as a traversal in a quiet world answers them.\<close>

definition edgesAt :: "string \<Rightarrow> rel_label \<Rightarrow> direction \<Rightarrow> world \<Rightarrow> relationship list" where
  "edgesAt v l dir s = (case fst (TraverseRelationships v l dir s) of Inl _ \<Rightarrow> [] | Inr es \<Rightarrow> es)"

lemma TraverseRelationships_calm:
  assumes "w_faults s = []"
  shows "TraverseRelationships v l dir s = (Inr (edgesAt v l dir s), s)"
proof -
  have "\<exists>es. TraverseRelationships v l dir s = (Inr es, s)"
    using assms by (auto simp: TraverseRelationships_def traverseFK_def traverseJoin_def bnd_def ret_def sql_calm
        split: option.split rel_kind.split)
  then show ?thesis by (auto simp: edgesAt_def)
qed

lemma edgesAt_ids: "e \<in> set (edgesAt v l dir s) \<Longrightarrow> rel_ID e = syntheticEdgeID (rel_FromID e) l (rel_ToID e)"
  by (auto simp: edgesAt_def TraverseRelationships_def traverseFK_def traverseJoin_def bnd_def ret_def sql_def edgeOf_def
      split: option.splits rel_kind.splits if_splits)

lemma edgesAt_pairs:
  assumes "w_faults s = []" and "distinctIds (w_db s)" and "dir = DirectionInbound \<or> dir = DirectionOutbound" and "v \<noteq> []"
  shows "(\<lambda>e. (rel_FromID e, rel_ToID e)) ` set (edgesAt v l dir s) = directionEdges dir v (relEdges l (w_db s))"
  using TraverseRelationships_edges [OF TraverseRelationships_calm [OF assms(1)] assms(2-4)] .

lemma edgesAt_keys:
  assumes "w_faults s = []" and "distinctIds (w_db s)" and "dir = DirectionInbound \<or> dir = DirectionOutbound" and "v \<noteq> []"
  shows "rel_ID ` set (edgesAt v l dir s) = (\<lambda>(a, b). syntheticEdgeID a l b) ` directionEdges dir v (relEdges l (w_db s))"
  unfolding edgesAt_pairs [OF assms, symmetric] image_image by (auto simp: edgesAt_ids intro!: image_cong)

definition taskEdges :: "world \<Rightarrow> string \<Rightarrow> relationship list" where
  "taskEdges s i = edgesAt i RelLabelHasTodo DirectionOutbound s @ edgesAt i RelLabelAssignedTo DirectionOutbound s @
     edgesAt i RelLabelDependsOn DirectionOutbound s @ edgesAt i RelLabelDependsOn DirectionInbound s"

lemma walkTask_calm:
  assumes "w_faults s = []"
  shows "walkTask i acc s = (Inr (foldl addEdge (fst acc) (taskEdges s i),
    foldl addKey (snd acc) (map rel_ToID (edgesAt i RelLabelHasTodo DirectionOutbound s))), s)"
  by (simp add: walkTask_def walkEdges_def bnd_def attempt_def ret_def TraverseRelationships_calm [OF assms] taskEdges_def)

lemma walkTasks_calm:
  assumes "w_faults s = []"
  shows "walkTasks is acc s = (Inr (foldl addEdge (fst acc) (concat (map (taskEdges s) is)),
    foldl addKey (snd acc) (concat (map (\<lambda>i. map rel_ToID (edgesAt i RelLabelHasTodo DirectionOutbound s)) is))), s)"
  by (induction "is" arbitrary: acc) (simp_all add: ret_def bnd_def walkTask_calm [OF assms])

lemma taskOrSkip_calm:
  assumes "quiet s"
  shows "\<exists>u. taskOrSkip i s = (Inr u, s) \<and> rel_option sameRow (List.find (liveTask i) (d_tasks (w_db s))) u"
proof -
  obtain states where faults: "w_faults s = []" and states: "StoredTaskStates (w_setting s) = Inr states"
    using assms by (auto simp: quiet_def)
  have tags: "\<exists>tags. loadTagNames j s = (Inr tags, s)" for j
    using faults by (auto simp: loadTagNames_def bnd_def attempt_def ret_def selectQ_calm)
  show ?thesis
  proof (cases "List.find (liveTask i) (d_tasks (w_db s))")
    case None
    with faults show ?thesis by (simp add: taskOrSkip_def GetTask_def bnd_def attempt_def ret_def takeQ_calm)
  next
    case (Some row)
    obtain names where "loadTagNames (t_ID row) s = (Inr names, s)" using tags by blast
    with faults states Some show ?thesis
      by (simp add: taskOrSkip_def GetTask_def bnd_def attempt_def ret_def takeQ_calm taskStates_def sameRow_def)
  qed
qed

lemma tasksOrSkip_calm:
  assumes "quiet s"
  shows "\<exists>ts. collect is taskOrSkip s = (Inr ts, s) \<and>
    t_ID ` set ts = {i \<in> set is. List.find (liveTask i) (d_tasks (w_db s)) \<noteq> None} \<and>
    (\<forall>u \<in> set ts. \<exists>row \<in> set (d_tasks (w_db s)). \<not> t_Deleted row \<and> sameRow row u)"
proof (induction "is")
  case (Cons i "is")
  then obtain ts where ts: "collect is taskOrSkip s = (Inr ts, s)"
    "t_ID ` set ts = {i \<in> set is. List.find (liveTask i) (d_tasks (w_db s)) \<noteq> None}"
    "\<forall>u \<in> set ts. \<exists>row \<in> set (d_tasks (w_db s)). \<not> t_Deleted row \<and> sameRow row u" by blast
  obtain u where u: "taskOrSkip i s = (Inr u, s)" "rel_option sameRow (List.find (liveTask i) (d_tasks (w_db s))) u"
    using taskOrSkip_calm [OF assms] by blast
  show ?case
  proof (cases u)
    case None
    with u ts show ?thesis by (auto simp: bnd_def ret_def option_rel_Some1)
  next
    case (Some x)
    with u(2) obtain row where row: "List.find (liveTask i) (d_tasks (w_db s)) = Some row" "sameRow row x"
      by (auto simp: option_rel_Some2)
    with find_Some_in [OF row(1)] have "t_ID x = i" "row \<in> set (d_tasks (w_db s))" "\<not> t_Deleted row"
      by (simp_all add: liveTask_def sameRow_fields)
    with Some u ts row show ?thesis by (auto simp: bnd_def ret_def)
  qed
qed (simp add: ret_def)

definition liveTodo :: "string \<Rightarrow> task_todo \<Rightarrow> bool" where
  "liveTodo i d \<longleftrightarrow> td_ID d = i \<and> \<not> td_Deleted d"

lemma todosOrSkip_calm:
  assumes "w_faults s = []"
  shows "collect is todoOrSkip s = (Inr (List.map_filter (\<lambda>i. List.find (liveTodo i) (d_todos (w_db s))) is), s)"
proof (induction "is")
  case (Cons i "is")
  have "todoOrSkip i s = (Inr (List.find (liveTodo i) (d_todos (w_db s))), s)"
    using assms by (auto simp: todoOrSkip_def GetTaskTodo_def bnd_def attempt_def ret_def takeQ_calm liveTodo_def [abs_def]
        split: option.splits)
  with Cons show ?case by (simp add: bnd_def ret_def List.map_filter_simps split: option.split)
qed (simp add: ret_def List.map_filter_simps)

section \<open>The closure\<close>

text \<open>What the tables hold of a run: its tasks, its steps, and the keys of the edges around them.\<close>

definition runTasks :: "string \<Rightarrow> db \<Rightarrow> string set" where
  "runTasks i d = {j. (i, j) \<in> relEdges RelLabelStartedTask d}"

definition runTodos :: "string \<Rightarrow> db \<Rightarrow> string set" where
  "runTodos i d = {k. (i, k) \<in> relEdges RelLabelStartedTodo d \<or> (\<exists>j \<in> runTasks i d. (j, k) \<in> relEdges RelLabelHasTodo d)}"

definition runEdges :: "string \<Rightarrow> db \<Rightarrow> (string \<times> rel_label \<times> string) set" where
  "runEdges i d =
     {(i, RelLabelStartedTask, j) | j. (i, j) \<in> relEdges RelLabelStartedTask d} \<union>
     {(i, RelLabelStartedTodo, k) | k. (i, k) \<in> relEdges RelLabelStartedTodo d} \<union>
     {(j, l, k) | j l k. j \<in> runTasks i d \<and> l \<in> {RelLabelHasTodo, RelLabelAssignedTo, RelLabelDependsOn} \<and> (j, k) \<in> relEdges l d} \<union>
     {(k, RelLabelDependsOn, j) | j k. j \<in> runTasks i d \<and> (k, j) \<in> relEdges RelLabelDependsOn d}"

lemma image_edges:
  "f ` ({(i, S, j) | j. P j} \<union> {(i, S', k) | k. P' k} \<union> {(j, l, k) | j l k. j \<in> T \<and> l \<in> L \<and> Q j l k} \<union>
      {(k, D, j) | j k. j \<in> T \<and> R k j}) =
    {f (i, S, j) | j. P j} \<union> {f (i, S', k) | k. P' k} \<union>
      (\<Union>j \<in> T. {f (j, l, k) | l k. l \<in> L \<and> Q j l k} \<union> {f (k, D, j) | k. R k j})"
  by blast


text \<open>A run with a task that owns a step, and a task of no run.\<close>

definition closureDb :: db where
  "closureDb = emptyDb\<lparr>d_runs := [runWith ''r'' RunInProgress],
     d_tasks := [(taskWith ''t'' TaskStatusPending)\<lparr>t_WorkflowRunID := ''r''\<rparr>, taskWith ''u'' TaskStatusPending],
     d_todos := [(stepOf ''s'' [])\<lparr>td_ID := ''d''\<rparr>]\<rparr>"


end
