(* ===== verification/Held_Events.thy ===== *)
theory Held_Events
  imports Task_Write
begin

text \<open>
  The part \<open>generated.go\<close>, \<open>sourced.go\<close> and \<open>repeating_store.go\<close> share: work done by a manager that \<open>inTx\<close>
  builds on a transaction, whose publisher only holds the events; they are published after the commit,
  and dropped with the transaction when it fails. Beside it, a look-up by key and what
  creating a task without a run and without tags writes.
\<close>

section \<open>Events held until the commit\<close>

text \<open>
  \<open>heldTx m\<close> is \<open>m.db.Transaction(func(tx) { txm, \<dots> := m.inTx(tx, &held); \<dots> })\<close> with the loop
  \<open>for _, e := range held { m.publish(\<dots>) }\<close> behind it. The held publisher is never nil.
\<close>

definition heldTx :: "'a tm \<Rightarrow> 'a tm" where
  "heldTx m s =
     (case transaction m (s\<lparr>w_publisherNil := False, w_published := []\<rparr>) of
        (Inl e, t) \<Rightarrow> (Inl e, t\<lparr>w_publisherNil := w_publisherNil s, w_published := w_published s\<rparr>)
      | (Inr x, t) \<Rightarrow>
          seq (forEach (w_published t) publish) (ret x)
            (t\<lparr>w_publisherNil := w_publisherNil s, w_published := w_published s\<rparr>))"

text \<open>The world the held manager runs in.\<close>

abbreviation held :: "world \<Rightarrow> world" where
  "held s \<equiv> s\<lparr>w_publisherNil := False, w_published := []\<rparr>"

lemma forEach_publish:
  "forEach evs publish s = (Inr (), if w_publisherNil s then s else s\<lparr>w_published := w_published s @ evs\<rparr>)"
  by (induction evs arbitrary: s) (auto simp: ret_def seq_def bnd_def publish_def)

lemma transaction_published:
  "transaction m s = (Inr y, t) \<Longrightarrow> \<exists>s'. m s = (Inr y, s') \<and> w_db t = w_db s' \<and> w_published t = w_published s'"
  by (auto simp: transaction_def sql_def split: prod.splits sum.splits if_splits)

lemma heldTx_Inr:
  assumes "heldTx m s = (Inr x, t)"
  shows "\<exists>s1. m (held s) = (Inr x, s1) \<and> w_db t = w_db s1 \<and>
    w_published t = w_published s @ (if w_publisherNil s then [] else w_published s1)"
proof -
  obtain r s2 where tx: "transaction m (held s) = (r, s2)" by fastforce
  with assms have r: "r = Inr x" and t: "w_db t = w_db s2"
      "w_published t = w_published s @ (if w_publisherNil s then [] else w_published s2)"
    by (auto simp: heldTx_def seq_def bnd_def forEach_publish ret_def split: sum.splits)
  from transaction_published [OF tx [unfolded r]] t show ?thesis by auto
qed

lemma heldTx_Inl:
  assumes "heldTx m s = (Inl e, t)"
  shows "w_db t = w_db s \<and> w_published t = w_published s"
proof -
  obtain r s2 where tx: "transaction m (held s) = (r, s2)" by fastforce
  with assms have "r = Inl e" "w_db t = w_db s2" "w_published t = w_published s"
    by (auto simp: heldTx_def seq_def bnd_def forEach_publish ret_def split: sum.splits)
  with transaction_Inl tx show ?thesis by fastforce
qed

lemma heldTx_quiet:
  assumes "m (held s) = (Inr x, s1)" and "w_faults s1 = []"
  shows "\<exists>t. heldTx m s = (Inr x, t) \<and> w_faults t = []"
  using assms by (auto simp: heldTx_def transaction_def sql_calm seq_def bnd_def ret_def forEach_publish)

lemma keeps_heldTx [keeps_intros]:
  assumes "keeps I m"
  shows "keeps I (heldTx m)"
proof (rule keepsI)
  fix s :: world
  assume I: "I (w_db s)"
  obtain r t where run: "heldTx m s = (r, t)" by fastforce
  show "I (w_db (snd (heldTx m s)))"
  proof (cases r)
    case (Inl e)
    have "w_db t = w_db s" using heldTx_Inl [OF run [unfolded Inl]] by simp
    with run I show ?thesis by simp
  next
    case (Inr x)
    obtain s1 where s1: "m (held s) = (Inr x, s1)" and t: "w_db t = w_db s1"
      using heldTx_Inr [OF run [unfolded Inr]] by blast
    have "I (w_db (held s))" using I by simp
    from keepsD [OF assms this] s1 t run show ?thesis by simp
  qed
qed

lemma steady_heldTx [steady_intros]:
  assumes "steady m"
  shows "steady (heldTx m)"
proof (rule steadyI)
  fix s r t
  assume run: "heldTx m s = (r, t)"
  obtain r1 s2 where tx: "transaction m (held s) = (r1, s2)" by fastforce
  from run tx steadyD [OF steady_transaction [OF assms] tx]
  show "(w_faults s = [] \<longrightarrow> w_faults t = []) \<and> w_setting t = w_setting s \<and> w_publisherNil t = w_publisherNil s"
    by (auto simp: heldTx_def seq_def bnd_def forEach_publish ret_def split: sum.splits if_splits)
qed

section \<open>A row that may be missing\<close>

text \<open>
  The look-up by key of \<open>generatedTask\<close>, \<open>sourcedTask\<close> and \<open>periodMade\<close>: not found is an answer, any other
  error is returned.
\<close>

definition lookupQ :: "'r tbl \<Rightarrow> ('r \<Rightarrow> bool) \<Rightarrow> err \<Rightarrow> 'r option tm" where
  "lookupQ T P notFound =
     bnd (attempt (takeQ T P notFound)) (\<lambda>r.
     case r of
       Inr made \<Rightarrow> ret (Some made)
     | Inl e \<Rightarrow> if e = notFound then ret None else fail e)"

lemma lookupQ_Inr:
  assumes "lookupQ T P notFound s = (Inr found, t)" and "notFound \<noteq> ErrDatabase"
  shows "List.find P (fst T (w_db s)) = found \<and> w_db t = w_db s \<and> w_published t = w_published s"
proof -
  obtain r s1 where look: "takeQ T P notFound s = (r, s1)" by fastforce
  show ?thesis
  proof (cases r)
    case (Inl e)
    with look assms statement_Inl(2) [of T P notFound s e s1] show ?thesis
      by (auto simp: lookupQ_def bnd_def attempt_def ret_def fail_def split: if_splits)
  next
    case (Inr x)
    with look assms(1) takeQ_run [of T P notFound s x s1] show ?thesis
      by (auto simp: lookupQ_def bnd_def attempt_def ret_def)
  qed
qed

lemma keeps_lookupQ [keeps_intros]: "keeps I (lookupQ T P e)"
  unfolding lookupQ_def by (intro keeps_intros)

lemma steady_lookupQ [steady_intros]: "steady (lookupQ T P e)"
  unfolding lookupQ_def by (intro steady_intros)

lemma silent_lookupQ [silent_intros]: "silent (lookupQ T P e)"
  unfolding lookupQ_def by (intro silent_intros)

lemma lookupQ_calm [calm]:
  "w_faults s = [] \<Longrightarrow> lookupQ T P e s = (Inr (List.find P (fst T (w_db s))), s)"
  by (simp add: lookupQ_def bnd_def attempt_def takeQ_calm ret_def split: option.split)

section \<open>A plain task\<close>

text \<open>The row \<open>CreateTask\<close> stores for a task that names neither a run nor tags.\<close>

definition newRow :: "task \<Rightarrow> string \<Rightarrow> string \<Rightarrow> task" where
  "newRow task i now = taskRow (task\<lparr>t_ID := i, t_Status := TaskStatusPending, t_CreatedAt := now, t_UpdatedAt := now,
     t_Priority := (if t_Priority task = TaskPriorityOther [] then TaskPriorityMedium else t_Priority task),
     t_CompletedAt := []\<rparr>)"

definition createdFrom :: "task \<Rightarrow> task \<Rightarrow> bool" where
  "createdFrom task row \<longleftrightarrow> row = newRow task (t_ID row) (t_CreatedAt row)"

lemma newRow_sel [simp]:
  "t_ID (newRow task i now) = i" "t_Status (newRow task i now) = TaskStatusPending"
  "t_Title (newRow task i now) = t_Title task" "t_Description (newRow task i now) = t_Description task"
  "t_DueAt (newRow task i now) = t_DueAt task" "t_LinkedRef (newRow task i now) = t_LinkedRef task"
  "t_EstimatedHours (newRow task i now) = t_EstimatedHours task" "t_CreatedAt (newRow task i now) = now"
  "t_Deleted (newRow task i now) = t_Deleted task" "t_CompletedAt (newRow task i now) = []"
  "t_WorkflowRunID (newRow task i now) = t_WorkflowRunID task"
  "t_Priority (newRow task i now) =
     (if t_Priority task = TaskPriorityOther [] then TaskPriorityMedium else t_Priority task)"
  by (simp_all add: newRow_def taskRow_def)

lemma createdFrom_newRow [simp]: "createdFrom task (newRow task i now)"
  by (simp add: createdFrom_def)

lemma createdFrom_sel:
  assumes "createdFrom task row"
  shows "t_Status row = TaskStatusPending" "t_Title row = t_Title task" "t_Description row = t_Description task"
    "t_DueAt row = t_DueAt task" "t_LinkedRef row = t_LinkedRef task" "t_Deleted row = t_Deleted task"
    "t_EstimatedHours row = t_EstimatedHours task" "t_CompletedAt row = []"
    "t_Priority row = (if t_Priority task = TaskPriorityOther [] then TaskPriorityMedium else t_Priority task)"
  using assms unfolding createdFrom_def by (metis newRow_sel)+

text \<open>The announcement of a stored task, as the held manager keeps it.\<close>

definition announcement :: "task \<Rightarrow> event" where
  "announcement row = TaskCreated (t_ID row) (t_Priority row) []"

lemma CreateTask_plain:
  assumes run: "CreateTask task s = (Inr out, t)" and bare: "t_WorkflowRunID task = []" "t_Tags task = []"
  shows "\<exists>now. now \<noteq> [] \<and> t_ID out \<notin> t_ID ` set (d_tasks (w_db s)) \<and>
    w_db t = d_tasks_update (\<lambda>ts. ts @ [newRow task (t_ID out) now]) (w_db s) \<and>
    w_published t = w_published s @ (if w_publisherNil s then [] else [announcement (newRow task (t_ID out) now)])"
proof -
  define task1 where "task1 i now = task\<lparr>t_ID := i, t_Status := TaskStatusPending, t_CreatedAt := now, t_UpdatedAt := now,
           t_Priority := (if t_Priority task = TaskPriorityOther [] then TaskPriorityMedium else t_Priority task),
           t_CompletedAt := []\<rparr>" for i now
  from run obtain states sa i sb now s1 u s2 u1 sc u2 s3 tags s4 w where st: "taskStates s = (Inr states, sa)"
    and i: "newSpecID sa = (Inr i, sb)" and now: "nowStr sb = (Inr now, s1)"
    and ins: "insertQ tasksT taskClash (taskRow (task1 i now)) s1 = (Inr u, s2)"
    and run1: "whenM (t_WorkflowRunID (task1 i now) \<noteq> [])
      (seq (attempt (LinkTaskToRun (t_WorkflowRunID (task1 i now)) i)) (ret ())) s2 = (Inr u1, sc)"
    and run2: "whenM (t_Tags (task1 i now) \<noteq> []) (seq (attempt (setTaskTags i (t_Tags (task1 i now)))) (ret ())) sc = (Inr u2, s3)"
    and tags: "loadTagNames i s3 = (Inr tags, s4)"
    and out: "out = (task1 i now)\<lparr>t_Tags := tags, t_State := StateNameFor states (t_Status (task1 i now))\<rparr>"
    and pub: "publish (TaskCreated i (t_Priority out) (t_WorkflowRunID out)) s4 = (Inr w, t)"
    unfolding CreateTask_def Let_def bnd_Inr seq_Inr ret_Inr task1_def [symmetric] by blast
  have s3: "s3 = s2" using run1 run2 bare by (auto simp: task1_def whenM_Inr)
  have s1: "w_db s1 = w_db s" "w_published s1 = w_published s" "w_publisherNil s1 = w_publisherNil s"
    using st i now by (auto simp: taskStates_Inr newSpecID_Inr nowStr_Inr)
  have row: "taskRow (task1 i now) = newRow task i now" by (simp add: newRow_def task1_def)
  have id: "t_ID out = i" by (simp add: out task1_def)
  note ins' = insertQ_run [OF ins]
  have nil: "w_publisherNil s4 = w_publisherNil s"
    using steadyD(3) [OF steady_statements(5) ins] steadyD(3) [OF steady_loadTagNames tags] s1 s3 by simp
  have tg: "w_db s4 = w_db s3" "w_published s4 = w_published s3"
    using loadTagNames_db [OF tags] silentD [OF silent_loadTagNames tags] by simp_all
  have "w_db t = w_db s4" "w_published t = w_published s4 @ (if w_publisherNil s then [] else [announcement (newRow task i now)])"
    using pub nil by (auto simp: publish_Inr announcement_def out task1_def bare split: if_splits)
  moreover have "i \<notin> t_ID ` set (d_tasks (w_db s))" using ins' s1 by (auto simp: taskClash_def row)
  moreover have "now \<noteq> []" using nowStr_run [OF now] by blast
  ultimately show ?thesis using ins' s1 s3 tg id row by auto
qed

end
