(* ===== verification/Keyed_Tasks.thy ===== *)
theory Keyed_Tasks
  imports Held_Events
begin

text \<open>
  What \<open>generated.go\<close> and \<open>sourced.go\<close> have in common: a request lists elements, each with a key; an element
  whose key has a row is answered from it, any other opens a task and stores a row under the key. The
  locale \<open>keyed_opening\<close> states what one element's step does; what a whole request does, and that a replay
  of it does nothing, follow once for both.
\<close>

lemma find_append_Some: "List.find P xs = Some x \<Longrightarrow> List.find P (xs @ ys) = Some x"
  by (simp add: find_append)

text \<open>Creating the task of a key and storing its row.\<close>

lemma opening_Inr:
  assumes run: "bnd (CreateTask task) (\<lambda>made. bnd nowStr (\<lambda>now.
      seq (insertQ T clash (row (t_ID made) now)) (ret (out (t_ID made) now)))) s = (Inr res, t)"
    and bare: "t_WorkflowRunID task = []" "t_Tags task = []" and nil: "\<not> w_publisherNil s"
  shows "\<exists>i now stored. res = out i now \<and> createdFrom task stored \<and> t_ID stored = i \<and>
    i \<notin> t_ID ` set (d_tasks (w_db s)) \<and>
    w_db t = snd T (\<lambda>rs. rs @ [row i now]) (d_tasks_update (\<lambda>ts. ts @ [stored]) (w_db s)) \<and>
    w_published t = w_published s @ [announcement stored]"
proof -
  from run obtain made s2 now s3 u where create: "CreateTask task s = (Inr made, s2)"
    and now: "nowStr s2 = (Inr now, s3)" and ins: "insertQ T clash (row (t_ID made) now) s3 = (Inr u, t)"
    and res: "res = out (t_ID made) now"
    unfolding bnd_Inr seq_Inr ret_Inr by blast
  from CreateTask_plain [OF create bare] nil obtain now' where
    "t_ID made \<notin> t_ID ` set (d_tasks (w_db s))"
    "w_db s2 = d_tasks_update (\<lambda>ts. ts @ [newRow task (t_ID made) now']) (w_db s)"
    "w_published s2 = w_published s @ [announcement (newRow task (t_ID made) now')]"
    by auto
  with insertQ_run [OF ins] nowStr_run [OF now] res show ?thesis
    by - (rule exI [of _ "t_ID made"], rule exI [of _ now], rule exI [of _ "newRow task (t_ID made) now'"], simp)
qed

lemma list_all2_fresh:
  assumes "list_all2 (\<lambda>(x, out) row. Q x out row) (filter (\<lambda>p. P (snd p)) (zip xs outs)) rows" and "length xs = length outs"
    and "\<And>x out row. x \<in> set xs \<Longrightarrow> Q x out row \<Longrightarrow> R out row"
  shows "list_all2 R (filter P outs) rows"
  using assms(2,1,3)
proof (induction xs outs arbitrary: rows rule: list_induct2)
  case (Cons x xs out outs)
  have sub: "R out row" if "x' \<in> set xs" "Q x' out row" for x' out row
    using Cons.prems(2) [of x'] that by simp
  show ?case
  proof (cases "P out")
    case True
    with Cons.prems(1) obtain row rows' where "rows = row # rows'" "Q x out row"
      "list_all2 (\<lambda>(x, out) row. Q x out row) (filter (\<lambda>p. P (snd p)) (zip xs outs)) rows'"
      by (auto simp: list_all2_Cons1)
    with Cons.IH [OF _ sub] Cons.prems(2) [of x] True show ?thesis by simp
  next
    case False
    with Cons.prems(1) Cons.IH [OF _ sub] show ?thesis by simp
  qed
qed simp

locale keyed_opening = table get upd
  for get :: "db \<Rightarrow> 'r list" and upd :: "('r list \<Rightarrow> 'r list) \<Rightarrow> db \<Rightarrow> db" +
  fixes rowKey :: "'r \<Rightarrow> string" and rowTask :: "'r \<Rightarrow> string"
    and rowOf :: "'o \<Rightarrow> 'r" and fresh :: "'o \<Rightarrow> bool"
    and keyOf :: "'x \<Rightarrow> string" and rowFor :: "'x \<Rightarrow> 'r \<Rightarrow> bool" and asked :: "'x \<Rightarrow> task"
    and open1 :: "'x \<Rightarrow> 'o tm"
  assumes apart: "d_tasks (upd f d) = d_tasks d" "get (d_tasks_update g d) = get d"
    and steady: "steady (open1 x)"
    and answers: "w_faults s = [] \<Longrightarrow> List.find (\<lambda>r. rowKey r = keyOf x) (get (w_db s)) = Some r \<Longrightarrow>
      \<exists>out. open1 x s = (Inr out, s)"
    and known: "open1 x s = (Inr out, t) \<Longrightarrow> \<not> fresh out \<Longrightarrow>
      List.find (\<lambda>r. rowKey r = keyOf x) (get (w_db s)) = Some (rowOf out) \<and>
      w_db t = w_db s \<and> w_published t = w_published s"
    and opened: "open1 x s = (Inr out, t) \<Longrightarrow> \<not> w_publisherNil s \<Longrightarrow> fresh out \<Longrightarrow>
      List.find (\<lambda>r. rowKey r = keyOf x) (get (w_db s)) = None \<and> rowKey (rowOf out) = keyOf x \<and> rowFor x (rowOf out) \<and>
      (\<exists>row. createdFrom (asked x) row \<and> t_ID row = rowTask (rowOf out) \<and> t_ID row \<notin> t_ID ` set (d_tasks (w_db s)) \<and>
        w_db t = upd (\<lambda>rs. rs @ [rowOf out]) (d_tasks_update (\<lambda>ts. ts @ [row]) (w_db s)) \<and>
        w_published t = w_published s @ [announcement row])"
begin

lemma step_rows:
  assumes "open1 x s = (Inr out, t)" and "\<not> w_publisherNil s"
  shows "rowKey (rowOf out) = keyOf x \<and>
    List.find (\<lambda>r. rowKey r = keyOf x) (get (w_db t)) = Some (rowOf out) \<and>
    get (w_db t) = get (w_db s) @ (if fresh out then [rowOf out] else []) \<and>
    fresh out = (keyOf x \<notin> rowKey ` set (get (w_db s))) \<and> \<not> w_publisherNil t"
proof -
  have "w_publisherNil t = w_publisherNil s" using steadyD(3) [OF steady assms(1)] .
  moreover have none: "keyOf x \<notin> rowKey ` set rs \<longleftrightarrow> List.find (\<lambda>r. rowKey r = keyOf x) rs = None" for rs
    unfolding find_None_iff image_iff by metis
  moreover have "rowKey (rowOf out) = keyOf x" "get (w_db t) = get (w_db s) @ (if fresh out then [rowOf out] else [])"
    "List.find (\<lambda>r. rowKey r = keyOf x) (get (w_db t)) = Some (rowOf out)"
    using known [OF assms(1)] opened [OF assms] find_Some_in [of _ "get (w_db s)" "rowOf out"]
    by (cases "fresh out"; force simp: get_upd apart find_append)+
  moreover have "fresh out = (List.find (\<lambda>r. rowKey r = keyOf x) (get (w_db s)) = None)"
    using known [OF assms(1)] opened [OF assms] by (cases "fresh out") auto
  ultimately show ?thesis using assms(2) by simp
qed

text \<open>A whole request: one answer per element, new rows and new tasks behind the old ones, in order.\<close>

lemma request:
  assumes "mapTM open1 xs s = (Inr outs, t)" and "\<not> w_publisherNil s"
  shows "map (rowKey \<circ> rowOf) outs = map keyOf xs \<and>
    get (w_db t) = get (w_db s) @ map rowOf (filter fresh outs) \<and>
    (\<forall>out \<in> set outs. List.find (\<lambda>r. rowKey r = rowKey (rowOf out)) (get (w_db t)) = Some (rowOf out))"
  using assms
proof (induction xs arbitrary: s outs)
  case (Cons x xs)
  then obtain out s1 outs' where step: "open1 x s = (Inr out, s1)" and rest: "mapTM open1 xs s1 = (Inr outs', t)"
    and outs: "outs = out # outs'"
    unfolding mapTM_Cons_Inr by blast
  note s1 = step_rows [OF step Cons.prems(2)]
  then have "\<not> w_publisherNil s1" by blast
  note IH = Cons.IH [OF rest this]
  then have "List.find (\<lambda>r. rowKey r = keyOf x) (get (w_db t)) = Some (rowOf out)"
    using s1 find_append_Some by metis
  then have "List.find (\<lambda>r. rowKey r = rowKey (rowOf out)) (get (w_db t)) = Some (rowOf out)" using s1 by metis
  with IH have "\<forall>out \<in> set outs. List.find (\<lambda>r. rowKey r = rowKey (rowOf out)) (get (w_db t)) = Some (rowOf out)"
    unfolding outs by (metis set_ConsD)
  moreover have "map (rowKey \<circ> rowOf) outs = map keyOf (x # xs)" using s1 IH outs by (simp add: comp_def)
  moreover have "get (w_db t) = get (w_db s) @ map rowOf (filter fresh outs)" using s1 IH outs by simp
  ultimately show ?case by blast
qed (simp add: ret_Inr)

lemma request_tasks:
  assumes "mapTM open1 xs s = (Inr outs, t)" and "\<not> w_publisherNil s"
  shows "\<exists>rows. d_tasks (w_db t) = d_tasks (w_db s) @ rows \<and>
    list_all2 (\<lambda>(x, out) row. rowFor x (rowOf out) \<and> createdFrom (asked x) row \<and> t_ID row = rowTask (rowOf out))
      (filter (\<lambda>p. fresh (snd p)) (zip xs outs)) rows \<and>
    distinct (map t_ID rows) \<and> t_ID ` set rows \<inter> t_ID ` set (d_tasks (w_db s)) = {} \<and>
    w_published t = w_published s @ map announcement rows"
  using assms
proof (induction xs arbitrary: s outs)
  case (Cons x xs)
  then obtain out s1 outs' where step: "open1 x s = (Inr out, s1)" and rest: "mapTM open1 xs s1 = (Inr outs', t)"
    and outs: "outs = out # outs'"
    unfolding mapTM_Cons_Inr by blast
  have "\<not> w_publisherNil s1" using step_rows [OF step Cons.prems(2)] by blast
  from Cons.IH [OF rest this] obtain rows where tasks: "d_tasks (w_db t) = d_tasks (w_db s1) @ rows"
    and each: "list_all2 (\<lambda>(x, out) row. rowFor x (rowOf out) \<and> createdFrom (asked x) row \<and> t_ID row = rowTask (rowOf out))
      (filter (\<lambda>p. fresh (snd p)) (zip xs outs')) rows"
    and ids: "distinct (map t_ID rows)" "t_ID ` set rows \<inter> t_ID ` set (d_tasks (w_db s1)) = {}"
    and pub: "w_published t = w_published s1 @ map announcement rows" by blast
  show ?case
  proof (cases "fresh out")
    case True
    with opened [OF step Cons.prems(2)] obtain row where "rowFor x (rowOf out)" "createdFrom (asked x) row" "t_ID row = rowTask (rowOf out)"
      "t_ID row \<notin> t_ID ` set (d_tasks (w_db s))" "d_tasks (w_db s1) = d_tasks (w_db s) @ [row]"
      "w_published s1 = w_published s @ [announcement row]"
      by (auto simp: apart)
    with tasks each ids pub outs True show ?thesis by (intro exI [of _ "row # rows"]) auto
  next
    case False
    with known [OF step] tasks each ids pub outs show ?thesis by (intro exI [of _ rows]) simp
  qed
qed (simp add: ret_Inr)

text \<open>The new rows are those of the keys that had none, one each.\<close>

lemma request_keys:
  assumes "mapTM open1 xs s = (Inr outs, t)" and "\<not> w_publisherNil s"
  shows "rowKey ` rowOf ` set (filter fresh outs) = keyOf ` set xs - rowKey ` set (get (w_db s)) \<and>
    distinct (map (rowKey \<circ> rowOf) (filter fresh outs))"
  using assms
proof (induction xs arbitrary: s outs)
  case (Cons x xs)
  then obtain out s1 outs' where step: "open1 x s = (Inr out, s1)" and rest: "mapTM open1 xs s1 = (Inr outs', t)"
    and outs: "outs = out # outs'"
    unfolding mapTM_Cons_Inr by blast
  note s1 = step_rows [OF step Cons.prems(2)]
  then have "\<not> w_publisherNil s1" by blast
  note IH = Cons.IH [OF rest this]
  show ?case
  proof (cases "fresh out")
    case True
    with s1 have get1: "get (w_db s1) = get (w_db s) @ [rowOf out]" and key: "rowKey (rowOf out) = keyOf x"
      and new: "keyOf x \<notin> rowKey ` set (get (w_db s))" by simp_all
    from get1 key have old: "rowKey ` set (get (w_db s1)) = insert (keyOf x) (rowKey ` set (get (w_db s)))" by simp
    have outs1: "filter fresh outs = out # filter fresh outs'" using outs True by simp
    have "keyOf x \<notin> rowKey ` rowOf ` set (filter fresh outs')" using IH old by blast
    moreover have "set (map (rowKey \<circ> rowOf) (filter fresh outs')) = rowKey ` rowOf ` set (filter fresh outs')"
      by (simp only: set_map image_comp)
    ultimately have "distinct (map (rowKey \<circ> rowOf) (filter fresh outs))" using IH outs1 key by (simp add: comp_def)
    moreover have "rowKey ` rowOf ` set (filter fresh outs) = insert (keyOf x) (rowKey ` rowOf ` set (filter fresh outs'))"
      using outs1 key by simp
    moreover have "insert k (A - insert k B) = insert k A - B" if "k \<notin> B" for k :: string and A B
      using that by blast
    ultimately show ?thesis using IH old new by (simp add: comp_def)
  next
    case False
    with s1 have "rowKey ` set (get (w_db s1)) = rowKey ` set (get (w_db s))" "keyOf x \<in> rowKey ` set (get (w_db s))"
      by simp_all
    moreover have "filter fresh outs = filter fresh outs'" using outs False by simp
    moreover have "A - B = insert k A - B" if "k \<in> B" for k :: string and A B using that by blast
    ultimately show ?thesis using IH by simp
  qed
qed (simp add: ret_Inr)

text \<open>
  A replay, in any later state that still has the rows: the same rows, nothing opened, nothing changed.
\<close>

lemma replay_step:
  assumes "List.find (\<lambda>r. rowKey r = keyOf x) (get (w_db s)) = Some r" and "open1 x s = (Inr out, t)"
    and "\<not> w_publisherNil s"
  shows "rowOf out = r \<and> \<not> fresh out \<and> w_db t = w_db s \<and> w_published t = w_published s"
  using opened [OF assms(2,3)] known [OF assms(2)] assms(1) by (cases "fresh out") auto

lemma replay:
  assumes "mapTM open1 xs s = (Inr outs, t)" and "\<not> w_publisherNil s"
    and "\<forall>x \<in> set xs. \<exists>r. List.find (\<lambda>r. rowKey r = keyOf x) (get (w_db s)) = Some r"
  shows "map rowOf outs = map (\<lambda>x. the (List.find (\<lambda>r. rowKey r = keyOf x) (get (w_db s)))) xs \<and>
    (\<forall>out \<in> set outs. \<not> fresh out) \<and> w_db t = w_db s \<and> w_published t = w_published s"
  using assms
proof (induction xs arbitrary: s outs)
  case (Cons x xs)
  then obtain out s1 outs' where step: "open1 x s = (Inr out, s1)" and rest: "mapTM open1 xs s1 = (Inr outs', t)"
    and outs: "outs = out # outs'"
    unfolding mapTM_Cons_Inr by blast
  from Cons.prems(3) obtain r where r: "List.find (\<lambda>r. rowKey r = keyOf x) (get (w_db s)) = Some r" by auto
  note s1 = replay_step [OF r step Cons.prems(2)]
  have "\<not> w_publisherNil s1" using step_rows [OF step Cons.prems(2)] by blast
  from Cons.IH [OF rest this] Cons.prems(3) s1 r outs show ?case by simp
qed (simp add: ret_Inr)

lemma answers_all:
  "w_faults s = [] \<Longrightarrow> \<forall>x \<in> set xs. \<exists>r. List.find (\<lambda>r. rowKey r = keyOf x) (get (w_db s)) = Some r \<Longrightarrow>
   \<exists>outs. mapTM open1 xs s = (Inr outs, s)"
proof (induction xs)
  case (Cons x xs)
  then obtain out outs where "open1 x s = (Inr out, s)" "mapTM open1 xs s = (Inr outs, s)"
    using answers by fastforce
  then show ?case unfolding mapTM_Cons_Inr by blast
qed (simp add: ret_def)

lemma replayed:
  assumes first: "mapTM open1 xs s = (Inr outs, t)" and nil: "\<not> w_publisherNil s"
    and later: "get (w_db s') = get (w_db t) @ newer" and nil': "\<not> w_publisherNil s'" and calm: "w_faults s' = []"
  shows "\<exists>outs'. mapTM open1 xs s' = (Inr outs', s') \<and> map rowOf outs' = map rowOf outs \<and> (\<forall>out \<in> set outs'. \<not> fresh out)"
proof -
  note req = request [OF first nil]
  have keys: "length outs = length xs" "\<And>i. i < length xs \<Longrightarrow> rowKey (rowOf (outs ! i)) = keyOf (xs ! i)"
    using req by (auto simp: list_eq_iff_nth_eq)
  have row: "List.find (\<lambda>r. rowKey r = keyOf (xs ! i)) (get (w_db s')) = Some (rowOf (outs ! i))"
    if "i < length xs" for i
  proof -
    have "outs ! i \<in> set outs" using that keys(1) by simp
    then have "List.find (\<lambda>r. rowKey r = rowKey (rowOf (outs ! i))) (get (w_db t)) = Some (rowOf (outs ! i))" using req by blast
    with that keys(2) later show ?thesis by (simp add: find_append)
  qed
  have "\<forall>x \<in> set xs. \<exists>r. List.find (\<lambda>r. rowKey r = keyOf x) (get (w_db s')) = Some r"
    using row by (metis in_set_conv_nth)
  moreover from answers_all [OF calm this] obtain outs' where again: "mapTM open1 xs s' = (Inr outs', s')" by blast
  ultimately have rep: "map rowOf outs' = map (\<lambda>x. the (List.find (\<lambda>r. rowKey r = keyOf x) (get (w_db s')))) xs \<and>
    (\<forall>out \<in> set outs'. \<not> fresh out)" using replay [OF again nil'] by blast
  have "map (\<lambda>x. the (List.find (\<lambda>r. rowKey r = keyOf x) (get (w_db s')))) xs = map rowOf outs"
    using row keys(1) by (simp add: list_eq_iff_nth_eq)
  with rep again show ?thesis by auto
qed

end

end
