(* ===== verification/Generated.thy ===== *)
theory Generated
  imports Keyed_Tasks Vote_Key
begin

text \<open>
  \<open>generated.go\<close>: one task per subject key of a named run, from one template. The row of a subject is
  keyed by the digest of run and subject, so a replayed run finds the rows of the first and opens
  nothing. A whole call is one transaction and its events are published after it.
\<close>

definition MaxGeneratedSubjects :: nat where
  "MaxGeneratedSubjects = 5000"

text \<open>\<open>fmt.Sprintf("%d:%s%s", len(run), run, subject)\<close> is the text \<open>voteText\<close> builds.\<close>

definition generatedSubjectKey :: "string \<Rightarrow> string \<Rightarrow> string" where
  "generatedSubjectKey run subject = sha256Hex (voteText run subject)"

fun checkSubjects :: "string list \<Rightarrow> string set \<Rightarrow> bool" where
  "checkSubjects [] seen = True"
| "checkSubjects (s # rest) seen =
     (if TrimSpace s = [] then False
      else if s \<in> seen then False
      else checkSubjects rest (insert s seen))"

definition normalizeGenerateTasks :: "generate_request \<Rightarrow> err + generate_request" where
  "normalizeGenerateTasks req =
     (if length (gq_Subjects req) > MaxGeneratedSubjects then Inl ErrTooManySubjects
      else if TrimSpace (gq_Run req) = [] \<or> TrimSpace (tt_Title (gq_Template req)) = [] \<or> gq_Subjects req = []
      then Inl ErrInvalidGeneratedTasks
      else
        case (if tt_DueAt (gq_Template req) = [] then Some req
              else map_option (\<lambda>due. req\<lparr>gq_Template := (gq_Template req)\<lparr>tt_DueAt := fmtRFC3339 due\<rparr>\<rparr>)
                     (parseRFC3339 (tt_DueAt (gq_Template req)))) of
          None \<Rightarrow> Inl ErrInvalidGeneratedTasks
        | Some req' \<Rightarrow>
            if checkSubjects (gq_Subjects req') {} then Inr req' else Inl ErrInvalidGeneratedTasks)"

definition generatedTask :: "string \<Rightarrow> generated_task option tm" where
  "generatedTask key = lookupQ generatedT (\<lambda>r. gt_SubjectKey r = key) ErrGeneratedTaskNotFound"

definition generatedClash :: "generated_task \<Rightarrow> generated_task \<Rightarrow> bool" where
  "generatedClash r r' \<longleftrightarrow> gt_SubjectKey r = gt_SubjectKey r'"

definition templateTask :: "generate_request \<Rightarrow> string \<Rightarrow> task" where
  "templateTask req subject =
     task0\<lparr>t_Title := tt_Title (gq_Template req), t_Description := tt_Description (gq_Template req),
       t_Priority := tt_Priority (gq_Template req), t_DueAt := tt_DueAt (gq_Template req),
       t_EstimatedHours := tt_EstimatedHours (gq_Template req), t_LinkedRef := subject\<rparr>"

text \<open>The body of the loop over the subjects.\<close>

definition generateOne :: "generate_request \<Rightarrow> string \<Rightarrow> generated_outcome tm" where
  "generateOne req subject =
     (let key = generatedSubjectKey (gq_Run req) subject in
      bnd (generatedTask key) (\<lambda>existing.
      case existing of
        Some g \<Rightarrow> ret \<lparr>go_Task = g, go_Created = False\<rparr>
      | None \<Rightarrow>
          bnd (CreateTask (templateTask req subject)) (\<lambda>task.
          bnd nowStr (\<lambda>now.
          let made = \<lparr>gt_SubjectKey = key, gt_Run = gq_Run req, gt_Subject = subject, gt_TaskID = t_ID task,
                gt_GeneratedAt = now\<rparr>
          in seq (insertQ generatedT generatedClash made) (ret \<lparr>go_Task = made, go_Created = True\<rparr>)))))"

definition GenerateTasks :: "generate_request \<Rightarrow> generated_outcome list tm" where
  "GenerateTasks req0 =
     bnd (lift (normalizeGenerateTasks req0)) (\<lambda>req. heldTx (mapTM (generateOne req) (gq_Subjects req)))"

section \<open>The checks\<close>

lemma checkSubjects_iff:
  "checkSubjects ss seen \<longleftrightarrow> (\<forall>s \<in> set ss. TrimSpace s \<noteq> []) \<and> distinct ss \<and> set ss \<inter> seen = {}"
  by (induction ss seen rule: checkSubjects.induct) auto

lemma normalizeGenerateTasks_Inr:
  assumes "normalizeGenerateTasks req0 = Inr req"
  shows "gq_Run req = gq_Run req0" "gq_Subjects req = gq_Subjects req0" "distinct (gq_Subjects req)"
    "tt_Title (gq_Template req) = tt_Title (gq_Template req0)"
    "tt_Description (gq_Template req) = tt_Description (gq_Template req0)"
    "tt_DueAt (gq_Template req) = (case parseRFC3339 (tt_DueAt (gq_Template req0)) of
       None \<Rightarrow> [] | Some due \<Rightarrow> if tt_DueAt (gq_Template req0) = [] then [] else fmtRFC3339 due)"
  using assms by (auto simp: normalizeGenerateTasks_def checkSubjects_iff split: if_splits option.splits)

section \<open>One subject\<close>

lemma generatedTask_Inr:
  "generatedTask key s = (Inr g, t) \<Longrightarrow>
     List.find (\<lambda>r. gt_SubjectKey r = key) (d_generated (w_db s)) = g \<and> w_db t = w_db s \<and> w_published t = w_published s"
  unfolding generatedTask_def by (drule lookupQ_Inr) simp_all

lemma steady_generatedTask [steady_intros]: "steady (generatedTask key)"
  unfolding generatedTask_def by (intro steady_intros)

lemma steady_generateOne [steady_intros]: "steady (generateOne req subject)"
  unfolding generateOne_def Let_def by (intro steady_intros)

lemma templateTask_bare: "t_WorkflowRunID (templateTask req subject) = []" "t_Tags (templateTask req subject) = []"
  by (simp_all add: templateTask_def task0_def)

lemma generateOne_known:
  assumes "generateOne req subject s = (Inr out, t)" and "\<not> go_Created out"
  shows "List.find (\<lambda>r. gt_SubjectKey r = generatedSubjectKey (gq_Run req) subject) (d_generated (w_db s)) = Some (go_Task out) \<and>
    w_db t = w_db s \<and> w_published t = w_published s"
  using assms unfolding generateOne_def Let_def bnd_Inr
  by (auto split: option.splits simp: ret_Inr bnd_Inr seq_Inr dest!: generatedTask_Inr)

lemma generateOne_opened:
  assumes run: "generateOne req subject s = (Inr out, t)" and nil: "\<not> w_publisherNil s" and "go_Created out"
  shows "List.find (\<lambda>r. gt_SubjectKey r = generatedSubjectKey (gq_Run req) subject) (d_generated (w_db s)) = None \<and>
    gt_SubjectKey (go_Task out) = generatedSubjectKey (gq_Run req) subject \<and>
    gt_Subject (go_Task out) = subject \<and> gt_Run (go_Task out) = gq_Run req \<and>
    (\<exists>row. createdFrom (templateTask req subject) row \<and> t_ID row = gt_TaskID (go_Task out) \<and>
      t_ID row \<notin> t_ID ` set (d_tasks (w_db s)) \<and>
      w_db t = d_generated_update (\<lambda>rs. rs @ [go_Task out]) (d_tasks_update (\<lambda>ts. ts @ [row]) (w_db s)) \<and>
      w_published t = w_published s @ [announcement row])"
proof -
  define made where "made i now = \<lparr>gt_SubjectKey = generatedSubjectKey (gq_Run req) subject, gt_Run = gq_Run req,
    gt_Subject = subject, gt_TaskID = i, gt_GeneratedAt = now\<rparr>" for i now
  from run obtain existing s1 where look: "generatedTask (generatedSubjectKey (gq_Run req) subject) s = (Inr existing, s1)"
    and cont: "(case existing of Some g \<Rightarrow> ret \<lparr>go_Task = g, go_Created = False\<rparr>
      | None \<Rightarrow> bnd (CreateTask (templateTask req subject)) (\<lambda>task. bnd nowStr (\<lambda>now.
          seq (insertQ generatedT generatedClash (made (t_ID task) now))
            (ret \<lparr>go_Task = made (t_ID task) now, go_Created = True\<rparr>)))) s1 = (Inr out, t)"
    unfolding generateOne_def Let_def bnd_Inr made_def by blast
  note look' = generatedTask_Inr [OF look]
  have none: "existing = None" using cont assms(3) by (auto split: option.splits simp: ret_Inr)
  have nil1: "\<not> w_publisherNil s1" using steadyD(3) [OF steady_generatedTask look] nil by simp
  from opening_Inr [OF cont [unfolded none option.case] templateTask_bare nil1] look' none show ?thesis
    by (auto simp: made_def)
qed

interpretation generating: keyed_opening d_generated d_generated_update gt_SubjectKey gt_TaskID go_Task go_Created
  "generatedSubjectKey (gq_Run req)" "\<lambda>subject r. gt_Run r = gq_Run req \<and> gt_Subject r = subject"
  "templateTask req" "generateOne req" for req
proof unfold_locales
  show "d_tasks (d_generated_update f d) = d_tasks d" "d_generated (d_tasks_update g d) = d_generated d" for f g d
    by simp_all
  show "steady (generateOne req x)" for x by (rule steady_generateOne)
  show "\<exists>out. generateOne req x s = (Inr out, s)" if "w_faults s = []"
    "List.find (\<lambda>r. gt_SubjectKey r = generatedSubjectKey (gq_Run req) x) (d_generated (w_db s)) = Some r" for x s r
    using that by (simp add: generateOne_def generatedTask_def bnd_def lookupQ_calm ret_def Let_def)
next
  fix x s out t
  assume "generateOne req x s = (Inr out, t)" and "\<not> go_Created out"
  then show "List.find (\<lambda>r. gt_SubjectKey r = generatedSubjectKey (gq_Run req) x) (d_generated (w_db s)) = Some (go_Task out) \<and>
      w_db t = w_db s \<and> w_published t = w_published s"
    by (rule generateOne_known)
next
  fix x s out t
  assume "generateOne req x s = (Inr out, t)" and "\<not> w_publisherNil s" and "go_Created out"
  from generateOne_opened [OF this]
  show "List.find (\<lambda>r. gt_SubjectKey r = generatedSubjectKey (gq_Run req) x) (d_generated (w_db s)) = None \<and>
      gt_SubjectKey (go_Task out) = generatedSubjectKey (gq_Run req) x \<and>
      (gt_Run (go_Task out) = gq_Run req \<and> gt_Subject (go_Task out) = x) \<and>
      (\<exists>row. createdFrom (templateTask req x) row \<and> t_ID row = gt_TaskID (go_Task out) \<and>
        t_ID row \<notin> t_ID ` set (d_tasks (w_db s)) \<and>
        w_db t = d_generated_update (\<lambda>rs. rs @ [go_Task out]) (d_tasks_update (\<lambda>ts. ts @ [row]) (w_db s)) \<and>
        w_published t = w_published s @ [announcement row])"
    by blast
qed

section \<open>Properties\<close>

text \<open>The rows and tasks a call adds, and the transaction around them.\<close>

lemma GenerateTasks_Inr:
  assumes "GenerateTasks req0 s = (Inr outs, t)"
  shows "\<exists>req s1. normalizeGenerateTasks req0 = Inr req \<and>
    mapTM (generateOne req) (gq_Subjects req) (held s) = (Inr outs, s1) \<and> w_db t = w_db s1 \<and>
    w_published t = w_published s @ (if w_publisherNil s then [] else w_published s1)"
proof -
  from assms obtain req where norm: "normalizeGenerateTasks req0 = Inr req"
    and tx: "heldTx (mapTM (generateOne req) (gq_Subjects req)) s = (Inr outs, t)"
    unfolding GenerateTasks_def bnd_Inr lift_Inr by blast
  from heldTx_Inr [OF tx] norm show ?thesis by blast
qed

text \<open>
  C27. Generating tasks gives every subject its one task: a call that succeeds answers the subjects in
  order, each from a row stored under the digest of run and subject; it adds one row and one pending,
  live task, linked to the subject and titled by the template, for exactly the digests that had no row,
  and publishes the creation of those tasks and nothing else.
\<close>

theorem GenerateTasks_opens:
  assumes run: "GenerateTasks req s = (Inr outs, t)"
  shows "\<exists>rows. map (\<lambda>out. gt_SubjectKey (go_Task out)) outs = map (generatedSubjectKey (gq_Run req)) (gq_Subjects req) \<and>
    go_Task ` set outs \<subseteq> set (d_generated (w_db t)) \<and>
    d_generated (w_db t) = d_generated (w_db s) @ map go_Task (filter go_Created outs) \<and>
    gt_SubjectKey ` go_Task ` set (filter go_Created outs) =
      generatedSubjectKey (gq_Run req) ` set (gq_Subjects req) - gt_SubjectKey ` set (d_generated (w_db s)) \<and>
    d_tasks (w_db t) = d_tasks (w_db s) @ rows \<and>
    list_all2 (\<lambda>out row. t_ID row = gt_TaskID (go_Task out) \<and> t_LinkedRef row = gt_Subject (go_Task out) \<and>
        gt_Subject (go_Task out) \<in> set (gq_Subjects req) \<and> t_Title row = tt_Title (gq_Template req) \<and>
        t_Status row = TaskStatusPending \<and> \<not> t_Deleted row) (filter go_Created outs) rows \<and>
    distinct (map t_ID rows) \<and> t_ID ` set rows \<inter> t_ID ` set (d_tasks (w_db s)) = {} \<and>
    w_published t = w_published s @ (if w_publisherNil s then [] else map announcement rows)"
proof -
  from GenerateTasks_Inr [OF run] obtain req' s1 where norm: "normalizeGenerateTasks req = Inr req'"
    and body: "mapTM (generateOne req') (gq_Subjects req') (held s) = (Inr outs, s1)" and t: "w_db t = w_db s1"
      "w_published t = w_published s @ (if w_publisherNil s then [] else w_published s1)" by blast
  have nil: "\<not> w_publisherNil (held s)" by simp
  note same = normalizeGenerateTasks_Inr [OF norm]
  note req = generating.request [OF body nil] and keys = generating.request_keys [OF body nil]
  from generating.request_tasks [OF body nil] obtain rows where tasks: "d_tasks (w_db s1) = d_tasks (w_db s) @ rows"
    and each: "list_all2 (\<lambda>(x, out) row. (gt_Run (go_Task out) = gq_Run req' \<and> gt_Subject (go_Task out) = x) \<and>
        createdFrom (templateTask req' x) row \<and> t_ID row = gt_TaskID (go_Task out))
      (filter (\<lambda>p. go_Created (snd p)) (zip (gq_Subjects req') outs)) rows"
    and ids: "distinct (map t_ID rows)" "t_ID ` set rows \<inter> t_ID ` set (d_tasks (w_db s)) = {}"
    and pub: "w_published s1 = map announcement rows"
    by auto
  have made: "list_all2 (\<lambda>out row. t_ID row = gt_TaskID (go_Task out) \<and> t_LinkedRef row = gt_Subject (go_Task out) \<and>
        gt_Subject (go_Task out) \<in> set (gq_Subjects req) \<and> t_Title row = tt_Title (gq_Template req) \<and>
        t_Status row = TaskStatusPending \<and> \<not> t_Deleted row) (filter go_Created outs) rows"
    by (rule list_all2_fresh [OF each mapTM_length [OF body, symmetric]])
      (auto simp: createdFrom_sel templateTask_def task0_def same)
  have "go_Task ` set outs \<subseteq> set (d_generated (w_db t))" using req t(1) find_Some_in by fastforce
  with req keys tasks made ids pub t same show ?thesis by (intro exI [of _ rows]) (simp add: comp_def)
qed

text \<open>A request for two subjects, in a world where the first has its task.\<close>

definition subjectRequest :: "string list \<Rightarrow> generate_request" where
  "subjectRequest subjects = \<lparr>gq_Run = ''r'', gq_Template = \<lparr>tt_Title = ''visit'', tt_Description = [],
     tt_Priority = TaskPriorityOther [], tt_DueAt = [], tt_EstimatedHours = 0\<rparr>, gq_Subjects = subjects\<rparr>"

lemma subjectRequest_sel [simp]: "gq_Run (subjectRequest ss) = ''r''" "gq_Subjects (subjectRequest ss) = ss"
  "tt_Title (gq_Template (subjectRequest ss)) = ''visit''" "tt_DueAt (gq_Template (subjectRequest ss)) = []"
  by (simp_all add: subjectRequest_def)

lemma subjectRequest_normal: "normalizeGenerateTasks (subjectRequest [''a'']) = Inr (subjectRequest [''a''])"
  by (simp add: subjectRequest_def normalizeGenerateTasks_def MaxGeneratedSubjects_def TrimSpace_def isSpace_def)

lemma GenerateTasks_calm: "\<exists>outs t. GenerateTasks (subjectRequest [''a'']) calmWorld = (Inr outs, t) \<and> w_faults t = []"
proof -
  have "succeeds (mapTM (generateOne (subjectRequest [''a''])) [''a'']) (held calmWorld)"
    by (simp add: succeeds_def generateOne_def generatedTask_def lookupQ_def CreateTask_def templateTask_def task0_def
        loadTagNames_def generatedClash_def taskClash_def taskRow_def calmWorld_def worldOf_def emptyDb_def tm_basic
        takeQ_def selectQ_def insertQ_def sql_def Let_def)
  then obtain outs s1 where run: "mapTM (generateOne (subjectRequest [''a''])) [''a''] (held calmWorld) = (Inr outs, s1)"
    using succeedsD by blast
  have "w_faults s1 = []"
    using steadyD(1) [OF steady_mapTM [OF steady_generateOne] run] by (simp add: calmWorld_def)
  from heldTx_quiet [of "mapTM (generateOne (subjectRequest [''a''])) [''a'']" calmWorld, OF run this] show ?thesis
    by (auto simp: GenerateTasks_def subjectRequest_normal bnd_def [of "lift r" for r] lift_def simp del: mapTM.simps)
qed

theorem GenerateTasks_opens_witness:
  "\<exists>outs t row. GenerateTasks (subjectRequest [''a'']) calmWorld = (Inr outs, t) \<and> d_tasks (w_db t) = [row] \<and>
     t_LinkedRef row = ''a'' \<and> t_Title row = ''visit'' \<and> w_published t = [announcement row]"
proof -
  obtain outs t where run: "GenerateTasks (subjectRequest [''a'']) calmWorld = (Inr outs, t)"
    using GenerateTasks_calm by blast
  have empty: "d_tasks (w_db calmWorld) = []" "d_generated (w_db calmWorld) = []" "w_published calmWorld = []"
    "\<not> w_publisherNil calmWorld"
    by (simp_all add: calmWorld_def emptyDb_def)
  from GenerateTasks_opens [OF run] empty obtain rows where keys: "map (\<lambda>out. gt_SubjectKey (go_Task out)) outs = [generatedSubjectKey ''r'' ''a'']"
    and new: "gt_SubjectKey ` go_Task ` set (filter go_Created outs) = {generatedSubjectKey ''r'' ''a''}"
    and rows: "d_tasks (w_db t) = rows" "w_published t = map announcement rows"
    and each: "list_all2 (\<lambda>out row. t_ID row = gt_TaskID (go_Task out) \<and> t_LinkedRef row = gt_Subject (go_Task out) \<and>
      gt_Subject (go_Task out) \<in> {''a''} \<and> t_Title row = ''visit'' \<and> t_Status row = TaskStatusPending \<and> \<not> t_Deleted row)
      (filter go_Created outs) rows"
    by auto
  from keys obtain out where outs: "outs = [out]" by (auto simp: map_eq_Cons_conv)
  with new have "filter go_Created outs = [out]" by (auto split: if_splits)
  with each rows run show ?thesis by (auto simp: list_all2_Cons1)
qed

text \<open>
  A generation is replayed without effect: sending the request again in any later state that kept the
  rows, with no failing statement, returns the same rows with nothing created, changes no table and
  publishes nothing.
\<close>

lemma GenerateTasks_replay:
  assumes run: "GenerateTasks req s = (Inr outs, t)" and later: "d_generated (w_db s') = d_generated (w_db t) @ newer"
    and calm: "w_faults s' = []"
  shows "\<exists>outs' t'. GenerateTasks req s' = (Inr outs', t') \<and> map go_Task outs' = map go_Task outs \<and>
    (\<forall>out \<in> set outs'. \<not> go_Created out) \<and> w_db t' = w_db s' \<and> w_published t' = w_published s'"
proof -
  from GenerateTasks_Inr [OF run] obtain req' s1 where norm: "normalizeGenerateTasks req = Inr req'"
    and body: "mapTM (generateOne req') (gq_Subjects req') (held s) = (Inr outs, s1)" and t: "w_db t = w_db s1" by blast
  have "d_generated (w_db (held s')) = d_generated (w_db s1) @ newer" using later t by simp
  from generating.replayed [OF body _ this] calm obtain outs' where
    again: "mapTM (generateOne req') (gq_Subjects req') (held s') = (Inr outs', held s')"
    and same: "map go_Task outs' = map go_Task outs" "\<forall>out \<in> set outs'. \<not> go_Created out" by auto
  from heldTx_quiet [of "mapTM (generateOne req') (gq_Subjects req')" s', OF again] calm obtain t' where tx: "heldTx (mapTM (generateOne req') (gq_Subjects req')) s' = (Inr outs', t')"
    by auto
  from heldTx_Inr [OF tx] again have "w_db t' = w_db s'" "w_published t' = w_published s'" by auto
  moreover have "GenerateTasks req s' = (Inr outs', t')" using norm tx by (simp add: GenerateTasks_def bnd_def lift_def)
  ultimately show ?thesis using same by blast
qed

lemma GenerateTasks_replay_example:
  "\<exists>outs t outs' t'. GenerateTasks (subjectRequest [''a'']) calmWorld = (Inr outs, t) \<and>
     GenerateTasks (subjectRequest [''a'']) t = (Inr outs', t') \<and> map go_Task outs' = map go_Task outs \<and> w_db t' = w_db t"
proof -
  obtain outs t where run: "GenerateTasks (subjectRequest [''a'']) calmWorld = (Inr outs, t)" and calm: "w_faults t = []"
    using GenerateTasks_calm by blast
  from GenerateTasks_replay [OF run _ calm, of "[]"] run show ?thesis by fastforce
qed

text \<open>
  Generating is all or nothing: a call that returns an error, for whatever reason and however many
  subjects it had reached, leaves every table as it was and publishes nothing.
\<close>

lemma GenerateTasks_atomic:
  assumes "GenerateTasks req s = (Inl e, t)"
  shows "w_db t = w_db s \<and> w_published t = w_published s"
  using assms heldTx_Inl unfolding GenerateTasks_def bnd_Inl lift_def by (auto simp: lift_Inr)

text \<open>The insert of the row fails after the task was inserted: the task is gone with it.\<close>

lemma GenerateTasks_atomic_example:
  "\<exists>t. GenerateTasks (subjectRequest [''a'']) (calmWorld\<lparr>w_faults := [False, False, False, True]\<rparr>) = (Inl ErrDatabase, t) \<and>
     w_db t = emptyDb"
proof -
  let ?s = "calmWorld\<lparr>w_faults := [False, False, False, True]\<rparr>"
  have "fst (mapTM (generateOne (subjectRequest [''a''])) [''a''] (held ?s)) = Inl ErrDatabase"
    by (simp add: generateOne_def generatedTask_def lookupQ_def CreateTask_def templateTask_def task0_def
        loadTagNames_def generatedClash_def taskClash_def taskRow_def calmWorld_def worldOf_def emptyDb_def tm_basic
        takeQ_def selectQ_def insertQ_def sql_def Let_def)
  then have "fst (GenerateTasks (subjectRequest [''a'']) ?s) = Inl ErrDatabase"
    by (simp add: GenerateTasks_def subjectRequest_normal bnd_def [of "lift r" for r] lift_def heldTx_def transaction_def
        split_beta del: mapTM.simps)
  then obtain t where run: "GenerateTasks (subjectRequest [''a'']) ?s = (Inl ErrDatabase, t)" by (metis prod.collapse)
  from GenerateTasks_atomic [OF run] run show ?thesis by (simp add: calmWorld_def)
qed

end
