(* ===== verification/Sourced.thy ===== *)
theory Sourced
  imports Keyed_Tasks Vote_Key Time_Roundtrip
begin

text \<open>
  \<open>sourced.go\<close>: one dated task per item a source lists, keyed by the digest of the source and the item's
  key (its title when it has none). The shape of \<open>generated.go\<close>, with its own checks and its own table.
\<close>

definition sourcedItemKey :: "string \<Rightarrow> string \<Rightarrow> string" where
  "sourcedItemKey source key = sha256Hex (voteText source key)"

text \<open>The loop over the items, with the map of keys seen and the items built so far.\<close>

fun normalizeItems :: "sourced_item list \<Rightarrow> string set \<Rightarrow> err + sourced_item list" where
  "normalizeItems [] seen = Inr []"
| "normalizeItems (it # rest) seen =
     (if TrimSpace (si_Title it) = [] then Inl ErrInvalidSourcedTasks
      else case parseRFC3339 (si_DueAt it) of
        None \<Rightarrow> Inl ErrInvalidSourcedTasks
      | Some due \<Rightarrow>
          let it' = it\<lparr>si_DueAt := fmtRFC3339 due, si_Key := (if si_Key it = [] then si_Title it else si_Key it)\<rparr>
          in if si_Key it' \<in> seen then Inl ErrInvalidSourcedTasks
             else case normalizeItems rest (insert (si_Key it') seen) of
               Inl e \<Rightarrow> Inl e
             | Inr items \<Rightarrow> Inr (it' # items))"

definition normalizeSourcedItems :: "sourced_request \<Rightarrow> err + sourced_item list" where
  "normalizeSourcedItems req =
     (if TrimSpace (sq_Source req) = [] \<or> sq_Items req = [] \<or> length (sq_Items req) > maxListPage
      then Inl ErrInvalidSourcedTasks
      else normalizeItems (sq_Items req) {})"

definition sourcedTask :: "string \<Rightarrow> sourced_task option tm" where
  "sourcedTask itemKey = lookupQ sourcedT (\<lambda>r. so_ItemKey r = itemKey) ErrSourcedTaskNotFound"

definition sourcedClash :: "sourced_task \<Rightarrow> sourced_task \<Rightarrow> bool" where
  "sourcedClash r r' \<longleftrightarrow> so_ItemKey r = so_ItemKey r'"

definition itemTask :: "string \<Rightarrow> sourced_item \<Rightarrow> task" where
  "itemTask source it =
     task0\<lparr>t_Title := si_Title it, t_Description := si_Description it, t_DueAt := si_DueAt it, t_LinkedRef := source\<rparr>"

definition openOne :: "string \<Rightarrow> sourced_item \<Rightarrow> sourced_outcome tm" where
  "openOne source it =
     (let itemKey = sourcedItemKey source (si_Key it) in
      bnd (sourcedTask itemKey) (\<lambda>existing.
      case existing of
        Some r \<Rightarrow> ret \<lparr>sx_Task = r, sx_Opened = False\<rparr>
      | None \<Rightarrow>
          bnd (CreateTask (itemTask source it)) (\<lambda>task.
          bnd nowStr (\<lambda>now.
          let made = \<lparr>so_ItemKey = itemKey, so_Source = source, so_Key = si_Key it, so_TaskID = t_ID task,
                so_DueAt = si_DueAt it, so_OpenedAt = now\<rparr>
          in seq (insertQ sourcedT sourcedClash made) (ret \<lparr>sx_Task = made, sx_Opened = True\<rparr>)))))"

definition OpenSourcedTasks :: "sourced_request \<Rightarrow> sourced_outcome list tm" where
  "OpenSourcedTasks req =
     bnd (lift (normalizeSourcedItems req)) (\<lambda>items. heldTx (mapTM (openOne (sq_Source req)) items))"

section \<open>The checks\<close>

text \<open>What a request must be, and what becomes of an item.\<close>

definition itemKey :: "sourced_item \<Rightarrow> string" where
  "itemKey it = (if si_Key it = [] then si_Title it else si_Key it)"

definition normalItem :: "sourced_item \<Rightarrow> sourced_item" where
  "normalItem it =
     it\<lparr>si_DueAt := (case parseRFC3339 (si_DueAt it) of None \<Rightarrow> [] | Some due \<Rightarrow> fmtRFC3339 due), si_Key := itemKey it\<rparr>"

lemma normalItem_sel [simp]: "si_Key (normalItem it) = itemKey it" "si_Title (normalItem it) = si_Title it"
  "si_Description (normalItem it) = si_Description it"
  by (simp_all add: normalItem_def)

lemma normalizeItems_iff:
  "normalizeItems items seen = Inr items' \<longleftrightarrow>
     (\<forall>it \<in> set items. TrimSpace (si_Title it) \<noteq> [] \<and> parseRFC3339 (si_DueAt it) \<noteq> None) \<and>
     distinct (map itemKey items) \<and> itemKey ` set items \<inter> seen = {} \<and> items' = map normalItem items"
proof (induction items seen arbitrary: items' rule: normalizeItems.induct)
  case (2 it rest seen)
  show ?case
  proof (cases "TrimSpace (si_Title it) = [] \<or> parseRFC3339 (si_DueAt it) = None \<or> itemKey it \<in> seen")
    case True
    then show ?thesis by (auto simp: Let_def itemKey_def split: option.split)
  next
    case False
    then obtain due where due: "parseRFC3339 (si_DueAt it) = Some due" by auto
    have item: "it\<lparr>si_DueAt := fmtRFC3339 due, si_Key := itemKey it\<rparr> = normalItem it"
      by (simp add: normalItem_def due)
    from False due have "normalizeItems (it # rest) seen =
        (case normalizeItems rest (insert (itemKey it) seen) of Inl e \<Rightarrow> Inl e | Inr items \<Rightarrow> Inr (normalItem it # items))"
      by (simp add: Let_def item flip: itemKey_def cong: if_cong split del: if_split)
    moreover have "normalizeItems rest (insert (itemKey it) seen) = Inr items' \<longleftrightarrow>
        (\<forall>it \<in> set rest. TrimSpace (si_Title it) \<noteq> [] \<and> parseRFC3339 (si_DueAt it) \<noteq> None) \<and>
        distinct (map itemKey rest) \<and> itemKey ` set rest \<inter> insert (itemKey it) seen = {} \<and> items' = map normalItem rest" for items'
      using 2 [of due _ items'] False due by (simp add: Let_def flip: itemKey_def split del: if_split)
    ultimately show ?thesis using False by (auto split: sum.splits)
  qed
qed auto

section \<open>One item\<close>

lemma sourcedTask_Inr:
  "sourcedTask key s = (Inr r, t) \<Longrightarrow>
     List.find (\<lambda>r. so_ItemKey r = key) (d_sourced (w_db s)) = r \<and> w_db t = w_db s \<and> w_published t = w_published s"
  unfolding sourcedTask_def by (drule lookupQ_Inr) simp_all

lemma steady_sourcedTask [steady_intros]: "steady (sourcedTask key)"
  unfolding sourcedTask_def by (intro steady_intros)

lemma steady_openOne [steady_intros]: "steady (openOne source it)"
  unfolding openOne_def Let_def by (intro steady_intros)

lemma itemTask_bare: "t_WorkflowRunID (itemTask source it) = []" "t_Tags (itemTask source it) = []"
  by (simp_all add: itemTask_def task0_def)

lemma openOne_known:
  assumes "openOne source it s = (Inr out, t)" and "\<not> sx_Opened out"
  shows "List.find (\<lambda>r. so_ItemKey r = sourcedItemKey source (si_Key it)) (d_sourced (w_db s)) = Some (sx_Task out) \<and>
    w_db t = w_db s \<and> w_published t = w_published s"
  using assms unfolding openOne_def Let_def bnd_Inr
  by (auto split: option.splits simp: ret_Inr bnd_Inr seq_Inr dest!: sourcedTask_Inr)

text \<open>What the row of an item says of it.\<close>

definition recordsItem :: "string \<Rightarrow> sourced_item \<Rightarrow> sourced_task \<Rightarrow> bool" where
  "recordsItem source it r \<longleftrightarrow> so_Source r = source \<and> so_Key r = si_Key it \<and> so_DueAt r = si_DueAt it"

lemma openOne_opened:
  assumes run: "openOne source it s = (Inr out, t)" and nil: "\<not> w_publisherNil s" and "sx_Opened out"
  shows "List.find (\<lambda>r. so_ItemKey r = sourcedItemKey source (si_Key it)) (d_sourced (w_db s)) = None \<and>
    so_ItemKey (sx_Task out) = sourcedItemKey source (si_Key it) \<and> recordsItem source it (sx_Task out) \<and>
    (\<exists>row. createdFrom (itemTask source it) row \<and> t_ID row = so_TaskID (sx_Task out) \<and>
      t_ID row \<notin> t_ID ` set (d_tasks (w_db s)) \<and>
      w_db t = d_sourced_update (\<lambda>rs. rs @ [sx_Task out]) (d_tasks_update (\<lambda>ts. ts @ [row]) (w_db s)) \<and>
      w_published t = w_published s @ [announcement row])"
proof -
  define made where "made i now = \<lparr>so_ItemKey = sourcedItemKey source (si_Key it), so_Source = source, so_Key = si_Key it,
    so_TaskID = i, so_DueAt = si_DueAt it, so_OpenedAt = now\<rparr>" for i now
  from run obtain existing s1 where look: "sourcedTask (sourcedItemKey source (si_Key it)) s = (Inr existing, s1)"
    and cont: "(case existing of Some r \<Rightarrow> ret \<lparr>sx_Task = r, sx_Opened = False\<rparr>
      | None \<Rightarrow> bnd (CreateTask (itemTask source it)) (\<lambda>task. bnd nowStr (\<lambda>now.
          seq (insertQ sourcedT sourcedClash (made (t_ID task) now))
            (ret \<lparr>sx_Task = made (t_ID task) now, sx_Opened = True\<rparr>)))) s1 = (Inr out, t)"
    unfolding openOne_def Let_def bnd_Inr made_def by blast
  note look' = sourcedTask_Inr [OF look]
  have none: "existing = None" using cont assms(3) by (auto split: option.splits simp: ret_Inr)
  have nil1: "\<not> w_publisherNil s1" using steadyD(3) [OF steady_sourcedTask look] nil by simp
  from opening_Inr [OF cont [unfolded none option.case] itemTask_bare nil1] look' none show ?thesis
    by (auto simp: made_def recordsItem_def)
qed

interpretation sourcing: keyed_opening d_sourced d_sourced_update so_ItemKey so_TaskID sx_Task sx_Opened
  "\<lambda>it. sourcedItemKey source (si_Key it)" "recordsItem source" "itemTask source" "openOne source" for source
proof unfold_locales
  show "d_tasks (d_sourced_update f d) = d_tasks d" "d_sourced (d_tasks_update g d) = d_sourced d" for f g d
    by simp_all
  show "steady (openOne source x)" for x by (rule steady_openOne)
  show "\<exists>out. openOne source x s = (Inr out, s)" if "w_faults s = []"
    "List.find (\<lambda>r. so_ItemKey r = sourcedItemKey source (si_Key x)) (d_sourced (w_db s)) = Some r" for x s r
    using that by (simp add: openOne_def sourcedTask_def bnd_def lookupQ_calm ret_def Let_def)
next
  fix x s out t
  assume "openOne source x s = (Inr out, t)" and "\<not> sx_Opened out"
  then show "List.find (\<lambda>r. so_ItemKey r = sourcedItemKey source (si_Key x)) (d_sourced (w_db s)) = Some (sx_Task out) \<and>
      w_db t = w_db s \<and> w_published t = w_published s"
    by (rule openOne_known)
next
  fix x s out t
  assume "openOne source x s = (Inr out, t)" and "\<not> w_publisherNil s" and "sx_Opened out"
  then show "List.find (\<lambda>r. so_ItemKey r = sourcedItemKey source (si_Key x)) (d_sourced (w_db s)) = None \<and>
      so_ItemKey (sx_Task out) = sourcedItemKey source (si_Key x) \<and> recordsItem source x (sx_Task out) \<and>
      (\<exists>row. createdFrom (itemTask source x) row \<and> t_ID row = so_TaskID (sx_Task out) \<and>
        t_ID row \<notin> t_ID ` set (d_tasks (w_db s)) \<and>
        w_db t = d_sourced_update (\<lambda>rs. rs @ [sx_Task out]) (d_tasks_update (\<lambda>ts. ts @ [row]) (w_db s)) \<and>
        w_published t = w_published s @ [announcement row])"
    by (rule openOne_opened)
qed

section \<open>Properties\<close>

lemma OpenSourcedTasks_Inr:
  assumes "OpenSourcedTasks req s = (Inr outs, t)"
  shows "\<exists>items s1. normalizeSourcedItems req = Inr items \<and>
    mapTM (openOne (sq_Source req)) items (held s) = (Inr outs, s1) \<and> w_db t = w_db s1 \<and>
    w_published t = w_published s @ (if w_publisherNil s then [] else w_published s1)"
proof -
  from assms obtain items where norm: "normalizeSourcedItems req = Inr items"
    and tx: "heldTx (mapTM (openOne (sq_Source req)) items) s = (Inr outs, t)"
    unfolding OpenSourcedTasks_def bnd_Inr lift_Inr by blast
  from heldTx_Inr [OF tx] norm show ?thesis by blast
qed

text \<open>Any request that is accepted answers in full, or leaves everything as it was.\<close>

lemma OpenSourcedTasks_atomic:
  "OpenSourcedTasks req s = (Inl e, t) \<Longrightarrow> w_db t = w_db s \<and> w_published t = w_published s"
  using heldTx_Inl unfolding OpenSourcedTasks_def bnd_Inl lift_def by (auto simp: lift_Inr)

text \<open>
  Opening the tasks of a source gives every item its one task: a call that succeeds answers the items
  in order, each from a row stored under the digest of the source and the item's key; for exactly the
  digests that had no row it adds one row and one pending, live task, linked to the source and due when
  the source says, in UTC.
\<close>

lemma OpenSourcedTasks_opens:
  assumes run: "OpenSourcedTasks req s = (Inr outs, t)"
  shows "\<exists>rows. map (\<lambda>out. so_ItemKey (sx_Task out)) outs = map (\<lambda>it. sourcedItemKey (sq_Source req) (itemKey it)) (sq_Items req) \<and>
    sx_Task ` set outs \<subseteq> set (d_sourced (w_db t)) \<and>
    d_sourced (w_db t) = d_sourced (w_db s) @ map sx_Task (filter sx_Opened outs) \<and>
    so_ItemKey ` sx_Task ` set (filter sx_Opened outs) =
      (\<lambda>it. sourcedItemKey (sq_Source req) (itemKey it)) ` set (sq_Items req) - so_ItemKey ` set (d_sourced (w_db s)) \<and>
    d_tasks (w_db t) = d_tasks (w_db s) @ rows \<and>
    list_all2 (\<lambda>out row. t_ID row = so_TaskID (sx_Task out) \<and> t_LinkedRef row = sq_Source req \<and>
        t_DueAt row = so_DueAt (sx_Task out) \<and> t_Status row = TaskStatusPending \<and> \<not> t_Deleted row \<and>
        (\<exists>it \<in> set (sq_Items req). \<exists>due. parseRFC3339 (si_DueAt it) = Some due \<and> t_Title row = si_Title it \<and>
           so_Key (sx_Task out) = itemKey it \<and> t_DueAt row = fmtRFC3339 due)) (filter sx_Opened outs) rows \<and>
    distinct (map t_ID rows) \<and> t_ID ` set rows \<inter> t_ID ` set (d_tasks (w_db s)) = {} \<and>
    w_published t = w_published s @ (if w_publisherNil s then [] else map announcement rows)"
proof -
  let ?src = "sq_Source req"
  from OpenSourcedTasks_Inr [OF run] obtain items s1 where norm: "normalizeSourcedItems req = Inr items"
    and body: "mapTM (openOne ?src) items (held s) = (Inr outs, s1)" and t: "w_db t = w_db s1"
      "w_published t = w_published s @ (if w_publisherNil s then [] else w_published s1)" by blast
  have nil: "\<not> w_publisherNil (held s)" by simp
  have items: "items = map normalItem (sq_Items req)" "\<forall>it \<in> set (sq_Items req). parseRFC3339 (si_DueAt it) \<noteq> None"
    using norm by (auto simp: normalizeSourcedItems_def normalizeItems_iff split: if_splits)
  note req = sourcing.request [OF body nil] and keys = sourcing.request_keys [OF body nil]
  from sourcing.request_tasks [OF body nil] obtain rows where tasks: "d_tasks (w_db s1) = d_tasks (w_db s) @ rows"
    and each: "list_all2 (\<lambda>(x, out) row. recordsItem ?src x (sx_Task out) \<and>
        createdFrom (itemTask ?src x) row \<and> t_ID row = so_TaskID (sx_Task out))
      (filter (\<lambda>p. sx_Opened (snd p)) (zip items outs)) rows"
    and ids: "distinct (map t_ID rows)" "t_ID ` set rows \<inter> t_ID ` set (d_tasks (w_db s)) = {}"
    and pub: "w_published s1 = map announcement rows"
    by auto
  have made: "list_all2 (\<lambda>out row. t_ID row = so_TaskID (sx_Task out) \<and> t_LinkedRef row = ?src \<and>
        t_DueAt row = so_DueAt (sx_Task out) \<and> t_Status row = TaskStatusPending \<and> \<not> t_Deleted row \<and>
        (\<exists>it \<in> set (sq_Items req). \<exists>due. parseRFC3339 (si_DueAt it) = Some due \<and> t_Title row = si_Title it \<and>
           so_Key (sx_Task out) = itemKey it \<and> t_DueAt row = fmtRFC3339 due)) (filter sx_Opened outs) rows"
  proof (rule list_all2_fresh [OF each mapTM_length [OF body, symmetric]])
    fix x out row
    assume x: "x \<in> set items" and row: "recordsItem ?src x (sx_Task out) \<and> createdFrom (itemTask ?src x) row \<and>
        t_ID row = so_TaskID (sx_Task out)"
    from x items obtain it due where it: "it \<in> set (sq_Items req)" "x = normalItem it" and due: "parseRFC3339 (si_DueAt it) = Some due"
      by auto
    with row show "t_ID row = so_TaskID (sx_Task out) \<and> t_LinkedRef row = ?src \<and>
        t_DueAt row = so_DueAt (sx_Task out) \<and> t_Status row = TaskStatusPending \<and> \<not> t_Deleted row \<and>
        (\<exists>it \<in> set (sq_Items req). \<exists>due. parseRFC3339 (si_DueAt it) = Some due \<and> t_Title row = si_Title it \<and>
           so_Key (sx_Task out) = itemKey it \<and> t_DueAt row = fmtRFC3339 due)"
      by (auto simp: createdFrom_sel itemTask_def task0_def recordsItem_def normalItem_def intro!: bexI [of _ it])
  qed
  have "sx_Task ` set outs \<subseteq> set (d_sourced (w_db t))" using req t(1) find_Some_in by fastforce
  with req keys tasks made ids pub t items show ?thesis by (intro exI [of _ rows]) (simp add: comp_def image_image)
qed

text \<open>A source with one item, keyed by its title and due at the start of 1970.\<close>

definition boreholeRequest :: sourced_request where
  "boreholeRequest = \<lparr>sq_Source = ''form'', sq_Items = [\<lparr>si_Key = [], si_Title = ''Repair'', si_Description = [],
     si_DueAt = fmtRFC3339 0\<rparr>]\<rparr>"

definition boreholeItem :: sourced_item where
  "boreholeItem = \<lparr>si_Key = ''Repair'', si_Title = ''Repair'', si_Description = [], si_DueAt = fmtRFC3339 0\<rparr>"

lemma borehole_due: "parseRFC3339 (fmtRFC3339 0) = Some 0"
proof -
  have "fourDigitYear 0" by code_simp
  from parse_fmt [OF this] show ?thesis by simp
qed

lemma boreholeRequest_normal: "normalizeSourcedItems boreholeRequest = Inr [boreholeItem]"
  using borehole_due by (auto simp: normalizeSourcedItems_def boreholeRequest_def boreholeItem_def TrimSpace_def isSpace_def
      maxListPage_def Let_def split: option.split)

lemma OpenSourcedTasks_calm: "\<exists>outs t. OpenSourcedTasks boreholeRequest calmWorld = (Inr outs, t) \<and> w_faults t = []"
proof -
  let ?m = "mapTM (openOne (sq_Source boreholeRequest)) [boreholeItem]"
  have "succeeds ?m (held calmWorld)"
    by (simp add: succeeds_def openOne_def sourcedTask_def lookupQ_def CreateTask_def itemTask_def task0_def boreholeItem_def
        loadTagNames_def sourcedClash_def taskClash_def taskRow_def calmWorld_def worldOf_def emptyDb_def tm_basic
        takeQ_def selectQ_def insertQ_def sql_def Let_def)
  then obtain outs s1 where run: "?m (held calmWorld) = (Inr outs, s1)"
    using succeedsD by blast
  have "w_faults s1 = []"
    using steadyD(1) [OF steady_mapTM [OF steady_openOne] run] by (simp add: calmWorld_def)
  from heldTx_quiet [of ?m calmWorld, OF run this] show ?thesis
    by (auto simp: OpenSourcedTasks_def boreholeRequest_normal bnd_def [of "lift r" for r] lift_def simp del: mapTM.simps)
qed

lemma OpenSourcedTasks_opens_example:
  "\<exists>outs t row. OpenSourcedTasks boreholeRequest calmWorld = (Inr outs, t) \<and> d_tasks (w_db t) = [row] \<and>
     t_LinkedRef row = ''form'' \<and> t_DueAt row = fmtRFC3339 0"
proof -
  obtain outs t where run: "OpenSourcedTasks boreholeRequest calmWorld = (Inr outs, t)"
    using OpenSourcedTasks_calm by blast
  have empty: "d_tasks (w_db calmWorld) = []" "d_sourced (w_db calmWorld) = []"
    by (simp_all add: calmWorld_def emptyDb_def)
  have req: "sq_Source boreholeRequest = ''form''" "length (sq_Items boreholeRequest) = 1"
    "\<forall>it \<in> set (sq_Items boreholeRequest). itemKey it = ''Repair'' \<and> si_DueAt it = fmtRFC3339 0"
    by (simp_all add: boreholeRequest_def itemKey_def)
  from OpenSourcedTasks_opens [OF run, unfolded empty append_Nil list.set(1) image_empty Diff_empty] obtain rows where len: "map (\<lambda>out. so_ItemKey (sx_Task out)) outs =
      map (\<lambda>it. sourcedItemKey (sq_Source boreholeRequest) (itemKey it)) (sq_Items boreholeRequest)"
    and new: "so_ItemKey ` sx_Task ` set (filter sx_Opened outs) =
      (\<lambda>it. sourcedItemKey (sq_Source boreholeRequest) (itemKey it)) ` set (sq_Items boreholeRequest)"
    and rows: "d_tasks (w_db t) = rows"
    and each: "list_all2 (\<lambda>out row. t_ID row = so_TaskID (sx_Task out) \<and> t_LinkedRef row = sq_Source boreholeRequest \<and>
        t_DueAt row = so_DueAt (sx_Task out) \<and> t_Status row = TaskStatusPending \<and> \<not> t_Deleted row \<and>
        (\<exists>it \<in> set (sq_Items boreholeRequest). \<exists>due. parseRFC3339 (si_DueAt it) = Some due \<and> t_Title row = si_Title it \<and>
           so_Key (sx_Task out) = itemKey it \<and> t_DueAt row = fmtRFC3339 due)) (filter sx_Opened outs) rows"
    by (elim exE conjE) (rule that)
  from len req(2) have "length outs = 1" by (metis length_map)
  then obtain out where outs: "outs = [out]" by (auto simp: length_Suc_conv)
  with new req(2) have "filter sx_Opened outs = [out]" by (auto split: if_splits)
  with each rows obtain row where row: "rows = [row]" "t_LinkedRef row = ''form''" and
    due: "\<exists>it \<in> set (sq_Items boreholeRequest). \<exists>due. parseRFC3339 (si_DueAt it) = Some due \<and> t_DueAt row = fmtRFC3339 due"
    by (auto simp: list_all2_Cons1 req(1))
  from due req(3) borehole_due have "t_DueAt row = fmtRFC3339 0" by auto
  with run rows row show ?thesis by blast
qed

text \<open>
  A source is replayed without effect: sending the items again in any later state that kept the rows,
  with no failing statement, returns the same rows with nothing opened, changes no table and publishes
  nothing.
\<close>

lemma OpenSourcedTasks_replay:
  assumes run: "OpenSourcedTasks req s = (Inr outs, t)" and later: "d_sourced (w_db s') = d_sourced (w_db t) @ newer"
    and calm: "w_faults s' = []"
  shows "\<exists>outs' t'. OpenSourcedTasks req s' = (Inr outs', t') \<and> map sx_Task outs' = map sx_Task outs \<and>
    (\<forall>out \<in> set outs'. \<not> sx_Opened out) \<and> w_db t' = w_db s' \<and> w_published t' = w_published s'"
proof -
  from OpenSourcedTasks_Inr [OF run] obtain items s1 where norm: "normalizeSourcedItems req = Inr items"
    and body: "mapTM (openOne (sq_Source req)) items (held s) = (Inr outs, s1)" and t: "w_db t = w_db s1" by blast
  have "d_sourced (w_db (held s')) = d_sourced (w_db s1) @ newer" using later t by simp
  from sourcing.replayed [OF body _ this] calm obtain outs' where
    again: "mapTM (openOne (sq_Source req)) items (held s') = (Inr outs', held s')"
    and same: "map sx_Task outs' = map sx_Task outs" "\<forall>out \<in> set outs'. \<not> sx_Opened out" by auto
  from heldTx_quiet [of "mapTM (openOne (sq_Source req)) items" s', OF again] calm obtain t' where
    tx: "heldTx (mapTM (openOne (sq_Source req)) items) s' = (Inr outs', t')" by auto
  from heldTx_Inr [OF tx] again have "w_db t' = w_db s'" "w_published t' = w_published s'" by auto
  moreover have "OpenSourcedTasks req s' = (Inr outs', t')" using norm tx by (simp add: OpenSourcedTasks_def bnd_def lift_def)
  ultimately show ?thesis using same by blast
qed

lemma OpenSourcedTasks_replay_example:
  "\<exists>outs t outs' t'. OpenSourcedTasks boreholeRequest calmWorld = (Inr outs, t) \<and>
     OpenSourcedTasks boreholeRequest t = (Inr outs', t') \<and> map sx_Task outs' = map sx_Task outs \<and> w_db t' = w_db t"
proof -
  obtain outs t where run: "OpenSourcedTasks boreholeRequest calmWorld = (Inr outs, t)" and calm: "w_faults t = []"
    using OpenSourcedTasks_calm by blast
  from OpenSourcedTasks_replay [OF run _ calm, of "[]"] run show ?thesis by fastforce
qed

end
