(* ===== verification/Overdue.thy ===== *)
theory Overdue
  imports Task_Write Sort_Multiset Time_Roundtrip
begin

text \<open>
  \<open>overdue.go\<close>: the open tasks whose due time is more than the grace behind an instant, longest overdue
  first. The grace is resolved once, when the manager is made (\<open>moduleOverdueGrace\<close>), and is an
  argument of the listing here.
\<close>

section \<open>The grace\<close>

text \<open>
  The setting \<open>overdue_grace_hours\<close> as the specification answers it: not declared, not resolved, or a value.
  A number of hours becomes a duration, 64 bits of nanoseconds.
\<close>

datatype grace_setting =
    GraceUndeclared
  | GraceUnresolved
  | GraceFloat rat
  | GraceInt int
  | GraceOther

definition hourNs :: int where
  "hourNs = 3600 * nsPerSec"

definition graceOf :: "rat \<Rightarrow> err + int" where
  "graceOf hours = (if hours < 0 then Inl ErrOverdueGrace else Inr (wrap64 (wrap64 \<lfloor>hours\<rfloor> * hourNs)))"

fun moduleOverdueGrace :: "grace_setting \<Rightarrow> err + int" where
  "moduleOverdueGrace GraceUndeclared = Inr 0"
| "moduleOverdueGrace GraceUnresolved = Inl ErrSettings"
| "moduleOverdueGrace (GraceFloat hours) = graceOf hours"
| "moduleOverdueGrace (GraceInt n) = graceOf (of_int n)"
| "moduleOverdueGrace GraceOther = Inl ErrOverdueGrace"

text \<open>The whole hours of a grace below 2,562,048 are kept; from there on the duration wraps.\<close>

lemma moduleOverdueGrace_exact:
  assumes "0 \<le> n" "n < 2562048"
  shows "moduleOverdueGrace (GraceInt n) = Inr (n * hourNs)"
proof -
  have "wrap64 n = n" using assms by (intro wrap64_id) simp_all
  moreover have "wrap64 (n * hourNs) = n * hourNs" using assms by (intro wrap64_id) (simp_all add: hourNs_def nsPerSec_def)
  ultimately show ?thesis using assms by (simp add: graceOf_def)
qed

lemma moduleOverdueGrace_wraps: "moduleOverdueGrace (GraceInt 2562048) = Inr (- 9223371273709551616)"
proof -
  have "wrap64 2562048 = 2562048" "wrap64 (2562048 * hourNs) = - 9223371273709551616"
    by (simp_all add: wrap64_def hourNs_def nsPerSec_def)
  then show ?thesis by (simp add: graceOf_def)
qed

section \<open>The list\<close>

definition closedStatuses :: "task_status list" where
  "closedStatuses = [TaskStatusCompleted, TaskStatusFailed, TaskStatusCancelled]"

definition datedOpen :: "task \<Rightarrow> bool" where
  "datedOpen t \<longleftrightarrow> \<not> t_Deleted t \<and> t_DueAt t \<noteq> [] \<and> t_Status t \<notin> set closedStatuses"

text \<open>\<open>asOf.Sub(due)\<close> saturates at the ends of the duration type.\<close>

definition subTime :: "instant \<Rightarrow> instant \<Rightarrow> int" where
  "subTime a b = max (- (2 ^ 63)) (min (2 ^ 63 - 1) (a - b))"

definition overdueHours :: "instant \<Rightarrow> instant \<Rightarrow> int" where
  "overdueHours asOf due = subTime asOf due div hourNs"

text \<open>The loop over the rows: the due time beside the row, as the map \<open>dueAt\<close> keeps it.\<close>

definition overdueRow :: "task_state list \<Rightarrow> instant \<Rightarrow> instant \<Rightarrow> task \<Rightarrow> (instant \<times> overdue_task) option" where
  "overdueRow states asOf cutoff t =
     (case parseRFC3339 (t_DueAt t) of
        None \<Rightarrow> None
      | Some due \<Rightarrow>
          if \<not> due < cutoff then None
          else Some (due, \<lparr>od_Task = t\<lparr>t_State := StateNameFor states (t_Status t)\<rparr>, od_OverdueHours = overdueHours asOf due\<rparr>))"

definition overdueOrder :: "instant \<times> overdue_task \<Rightarrow> instant \<times> overdue_task \<Rightarrow> bool" where
  "overdueOrder a b \<longleftrightarrow> fst a < fst b"

definition withTags :: "overdue_task \<Rightarrow> overdue_task tm" where
  "withTags o' = bnd (loadTagNames (t_ID (od_Task o'))) (\<lambda>tags. ret (o'\<lparr>od_Task := (od_Task o')\<lparr>t_Tags := tags\<rparr>\<rparr>))"

definition asOfTime :: "overdue_filter \<Rightarrow> instant \<Rightarrow> err + instant" where
  "asOfTime f now =
     (if of_AsOf f = [] then Inr now
      else case parseRFC3339 (of_AsOf f) of None \<Rightarrow> Inl ErrInvalidOverdueFilter | Some a \<Rightarrow> Inr a)"

definition ListOverdueTasks :: "int \<Rightarrow> overdue_filter \<Rightarrow> overdue_task list tm" where
  "ListOverdueTasks grace f =
     bnd nowT (\<lambda>now.
     bnd (lift (asOfTime f now)) (\<lambda>asOf.
     bnd (selectQ tasksT datedOpen) (\<lambda>tasks.
     bnd taskStates (\<lambda>states.
     let cutoff = asOf + wrap64 (- grace);
         overdue = sortBy overdueOrder (List.map_filter (overdueRow states asOf cutoff) tasks)
     in mapTM (\<lambda>p. withTags (snd p)) (take (pageLimit (of_Limit f)) overdue)))))"

section \<open>What it lists\<close>

text \<open>The rows that are overdue at an instant under a grace.\<close>

definition isOverdue :: "instant \<Rightarrow> int \<Rightarrow> task \<Rightarrow> bool" where
  "isOverdue asOf grace t \<longleftrightarrow> \<not> t_Deleted t \<and> t_Status t \<notin> {TaskStatusCompleted, TaskStatusFailed, TaskStatusCancelled} \<and>
     (\<exists>due. t_DueAt t \<noteq> [] \<and> parseRFC3339 (t_DueAt t) = Some due \<and> due < asOf - grace)"

definition dueTime :: "task \<Rightarrow> instant" where
  "dueTime t = the (parseRFC3339 (t_DueAt t))"

definition overduePair :: "task_state list \<Rightarrow> instant \<Rightarrow> task \<Rightarrow> instant \<times> overdue_task" where
  "overduePair states asOf t =
     (dueTime t, \<lparr>od_Task = t\<lparr>t_State := StateNameFor states (t_Status t)\<rparr>, od_OverdueHours = overdueHours asOf (dueTime t)\<rparr>)"

lemma overdue_rows:
  assumes "wrap64 (- grace) = - grace"
  shows "List.map_filter (overdueRow states asOf (asOf + wrap64 (- grace))) (filter datedOpen ts) =
    map (overduePair states asOf) (filter (isOverdue asOf grace) ts)"
  by (induction ts)
    (auto simp: List.map_filter_simps datedOpen_def isOverdue_def overdueRow_def overduePair_def dueTime_def
      closedStatuses_def assms split: option.splits)

lemma withTags_Inr: "withTags o' s = (Inr out, t) \<Longrightarrow> od_OverdueHours out = od_OverdueHours o' \<and>
    (\<exists>tags. od_Task out = (od_Task o')\<lparr>t_Tags := tags\<rparr>) \<and> w_db t = w_db s"
  by (auto simp: withTags_def bnd_Inr ret_Inr loadTagNames_db)

lemma withTags_all:
  "mapTM (\<lambda>p. withTags (snd p)) ps s = (Inr outs, t) \<Longrightarrow>
   list_all2 (\<lambda>p out. od_OverdueHours out = od_OverdueHours (snd p) \<and> (\<exists>tags. od_Task out = (od_Task (snd p))\<lparr>t_Tags := tags\<rparr>)) ps outs \<and>
   w_db t = w_db s"
proof (induction ps arbitrary: s outs)
  case (Cons p ps)
  then obtain out s1 outs' where "withTags (snd p) s = (Inr out, s1)" "mapTM (\<lambda>p. withTags (snd p)) ps s1 = (Inr outs', t)"
    "outs = out # outs'"
    unfolding mapTM_Cons_Inr by blast
  with Cons.IH withTags_Inr show ?case by fastforce
qed (simp add: ret_Inr)

text \<open>
  C28. The overdue list is exact: under a grace that is not negative it lists, up to the page, the live
  tasks that are neither completed, failed nor cancelled and whose due time is more than the grace
  behind the instant, each once and with its whole hours overdue, longest overdue first; a task that is
  left out is overdue for no longer than any listed one.
\<close>

theorem ListOverdueTasks_exact:
  assumes run: "ListOverdueTasks grace f s = (Inr out, t)" and grace: "0 \<le> grace" "grace < 2 ^ 63"
  shows "\<exists>asOf. asOfTime f (w_clock s (w_ticks s)) = Inr asOf \<and> w_db t = w_db s \<and>
    (let rows = filter (isOverdue asOf grace) (d_tasks (w_db s)) in
      length out = min (pageLimit (of_Limit f)) (length rows) \<and>
      mset (map (\<lambda>o'. t_ID (od_Task o')) out) \<subseteq># mset (map t_ID rows) \<and>
      (\<forall>o' \<in> set out. \<exists>row \<in> set rows. sameRow row (od_Task o') \<and> od_OverdueHours o' = overdueHours asOf (dueTime row)) \<and>
      sorted_wrt (\<lambda>a b. dueTime (od_Task a) \<le> dueTime (od_Task b)) out \<and>
      (\<forall>row \<in> set rows. t_ID row \<notin> (\<lambda>o'. t_ID (od_Task o')) ` set out \<longrightarrow>
         (\<forall>o' \<in> set out. dueTime (od_Task o') \<le> dueTime row)))"
proof -
  have wrap: "wrap64 (- grace) = - grace" using grace by (intro wrap64_id) simp_all
  from run obtain asOf tasks sb states sc where asOf: "asOfTime f (w_clock s (w_ticks s)) = Inr asOf"
    and tasks: "selectQ tasksT datedOpen (s\<lparr>w_ticks := Suc (w_ticks s)\<rparr>) = (Inr tasks, sb)" and sc: "taskStates sb = (Inr states, sc)"
    and tags: "mapTM (\<lambda>p. withTags (snd p)) (take (pageLimit (of_Limit f))
      (sortBy overdueOrder (List.map_filter (overdueRow states asOf (asOf + wrap64 (- grace))) tasks))) sc = (Inr out, t)"
    by (auto simp: ListOverdueTasks_def Let_def bnd_Inr nowT_Inr lift_Inr)
  define rows where "rows = filter (isOverdue asOf grace) (d_tasks (w_db s))"
  define page where "page = take (pageLimit (of_Limit f)) (sortBy overdueOrder (map (overduePair states asOf) rows))"
  have sb: "tasks = filter datedOpen (d_tasks (w_db s))" "w_db sc = w_db s"
    using selectQ_run [OF tasks] sc by (auto simp: taskStates_Inr)
  have "mapTM (\<lambda>p. withTags (snd p)) page sc = (Inr out, t)"
    using tags unfolding sb(1) overdue_rows [OF wrap] page_def rows_def .
  from withTags_all [OF this] have tagged: "list_all2 (\<lambda>p out. od_OverdueHours out = od_OverdueHours (snd p) \<and>
      (\<exists>tags. od_Task out = (od_Task (snd p))\<lparr>t_Tags := tags\<rparr>)) page out" and t: "w_db t = w_db s"
    using sb by simp_all
  have sorted: "sorted_wrt (\<lambda>a b. \<not> overdueOrder b a) (sortBy overdueOrder (map (overduePair states asOf) rows))"
    by (rule sorted_sortBy) (auto simp: overdueOrder_def)
  have page_rows: "\<exists>row \<in> set rows. p = overduePair states asOf row" if "p \<in> set page" for p
    using in_set_takeD [OF that [unfolded page_def]] by auto
  let ?id = "\<lambda>p. t_ID (od_Task (snd p))" and ?oid = "\<lambda>o'. t_ID (od_Task o')"
  have each: "?id p = ?oid o' \<and> fst p = dueTime (od_Task o') \<and>
      (\<exists>row \<in> set rows. sameRow row (od_Task o') \<and> od_OverdueHours o' = overdueHours asOf (dueTime row))"
    if "p \<in> set page" and "od_OverdueHours o' = od_OverdueHours (snd p)" and "\<exists>tags. od_Task o' = (od_Task (snd p))\<lparr>t_Tags := tags\<rparr>"
    for p o'
  proof -
    from page_rows [OF that(1)] obtain row where row: "row \<in> set rows" "p = overduePair states asOf row" by blast
    with that(3) obtain tags where o': "od_Task o' = row\<lparr>t_State := StateNameFor states (t_Status row), t_Tags := tags\<rparr>"
      by (auto simp: overduePair_def)
    have "sameRow row (od_Task o')" unfolding o' sameRow_def by (cases row) simp
    moreover have "dueTime (od_Task o') = dueTime row" "t_ID (od_Task o') = t_ID row" by (simp_all add: o' dueTime_def)
    ultimately show ?thesis using row that(2) by (auto simp: overduePair_def)
  qed
  have pairs: "list_all2 (\<lambda>p o'. ?id p = ?oid o' \<and> fst p = dueTime (od_Task o') \<and>
      (\<exists>row \<in> set rows. sameRow row (od_Task o') \<and> od_OverdueHours o' = overdueHours asOf (dueTime row))) page out"
    by (intro list.rel_mono_strong [OF tagged]) (use each in blast)
  then have ids: "map ?oid out = map ?id page" and dues: "map (\<lambda>o'. dueTime (od_Task o')) out = map fst page"
    and rowsOf: "\<forall>o' \<in> set out. \<exists>row \<in> set rows. sameRow row (od_Task o') \<and> od_OverdueHours o' = overdueHours asOf (dueTime row)"
    by (induction rule: list_all2_induct) auto
  have len: "length out = min (pageLimit (of_Limit f)) (length rows)"
    using list_all2_lengthD [OF pairs] by (simp add: page_def min.commute)
  have "mset (map ?id page) \<subseteq># mset (map ?id (map (overduePair states asOf) rows))"
    unfolding mset_map page_def by (intro image_mset_subseteq_mono) (metis mset_take mset_sortBy mset_map)
  also have "map ?id (map (overduePair states asOf) rows) = map t_ID rows" by (simp add: overduePair_def)
  finally have sub: "mset (map ?oid out) \<subseteq># mset (map t_ID rows)" using ids by simp
  have "sorted_wrt (\<lambda>a b. \<not> overdueOrder b a) page"
    using sorted append_take_drop_id [of "pageLimit (of_Limit f)"] unfolding page_def by (metis sorted_wrt_append)
  then have "sorted_wrt (\<le>) (map fst page)" by (simp add: sorted_wrt_map overdueOrder_def not_less)
  then have order: "sorted_wrt (\<lambda>a b. dueTime (od_Task a) \<le> dueTime (od_Task b)) out"
    using dues by (metis sorted_wrt_map)
  have rest: "dueTime (od_Task o') \<le> dueTime row" if row: "row \<in> set rows" "t_ID row \<notin> ?oid ` set out" and o': "o' \<in> set out" for row o'
  proof -
    have "t_ID row \<notin> ?id ` set page" using row(2) ids by (metis list.set_map)
    moreover have "?id (overduePair states asOf row) = t_ID row" by (simp add: overduePair_def)
    ultimately have "overduePair states asOf row \<notin> set page" by force
    moreover from o' dues obtain p where p: "p \<in> set page" "fst p = dueTime (od_Task o')"
      by (metis (mono_tags, lifting) imageE image_eqI list.set_map)
    ultimately have "\<not> overdueOrder (overduePair states asOf row) p"
      using sorted_page [OF sorted, of "overduePair states asOf row" "pageLimit (of_Limit f)" p] row(1) unfolding page_def by simp
    then show ?thesis using p(2) by (simp add: overdueOrder_def overduePair_def)
  qed
  from asOf t len sub rowsOf order rest show ?thesis unfolding Let_def rows_def by blast
qed

text \<open>Three tasks at 1970-01-01T10:00:00Z under a grace of an hour: only the one due at midnight is listed.\<close>

definition lateDb :: db where
  "lateDb = emptyDb\<lparr>d_tasks := [(taskWith ''a'' TaskStatusPending)\<lparr>t_DueAt := fmtRFC3339 (9 * hourNs)\<rparr>,
     (taskWith ''b'' TaskStatusCompleted)\<lparr>t_DueAt := fmtRFC3339 0\<rparr>,
     (taskWith ''c'' TaskStatusBlocked)\<lparr>t_DueAt := fmtRFC3339 0\<rparr>]\<rparr>"

definition tenOClock :: overdue_filter where
  "tenOClock = \<lparr>of_AsOf = fmtRFC3339 (10 * hourNs), of_Limit = 0\<rparr>"

lemma clock_times: "parseRFC3339 (fmtRFC3339 0) = Some 0" "parseRFC3339 (fmtRFC3339 (9 * hourNs)) = Some (9 * hourNs)"
  "parseRFC3339 (fmtRFC3339 (10 * hourNs)) = Some (10 * hourNs)"
proof -
  have "fourDigitYear 0" "fourDigitYear (9 * hourNs)" "fourDigitYear (10 * hourNs)" by code_simp+
  from this [THEN parse_fmt] show "parseRFC3339 (fmtRFC3339 0) = Some 0" "parseRFC3339 (fmtRFC3339 (9 * hourNs)) = Some (9 * hourNs)"
    "parseRFC3339 (fmtRFC3339 (10 * hourNs)) = Some (10 * hourNs)"
    by (simp_all add: hourNs_def)
qed

lemma hourNs_pos: "0 < hourNs"
  by (simp add: hourNs_def nsPerSec_def)

lemma hourNs_small: "0 \<le> hourNs" "hourNs < 2 ^ 63"
  by (simp_all add: hourNs_def nsPerSec_def)

lemma ListOverdueTasks_quiet:
  assumes "quiet s" and "asOfTime f (w_clock s (w_ticks s)) = Inr asOf"
  shows "\<exists>out t. ListOverdueTasks grace f s = (Inr out, t)"
proof -
  from assms(1) obtain states where st: "w_faults s = []" "StoredTaskStates (w_setting s) = Inr states"
    by (auto simp: quiet_def)
  have "fine (mapTM (\<lambda>p. withTags (snd p)) ps)" for ps
    unfolding withTags_def by (intro fine_mapTM fine_intros)
  moreover have "quiet (s\<lparr>w_ticks := Suc (w_ticks s)\<rparr>)" using assms(1) by (simp add: quiet_def)
  ultimately obtain out t where "mapTM (\<lambda>p. withTags (snd p)) (take (pageLimit (of_Limit f)) (sortBy overdueOrder
      (List.map_filter (overdueRow states asOf (asOf + wrap64 (- grace))) (filter datedOpen (d_tasks (w_db s))))))
      (s\<lparr>w_ticks := Suc (w_ticks s)\<rparr>) = (Inr out, t)"
    using fineD by blast
  with st assms(2) show ?thesis
    by (simp add: ListOverdueTasks_def bnd_def nowT_def lift_def selectQ_calm taskStates_def Let_def)
qed

theorem ListOverdueTasks_exact_witness:
  "\<exists>o' t. ListOverdueTasks hourNs tenOClock (worldOf lateDb) = (Inr [o'], t) \<and> t_ID (od_Task o') = ''c'' \<and>
     od_OverdueHours o' = 10"
proof -
  have asOf: "asOfTime tenOClock now = Inr (10 * hourNs)" for now by (simp add: asOfTime_def tenOClock_def clock_times)
  obtain out t where run: "ListOverdueTasks hourNs tenOClock (worldOf lateDb) = (Inr out, t)"
    using ListOverdueTasks_quiet [OF quiet_worldOf asOf] by blast
  have rows: "filter (isOverdue (10 * hourNs) hourNs) (d_tasks (w_db (worldOf lateDb))) =
      [(taskWith ''c'' TaskStatusBlocked)\<lparr>t_DueAt := fmtRFC3339 0\<rparr>]"
    using hourNs_pos by (simp add: lateDb_def isOverdue_def clock_times taskWith_def task0_def)
  have "overdueHours (10 * hourNs) 0 = 10" by (simp add: overdueHours_def subTime_def hourNs_def nsPerSec_def)
  moreover have "pageLimit (of_Limit tenOClock) = 500" by (simp add: tenOClock_def pageLimit_def maxListPage_def)
  moreover from ListOverdueTasks_exact [OF run hourNs_small] obtain a where "asOfTime tenOClock (w_clock (worldOf lateDb) (w_ticks (worldOf lateDb))) = Inr a"
    and listed: "let rows = filter (isOverdue a hourNs) (d_tasks (w_db (worldOf lateDb))) in
      length out = min (pageLimit (of_Limit tenOClock)) (length rows) \<and>
      (\<forall>o' \<in> set out. \<exists>row \<in> set rows. sameRow row (od_Task o') \<and> od_OverdueHours o' = overdueHours a (dueTime row))"
    unfolding Let_def by blast
  moreover from this(1) asOf have a: "a = 10 * hourNs" by simp
  ultimately have "length out = 1" "\<forall>o' \<in> set out. t_ID (od_Task o') = ''c'' \<and> od_OverdueHours o' = 10"
    using listed unfolding a rows Let_def by (auto simp: sameRow_fields dueTime_def clock_times)
  with run show ?thesis by (auto simp: length_Suc_conv)
qed

end
