(* ===== verification/Repeating.thy ===== *)
theory Repeating
  imports Assignment Held_Events Time_Roundtrip
begin

text \<open>
  \<open>repeating.go\<close> and \<open>repeating_store.go\<close>: templates that make one task for each period of a schedule. The
  schedules themselves (package \<open>recur\<close>) and the time-zone database are not part of the repository:
  their functions are the record \<open>recur\<close>, an argument of every definition that uses one.
\<close>

section \<open>Schedules\<close>

text \<open>\<open>recur.Schedule\<close> over the library's zones, rules and dates, and \<open>recur.Wire\<close>, the body a caller sends.\<close>

record ('z, 'r, 'd) schedule =
  sc_Start :: instant
  sc_End :: instant
  sc_Zone :: "'z option"
  sc_Rule :: "'r option"
  sc_Dates :: "'d list"

record wire =
  wi_Start :: string
  wi_End :: string
  wi_Zone :: string
  wi_Rule :: string
  wi_Dates :: "string list"
  wi_OpenDays :: int

text \<open>
  What the code calls: the texts of a zone, a rule and a date and the readers of such texts
  (\<open>time.LoadLocation\<close>, \<open>recur.ParseRule\<close>, \<open>recur.ParseDate\<close>), \<open>Schedule.Validate\<close>, \<open>Schedule.Period\<close> and
  \<open>Wire.Schedule\<close>, of which only success is looked at.
\<close>

record ('z, 'r, 'd) recur =
  zoneText :: "'z \<Rightarrow> string"
  loadZone :: "string \<Rightarrow> 'z option"
  ruleText :: "'r \<Rightarrow> string"
  parseRule :: "string \<Rightarrow> 'r option"
  dateText :: "'d \<Rightarrow> string"
  parseDate :: "string \<Rightarrow> 'd option"
  validSchedule :: "('z, 'r, 'd) schedule \<Rightarrow> bool"
  periodAt :: "('z, 'r, 'd) schedule \<Rightarrow> instant \<Rightarrow> (instant \<times> instant) option"
  validWire :: "wire \<Rightarrow> bool"

record ('z, 'r, 'd) repeating_task =
  rt_ID :: string
  rt_Title :: string
  rt_Description :: string
  rt_Schedule :: "('z, 'r, 'd) schedule"
  rt_AssigneeKind :: assignee_kind
  rt_AssigneeID :: string
  rt_Stopped :: bool

record occurrence =
  oc_RepeatingTaskID :: string
  oc_PeriodKey :: string
  oc_Start :: instant
  oc_Due :: instant

text \<open>\<open>time.Time{}\<close>, the first instant of the year 1.\<close>

definition zeroTime :: instant where
  "zeroTime = daysOf 1 1 1 * 86400 * nsPerSec"

section \<open>\<open>repeating.go\<close>\<close>

definition Validate :: "('z, 'r, 'd) recur \<Rightarrow> ('z, 'r, 'd) repeating_task \<Rightarrow> err + unit" where
  "Validate lib r =
     (if rt_ID r = [] \<or> rt_Title r = [] then Inl ErrInvalidRepeatingTask
      else if rt_AssigneeKind r \<noteq> AssigneeActor \<and> rt_AssigneeKind r \<noteq> AssigneeRole then Inl ErrInvalidRepeatingTask
      else if rt_AssigneeID r = [] then Inl ErrInvalidRepeatingTask
      else if \<not> validSchedule lib (rt_Schedule r) then Inl ErrInvalidRepeatingTask
      else if sc_Dates (rt_Schedule r) \<noteq> [] \<and> sc_End (rt_Schedule r) = zeroTime then Inl ErrInvalidRepeatingTask
      else Inr ())"

definition OccurrenceAt ::
  "('z, 'r, 'd) recur \<Rightarrow> ('z, 'r, 'd) repeating_task \<Rightarrow> instant \<Rightarrow> err + occurrence option" where
  "OccurrenceAt lib r moment =
     (case Validate lib r of
        Inl e \<Rightarrow> Inl e
      | Inr _ \<Rightarrow>
          if rt_Stopped r then Inr None
          else case periodAt lib (rt_Schedule r) moment of
            None \<Rightarrow> Inr None
          | Some (start, finish) \<Rightarrow>
              if finish = zeroTime then Inr None
              else Inr (Some \<lparr>oc_RepeatingTaskID = rt_ID r, oc_PeriodKey = rt_ID r @ ''@'' @ fmtRFC3339 start,
                              oc_Start = start, oc_Due = finish\<rparr>))"

definition occurrenceTask :: "occurrence \<Rightarrow> ('z, 'r, 'd) repeating_task \<Rightarrow> task" where
  "occurrenceTask occ r =
     task0\<lparr>t_Title := rt_Title r, t_Description := rt_Description r, t_DueAt := fmtRFC3339Nano (oc_Due occ)\<rparr>"

definition Stop :: "('z, 'r, 'd) repeating_task \<Rightarrow> ('z, 'r, 'd) repeating_task" where
  "Stop r = r\<lparr>rt_Stopped := True\<rparr>"

section \<open>The stored form\<close>

definition formatInstant :: "instant \<Rightarrow> string" where
  "formatInstant t = (if t = zeroTime then [] else fmtRFC3339 t)"

definition parseInstant :: "string \<Rightarrow> err + instant" where
  "parseInstant s =
     (if s = [] then Inr zeroTime
      else case parseRFC3339 s of None \<Rightarrow> Inl ErrInvalidRepeatingTask | Some t \<Rightarrow> Inr t)"

definition RecordOf :: "('z, 'r, 'd) recur \<Rightarrow> ('z, 'r, 'd) repeating_task \<Rightarrow> repeating_record" where
  "RecordOf lib r =
     \<lparr>rr_ID = rt_ID r, rr_Title = rt_Title r, rr_Description = rt_Description r,
      rr_ScheduleRule = (case sc_Rule (rt_Schedule r) of None \<Rightarrow> [] | Some rule \<Rightarrow> ruleText lib rule),
      rr_ScheduleDates = map (dateText lib) (sc_Dates (rt_Schedule r)),
      rr_ScheduleStart = formatInstant (sc_Start (rt_Schedule r)),
      rr_ScheduleEnd = formatInstant (sc_End (rt_Schedule r)),
      rr_ScheduleZone = (case sc_Zone (rt_Schedule r) of None \<Rightarrow> [] | Some z \<Rightarrow> zoneText lib z),
      rr_AssigneeKind = rt_AssigneeKind r, rr_AssigneeID = rt_AssigneeID r,
      rr_StoppedAt = [], rr_CreatedAt = [], rr_UpdatedAt = []\<rparr>"

fun parseDates :: "('z, 'r, 'd) recur \<Rightarrow> string list \<Rightarrow> err + 'd list" where
  "parseDates lib [] = Inr []"
| "parseDates lib (s # ss) =
     (case parseDate lib s of
        None \<Rightarrow> Inl ErrInvalidRepeatingTask
      | Some d \<Rightarrow> (case parseDates lib ss of Inl e \<Rightarrow> Inl e | Inr ds \<Rightarrow> Inr (d # ds)))"

definition parseRuleOf :: "('z, 'r, 'd) recur \<Rightarrow> string \<Rightarrow> err + 'r option" where
  "parseRuleOf lib s =
     (if s = [] then Inr None
      else case parseRule lib s of None \<Rightarrow> Inl ErrInvalidRepeatingTask | Some rule \<Rightarrow> Inr (Some rule))"

definition RepeatingTaskFromRecord ::
  "('z, 'r, 'd) recur \<Rightarrow> repeating_record \<Rightarrow> err + ('z, 'r, 'd) repeating_task" where
  "RepeatingTaskFromRecord lib rec =
     (case loadZone lib (rr_ScheduleZone rec) of
        None \<Rightarrow> Inl ErrInvalidRepeatingTask
      | Some loc \<Rightarrow>
        (case parseInstant (rr_ScheduleStart rec) of
           Inl e \<Rightarrow> Inl e
         | Inr start \<Rightarrow>
        (case parseInstant (rr_ScheduleEnd rec) of
           Inl e \<Rightarrow> Inl e
         | Inr finish \<Rightarrow>
        (case parseRuleOf lib (rr_ScheduleRule rec) of
           Inl e \<Rightarrow> Inl e
         | Inr rule \<Rightarrow>
        (case parseDates lib (rr_ScheduleDates rec) of
           Inl e \<Rightarrow> Inl e
         | Inr dates \<Rightarrow>
             Inr \<lparr>rt_ID = rr_ID rec, rt_Title = rr_Title rec, rt_Description = rr_Description rec,
                  rt_Schedule = \<lparr>sc_Start = start, sc_End = finish, sc_Zone = Some loc, sc_Rule = rule, sc_Dates = dates\<rparr>,
                  rt_AssigneeKind = rr_AssigneeKind rec, rt_AssigneeID = rr_AssigneeID rec,
                  rt_Stopped = (rr_StoppedAt rec \<noteq> [])\<rparr>)))))"

text \<open>What a caller sends to start one.\<close>

record new_repeating_task =
  nr_Title :: string
  nr_Description :: string
  nr_Schedule :: wire
  nr_AssigneeKind :: assignee_kind
  nr_AssigneeID :: string

definition RepeatingTaskFromNew ::
  "('z, 'r, 'd) recur \<Rightarrow> new_repeating_task \<Rightarrow> err + ('z, 'r, 'd) repeating_task" where
  "RepeatingTaskFromNew lib n =
     (if \<not> validWire lib (nr_Schedule n) then Inl ErrInvalidRepeatingTask
      else if wi_OpenDays (nr_Schedule n) \<noteq> 0 then Inl ErrInvalidRepeatingTask
      else RepeatingTaskFromRecord lib
        \<lparr>rr_ID = [], rr_Title = nr_Title n, rr_Description = nr_Description n, rr_ScheduleRule = wi_Rule (nr_Schedule n),
         rr_ScheduleDates = wi_Dates (nr_Schedule n), rr_ScheduleStart = wi_Start (nr_Schedule n),
         rr_ScheduleEnd = wi_End (nr_Schedule n), rr_ScheduleZone = wi_Zone (nr_Schedule n),
         rr_AssigneeKind = nr_AssigneeKind n, rr_AssigneeID = nr_AssigneeID n, rr_StoppedAt = [],
         rr_CreatedAt = [], rr_UpdatedAt = []\<rparr>)"

section \<open>The operations\<close>

definition repeatingClash :: "repeating_record \<Rightarrow> repeating_record \<Rightarrow> bool" where
  "repeatingClash r r' \<longleftrightarrow> rr_ID r = rr_ID r'"

definition CreateRepeatingTask :: "('z, 'r, 'd) recur \<Rightarrow> ('z, 'r, 'd) repeating_task \<Rightarrow> repeating_record tm" where
  "CreateRepeatingTask lib r0 =
     bnd newSpecID (\<lambda>i.
     let r = r0\<lparr>rt_ID := i, rt_Stopped := False\<rparr>; rec = RecordOf lib r in
     seq (lift (Validate lib r))
     (seq (lift (RepeatingTaskFromRecord lib rec))
     (bnd nowStr (\<lambda>now.
      let rec' = rec\<lparr>rr_CreatedAt := now, rr_UpdatedAt := now\<rparr>
      in seq (insertQ repeatingT repeatingClash rec') (ret rec')))))"

definition StartRepeatingTask :: "('z, 'r, 'd) recur \<Rightarrow> new_repeating_task \<Rightarrow> repeating_record tm" where
  "StartRepeatingTask lib n = bnd (lift (RepeatingTaskFromNew lib n)) (CreateRepeatingTask lib)"

definition GetRepeatingTask :: "string \<Rightarrow> repeating_record tm" where
  "GetRepeatingTask i = takeQ repeatingT (\<lambda>r. rr_ID r = i) ErrRepeatingTaskNotFound"

definition repeatingOrder :: "repeating_record \<Rightarrow> repeating_record \<Rightarrow> bool" where
  "repeatingOrder a b \<longleftrightarrow> rr_CreatedAt a < rr_CreatedAt b \<or> rr_CreatedAt a = rr_CreatedAt b \<and> rr_ID a < rr_ID b"

definition ListRepeatingTasks :: "repeating_filter \<Rightarrow> repeating_record list tm" where
  "ListRepeatingTasks f =
     bnd (selectQ repeatingT (\<lambda>r. (rf_AssigneeKind f \<noteq> AssigneeKindOther [] \<longrightarrow> rr_AssigneeKind r = rf_AssigneeKind f) \<and>
        (rf_AssigneeID f \<noteq> [] \<longrightarrow> rr_AssigneeID r = rf_AssigneeID f))) (\<lambda>rows.
     ret (take maxListPage (sortBy repeatingOrder rows)))"

definition ListRunningRepeatingTasks :: "repeating_record list tm" where
  "ListRunningRepeatingTasks =
     bnd (selectQ repeatingT (\<lambda>r. rr_StoppedAt r = [])) (\<lambda>rows. ret (sortBy repeatingOrder rows))"

definition StopRepeatingTask :: "string \<Rightarrow> repeating_record tm" where
  "StopRepeatingTask i =
     bnd (GetRepeatingTask i) (\<lambda>rec.
     if rr_StoppedAt rec \<noteq> [] then ret rec
     else
       bnd nowStr (\<lambda>now.
       seq (updateQ repeatingT (\<lambda>r. rr_ID r = i) (\<lambda>r. r\<lparr>rr_StoppedAt := now, rr_UpdatedAt := now\<rparr>))
       (GetRepeatingTask i)))"

definition periodMade :: "string \<Rightarrow> repeating_period option tm" where
  "periodMade key = lookupQ periodsT (\<lambda>p. rp_PeriodKey p = key) ErrRepeatingTaskNotFound"

definition periodClash :: "repeating_period \<Rightarrow> repeating_period \<Rightarrow> bool" where
  "periodClash p p' \<longleftrightarrow> rp_PeriodKey p = rp_PeriodKey p'"

definition period0 :: repeating_period where
  "period0 = \<lparr>rp_PeriodKey = [], rp_RepeatingTaskID = [], rp_TaskID = [], rp_PeriodStart = [], rp_DueAt = [], rp_MadeAt = []\<rparr>"

text \<open>The transaction of a tick, and the tick from there on: what a lost race answers.\<close>

definition makePeriod :: "('z, 'r, 'd) repeating_task \<Rightarrow> occurrence \<Rightarrow> repeating_period tm" where
  "makePeriod r occ =
     bnd (CreateTask (occurrenceTask occ r)) (\<lambda>task.
     seq (AssignTaskToHolder (t_ID task) (rt_AssigneeKind r) (rt_AssigneeID r))
     (bnd nowStr (\<lambda>now.
      let made = \<lparr>rp_PeriodKey = oc_PeriodKey occ, rp_RepeatingTaskID = rt_ID r, rp_TaskID = t_ID task,
            rp_PeriodStart = formatInstant (oc_Start occ), rp_DueAt = formatInstant (oc_Due occ), rp_MadeAt = now\<rparr>
      in seq (insertQ periodsT periodClash made) (ret made))))"

definition makeOnce :: "('z, 'r, 'd) repeating_task \<Rightarrow> occurrence \<Rightarrow> (repeating_period \<times> bool) tm" where
  "makeOnce r occ =
     bnd (attempt (heldTx (makePeriod r occ))) (\<lambda>tx.
     case tx of
       Inr made \<Rightarrow> ret (made, True)
     | Inl txErr \<Rightarrow>
         bnd (attempt (periodMade (oc_PeriodKey occ))) (\<lambda>again.
         case again of
           Inr (Some already) \<Rightarrow> ret (already, False)
         | _ \<Rightarrow> fail txErr))"

definition MakeRepeatingTaskDue ::
  "('z, 'r, 'd) recur \<Rightarrow> string \<Rightarrow> instant \<Rightarrow> (repeating_period \<times> bool) tm" where
  "MakeRepeatingTaskDue lib i moment =
     bnd (GetRepeatingTask i) (\<lambda>rec.
     bnd (lift (RepeatingTaskFromRecord lib rec)) (\<lambda>r.
     bnd (lift (OccurrenceAt lib r moment)) (\<lambda>due.
     case due of
       None \<Rightarrow> ret (period0, False)
     | Some occ \<Rightarrow>
         bnd (periodMade (oc_PeriodKey occ)) (\<lambda>found.
         case found of
           Some made \<Rightarrow> ret (made, False)
         | None \<Rightarrow> makeOnce r occ))))"

section \<open>Runs of the operations\<close>

lemma steady_repeating [steady_intros]:
  "steady (GetRepeatingTask i)" "steady (StopRepeatingTask i)" "steady (periodMade key)" "steady (makePeriod r occ)"
  unfolding GetRepeatingTask_def StopRepeatingTask_def periodMade_def makePeriod_def Let_def
  by (intro steady_intros)+

lemma keeps_repeating [keeps_intros]: "keeps I (GetRepeatingTask i)" "keeps I (periodMade key)"
  unfolding GetRepeatingTask_def periodMade_def by (intro keeps_intros)+

lemma silent_repeating [silent_intros]:
  "silent (GetRepeatingTask i)" "silent (StopRepeatingTask i)" "silent (periodMade key)"
  unfolding GetRepeatingTask_def StopRepeatingTask_def periodMade_def by (intro silent_intros)+

lemma periodMade_Inr:
  assumes "periodMade key s = (Inr found, t)"
  shows "List.find (\<lambda>p. rp_PeriodKey p = key) (d_periods (w_db s)) = found \<and> w_db t = w_db s \<and> w_published t = w_published s"
  using lookupQ_Inr [OF assms [unfolded periodMade_def]] by simp

lemma steady_calm: "steady m \<Longrightarrow> m s = (r, t) \<Longrightarrow> w_faults s = [] \<Longrightarrow> w_faults t = []"
  using steadyD(1) by blast

text \<open>What an occurrence that is due comes from: a running task whose schedule has a period with an end there.\<close>

lemma OccurrenceAt_Some:
  assumes "OccurrenceAt lib r moment = Inr (Some occ)"
  shows "Validate lib r = Inr () \<and> \<not> rt_Stopped r \<and> oc_RepeatingTaskID occ = rt_ID r \<and>
    periodAt lib (rt_Schedule r) moment = Some (oc_Start occ, oc_Due occ) \<and> oc_Due occ \<noteq> zeroTime \<and>
    oc_PeriodKey occ = rt_ID r @ ''@'' @ fmtRFC3339 (oc_Start occ)"
  using assms unfolding OccurrenceAt_def by (auto split: sum.splits if_splits option.splits)

lemma RepeatingTaskFromRecord_fields:
  assumes "RepeatingTaskFromRecord lib rec = Inr r"
  shows "rt_ID r = rr_ID rec" "rt_Title r = rr_Title rec" "rt_AssigneeKind r = rr_AssigneeKind rec"
    "rt_AssigneeID r = rr_AssigneeID rec" "rt_Stopped r \<longleftrightarrow> rr_StoppedAt rec \<noteq> []"
  using assms unfolding RepeatingTaskFromRecord_def by (auto split: option.splits sum.splits)

text \<open>The row a tick leaves of its task.\<close>

definition occurrenceRow :: "('z, 'r, 'd) repeating_task \<Rightarrow> occurrence \<Rightarrow> string \<Rightarrow> string \<Rightarrow> task" where
  "occurrenceRow r occ i now =
     (newRow (occurrenceTask occ r) i now)\<lparr>t_AssignedTo := rt_AssigneeID r, t_AssigneeKind := rt_AssigneeKind r\<rparr>"

lemma AssignTaskToHolder_Inr:
  assumes "AssignTaskToHolder i k a s = (Inr u, t)"
  shows "\<exists>now j row. now \<noteq> [] \<and> (k = AssigneeActor \<or> k = AssigneeRole) \<and> a \<noteq> [] \<and>
    List.find (liveTask i) (d_tasks (w_db s)) = Some row \<and> heldOnly i k a (w_db t) \<and> w_db t = (w_db s)
    \<lparr>d_tasks := updWhere (\<lambda>t. t_ID t = i) (\<lambda>t. t\<lparr>t_AssignedTo := a, t_AssigneeKind := k\<rparr>) (d_tasks (w_db s)),
     d_assignments := updWhere (openStretch i) (\<lambda>a. a\<lparr>as_UnassignedAt := now\<rparr>) (d_assignments (w_db s)) @
       [\<lparr>as_ID = j, as_TaskID = i, as_AssigneeKind = k, as_AssigneeID = a, as_AssignedAt = now, as_UnassignedAt = []\<rparr>]\<rparr> \<and>
    w_published t = w_published s @ (if w_publisherNil s then [] else [TaskHandedOver i k a (t_Title row)])"
proof -
  from assms obtain task s1 s2 v where kind: "k = AssigneeActor \<or> k = AssigneeRole" "a \<noteq> []"
    and get: "GetTask i s = (Inr task, s1)" and hand: "handOver i k a s1 = (Inr v, s2)"
    and pub: "publish (TaskHandedOver i k a (t_Title task)) s2 = (Inr u, t)"
    unfolding AssignTaskToHolder_def bnd_Inr seq_Inr unless_Inr by blast
  from GetTask_Inr [OF get] obtain row where d1: "w_db s1 = w_db s"
    and row: "List.find (liveTask i) (d_tasks (w_db s)) = Some row" "sameRow row task" by blast
  from handOver_Inr [OF hand] obtain now j where now: "now \<noteq> []" and d2: "w_db s2 = (w_db s)
    \<lparr>d_tasks := updWhere (\<lambda>t. t_ID t = i) (\<lambda>t. t\<lparr>t_AssignedTo := a, t_AssigneeKind := k\<rparr>) (d_tasks (w_db s)),
     d_assignments := updWhere (openStretch i) (\<lambda>a. a\<lparr>as_UnassignedAt := now\<rparr>) (d_assignments (w_db s)) @
       [\<lparr>as_ID = j, as_TaskID = i, as_AssigneeKind = k, as_AssigneeID = a, as_AssignedAt = now, as_UnassignedAt = []\<rparr>]\<rparr>"
    unfolding d1 by blast
  have nil: "w_publisherNil s2 = w_publisherNil s"
    using steadyD(3) [OF steady_GetTask get] steadyD(3) [OF steady_holders(2) hand] by simp
  have quiet: "w_published s2 = w_published s"
    using silentD [OF silent_GetTask get] silentD [OF silent_holders(2) hand] by simp
  have "t_Title task = t_Title row"
    using arg_cong [OF row(2) [unfolded sameRow_def], of t_Title] by simp
  with pub nil quiet have "w_db t = w_db s2"
    "w_published t = w_published s @ (if w_publisherNil s then [] else [TaskHandedOver i k a (t_Title row)])"
    by (auto simp: publish_Inr split: if_splits)
  with now kind row(1) d2 handOver_heldOnly [OF hand] show ?thesis
    by (intro exI [of _ now] exI [of _ j] exI [of _ row]) simp
qed

lemma makePeriod_Inr:
  assumes run: "makePeriod r occ s = (Inr made, t)"
  shows "\<exists>now. rp_PeriodKey made = oc_PeriodKey occ \<and> rp_RepeatingTaskID made = rt_ID r \<and>
    rp_DueAt made = formatInstant (oc_Due occ) \<and>
    d_periods (w_db t) = d_periods (w_db s) @ [made] \<and> oc_PeriodKey occ \<notin> rp_PeriodKey ` set (d_periods (w_db s)) \<and>
    rp_TaskID made \<notin> t_ID ` set (d_tasks (w_db s)) \<and>
    d_tasks (w_db t) = d_tasks (w_db s) @ [occurrenceRow r occ (rp_TaskID made) now] \<and>
    heldOnly (rp_TaskID made) (rt_AssigneeKind r) (rt_AssigneeID r) (w_db t) \<and>
    d_repeating (w_db t) = d_repeating (w_db s) \<and>
    w_published t = w_published s @ (if w_publisherNil s then [] else
      [TaskCreated (rp_TaskID made) TaskPriorityMedium [],
       TaskHandedOver (rp_TaskID made) (rt_AssigneeKind r) (rt_AssigneeID r) (rt_Title r)])"
proof -
  let ?k = "rt_AssigneeKind r" and ?a = "rt_AssigneeID r" and ?task = "occurrenceTask occ r"
  from run obtain task s1 u s2 now s3 v where create: "CreateTask ?task s = (Inr task, s1)"
    and assign: "AssignTaskToHolder (t_ID task) ?k ?a s1 = (Inr u, s2)" and now: "nowStr s2 = (Inr now, s3)"
    and made: "made = \<lparr>rp_PeriodKey = oc_PeriodKey occ, rp_RepeatingTaskID = rt_ID r, rp_TaskID = t_ID task,
        rp_PeriodStart = formatInstant (oc_Start occ), rp_DueAt = formatInstant (oc_Due occ), rp_MadeAt = now\<rparr>"
    and ins: "insertQ periodsT periodClash made s3 = (Inr v, t)"
    unfolding makePeriod_def Let_def bnd_Inr seq_Inr ret_Inr by blast
  let ?i = "t_ID task"
  have bare: "t_WorkflowRunID ?task = []" "t_Tags ?task = []" "t_Priority ?task = TaskPriorityOther []"
    "t_Title ?task = rt_Title r" "\<not> t_Deleted ?task"
    by (simp_all add: occurrenceTask_def task0_def)
  from CreateTask_plain [OF create bare(1,2)] obtain made_at where fresh: "?i \<notin> t_ID ` set (d_tasks (w_db s))"
    and d1: "w_db s1 = d_tasks_update (\<lambda>ts. ts @ [newRow ?task ?i made_at]) (w_db s)"
    and p1: "w_published s1 = w_published s @ (if w_publisherNil s then [] else [announcement (newRow ?task ?i made_at)])"
    by blast
  have row: "List.find (liveTask ?i) (d_tasks (w_db s1)) = Some (newRow ?task ?i made_at)"
  proof -
    have "List.find (liveTask ?i) (d_tasks (w_db s)) = None" using fresh by (auto simp: find_None_iff liveTask_def image_iff)
    then show ?thesis using bare(5) by (simp add: d1 find_append liveTask_def)
  qed
  from AssignTaskToHolder_Inr [OF assign] obtain stamp j where d2: "w_db s2 = (w_db s1)
    \<lparr>d_tasks := updWhere (\<lambda>t. t_ID t = ?i) (\<lambda>t. t\<lparr>t_AssignedTo := ?a, t_AssigneeKind := ?k\<rparr>) (d_tasks (w_db s1)),
     d_assignments := updWhere (openStretch ?i) (\<lambda>a. a\<lparr>as_UnassignedAt := stamp\<rparr>) (d_assignments (w_db s1)) @
       [\<lparr>as_ID = j, as_TaskID = ?i, as_AssigneeKind = ?k, as_AssigneeID = ?a, as_AssignedAt = stamp, as_UnassignedAt = []\<rparr>]\<rparr>"
    and held: "heldOnly ?i ?k ?a (w_db s2)"
    and p2: "w_published s2 = w_published s1 @ (if w_publisherNil s1 then [] else [TaskHandedOver ?i ?k ?a (rt_Title r)])"
    unfolding row by (auto simp: bare)
  have nil: "w_publisherNil s1 = w_publisherNil s" by (rule steadyD(3) [OF steady_task_writes(1) create])
  have s3: "w_db s3 = w_db s2" "w_published s3 = w_published s2" using nowStr_run [OF now] by simp_all
  note t = insertQ_run [OF ins, unfolded s3]
  have "updWhere (\<lambda>t. t_ID t = ?i) f (d_tasks (w_db s)) = d_tasks (w_db s)" for f
    using fresh by (intro updWhere_none ballI notI) (metis imageI)
  then have "d_tasks (w_db s2) = d_tasks (w_db s) @ [occurrenceRow r occ ?i made_at]"
    by (simp add: d1 d2 updWhere_def [of _ _ "_ @ _"]) (simp add: updWhere_def occurrenceRow_def)
  moreover have "heldOnly ?i ?k ?a (w_db t)" using held t by (simp add: heldOnly_def openStretches_def)
  moreover have "d_periods (w_db s2) = d_periods (w_db s)" "d_repeating (w_db s2) = d_repeating (w_db s)" by (simp_all add: d1 d2)
  ultimately show ?thesis using fresh t p1 p2 nil
    by (intro exI [of _ made_at]) (auto simp: made periodClash_def announcement_def bare)
qed

text \<open>A tick: which schedule it read, and what it found or did.\<close>

lemma MakeRepeatingTaskDue_Inr:
  assumes run: "MakeRepeatingTaskDue lib i moment s = (Inr (p, made), t)" and occ: "made \<or> p \<noteq> period0"
  shows "\<exists>rec r occ s1. List.find (\<lambda>r. rr_ID r = i) (d_repeating (w_db s)) = Some rec \<and>
    RepeatingTaskFromRecord lib rec = Inr r \<and> OccurrenceAt lib r moment = Inr (Some occ) \<and>
    w_db s1 = w_db s \<and> w_published s1 = w_published s \<and> w_publisherNil s1 = w_publisherNil s \<and>
    (case List.find (\<lambda>p. rp_PeriodKey p = oc_PeriodKey occ) (d_periods (w_db s)) of
       Some q \<Rightarrow> p = q \<and> \<not> made \<and> w_db t = w_db s \<and> w_published t = w_published s
     | None \<Rightarrow> makeOnce r occ s1 = (Inr (p, made), t))"
proof -
  from run obtain rec s1 r due s2 where get: "GetRepeatingTask i s = (Inr rec, s1)"
    and r: "RepeatingTaskFromRecord lib rec = Inr r" and due: "OccurrenceAt lib r moment = Inr due"
    and tick: "(case due of None \<Rightarrow> ret (period0, False)
      | Some occ \<Rightarrow> bnd (periodMade (oc_PeriodKey occ)) (\<lambda>found.
         case found of Some made \<Rightarrow> ret (made, False) | None \<Rightarrow> makeOnce r occ)) s1 = (Inr (p, made), t)"
    unfolding MakeRepeatingTaskDue_def bnd_Inr lift_Inr by blast
  note rec = takeQ_run [OF get [unfolded GetRepeatingTask_def]]
  have nil: "w_publisherNil s1 = w_publisherNil s" by (rule steadyD(3) [OF steady_repeating(1) get])
  from tick occ obtain oc where oc: "due = Some oc" by (cases due) (auto simp: ret_def)
  with tick obtain found s3 where found: "periodMade (oc_PeriodKey oc) s1 = (Inr found, s3)"
    and rest: "(case found of Some made \<Rightarrow> ret (made, False) | None \<Rightarrow> makeOnce r oc) s3 = (Inr (p, made), t)"
    by (auto simp: bnd_Inr)
  note f = periodMade_Inr [OF found]
  have nil3: "w_publisherNil s3 = w_publisherNil s" using steadyD(3) [OF steady_repeating(3) found] nil by simp
  show ?thesis
    using rest f rec r due oc nil3
    by (intro exI [of _ rec] exI [of _ r] exI [of _ oc] exI [of _ s3]) (auto simp: ret_def split: option.splits)
qed

lemma makeOnce_made:
  assumes "makeOnce r occ s = (Inr (p, True), t)"
  shows "heldTx (makePeriod r occ) s = (Inr p, t)"
proof -
  obtain tx s1 where tx: "heldTx (makePeriod r occ) s = (tx, s1)" by fastforce
  obtain again s2 where again: "periodMade (oc_PeriodKey occ) s1 = (again, s2)" by fastforce
  from assms tx again show ?thesis
    by (auto simp: makeOnce_def bnd_def attempt_def ret_def fail_def split: sum.splits option.splits)
qed

text \<open>Every other outcome of the transaction leaves the tables as they were.\<close>

lemma makeOnce_idle:
  assumes run: "makeOnce r occ s = (q, t)" and "\<nexists>p. q = Inr (p, True)"
  shows "w_db t = w_db s \<and> w_published t = w_published s"
proof -
  obtain tx s1 where tx: "heldTx (makePeriod r occ) s = (tx, s1)" by fastforce
  with assms obtain e where e: "tx = Inl e" by (cases tx) (auto simp: makeOnce_def bnd_def attempt_def ret_def)
  obtain again s2 where again: "periodMade (oc_PeriodKey occ) s1 = (again, s2)" by fastforce
  have "w_db s2 = w_db s1" "w_published s2 = w_published s1"
    by (rule keeps_reads [OF keeps_repeating(2) again], rule silentD [OF silent_repeating(3) again])
  moreover have "t = s2"
    using run tx e again by (auto simp: makeOnce_def bnd_def attempt_def ret_def fail_def split: sum.splits option.splits)
  ultimately show ?thesis using heldTx_Inl [OF tx [unfolded e]] by simp
qed

section \<open>One task for each period\<close>

text \<open>
  C23. A tick that makes a period's task makes exactly that: the repeating task is stored, readable and not
  stopped, the moment lies in a period of its schedule, and no row has the key of the period; then the
  period's row and one new task are added, the task pending, with the title of the template, due at the
  period's end and held by the assignee of the template and nobody else; the creation and the hand-over
  are published, in this order.
\<close>

theorem MakeRepeatingTaskDue_makes:
  assumes run: "MakeRepeatingTaskDue lib i moment s = (Inr (p, True), t)"
  shows "\<exists>rec r start finish row.
    List.find (\<lambda>r. rr_ID r = i) (d_repeating (w_db s)) = Some rec \<and> rr_StoppedAt rec = [] \<and>
    RepeatingTaskFromRecord lib rec = Inr r \<and> periodAt lib (rt_Schedule r) moment = Some (start, finish) \<and>
    rp_PeriodKey p = i @ ''@'' @ fmtRFC3339 start \<and> rp_PeriodKey p \<notin> rp_PeriodKey ` set (d_periods (w_db s)) \<and>
    d_periods (w_db t) = d_periods (w_db s) @ [p] \<and>
    d_tasks (w_db t) = d_tasks (w_db s) @ [row] \<and> t_ID row = rp_TaskID p \<and> t_ID row \<notin> t_ID ` set (d_tasks (w_db s)) \<and>
    t_Status row = TaskStatusPending \<and> t_Title row = rr_Title rec \<and> t_DueAt row = fmtRFC3339Nano finish \<and>
    heldOnly (t_ID row) (rr_AssigneeKind rec) (rr_AssigneeID rec) (w_db t) \<and>
    w_published t = w_published s @ (if w_publisherNil s then [] else
      [TaskCreated (t_ID row) TaskPriorityMedium [],
       TaskHandedOver (t_ID row) (rr_AssigneeKind rec) (rr_AssigneeID rec) (rr_Title rec)])"
proof -
  from MakeRepeatingTaskDue_Inr [OF run] obtain rec r occ s1
    where rec: "List.find (\<lambda>r. rr_ID r = i) (d_repeating (w_db s)) = Some rec"
    and r: "RepeatingTaskFromRecord lib rec = Inr r" and due: "OccurrenceAt lib r moment = Inr (Some occ)"
    and s1: "w_db s1 = w_db s" "w_published s1 = w_published s" "w_publisherNil s1 = w_publisherNil s"
    and once: "makeOnce r occ s1 = (Inr (p, True), t)"
    by (auto split: option.splits)
  from heldTx_Inr [OF makeOnce_made [OF once]] obtain s2 where body: "makePeriod r occ (held s1) = (Inr p, s2)"
    and t: "w_db t = w_db s2" "w_published t = w_published s @ (if w_publisherNil s then [] else w_published s2)"
    unfolding s1 by blast
  from makePeriod_Inr [OF body] s1 obtain now where key: "rp_PeriodKey p = oc_PeriodKey occ"
    and made: "d_periods (w_db s2) = d_periods (w_db s) @ [p]" "oc_PeriodKey occ \<notin> rp_PeriodKey ` set (d_periods (w_db s))"
      "rp_TaskID p \<notin> t_ID ` set (d_tasks (w_db s))"
      "d_tasks (w_db s2) = d_tasks (w_db s) @ [occurrenceRow r occ (rp_TaskID p) now]"
      "heldOnly (rp_TaskID p) (rt_AssigneeKind r) (rt_AssigneeID r) (w_db s2)"
      "w_published s2 = [TaskCreated (rp_TaskID p) TaskPriorityMedium [],
       TaskHandedOver (rp_TaskID p) (rt_AssigneeKind r) (rt_AssigneeID r) (rt_Title r)]"
    by auto
  note occ = OccurrenceAt_Some [OF due]
  have fields: "rt_ID r = i" "rt_Title r = rr_Title rec" "rt_AssigneeKind r = rr_AssigneeKind rec"
    "rt_AssigneeID r = rr_AssigneeID rec" "rr_StoppedAt rec = []"
    using RepeatingTaskFromRecord_fields [OF r] find_Some_in [OF rec] occ by auto
  have row: "t_ID (occurrenceRow r occ (rp_TaskID p) now) = rp_TaskID p" "t_Status (occurrenceRow r occ (rp_TaskID p) now) = TaskStatusPending"
    "t_Title (occurrenceRow r occ (rp_TaskID p) now) = rr_Title rec"
    "t_DueAt (occurrenceRow r occ (rp_TaskID p) now) = fmtRFC3339Nano (oc_Due occ)"
    by (simp_all add: occurrenceRow_def occurrenceTask_def fields)
  show ?thesis
    using rec r occ key made fields row t s1
    by (intro exI [of _ rec] exI [of _ r] exI [of _ "oc_Start occ"] exI [of _ "oc_Due occ"]
        exI [of _ "occurrenceRow r occ (rp_TaskID p) now"]) simp
qed

text \<open>The templates themselves are only read.\<close>

lemma MakeRepeatingTaskDue_templates:
  assumes "MakeRepeatingTaskDue lib i moment s = (Inr (p, True), t)"
  shows "d_repeating (w_db t) = d_repeating (w_db s)"
proof -
  from MakeRepeatingTaskDue_Inr [OF assms] obtain rec r occ s1
    where "RepeatingTaskFromRecord lib rec = Inr r" and s1: "w_db s1 = w_db s" and once: "makeOnce r occ s1 = (Inr (p, True), t)"
    by (auto split: option.splits)
  from heldTx_Inr [OF makeOnce_made [OF once]] obtain s2 where body: "makePeriod r occ (held s1) = (Inr p, s2)"
    and "w_db t = w_db s2" by blast
  with makePeriod_Inr [OF body] s1 show ?thesis by auto
qed

text \<open>A calendar of days in UTC, to run the operations on.\<close>

definition dayLength :: instant where
  "dayLength = 86400 * nsPerSec"

definition dailyCalendar :: "(unit, string, instant) recur" where
  "dailyCalendar =
     \<lparr>zoneText = (\<lambda>_. ''UTC''), loadZone = (\<lambda>s. if s = [] \<or> s = ''UTC'' then Some () else None),
      ruleText = (\<lambda>r. ''FREQ='' @ r), parseRule = (\<lambda>s. if take 5 s = ''FREQ='' then Some (drop 5 s) else None),
      dateText = fmtRFC3339, parseDate = parseRFC3339,
      validSchedule = (\<lambda>sc. sc_Rule sc \<noteq> None \<or> sc_Dates sc \<noteq> []),
      periodAt = (\<lambda>sc t. if t < sc_Start sc then None else Some (t - t mod dayLength, t - t mod dayLength + dayLength)),
      validWire = (\<lambda>w. wi_Rule w \<noteq> [])\<rparr>"

definition dailyReport :: "string \<Rightarrow> repeating_record" where
  "dailyReport stopped = \<lparr>rr_ID = ''rt'', rr_Title = ''report'', rr_Description = [], rr_ScheduleRule = ''FREQ=DAILY'',
     rr_ScheduleDates = [], rr_ScheduleStart = [], rr_ScheduleEnd = [], rr_ScheduleZone = [],
     rr_AssigneeKind = AssigneeRole, rr_AssigneeID = ''clerk'', rr_StoppedAt = stopped, rr_CreatedAt = [], rr_UpdatedAt = []\<rparr>"

definition dailyWorld :: "string \<Rightarrow> world" where
  "dailyWorld stopped = worldOf (emptyDb\<lparr>d_repeating := [dailyReport stopped]\<rparr>)"

definition dailyTask :: "(unit, string, instant) repeating_task" where
  "dailyTask = \<lparr>rt_ID = ''rt'', rt_Title = ''report'', rt_Description = [],
     rt_Schedule = \<lparr>sc_Start = zeroTime, sc_End = zeroTime, sc_Zone = Some (), sc_Rule = Some ''DAILY'', sc_Dates = []\<rparr>,
     rt_AssigneeKind = AssigneeRole, rt_AssigneeID = ''clerk'', rt_Stopped = False\<rparr>"

definition firstDay :: occurrence where
  "firstDay = \<lparr>oc_RepeatingTaskID = ''rt'', oc_PeriodKey = ''rt@'' @ fmtRFC3339 0, oc_Start = 0, oc_Due = dayLength\<rparr>"

lemma zeroTime_value: "zeroTime = -62135596800000000000"
  by code_simp

lemma dailyReport_read: "RepeatingTaskFromRecord dailyCalendar (dailyReport stopped) = Inr (dailyTask\<lparr>rt_Stopped := stopped \<noteq> []\<rparr>)"
  by (simp add: RepeatingTaskFromRecord_def dailyReport_def dailyCalendar_def dailyTask_def parseInstant_def parseRuleOf_def)

lemma dailyReport_fields: "rr_Title (dailyReport x) = ''report''" "rr_AssigneeKind (dailyReport x) = AssigneeRole"
  "rr_AssigneeID (dailyReport x) = ''clerk''" "rr_ID (dailyReport x) = ''rt''" "rr_StoppedAt (dailyReport x) = x"
  by (simp_all add: dailyReport_def)

lemma firstDay_due: "OccurrenceAt dailyCalendar dailyTask 7 = Inr (Some firstDay)"
  by (simp add: OccurrenceAt_def Validate_def dailyTask_def dailyCalendar_def firstDay_def dayLength_def zeroTime_value nsPerSec_def)

lemma makePeriod_calm: "succeeds (makePeriod dailyTask firstDay) (held (dailyWorld []))"
  by (simp add: succeeds_def makePeriod_def dailyTask_def occurrenceTask_def CreateTask_def AssignTaskToHolder_def GetTask_def
      handOver_def closeCurrentAssignment_def nowNano_def task0_def loadTagNames_def taskClash_def taskRow_def periodClash_def
      assignmentClash_def liveTask_def dailyWorld_def worldOf_def emptyDb_def tm_basic takeQ_def selectQ_def insertQ_def
      updateQ_def sql_def Let_def)

lemma MakeRepeatingTaskDue_calm:
  "\<exists>p t. MakeRepeatingTaskDue dailyCalendar ''rt'' 7 (dailyWorld []) = (Inr (p, True), t) \<and> w_faults t = []"
proof -
  let ?s = "dailyWorld []"
  have calm: "w_faults ?s = []" by (simp add: dailyWorld_def)
  obtain made s1 where run: "makePeriod dailyTask firstDay (held ?s) = (Inr made, s1)" using makePeriod_calm succeedsD by blast
  have "w_faults s1 = []" using steady_calm [OF steady_repeating(4) run] calm by simp
  from heldTx_quiet [of "makePeriod dailyTask firstDay" ?s, OF run this] obtain t
    where tx: "heldTx (makePeriod dailyTask firstDay) ?s = (Inr made, t)" "w_faults t = []" by blast
  have "GetRepeatingTask ''rt'' ?s = (Inr (dailyReport []), ?s)"
    using calm by (simp add: GetRepeatingTask_def takeQ_calm dailyWorld_def dailyReport_def)
  moreover have "periodMade (oc_PeriodKey firstDay) ?s = (Inr None, ?s)"
    using calm by (simp add: periodMade_def lookupQ_calm dailyWorld_def emptyDb_def)
  moreover have "RepeatingTaskFromRecord dailyCalendar (dailyReport []) = Inr dailyTask"
    by (simp add: dailyReport_read dailyTask_def)
  ultimately show ?thesis using tx
    by (simp add: MakeRepeatingTaskDue_def makeOnce_def bnd_def lift_def attempt_def ret_def firstDay_due)
qed

theorem MakeRepeatingTaskDue_makes_witness:
  "\<exists>p t row. MakeRepeatingTaskDue dailyCalendar ''rt'' 7 (dailyWorld []) = (Inr (p, True), t) \<and>
     rp_PeriodKey p = ''rt@'' @ fmtRFC3339 0 \<and> d_periods (w_db t) = [p] \<and> d_tasks (w_db t) = [row] \<and>
     t_Title row = ''report'' \<and> t_DueAt row = fmtRFC3339Nano dayLength \<and>
     heldOnly (t_ID row) AssigneeRole ''clerk'' (w_db t)"
proof -
  obtain p t where run: "MakeRepeatingTaskDue dailyCalendar ''rt'' 7 (dailyWorld []) = (Inr (p, True), t)"
    using MakeRepeatingTaskDue_calm by blast
  have find: "List.find (\<lambda>r. rr_ID r = ''rt'') (d_repeating (w_db (dailyWorld []))) = Some (dailyReport [])"
    and empty: "d_periods (w_db (dailyWorld [])) = []" "d_tasks (w_db (dailyWorld [])) = []"
    by (simp_all add: dailyWorld_def emptyDb_def dailyReport_def)
  have period: "periodAt dailyCalendar (rt_Schedule dailyTask) 7 = Some (0, dayLength)"
    by (simp add: dailyCalendar_def dailyTask_def dayLength_def zeroTime_value nsPerSec_def)
  have read: "RepeatingTaskFromRecord dailyCalendar (dailyReport []) = Inr dailyTask"
    by (simp add: dailyReport_read dailyTask_def)
  from MakeRepeatingTaskDue_makes [OF run] find empty period read run show ?thesis by (fastforce simp: dailyReport_fields)
qed

lemma tick_idle:
  assumes run: "MakeRepeatingTaskDue lib i moment s = (q, t)" and idle: "\<And>p. q \<noteq> Inr (p, True)"
  shows "w_db t = w_db s \<and> w_published t = w_published s"
proof -
  obtain g s1 where get: "GetRepeatingTask i s = (g, s1)" by fastforce
  have s1: "w_db s1 = w_db s" "w_published s1 = w_published s"
    by (rule keeps_reads [OF keeps_repeating(1) get], rule silentD [OF silent_repeating(1) get])
  show ?thesis
  proof (cases "\<exists>rec r occ. g = Inr rec \<and> RepeatingTaskFromRecord lib rec = Inr r \<and> OccurrenceAt lib r moment = Inr (Some occ)")
    case False
    with run get have "t = s1"
      by (auto simp: MakeRepeatingTaskDue_def bnd_def lift_def ret_def split: sum.splits option.splits)
    with s1 show ?thesis by simp
  next
    case True
    then obtain rec r occ where due: "g = Inr rec" "RepeatingTaskFromRecord lib rec = Inr r" "OccurrenceAt lib r moment = Inr (Some occ)"
      by blast
    obtain f s2 where found: "periodMade (oc_PeriodKey occ) s1 = (f, s2)" by fastforce
    have s2: "w_db s2 = w_db s" "w_published s2 = w_published s"
      using keeps_reads [OF keeps_repeating(2) found] silentD [OF silent_repeating(3) found] s1 by simp_all
    show ?thesis
    proof (cases "f = Inr None")
      case True
      with run get due found have "makeOnce r occ s2 = (q, t)" by (simp add: MakeRepeatingTaskDue_def bnd_def lift_def)
      from makeOnce_idle [OF this] idle s2 show ?thesis by auto
    next
      case False
      with run get due found have "t = s2"
        by (auto simp: MakeRepeatingTaskDue_def bnd_def lift_def ret_def split: sum.splits option.splits)
      with s2 show ?thesis by simp
    qed
  qed
qed

text \<open>
  A tick that makes nothing changes nothing: whatever it answers - no period, the row another tick had
  stored, an unknown or unreadable template, a failing statement anywhere in its transaction - every
  table is as before and nothing is published.
\<close>

lemma MakeRepeatingTaskDue_idle:
  assumes "MakeRepeatingTaskDue lib i moment s = (q, t)" and "\<And>p. q \<noteq> Inr (p, True)"
  shows "w_db t = w_db s \<and> w_published t = w_published s"
  using assms by (rule tick_idle)

text \<open>The insert of the period's row, the last statement of the transaction, fails.\<close>

lemma makePeriod_last_fails:
  "\<exists>t. makePeriod dailyTask firstDay (held ((dailyWorld [])\<lparr>w_faults := replicate 7 False @ [True]\<rparr>)) = (Inl ErrDatabase, t) \<and>
     w_faults t = []"
  by (simp add: makePeriod_def dailyTask_def occurrenceTask_def CreateTask_def AssignTaskToHolder_def GetTask_def
      handOver_def closeCurrentAssignment_def nowNano_def task0_def loadTagNames_def taskClash_def taskRow_def periodClash_def
      assignmentClash_def liveTask_def dailyWorld_def worldOf_def emptyDb_def tm_basic takeQ_def selectQ_def insertQ_def
      updateQ_def sql_def Let_def numeral_eq_Suc)

lemma MakeRepeatingTaskDue_idle_example:
  "\<exists>t. MakeRepeatingTaskDue dailyCalendar ''rt'' 7 ((dailyWorld [])\<lparr>w_faults := replicate 9 False @ [True]\<rparr>) = (Inl ErrDatabase, t) \<and>
     d_tasks (w_db t) = [] \<and> d_periods (w_db t) = [] \<and> w_published t = []"
proof -
  let ?s = "(dailyWorld [])\<lparr>w_faults := replicate 9 False @ [True]\<rparr>"
  let ?s1 = "(dailyWorld [])\<lparr>w_faults := replicate 8 False @ [True]\<rparr>"
  let ?s2 = "(dailyWorld [])\<lparr>w_faults := replicate 7 False @ [True]\<rparr>"
  from makePeriod_last_fails obtain s3 where body: "makePeriod dailyTask firstDay (held ?s2) = (Inl ErrDatabase, s3)" "w_faults s3 = []"
    by auto
  have "GetRepeatingTask ''rt'' ?s = (Inr (dailyReport []), ?s1)"
    by (simp add: GetRepeatingTask_def takeQ_def sql_def dailyWorld_def dailyReport_def worldOf_def numeral_eq_Suc)
  moreover have "periodMade (oc_PeriodKey firstDay) ?s1 = (Inr None, ?s2)"
    by (simp add: periodMade_def lookupQ_def bnd_def attempt_def ret_def takeQ_def sql_def dailyWorld_def worldOf_def emptyDb_def
        numeral_eq_Suc)
  moreover have "RepeatingTaskFromRecord dailyCalendar (dailyReport []) = Inr dailyTask"
    by (simp add: dailyReport_read dailyTask_def)
  ultimately have "MakeRepeatingTaskDue dailyCalendar ''rt'' 7 ?s = makeOnce dailyTask firstDay ?s2"
    by (simp add: MakeRepeatingTaskDue_def bnd_def lift_def firstDay_due)
  moreover have "fst (makeOnce dailyTask firstDay ?s2) = Inl ErrDatabase"
    using body by (simp add: makeOnce_def heldTx_def transaction_def bnd_def attempt_def ret_def fail_def periodMade_def
        lookupQ_calm dailyWorld_def emptyDb_def)
  ultimately obtain t where run: "MakeRepeatingTaskDue dailyCalendar ''rt'' 7 ?s = (Inl ErrDatabase, t)" by (metis prod.collapse)
  from MakeRepeatingTaskDue_idle [OF run] run show ?thesis by (simp add: dailyWorld_def emptyDb_def worldOf_def)
qed

text \<open>
  C24. A period's task is made once: after a tick that made it, every later tick of the same template at a moment
  of the same period - in whatever state, as long as the template's row and the rows of the periods are
  kept - answers the row of the first, says that nothing was made, changes no table and publishes nothing.
\<close>

theorem MakeRepeatingTaskDue_once:
  assumes run: "MakeRepeatingTaskDue lib i moment s = (Inr (p, True), t)" and calm: "w_faults s' = []"
    and kept: "List.find (\<lambda>r. rr_ID r = i) (d_repeating (w_db s')) = List.find (\<lambda>r. rr_ID r = i) (d_repeating (w_db s))"
      "d_periods (w_db s') = d_periods (w_db t) @ newer"
    and same: "\<And>rec r. List.find (\<lambda>r. rr_ID r = i) (d_repeating (w_db s)) = Some rec \<Longrightarrow>
      RepeatingTaskFromRecord lib rec = Inr r \<Longrightarrow> periodAt lib (rt_Schedule r) moment' = periodAt lib (rt_Schedule r) moment"
  shows "\<exists>t'. MakeRepeatingTaskDue lib i moment' s' = (Inr (p, False), t') \<and> w_db t' = w_db s' \<and>
    w_published t' = w_published s'"
proof -
  from MakeRepeatingTaskDue_Inr [OF run] obtain rec r occ s1
    where rec: "List.find (\<lambda>r. rr_ID r = i) (d_repeating (w_db s)) = Some rec"
    and r: "RepeatingTaskFromRecord lib rec = Inr r" and due: "OccurrenceAt lib r moment = Inr (Some occ)"
    and s1: "w_db s1 = w_db s" and once: "makeOnce r occ s1 = (Inr (p, True), t)"
    and none: "List.find (\<lambda>p. rp_PeriodKey p = oc_PeriodKey occ) (d_periods (w_db s)) = None"
    by (auto split: option.splits)
  from heldTx_Inr [OF makeOnce_made [OF once]] obtain s2 where body: "makePeriod r occ (held s1) = (Inr p, s2)"
    and t: "w_db t = w_db s2" by blast
  from makePeriod_Inr [OF body] s1 t have "d_periods (w_db t) = d_periods (w_db s) @ [p]" "rp_PeriodKey p = oc_PeriodKey occ"
    by auto
  with none kept(2) have found: "List.find (\<lambda>p. rp_PeriodKey p = oc_PeriodKey occ) (d_periods (w_db s')) = Some p"
    by (simp add: find_append)
  have "OccurrenceAt lib r moment' = Inr (Some occ)" using due unfolding OccurrenceAt_def same [OF rec r] .
  then have "MakeRepeatingTaskDue lib i moment' s' = (Inr (p, False), s')"
    using calm kept(1) rec r found
    by (simp add: MakeRepeatingTaskDue_def GetRepeatingTask_def periodMade_def takeQ_calm lookupQ_calm bnd_def lift_def ret_def)
  then show ?thesis by blast
qed

theorem MakeRepeatingTaskDue_once_witness:
  "\<exists>p t t'. MakeRepeatingTaskDue dailyCalendar ''rt'' 7 (dailyWorld []) = (Inr (p, True), t) \<and>
     MakeRepeatingTaskDue dailyCalendar ''rt'' 9 t = (Inr (p, False), t') \<and> d_tasks (w_db t') = d_tasks (w_db t)"
proof -
  obtain p t where run: "MakeRepeatingTaskDue dailyCalendar ''rt'' 7 (dailyWorld []) = (Inr (p, True), t)" "w_faults t = []"
    using MakeRepeatingTaskDue_calm by blast
  have kept: "d_repeating (w_db t) = d_repeating (w_db (dailyWorld []))"
    by (rule MakeRepeatingTaskDue_templates [OF run(1)])
  have same: "periodAt dailyCalendar (rt_Schedule r) 9 = periodAt dailyCalendar (rt_Schedule r) 7"
    if "List.find (\<lambda>r. rr_ID r = ''rt'') (d_repeating (w_db (dailyWorld []))) = Some rec"
      "RepeatingTaskFromRecord dailyCalendar rec = Inr r" for rec r
  proof -
    have "rt_Schedule r = rt_Schedule dailyTask"
      using that by (auto simp: dailyWorld_def dailyReport_fields dailyReport_read)
    then show ?thesis by (simp add: dailyCalendar_def dailyTask_def dayLength_def zeroTime_value nsPerSec_def)
  qed
  from MakeRepeatingTaskDue_once [OF run(1) run(2) _ _ same, of "[]"] kept run(1) show ?thesis by fastforce
qed

text \<open>
  C25. Losing the race makes no second task: a tick that looked for the period before a rival stored it, and
  reaches its own transaction after, answers the rival's row, says that nothing was made and leaves every
  table as it was - the task it had begun is gone with its transaction - and publishes nothing.
\<close>

theorem makeOnce_race:
  assumes rival: "List.find (\<lambda>p. rp_PeriodKey p = oc_PeriodKey occ) (d_periods (w_db s)) = Some p" and calm: "w_faults s = []"
  shows "\<exists>t. makeOnce r occ s = (Inr (p, False), t) \<and> w_db t = w_db s \<and> w_published t = w_published s"
proof -
  obtain tx s1 where tx: "heldTx (makePeriod r occ) s = (tx, s1)" by fastforce
  have "\<exists>e. tx = Inl e"
  proof (cases tx)
    case (Inr q)
    from heldTx_Inr [OF tx [unfolded Inr]] obtain s2 where "makePeriod r occ (held s) = (Inr q, s2)" by blast
    from makePeriod_Inr [OF this] find_Some_in [OF rival] have False by force
    then show ?thesis ..
  qed simp
  then obtain e where e: "tx = Inl e" by blast
  have s1: "w_db s1 = w_db s" "w_published s1 = w_published s" using heldTx_Inl [OF tx [unfolded e]] by simp_all
  have "w_faults s1 = []" using steady_calm [OF steady_heldTx [OF steady_repeating(4)] tx calm] .
  then have "periodMade (oc_PeriodKey occ) s1 = (Inr (Some p), s1)" using rival s1 by (simp add: periodMade_def lookupQ_calm)
  with tx e have "makeOnce r occ s = (Inr (p, False), s1)" by (simp add: makeOnce_def bnd_def attempt_def ret_def)
  with s1 show ?thesis by blast
qed

theorem makeOnce_race_witness:
  "\<exists>t. makeOnce dailyTask firstDay
       (worldOf (emptyDb\<lparr>d_periods := [period0\<lparr>rp_PeriodKey := oc_PeriodKey firstDay, rp_TaskID := ''rival''\<rparr>]\<rparr>)) =
     (Inr (period0\<lparr>rp_PeriodKey := oc_PeriodKey firstDay, rp_TaskID := ''rival''\<rparr>, False), t) \<and> d_tasks (w_db t) = []"
proof -
  let ?p = "period0\<lparr>rp_PeriodKey := oc_PeriodKey firstDay, rp_TaskID := ''rival''\<rparr>"
  let ?s = "worldOf (emptyDb\<lparr>d_periods := [?p]\<rparr>)"
  have find: "List.find (\<lambda>p. rp_PeriodKey p = oc_PeriodKey firstDay) (d_periods (w_db ?s)) = Some ?p" by simp
  have "w_faults ?s = []" by simp
  from makeOnce_race [OF find this, of dailyTask] show ?thesis by (auto simp: emptyDb_def)
qed

section \<open>Stopping\<close>

lemma StopRepeatingTask_Inr:
  assumes "StopRepeatingTask i s = (Inr rec, t)"
  shows "List.find (\<lambda>r. rr_ID r = i) (d_repeating (w_db t)) = Some rec \<and> rr_StoppedAt rec \<noteq> [] \<and>
    d_tasks (w_db t) = d_tasks (w_db s) \<and> d_periods (w_db t) = d_periods (w_db s)"
proof -
  from assms obtain rec0 s1 where get: "GetRepeatingTask i s = (Inr rec0, s1)"
    and rest: "(if rr_StoppedAt rec0 \<noteq> [] then ret rec0
      else bnd nowStr (\<lambda>now.
       seq (updateQ repeatingT (\<lambda>r. rr_ID r = i) (\<lambda>r. r\<lparr>rr_StoppedAt := now, rr_UpdatedAt := now\<rparr>))
       (GetRepeatingTask i))) s1 = (Inr rec, t)"
    unfolding StopRepeatingTask_def bnd_Inr by blast
  note rec0 = takeQ_run [OF get [unfolded GetRepeatingTask_def]]
  show ?thesis
  proof (cases "rr_StoppedAt rec0 = []")
    case False
    with rest rec0 show ?thesis by (simp add: ret_def)
  next
    case True
    with rest obtain now s2 n s3 where now: "nowStr s1 = (Inr now, s2)"
      and upd: "updateQ repeatingT (\<lambda>r. rr_ID r = i) (\<lambda>r. r\<lparr>rr_StoppedAt := now, rr_UpdatedAt := now\<rparr>) s2 = (Inr n, s3)"
      and again: "GetRepeatingTask i s3 = (Inr rec, t)"
      by (auto simp: bnd_Inr seq_Inr)
    let ?stop = "\<lambda>r. r\<lparr>rr_StoppedAt := now, rr_UpdatedAt := now\<rparr>"
    have "List.find (\<lambda>r. rr_ID r = i) (updWhere (\<lambda>r. rr_ID r = i) ?stop (d_repeating (w_db s))) = Some (?stop rec0)"
      using rec0 by (subst find_updWhere) (auto dest: find_Some_in)
    with updateQ_run [OF upd] nowStr_run [OF now] rec0 takeQ_run [OF again [unfolded GetRepeatingTask_def]]
    show ?thesis by auto
  qed
qed

text \<open>
  Stopping is final: once a template was stopped, a tick in any later state that kept its row makes nothing,
  at any moment; it changes no table, so the tasks made before stay as they are, and stopping itself
  touches neither tasks nor periods.
\<close>

lemma StopRepeatingTask_final:
  assumes stop: "StopRepeatingTask i s = (Inr rec, t)"
    and kept: "List.find (\<lambda>r. rr_ID r = i) (d_repeating (w_db s')) = Some rec"
    and tick: "MakeRepeatingTaskDue lib i moment s' = (q, t')"
  shows "d_tasks (w_db t) = d_tasks (w_db s) \<and> d_periods (w_db t) = d_periods (w_db s) \<and>
    List.find (\<lambda>r. rr_ID r = i) (d_repeating (w_db t)) = Some rec \<and>
    (\<forall>p. q \<noteq> Inr (p, True)) \<and> w_db t' = w_db s' \<and> w_published t' = w_published s'"
proof -
  note stopped = StopRepeatingTask_Inr [OF stop]
  have "q \<noteq> Inr (p, True)" for p
  proof
    assume "q = Inr (p, True)"
    from MakeRepeatingTaskDue_Inr [OF tick [unfolded this]] obtain rec' r occ
      where rec': "List.find (\<lambda>r. rr_ID r = i) (d_repeating (w_db s')) = Some rec'"
      and r: "RepeatingTaskFromRecord lib rec' = Inr r" and due: "OccurrenceAt lib r moment = Inr (Some occ)" by blast
    from OccurrenceAt_Some [OF due] RepeatingTaskFromRecord_fields(5) [OF r] rec' kept stopped show False by simp
  qed
  moreover from this have "w_db t' = w_db s' \<and> w_published t' = w_published s'" by (intro tick_idle [OF tick])
  ultimately show ?thesis using stopped by blast
qed

lemma StopRepeatingTask_final_example:
  "\<exists>rec t q t'. StopRepeatingTask ''rt'' (dailyWorld []) = (Inr rec, t) \<and> rr_StoppedAt rec \<noteq> [] \<and>
     MakeRepeatingTaskDue dailyCalendar ''rt'' 7 t = (q, t') \<and> d_tasks (w_db t') = []"
proof -
  have "succeeds (StopRepeatingTask ''rt'') (dailyWorld [])"
    by (simp add: succeeds_def StopRepeatingTask_def GetRepeatingTask_def dailyWorld_def dailyReport_def takeQ_def updateQ_def
        sql_def tm_basic worldOf_def)
  then obtain rec t where stop: "StopRepeatingTask ''rt'' (dailyWorld []) = (Inr rec, t)" using succeedsD by blast
  obtain q t' where tick: "MakeRepeatingTaskDue dailyCalendar ''rt'' 7 t = (q, t')" by fastforce
  from StopRepeatingTask_Inr [OF stop] have row: "List.find (\<lambda>r. rr_ID r = ''rt'') (d_repeating (w_db t)) = Some rec"
    "rr_StoppedAt rec \<noteq> []" by simp_all
  from StopRepeatingTask_final [OF stop row(1) tick] stop tick row(2) show ?thesis by (auto simp: dailyWorld_def emptyDb_def)
qed

section \<open>What is stored can be read\<close>

lemma parseInstant_formatInstant:
  assumes "fourDigitYear t"
  shows "parseInstant (formatInstant t) = Inr (t - t mod nsPerSec)"
proof (cases "t = zeroTime")
  case True
  then show ?thesis by (simp add: formatInstant_def parseInstant_def zeroTime_value nsPerSec_def)
next
  case False
  with parse_fmt [OF assms] show ?thesis by (simp add: formatInstant_def parseInstant_def)
qed

text \<open>
  C31. A stored instant is read back: for every instant of the years 0 to 9999 the text \<open>formatInstant\<close> stores is parsed by
  \<open>parseInstant\<close> to that instant, to the whole second - through the calendar in both directions, leap years
  and the empty text of the zero time included.
\<close>

theorem instant_roundtrip:
  assumes "fourDigitYear t"
  shows "parseInstant (formatInstant t) = Inr (t - t mod nsPerSec)"
  using assms by (rule parseInstant_formatInstant)

text \<open>A leap day, and half a second that is lost.\<close>

theorem instant_roundtrip_witness:
  "parseInstant (formatInstant (951782400 * nsPerSec + 500000000)) = Inr (951782400 * nsPerSec)"
proof -
  have "fourDigitYear (951782400 * nsPerSec + 500000000)" by code_simp
  from instant_roundtrip [OF this] show ?thesis by (simp add: nsPerSec_def)
qed

lemma parseDates_dateText:
  assumes "\<And>d. d \<in> set ds \<Longrightarrow> parseDate lib (dateText lib d) = Some d"
  shows "parseDates lib (map (dateText lib) ds) = Inr ds"
  using assms by (induction ds) auto

text \<open>
  C26. A template that is started can be ticked: the row stored for it is new and not stopped, and reading it
  gives back the template with its new id, its assignee, zone, rule and dates, and its start and end to
  the whole second; the text of the zone, the rule and the dates it names is assumed to be read back as
  the library documents, and the two instants to lie in the years 0 to 9999.
\<close>

theorem CreateRepeatingTask_readable:
  assumes run: "CreateRepeatingTask lib r s = (Inr rec, t)"
    and loc: "sc_Zone (rt_Schedule r) = Some z" "loadZone lib (zoneText lib z) = Some z"
    and rule: "\<And>rule. sc_Rule (rt_Schedule r) = Some rule \<Longrightarrow>
      ruleText lib rule \<noteq> [] \<and> parseRule lib (ruleText lib rule) = Some rule"
    and dates: "\<And>d. d \<in> set (sc_Dates (rt_Schedule r)) \<Longrightarrow> parseDate lib (dateText lib d) = Some d"
    and years: "fourDigitYear (sc_Start (rt_Schedule r))" "fourDigitYear (sc_End (rt_Schedule r))"
  shows "w_db t = (w_db s)\<lparr>d_repeating := d_repeating (w_db s) @ [rec]\<rparr> \<and> rr_ID rec \<notin> rr_ID ` set (d_repeating (w_db s)) \<and>
    RepeatingTaskFromRecord lib rec = Inr (r\<lparr>rt_ID := rr_ID rec, rt_Stopped := False,
      rt_Schedule := (rt_Schedule r)\<lparr>sc_Start := sc_Start (rt_Schedule r) - sc_Start (rt_Schedule r) mod nsPerSec,
        sc_End := sc_End (rt_Schedule r) - sc_End (rt_Schedule r) mod nsPerSec\<rparr>\<rparr>)"
proof -
  from run obtain i s1 now s2 u where i: "newSpecID s = (Inr i, s1)" and now: "nowStr s1 = (Inr now, s2)"
    and rec: "rec = (RecordOf lib (r\<lparr>rt_ID := i, rt_Stopped := False\<rparr>))\<lparr>rr_CreatedAt := now, rr_UpdatedAt := now\<rparr>"
    and ins: "insertQ repeatingT repeatingClash rec s2 = (Inr u, t)"
    unfolding CreateRepeatingTask_def Let_def bnd_Inr seq_Inr lift_Inr ret_Inr by blast
  have s2: "w_db s2 = w_db s" using i nowStr_run [OF now] by (auto simp: newSpecID_Inr)
  note t = insertQ_run [OF ins, unfolded s2]
  have "parseRuleOf lib (rr_ScheduleRule rec) = Inr (sc_Rule (rt_Schedule r))"
    using rule by (auto simp: rec RecordOf_def parseRuleOf_def split: option.split)
  moreover have "parseDates lib (rr_ScheduleDates rec) = Inr (sc_Dates (rt_Schedule r))"
    using parseDates_dateText [of "sc_Dates (rt_Schedule r)" lib, OF dates] by (simp add: rec RecordOf_def)
  moreover have "parseInstant (rr_ScheduleStart rec) = Inr (sc_Start (rt_Schedule r) - sc_Start (rt_Schedule r) mod nsPerSec)"
    "parseInstant (rr_ScheduleEnd rec) = Inr (sc_End (rt_Schedule r) - sc_End (rt_Schedule r) mod nsPerSec)"
    using years by (simp_all add: rec RecordOf_def parseInstant_formatInstant)
  moreover have "loadZone lib (rr_ScheduleZone rec) = sc_Zone (rt_Schedule r)" using loc by (simp add: rec RecordOf_def)
  ultimately have "RepeatingTaskFromRecord lib rec = Inr (r\<lparr>rt_ID := rr_ID rec, rt_Stopped := False,
      rt_Schedule := (rt_Schedule r)\<lparr>sc_Start := sc_Start (rt_Schedule r) - sc_Start (rt_Schedule r) mod nsPerSec,
        sc_End := sc_End (rt_Schedule r) - sc_End (rt_Schedule r) mod nsPerSec\<rparr>\<rparr>)"
    using loc by (simp add: RepeatingTaskFromRecord_def) (simp add: rec RecordOf_def)
  with t show ?thesis by (auto simp: repeatingClash_def)
qed

theorem CreateRepeatingTask_readable_witness:
  "\<exists>rec t. CreateRepeatingTask dailyCalendar dailyTask calmWorld = (Inr rec, t) \<and> d_repeating (w_db t) = [rec] \<and>
     RepeatingTaskFromRecord dailyCalendar rec = Inr (dailyTask\<lparr>rt_ID := rr_ID rec\<rparr>)"
proof -
  have "succeeds (CreateRepeatingTask dailyCalendar dailyTask) calmWorld"
    by (simp add: succeeds_def CreateRepeatingTask_def calmWorld_def worldOf_def emptyDb_def tm_basic Let_def insertQ_def sql_def
        Validate_def dailyTask_def dailyCalendar_def RecordOf_def RepeatingTaskFromRecord_def formatInstant_def parseInstant_def
        parseRuleOf_def)
  then obtain rec t where run: "CreateRepeatingTask dailyCalendar dailyTask calmWorld = (Inr rec, t)" using succeedsD by blast
  have year: "fourDigitYear zeroTime" by code_simp
  have "w_db t = (w_db calmWorld)\<lparr>d_repeating := d_repeating (w_db calmWorld) @ [rec]\<rparr> \<and>
    rr_ID rec \<notin> rr_ID ` set (d_repeating (w_db calmWorld)) \<and>
    RepeatingTaskFromRecord dailyCalendar rec = Inr (dailyTask\<lparr>rt_ID := rr_ID rec, rt_Stopped := False,
      rt_Schedule := (rt_Schedule dailyTask)\<lparr>sc_Start := sc_Start (rt_Schedule dailyTask) - sc_Start (rt_Schedule dailyTask) mod nsPerSec,
        sc_End := sc_End (rt_Schedule dailyTask) - sc_End (rt_Schedule dailyTask) mod nsPerSec\<rparr>\<rparr>)"
    by (rule CreateRepeatingTask_readable [OF run]) (simp_all add: dailyTask_def dailyCalendar_def year)
  with run show ?thesis by (simp add: calmWorld_def emptyDb_def dailyTask_def zeroTime_value nsPerSec_def)
qed

end
