(* ===== verification/Identity.thy ===== *)
theory Identity
  imports Store
begin

text \<open>
  \<open>identity_owner.go\<close>: names for the module's objects that other modules may keep. The text of a name is made
  and read by the shared \<open>identity\<close> package, whose two functions are the record \<open>identity_lib\<close>, as is the
  instance the manager was built for.
\<close>

record identity_lib =
  formName :: "string \<Rightarrow> string \<Rightarrow> string \<Rightarrow> string option"
  readName :: "string \<Rightarrow> (string \<times> string \<times> string) option"
  instanceName :: string

definition identityModule :: string where
  "identityModule = ''taskmanager''"

definition identityObjects :: "string list" where
  "identityObjects = [''task'', ''project'', ''agent'', ''case'', ''repeating_task'', ''task_todo'', ''workflow_run'',
     ''acceptance_criteria'']"

definition hasStableIdentity :: "string \<Rightarrow> bool" where
  "hasStableIdentity object \<longleftrightarrow> object \<in> set identityObjects"

text \<open>
  One statement of the table of the object: \<open>deleted = false\<close> is asked of the three in \<open>softDeletedObjects\<close>.
  The callers name no other object; the store answers an undeclared one with an error.
\<close>

definition rowsOf :: "'r tbl \<Rightarrow> ('r \<Rightarrow> bool) \<Rightarrow> bool tm" where
  "rowsOf T P = bnd (selectQ T P) (\<lambda>rows. ret (take 1 rows \<noteq> []))"

definition identityRowExists :: "string \<Rightarrow> string \<Rightarrow> bool tm" where
  "identityRowExists object i =
     (if object = ''task'' then rowsOf tasksT (\<lambda>x. t_ID x = i \<and> \<not> t_Deleted x)
      else if object = ''project'' then rowsOf projectsT (\<lambda>x. p_ID x = i \<and> \<not> p_Deleted x)
      else if object = ''agent'' then rowsOf agentsT (\<lambda>x. ag_ID x = i)
      else if object = ''case'' then rowsOf casesT (\<lambda>x. c_ID x = i)
      else if object = ''repeating_task'' then rowsOf repeatingT (\<lambda>x. rr_ID x = i)
      else if object = ''task_todo'' then rowsOf todosT (\<lambda>x. td_ID x = i \<and> \<not> td_Deleted x)
      else if object = ''workflow_run'' then rowsOf runsT (\<lambda>x. r_ID x = i)
      else if object = ''acceptance_criteria'' then rowsOf criteriaT (\<lambda>x. ac_ID x = i)
      else fail ErrDatabase)"

definition StableIdentity :: "identity_lib \<Rightarrow> string \<Rightarrow> string \<Rightarrow> string tm" where
  "StableIdentity lib object i =
     seq (unless (hasStableIdentity object) ErrNoStableIdentity)
     (bnd (identityRowExists object i) (\<lambda>found.
      if \<not> found then fail ErrIdentityNotFound
      else case formName lib identityModule (instanceName lib) i of
        None \<Rightarrow> fail ErrIdentityMalformed
      | Some raw \<Rightarrow> ret raw))"

fun firstOwner :: "string list \<Rightarrow> string \<Rightarrow> string tm" where
  "firstOwner [] i = fail ErrIdentityNotFound"
| "firstOwner (object # rest) i =
     bnd (identityRowExists object i) (\<lambda>found. if found then ret object else firstOwner rest i)"

definition Resolve :: "identity_lib \<Rightarrow> string \<Rightarrow> (string \<times> string) tm" where
  "Resolve lib raw =
     (case readName lib raw of
        None \<Rightarrow> fail ErrIdentityMalformed
      | Some (owner, inst, i) \<Rightarrow>
          if owner \<noteq> identityModule \<or> inst \<noteq> instanceName lib then fail ErrIdentityNotOwned
          else bnd (firstOwner identityObjects i) (\<lambda>object. ret (object, i)))"

section \<open>What has a name\<close>

text \<open>The live row of an object, as a question to the tables.\<close>

definition owns :: "db \<Rightarrow> string \<Rightarrow> string \<Rightarrow> bool" where
  "owns d object i \<longleftrightarrow>
     (if object = ''task'' then \<exists>x \<in> set (d_tasks d). t_ID x = i \<and> \<not> t_Deleted x
      else if object = ''project'' then \<exists>x \<in> set (d_projects d). p_ID x = i \<and> \<not> p_Deleted x
      else if object = ''agent'' then \<exists>x \<in> set (d_agents d). ag_ID x = i
      else if object = ''case'' then \<exists>x \<in> set (d_cases d). c_ID x = i
      else if object = ''repeating_task'' then \<exists>x \<in> set (d_repeating d). rr_ID x = i
      else if object = ''task_todo'' then \<exists>x \<in> set (d_todos d). td_ID x = i \<and> \<not> td_Deleted x
      else if object = ''workflow_run'' then \<exists>x \<in> set (d_runs d). r_ID x = i
      else if object = ''acceptance_criteria'' then \<exists>x \<in> set (d_criteria d). ac_ID x = i
      else False)"

lemma rowsOf_Inr: "rowsOf T P s = (Inr b, t) \<Longrightarrow> (b \<longleftrightarrow> (\<exists>x \<in> set (fst T (w_db s)). P x)) \<and> w_db t = w_db s"
  by (auto simp: rowsOf_def succ take_Suc_conv_app_nth filter_empty_conv)

lemma rowsOf_calm [calm]: "w_faults s = [] \<Longrightarrow> rowsOf T P s = (Inr (\<exists>x \<in> set (fst T (w_db s)). P x), s)"
  by (auto simp: rowsOf_def bnd_def selectQ_calm ret_def filter_empty_conv)

lemma identityRowExists_Inr:
  assumes "identityRowExists object i s = (Inr b, t)"
  shows "(b \<longleftrightarrow> owns (w_db s) object i) \<and> w_db t = w_db s"
  using assms unfolding identityRowExists_def owns_def
  by (auto dest!: rowsOf_Inr simp: fail_def split: if_split_asm)

lemma identityRowExists_calm:
  assumes "w_faults s = []" and "object \<in> set identityObjects"
  shows "identityRowExists object i s = (Inr (owns (w_db s) object i), s)"
proof -
  have "object = ''task'' \<or> object = ''project'' \<or> object = ''agent'' \<or> object = ''case'' \<or> object = ''repeating_task'' \<or>
    object = ''task_todo'' \<or> object = ''workflow_run'' \<or> object = ''acceptance_criteria''"
    using assms(2) by (simp add: identityObjects_def)
  then show ?thesis by (elim disjE) (simp_all add: identityRowExists_def owns_def rowsOf_calm [OF assms(1)])
qed

lemma firstOwner_Inr:
  assumes "firstOwner objects i s = (Inr object, t)"
  shows "object \<in> set objects \<and> owns (w_db s) object i \<and> w_db t = w_db s"
  using assms
proof (induction objects arbitrary: s)
  case (Cons o1 rest)
  from Cons.prems obtain b s1 where b: "identityRowExists o1 i s = (Inr b, s1)"
    and tl: "(if b then ret o1 else firstOwner rest i) s1 = (Inr object, t)" by (auto simp: bnd_Inr)
  note r = identityRowExists_Inr [OF b]
  show ?case
  proof (cases b)
    case True
    with tl r show ?thesis by (auto simp: ret_def)
  next
    case False
    with tl have "firstOwner rest i s1 = (Inr object, t)" by simp
    from Cons.IH [OF this] r show ?thesis by simp
  qed
qed (simp add: fail_def)

lemma firstOwner_calm:
  assumes "w_faults s = []" and "set objects \<subseteq> set identityObjects" and "object \<in> set objects" and "owns (w_db s) object i"
    and "\<And>o'. o' \<noteq> object \<Longrightarrow> \<not> owns (w_db s) o' i"
  shows "firstOwner objects i s = (Inr object, s)"
  using assms by (induction objects) (auto simp: bnd_def identityRowExists_calm ret_def)

lemma firstOwner_none:
  assumes "w_faults s = []" and "set objects \<subseteq> set identityObjects" and "\<And>o'. \<not> owns (w_db s) o' i"
  shows "firstOwner objects i s = (Inl ErrIdentityNotFound, s)"
  using assms by (induction objects) (auto simp: bnd_def identityRowExists_calm ret_def fail_def)

text \<open>A name that resolves is one of this module and instance, and its object has a live row.\<close>

lemma Resolve_sound:
  assumes "Resolve lib raw s = (Inr (object, i), t)"
  shows "readName lib raw = Some (identityModule, instanceName lib, i) \<and> object \<in> set identityObjects \<and>
    owns (w_db s) object i \<and> w_db t = w_db s"
  using assms unfolding Resolve_def
  by (auto simp: fail_def bnd_Inr ret_Inr split: option.splits prod.splits if_splits dest: firstOwner_Inr)

text \<open>
  C40. A name given out finds its object again: it is given only for an object with a live row, and resolving it -
  then or in any later state in which that row lives, no other object has the same id and no statement
  fails - answers the object and its id and changes nothing; once no object has a live row of that id,
  resolving it answers not found. That the text of a name is read back is assumed of the identity
  package.
\<close>

theorem Resolve_StableIdentity:
  assumes name: "StableIdentity lib object i s = (Inr raw, t)"
    and lib: "\<And>m n x text. formName lib m n x = Some text \<Longrightarrow> readName lib text = Some (m, n, x)"
    and alone: "\<And>o'. o' \<noteq> object \<Longrightarrow> \<not> owns (w_db s') o' i" and calm: "w_faults s' = []"
  shows "object \<in> set identityObjects \<and> owns (w_db s) object i \<and> w_db t = w_db s \<and>
    Resolve lib raw s' = (if owns (w_db s') object i then Inr (object, i) else Inl ErrIdentityNotFound, s')"
proof -
  from name obtain s1 where known: "hasStableIdentity object" and found: "identityRowExists object i s = (Inr True, s1)"
    and raw: "formName lib identityModule (instanceName lib) i = Some raw" and t: "t = s1"
    unfolding StableIdentity_def seq_Inr unless_Inr bnd_Inr
    by (auto simp: fail_def ret_def split: if_splits option.splits)
  have "firstOwner identityObjects i s' = (if owns (w_db s') object i then Inr object else Inl ErrIdentityNotFound, s')"
  proof (cases "owns (w_db s') object i")
    case True
    have "object \<in> set identityObjects" using known by (simp add: hasStableIdentity_def)
    from firstOwner_calm [OF calm order_refl this True alone] True show ?thesis by simp
  next
    case False
    then have "\<not> owns (w_db s') o' i" for o' using alone [of o'] by (cases "o' = object") simp_all
    from firstOwner_none [OF calm order_refl this] False show ?thesis by simp
  qed
  with lib [OF raw] have "Resolve lib raw s' = (if owns (w_db s') object i then Inr (object, i) else Inl ErrIdentityNotFound, s')"
    by (simp add: Resolve_def bnd_def ret_def)
  with identityRowExists_Inr [OF found] known t show ?thesis by (simp add: hasStableIdentity_def)
qed

definition plainAgent :: agent where
  "plainAgent = \<lparr>ag_ID = ''a7'', ag_AgentID = ''scribe'', ag_DisplayName = [], ag_Capability = [], ag_RoleName = [],
     ag_CreatedAt = [], ag_UpdatedAt = []\<rparr>"

text \<open>A library that writes a name as its three parts, and a world with one agent.\<close>

definition slashNames :: identity_lib where
  "slashNames =
     \<lparr>formName = (\<lambda>m n x. if CHR ''/'' \<in> set m \<union> set n then None else Some (m @ ''/'' @ n @ ''/'' @ x)),
      readName = (\<lambda>raw. let m = takeWhile (\<lambda>c. c \<noteq> CHR ''/'') raw; rest = drop (length m + 1) raw;
         n = takeWhile (\<lambda>c. c \<noteq> CHR ''/'') rest in Some (m, n, drop (length n + 1) rest)),
      instanceName = ''test''\<rparr>"

lemma takeWhile_upto: "c \<notin> set xs \<Longrightarrow> takeWhile (\<lambda>x. x \<noteq> c) (xs @ c # ys) = xs"
  by (induction xs) auto

lemma slashNames_read:
  assumes "formName slashNames m n x = Some raw"
  shows "readName slashNames raw = Some (m, n, x)"
proof -
  have raw: "raw = m @ CHR ''/'' # n @ CHR ''/'' # x" and "CHR ''/'' \<notin> set m" "CHR ''/'' \<notin> set n"
    using assms by (auto simp: slashNames_def split: if_splits)
  then show ?thesis by (simp add: slashNames_def Let_def takeWhile_upto)
qed

theorem Resolve_StableIdentity_witness:
  "\<exists>raw. StableIdentity slashNames ''agent'' ''a7'' (worldOf (emptyDb\<lparr>d_agents := [plainAgent]\<rparr>)) =
       (Inr raw, worldOf (emptyDb\<lparr>d_agents := [plainAgent]\<rparr>)) \<and>
     Resolve slashNames raw (worldOf (emptyDb\<lparr>d_agents := [plainAgent]\<rparr>)) =
       (Inr (''agent'', ''a7''), worldOf (emptyDb\<lparr>d_agents := [plainAgent]\<rparr>)) \<and>
     Resolve slashNames raw calmWorld = (Inl ErrIdentityNotFound, calmWorld)"
proof -
  let ?d = "emptyDb\<lparr>d_agents := [plainAgent]\<rparr>"
  have calm: "w_faults (worldOf ?d) = []" "w_faults calmWorld = []" by (simp_all add: calmWorld_def)
  have run: "StableIdentity slashNames ''agent'' ''a7'' (worldOf ?d) = (Inr ''taskmanager/test/a7'', worldOf ?d)"
    using calm by (simp add: StableIdentity_def seq_def bnd_def unless_def ret_def hasStableIdentity_def identityObjects_def
        identityRowExists_def rowsOf_calm slashNames_def identityModule_def plainAgent_def)
  have alone: "o' \<noteq> ''agent'' \<Longrightarrow> \<not> owns (w_db (worldOf ?d)) o' ''a7''" "\<not> owns (w_db calmWorld) o' ''a7''" for o'
    by (auto simp: owns_def emptyDb_def calmWorld_def split: if_splits)
  have "owns (w_db (worldOf ?d)) ''agent'' ''a7''" by (simp add: owns_def plainAgent_def)
  with Resolve_StableIdentity [OF run slashNames_read alone(1) calm(1)]
    Resolve_StableIdentity [OF run slashNames_read _ calm(2)] alone(2) run show ?thesis by auto
qed

end
