(* ===== verification/Projects.thy ===== *)
theory Projects
  imports Task_Write
begin

text \<open>
  \<open>project.go\<close>: projects, found by the slug of their name; membership of tasks; and tasks named by
  their place in a project. A slug is lower case with underscores for spaces; the lower-casing is that
  of ASCII letters.
\<close>

definition lowerChar :: "char \<Rightarrow> char" where
  "lowerChar c = (let n = (of_char c :: nat) in if 65 \<le> n \<and> n \<le> 90 then char_of (n + 32) else c)"

definition toSlug :: "string \<Rightarrow> string" where
  "toSlug name = map (\<lambda>c. lowerChar (if c = CHR '' '' then CHR ''_'' else c)) name"

definition projectClash :: "project \<Rightarrow> project \<Rightarrow> bool" where
  "projectClash p p' \<longleftrightarrow> p_ID p = p_ID p'"

definition CreateProject :: "project \<Rightarrow> project tm" where
  "CreateProject p =
     seq (unless (p_Name p \<noteq> []) ErrInvalidTask)
     (bnd nowStr (\<lambda>now.
      bnd newSpecID (\<lambda>i.
      let p' = p\<lparr>p_ID := i, p_ProjectName := toSlug (p_Name p), p_CreatedAt := now, p_UpdatedAt := now\<rparr>
      in seq (insertQ projectsT projectClash p') (ret p'))))"

definition GetProject :: "string \<Rightarrow> project tm" where
  "GetProject projectID = takeQ projectsT (\<lambda>p. p_ID p = projectID \<and> \<not> p_Deleted p) ErrProjectNotFound"

definition GetProjectByName :: "string \<Rightarrow> project tm" where
  "GetProjectByName projectName =
     takeQ projectsT (\<lambda>p. p_ProjectName p = toSlug projectName \<and> \<not> p_Deleted p) ErrProjectNotFound"

definition UpdateProject :: "project \<Rightarrow> project tm" where
  "UpdateProject p =
     bnd (GetProject (p_ID p)) (\<lambda>current.
     seq (unless (p_Name p \<noteq> []) ErrInvalidTask)
     (bnd nowStr (\<lambda>now.
      let p' = p\<lparr>p_CreatedAt := p_CreatedAt current, p_UpdatedAt := now, p_Deleted := False\<rparr>
      in bnd (updateQ projectsT (\<lambda>r. p_ID r = p_ID p' \<and> \<not> p_Deleted r) (\<lambda>_. p')) (\<lambda>n.
         seq (unless (n \<noteq> 0) ErrProjectNotFound) (ret p')))))"

definition DeleteProject :: "string \<Rightarrow> unit tm" where
  "DeleteProject projectID =
     seq (GetProject projectID)
     (seq (deleteQ membershipsT (\<lambda>m. m_ProjectID m = projectID))
     (seq (updateQ projectsT (\<lambda>p. p_ID p = projectID) (\<lambda>p. p\<lparr>p_Deleted := True\<rparr>))
     (ret ())))"

definition ListProjects :: "project list tm" where
  "ListProjects = bnd (selectQ projectsT (\<lambda>p. \<not> p_Deleted p)) (\<lambda>rows. ret (take maxListPage rows))"

definition AddTaskToProject :: "string \<Rightarrow> string \<Rightarrow> unit tm" where
  "AddTaskToProject taskID projectID = seq (CreateRelationship (relOf RelLabelMemberOf taskID projectID)) (ret ())"

definition RemoveTaskFromProject :: "string \<Rightarrow> string \<Rightarrow> unit tm" where
  "RemoveTaskFromProject taskID projectID = DeleteRelationship taskID projectID RelLabelMemberOf"

definition ListTasksInProject :: "string \<Rightarrow> task list tm" where
  "ListTasksInProject projectID =
     bnd (TraverseRelationships projectID RelLabelMemberOf DirectionInbound) (\<lambda>edges.
     collect (take maxListPage edges) (\<lambda>e. GetTaskIfLive (rel_FromID e)))"

definition ListProjectsForTask :: "string \<Rightarrow> project list tm" where
  "ListProjectsForTask taskID =
     bnd (TraverseRelationships taskID RelLabelMemberOf DirectionOutbound) (\<lambda>edges.
     collect (take maxListPage edges) (\<lambda>e.
       bnd (attempt (GetProject (rel_ToID e))) (\<lambda>r.
       case r of
         Inl err \<Rightarrow> if err = ErrProjectNotFound then ret None else fail err
       | Inr p \<Rightarrow> ret (Some p))))"

definition GetTaskByName :: "string \<Rightarrow> string \<Rightarrow> task tm" where
  "GetTaskByName projectName taskName =
     bnd (GetProjectByName projectName) (\<lambda>project.
     bnd (ListTasksInProject (p_ID project)) (\<lambda>tasks.
     case List.find (\<lambda>t. t_TaskName t = taskName) tasks of
       None \<Rightarrow> fail ErrTaskNotFound
     | Some t \<Rightarrow> ret t))"

definition CreateTaskInProject :: "string \<Rightarrow> task \<Rightarrow> task tm" where
  "CreateTaskInProject projectName task =
     bnd (GetProjectByName projectName) (\<lambda>project.
     bnd (ListTasksInProject (p_ID project)) (\<lambda>existing.
     let task' = task\<lparr>t_TaskName := EffectiveTaskPrefix project @ padded 3 (Suc (length existing)),
                      t_ProjectName := projectName\<rparr>
     in bnd (CreateTask task') (\<lambda>created.
        seq (AddTaskToProject (t_ID created) (p_ID project))
        (ret created))))"

section \<open>Slugs\<close>

lemma lowerChar_idem: "lowerChar (lowerChar c) = lowerChar c"
  by (auto simp: lowerChar_def Let_def take_bit_eq_mod)

lemma lowerChar_space: "lowerChar c = CHR '' '' \<longleftrightarrow> c = CHR '' ''"
  by (auto simp: lowerChar_def Let_def char_of_eq_iff take_bit_eq_mod)

lemma toSlug_idem: "toSlug (toSlug name) = toSlug name"
proof -
  have "lowerChar (CHR ''_'') = CHR ''_''" by (simp add: lowerChar_def)
  then show ?thesis by (auto simp: toSlug_def lowerChar_idem lowerChar_space)
qed

section \<open>Members\<close>

text \<open>The live tasks of a project, in the order they joined, as far as one page of memberships goes.\<close>

definition liveMembers :: "string \<Rightarrow> db \<Rightarrow> string list" where
  "liveMembers i d = filter (\<lambda>j. List.find (liveTask j) (d_tasks d) \<noteq> None)
     (take maxListPage (map fst (filter (\<lambda>p. snd p = i) (joinPairs JMembership d))))"

lemma collect_live:
  assumes "collect es (\<lambda>e. GetTaskIfLive (rel_FromID e)) s = (Inr ts, t)"
  shows "w_db t = w_db s \<and>
    map t_ID ts = filter (\<lambda>j. List.find (liveTask j) (d_tasks (w_db s)) \<noteq> None) (map rel_FromID es) \<and>
    list_all (\<lambda>u. \<exists>row. List.find (liveTask (t_ID u)) (d_tasks (w_db s)) = Some row \<and> sameRow row u) ts"
  using assms
proof (induction es arbitrary: s ts)
  case (Cons e es)
  then obtain y s1 us where y: "GetTaskIfLive (rel_FromID e) s = (Inr y, s1)"
    and rest: "collect es (\<lambda>e. GetTaskIfLive (rel_FromID e)) s1 = (Inr us, t)"
    and ts: "ts = (case y of None \<Rightarrow> us | Some v \<Rightarrow> v # us)"
    by (auto simp: succ)
  note y' = GetTaskIfLive_Inr [OF y] and IH = Cons.IH [OF rest]
  show ?case
  proof (cases y)
    case None
    with y' IH ts show ?thesis by (auto simp: option_rel_Some1 elim: option.rel_cases)
  next
    case (Some u)
    with y' obtain row where row: "List.find (liveTask (rel_FromID e)) (d_tasks (w_db s)) = Some row" "sameRow row u"
      by (auto elim: option.rel_cases)
    then have "t_ID u = rel_FromID e" by (auto simp: liveTask_def sameRow_fields dest!: find_Some_in)
    with row y' IH ts Some show ?thesis by simp
  qed
qed (simp add: ret_Inr)

lemma ListTasksInProject_Inr:
  assumes "ListTasksInProject i s = (Inr ts, t)"
  shows "w_db t = w_db s \<and> map t_ID ts = liveMembers i (w_db s)"
proof -
  from assms obtain es s1 where es: "TraverseRelationships i RelLabelMemberOf DirectionInbound s = (Inr es, s1)"
    and run: "collect (take maxListPage es) (\<lambda>e. GetTaskIfLive (rel_FromID e)) s1 = (Inr ts, t)"
    unfolding ListTasksInProject_def bnd_Inr by blast
  have "map rel_FromID es = map fst (filter (\<lambda>p. snd p = i) (joinPairs JMembership (w_db s)))" "w_db s1 = w_db s"
    using es by (auto simp: TraverseRelationships_def traverseJoin_def edgeOf_def succ simp del: joinPairs.simps)
  with collect_live [OF run] show ?thesis by (simp add: liveMembers_def flip: take_map)
qed

section \<open>What a creation stores\<close>

text \<open>The ids and names of the stored tasks.\<close>

definition taskNames :: "db \<Rightarrow> (string \<times> string) set" where
  "taskNames d = (\<lambda>t. (t_ID t, t_TaskName t)) ` set (d_tasks d)"

lemma taskNames_ignores [keeps_intros]:
  "ignores sequencesT (\<lambda>d. x \<in> taskNames d)" "ignores tagsT (\<lambda>d. x \<in> taskNames d)"
  "ignores taggingsT (\<lambda>d. x \<in> taskNames d)"
  by (simp_all add: ignores_def taskNames_def)

lemma taskNames_addJoin [simp]: "taskNames (addJoin j a b now d) = taskNames d"
  by (cases j) (simp_all add: taskNames_def)

lemma taskNames_writeFK [simp]: "taskNames (writeFK TaskWorkflowRunID j v d) = taskNames d"
proof -
  have same: "map (\<lambda>t. (t_ID t, t_TaskName t)) (updWhere P (t_WorkflowRunID_update f) ts) = map (\<lambda>t. (t_ID t, t_TaskName t)) ts" for P f ts
    by (rule map_updWhere) simp
  have names: "taskNames d = set (map (\<lambda>t. (t_ID t, t_TaskName t)) (d_tasks d))" for d by (simp add: taskNames_def)
  have "d_tasks (writeFK TaskWorkflowRunID j v d) = updWhere (\<lambda>r. t_ID r = j) (t_WorkflowRunID_update (\<lambda>_. v)) (d_tasks d)"
    by (simp add: writeCol_def)
  then show ?thesis by (simp only: names same)
qed

lemma AddTaskToProject_names: "keeps (\<lambda>d. x \<in> taskNames d) (AddTaskToProject i p)"
  unfolding AddTaskToProject_def
  by (intro keeps_seq keeps_ret keeps_CreateRelationship) (auto simp: relOf_def simp del: addJoin.simps)

lemma CreateTask_stores:
  assumes run: "CreateTask task s = (Inr out, t)"
  shows "t_TaskName out = t_TaskName task \<and> t_ProjectName out = t_ProjectName task \<and>
    (t_ID out, t_TaskName task) \<in> taskNames (w_db t)"
proof -
  define task1 where "task1 i now = task\<lparr>t_ID := i, t_Status := TaskStatusPending, t_CreatedAt := now, t_UpdatedAt := now,
           t_Priority := (if t_Priority task = TaskPriorityOther [] then TaskPriorityMedium else t_Priority task),
           t_CompletedAt := []\<rparr>" for i now
  define links where "links i task1 = seq (whenM (t_WorkflowRunID task1 \<noteq> []) (seq (attempt (LinkTaskToRun (t_WorkflowRunID task1) i)) (ret ())))
      (whenM (t_Tags task1 \<noteq> []) (seq (attempt (setTaskTags i (t_Tags task1))) (ret ())))" for i and task1 :: task
  from run obtain states sa i sb now s1 u s2 u1 sc u2 s3 tags s4 w where st: "taskStates s = (Inr states, sa)"
    and i: "newSpecID sa = (Inr i, sb)" and now: "nowStr sb = (Inr now, s1)"
    and ins: "insertQ tasksT taskClash (taskRow (task1 i now)) s1 = (Inr u, s2)"
    and run1: "whenM (t_WorkflowRunID (task1 i now) \<noteq> [])
      (seq (attempt (LinkTaskToRun (t_WorkflowRunID (task1 i now)) i)) (ret ())) s2 = (Inr u1, sc)"
    and run2: "whenM (t_Tags (task1 i now) \<noteq> []) (seq (attempt (setTaskTags i (t_Tags (task1 i now)))) (ret ())) sc = (Inr u2, s3)"
    and tags: "loadTagNames i s3 = (Inr tags, s4)"
    and out: "out = (task1 i now)\<lparr>t_Tags := tags, t_State := StateNameFor states (t_Status (task1 i now))\<rparr>"
    and pub: "publish (TaskCreated i (t_Priority out) (t_WorkflowRunID out)) s4 = (Inr w, t)"
    unfolding CreateTask_def Let_def bnd_Inr seq_Inr ret_Inr task1_def [symmetric] by blast
  from run1 run2 have links: "links i (task1 i now) s2 = (Inr u2, s3)" unfolding links_def seq_Inr by blast
  have two: "(i, t_TaskName task) \<in> taskNames (w_db s2)"
    using insertQ_run [OF ins] by (auto simp: taskNames_def task1_def taskRow_def)
  have "keeps (\<lambda>d. (i, t_TaskName task) \<in> taskNames d) (links i (task1 i now))"
    unfolding links_def by (intro keeps_seq keeps_whenM keeps_attempt keeps_ret keeps_LinkTaskToRun keeps_setTaskTags
        taskNames_ignores) (simp del: writeFK.simps)
  from keepsD [OF this two] links have "(i, t_TaskName task) \<in> taskNames (w_db s3)" by simp
  moreover have "w_db t = w_db s3" using pub loadTagNames_db [OF tags] by (auto simp: publish_Inr split: if_splits)
  ultimately show ?thesis by (simp add: out task1_def)
qed

section \<open>Properties\<close>

text \<open>
  C22. A task made in a project is named after its place: the call that succeeds stores the task under
  the project's prefix and one more than the number of live members it read, in at least three digits,
  and makes it a member. (Members deleted since are not counted, so the name may be one in use.)
\<close>

theorem CreateTaskInProject_named:
  assumes run: "CreateTaskInProject name task s = (Inr out, t)"
  shows "\<exists>p. List.find (\<lambda>p. p_ProjectName p = toSlug name \<and> \<not> p_Deleted p) (d_projects (w_db s)) = Some p \<and>
    t_TaskName out = EffectiveTaskPrefix p @ padded 3 (Suc (length (liveMembers (p_ID p) (w_db s)))) \<and>
    t_ProjectName out = name \<and> (t_ID out, t_TaskName out) \<in> taskNames (w_db t) \<and>
    (t_ID out, p_ID p) \<in> relEdges RelLabelMemberOf (w_db t)"
proof -
  define named where "named p n = task\<lparr>t_TaskName := EffectiveTaskPrefix p @ padded 3 (Suc n), t_ProjectName := name\<rparr>" for p n
  from run obtain p s1 existing s2 s3 u where p: "GetProjectByName name s = (Inr p, s1)"
    and existing: "ListTasksInProject (p_ID p) s1 = (Inr existing, s2)"
    and created: "CreateTask (named p (length existing)) s2 = (Inr out, s3)"
    and member: "AddTaskToProject (t_ID out) (p_ID p) s3 = (Inr u, t)"
    unfolding CreateTaskInProject_def Let_def bnd_Inr seq_Inr ret_Inr named_def by blast
  have found: "List.find (\<lambda>p. p_ProjectName p = toSlug name \<and> \<not> p_Deleted p) (d_projects (w_db s)) = Some p"
    and s1: "w_db s1 = w_db s" using takeQ_run [OF p [unfolded GetProjectByName_def]] by simp_all
  have len: "length existing = length (liveMembers (p_ID p) (w_db s))"
    using ListTasksInProject_Inr [OF existing] s1 by (metis length_map)
  note made = CreateTask_stores [OF created]
  have "keeps (\<lambda>d. x \<in> taskNames d) (AddTaskToProject (t_ID out) (p_ID p))" for x by (rule AddTaskToProject_names)
  from keepsD [OF this, of "(t_ID out, t_TaskName (named p (length existing)))" s3] made member
  have "(t_ID out, t_TaskName out) \<in> taskNames (w_db t)" by simp
  moreover from member obtain rel' s4 where "CreateRelationship (relOf RelLabelMemberOf (t_ID out) (p_ID p)) s3 = (Inr rel', s4)"
    and "t = s4" by (auto simp: AddTaskToProject_def succ)
  then have "(t_ID out, p_ID p) \<in> relEdges RelLabelMemberOf (w_db t)"
    using CreateRelationship_edges [of _ s3 rel' s4 RelLabelMemberOf] by (auto simp: relOf_def linkEdge_def)
  ultimately show ?thesis using found made len by (auto simp: named_def)
qed

text \<open>A project with one live member, named second after the first was deleted.\<close>

definition projectOf :: "string \<Rightarrow> string \<Rightarrow> project" where
  "projectOf i name = \<lparr>p_ID = i, p_Name = name, p_ProjectName = toSlug name, p_Description = [], p_RepoName = [],
     p_GithubRepo = [], p_TaskPrefix = [], p_CreatedAt = [], p_UpdatedAt = [], p_Deleted = False\<rparr>"

definition thinnedDb :: db where
  "thinnedDb = emptyDb\<lparr>d_projects := [projectOf ''p'' ''Web''],
     d_tasks := [(taskWith ''t'' TaskStatusPending)\<lparr>t_TaskName := ''web-001'', t_Deleted := True\<rparr>,
       (taskWith ''u'' TaskStatusPending)\<lparr>t_TaskName := ''web-002''\<rparr>],
     d_memberships := [\<lparr>m_TaskID = ''t'', m_ProjectID = ''p'', m_AddedAt = []\<rparr>,
       \<lparr>m_TaskID = ''u'', m_ProjectID = ''p'', m_AddedAt = []\<rparr>]\<rparr>"

lemma thinnedDb_facts:
  "toSlug ''web'' = ''web''" "toSlug ''Web'' = ''web''"
  "List.find (\<lambda>p. p_ProjectName p = ''web'' \<and> \<not> p_Deleted p) (d_projects thinnedDb) = Some (projectOf ''p'' ''Web'')"
  "liveMembers ''p'' thinnedDb = [''u'']" "(''u'', ''web-002'') \<in> taskNames thinnedDb"
  "EffectiveTaskPrefix (projectOf ''p'' ''Web'') @ padded 3 (Suc (Suc 0)) = ''web-002''" "p_ID (projectOf ''p'' ''Web'') = ''p''"
proof -
  show slug: "toSlug ''web'' = ''web''" "toSlug ''Web'' = ''web''" by code_simp+
  then show "List.find (\<lambda>p. p_ProjectName p = ''web'' \<and> \<not> p_Deleted p) (d_projects thinnedDb) = Some (projectOf ''p'' ''Web'')"
    by (simp add: thinnedDb_def projectOf_def)
  show "liveMembers ''p'' thinnedDb = [''u'']"
    by (simp add: liveMembers_def thinnedDb_def emptyDb_def liveTask_def maxListPage_def)
  show "(''u'', ''web-002'') \<in> taskNames thinnedDb" by (simp add: taskNames_def thinnedDb_def)
  have "padded 3 (Suc (Suc 0)) = ''002''" by code_simp
  with slug show "EffectiveTaskPrefix (projectOf ''p'' ''Web'') @ padded 3 (Suc (Suc 0)) = ''web-002''"
    by (simp add: EffectiveTaskPrefix_def projectOf_def)
  show "p_ID (projectOf ''p'' ''Web'') = ''p''" by (simp add: projectOf_def)
qed

lemma CreateTaskInProject_thinned: "succeeds (CreateTaskInProject ''web'' task0) (worldOf thinnedDb)"
  by (simp add: succeeds_def CreateTaskInProject_def GetProjectByName_def thinnedDb_facts(1,2) ListTasksInProject_def
      TraverseRelationships_def traverseJoin_def edgeOf_def GetTaskIfLive_def GetTask_def loadTagNames_def CreateTask_def
      AddTaskToProject_def CreateRelationship_def createJoin_def checkEndpoint_def rowExists_def createdEdge_def relOf_def
      tm_basic takeQ_def selectQ_def insertQ_def sql_def thinnedDb_def emptyDb_def projectOf_def liveTask_def maxListPage_def
      taskWith_def task0_def taskRow_def taskClash_def Let_def worldOf_def existingEdge_def)

text \<open>The name given is the one of the live member: two tasks of the project carry it.\<close>

theorem CreateTaskInProject_named_witness:
  "\<exists>out t. CreateTaskInProject ''web'' task0 (worldOf thinnedDb) = (Inr out, t) \<and> t_TaskName out = ''web-002'' \<and>
     (t_ID out, ''web-002'') \<in> taskNames (w_db t) \<and> (''u'', ''web-002'') \<in> taskNames (w_db (worldOf thinnedDb))"
proof -
  obtain out t where run: "CreateTaskInProject ''web'' task0 (worldOf thinnedDb) = (Inr out, t)"
    using succeedsD [OF CreateTaskInProject_thinned] by blast
  from CreateTaskInProject_named [OF run] have "t_TaskName out = ''web-002''" "(t_ID out, t_TaskName out) \<in> taskNames (w_db t)"
    using thinnedDb_facts by auto
  with run thinnedDb_facts(5) show ?thesis by simp
qed

end
