(* ===== verification/Imports.thy ===== *)
theory Imports
  imports Projects
begin

text \<open>
  \<open>import.go\<close>: a document of tasks becomes a project. A call checks the document, stores a job and starts a
  worker; the worker is modelled as a machine with one step for each statement group between two looks at
  the context, so that a cancellation can fall between any two of them. The JSON decoder
  (\<open>encoding/json\<close> over the tags of \<open>importDoc\<close>), the text of a wrapped error and the quoting of \<open>%q\<close> are the
  record \<open>import_lib\<close>.
\<close>

section \<open>Documents\<close>

record import_task =
  it_Name :: string
  it_Title :: string
  it_Priority :: string
  it_DependsOn :: "string list"
  it_Tags :: "string list"
  it_Description :: string
  it_SeparateBranch :: bool
  it_BranchName :: string

record import_doc =
  id_Project :: string
  id_TaskPrefix :: string
  id_Tasks :: "import_task list"

record import_lib =
  unmarshal :: "string \<Rightarrow> string + import_doc"
  say :: "err \<Rightarrow> string"
  quoted :: "string \<Rightarrow> string"

definition TrimPrefix :: "string \<Rightarrow> string \<Rightarrow> string" where
  "TrimPrefix s p = (if take (length p) s = p then drop (length p) s else s)"

definition parsePriority :: "string \<Rightarrow> task_priority" where
  "parsePriority s =
     (if s = ''low'' then TaskPriorityLow
      else if s = ''high'' then TaskPriorityHigh
      else if s = ''critical'' then TaskPriorityCritical
      else TaskPriorityMedium)"

text \<open>The two loops of \<open>validateImportDoc\<close>: the short keys by their task, and every reference among them.\<close>

fun shortKeysOf :: "string \<Rightarrow> import_task list \<Rightarrow> (string \<rightharpoonup> string) \<Rightarrow> (string \<rightharpoonup> string) option" where
  "shortKeysOf p [] shortKeys = Some shortKeys"
| "shortKeysOf p (t # ts) shortKeys =
     (if it_Name t = [] then None
      else let shortKey = TrimPrefix (it_Name t) p in
        if shortKeys shortKey \<noteq> None then None
        else shortKeysOf p ts (shortKeys(shortKey \<mapsto> it_Name t)))"

definition refersTo :: "(string \<rightharpoonup> string) \<Rightarrow> import_task \<Rightarrow> bool" where
  "refersTo shortKeys t \<longleftrightarrow> list_all (\<lambda>dep. shortKeys dep \<noteq> None) (it_DependsOn t)"

definition validDoc :: "import_doc \<Rightarrow> bool" where
  "validDoc doc \<longleftrightarrow>
     id_Project doc \<noteq> [] \<and> id_Tasks doc \<noteq> [] \<and>
     (case shortKeysOf (id_TaskPrefix doc) (id_Tasks doc) Map.empty of
        None \<Rightarrow> False
      | Some shortKeys \<Rightarrow> list_all (refersTo shortKeys) (id_Tasks doc))"

definition validateImportDoc :: "import_lib \<Rightarrow> string \<Rightarrow> err + unit" where
  "validateImportDoc lib document =
     (case unmarshal lib document of
        Inl _ \<Rightarrow> Inl ErrInvalidImport
      | Inr doc \<Rightarrow> if validDoc doc then Inr () else Inl ErrInvalidImport)"

section \<open>Jobs\<close>

definition terminalJob :: "job_status \<Rightarrow> bool" where
  "terminalJob st \<longleftrightarrow> st = JobCompleted \<or> st = JobFailed \<or> st = JobCancelled"

definition importJobClash :: "import_job \<Rightarrow> import_job \<Rightarrow> bool" where
  "importJobClash j j' \<longleftrightarrow> ij_ID j = ij_ID j'"

definition job0 :: import_job where
  "job0 = \<lparr>ij_ID = [], ij_Status = JobOther [], ij_ErrorMessage = [], ij_ProgressSteps = [], ij_TasksCreated = 0,
     ij_DepsCreated = 0, ij_ProjectName = [], ij_CreatedAt = [], ij_UpdatedAt = []\<rparr>"

definition newImportJob :: "import_job tm" where
  "newImportJob =
     bnd nowStr (\<lambda>now.
     bnd newSpecID (\<lambda>i.
     let job = job0\<lparr>ij_ID := i, ij_Status := JobPending, ij_CreatedAt := now, ij_UpdatedAt := now\<rparr>
     in seq (insertQ importJobsT importJobClash job) (ret job)))"

text \<open>A statement under a context: once the context is done, every statement answers its error.\<close>

definition underCtx :: "bool \<Rightarrow> 'a tm \<Rightarrow> 'a tm" where
  "underCtx done m = (if done then fail ErrContextDone else m)"

definition updateImportJobStatus :: "string \<Rightarrow> job_status \<Rightarrow> string \<Rightarrow> unit tm" where
  "updateImportJobStatus i st msg =
     bnd nowStr (\<lambda>now.
     seq (updateQ importJobsT (\<lambda>j. ij_ID j = i) (\<lambda>j. j\<lparr>ij_Status := st, ij_ErrorMessage := msg, ij_UpdatedAt := now\<rparr>))
     (ret ()))"

definition completeImportJob :: "string \<Rightarrow> nat \<Rightarrow> nat \<Rightarrow> string \<Rightarrow> unit tm" where
  "completeImportJob i tasks deps projectName =
     bnd nowStr (\<lambda>now.
     seq (updateQ importJobsT (\<lambda>j. ij_ID j = i) (\<lambda>j. j\<lparr>ij_Status := JobCompleted, ij_TasksCreated := int tasks,
        ij_DepsCreated := int deps, ij_ProjectName := projectName, ij_UpdatedAt := now\<rparr>))
     (ret ()))"

section \<open>The worker\<close>

text \<open>
  Where \<open>runImport\<close> stands. \<open>MakingTask\<close> is the head of the loop over the tasks, with what is left of it;
  \<open>Creating\<close> and \<open>Joining\<close> are its two calls. \<open>Wiring\<close> carries the references left, each with the name of
  its task and the id of that task. \<open>Leaving\<close> is the deferred removal from the table of jobs.
\<close>

datatype import_phase =
    Starting
  | Parsing
  | MakingProject import_doc
  | MakingTask import_doc project "string \<rightharpoonup> string" nat "import_task list"
  | Creating import_doc project "string \<rightharpoonup> string" nat import_task "import_task list"
  | Joining import_doc project "string \<rightharpoonup> string" nat string import_task "import_task list"
  | Wiring import_doc project "string \<rightharpoonup> string" nat nat "(string \<times> string \<times> string) list"
  | Reporting project nat nat
  | Failing string
  | Aborting
  | Leaving

definition ellipsis :: string where
  "ellipsis = [CHR 0xE2, CHR 0x80, CHR 0xA6]"

definition arrow :: string where
  "arrow = [CHR 0xE2, CHR 0x86, CHR 0x92]"

definition taskOf :: "import_task \<Rightarrow> project \<Rightarrow> task" where
  "taskOf it proj =
     task0\<lparr>t_Title := it_Title it, t_Priority := parsePriority (it_Priority it), t_Description := it_Description it,
       t_TaskName := it_Name it, t_ProjectName := p_ProjectName proj, t_Tags := it_Tags it,
       t_SeparateBranch := it_SeparateBranch it, t_BranchName := it_BranchName it\<rparr>"

definition projectFor :: "import_doc \<Rightarrow> project" where
  "projectFor doc = \<lparr>p_ID = [], p_Name = id_Project doc, p_ProjectName = [], p_Description = [], p_RepoName = [],
     p_GithubRepo = [], p_TaskPrefix = id_TaskPrefix doc, p_CreatedAt = [], p_UpdatedAt = [], p_Deleted = False\<rparr>"

text \<open>The references in the order of the two loops: the task's name, its id and the short key referred to.\<close>

definition edgesOf :: "import_doc \<Rightarrow> (string \<rightharpoonup> string) \<Rightarrow> (string \<times> string \<times> string) list" where
  "edgesOf doc idMap =
     concat (map (\<lambda>it. map (\<lambda>dep. (it_Name it, (case idMap (TrimPrefix (it_Name it) (id_TaskPrefix doc)) of None \<Rightarrow> [] | Some i \<Rightarrow> i), dep))
        (it_DependsOn it)) (id_Tasks doc))"

text \<open>One step: whether the context is done now, the phase, and the phase after it with the progress line written.\<close>

fun workerStep :: "import_lib \<Rightarrow> string \<Rightarrow> string \<Rightarrow> bool \<Rightarrow> import_phase \<Rightarrow> (import_phase \<times> string list) tm" where
  "workerStep lib i document done Starting =
     bnd (attempt (underCtx done (updateImportJobStatus i JobRunning []))) (\<lambda>r.
     case r of
       Inl _ \<Rightarrow> ret (Leaving, [])
     | Inr _ \<Rightarrow> ret (Parsing, [''Parsing import document'' @ ellipsis]))"
| "workerStep lib i document done Parsing =
     (case unmarshal lib document of
        Inl msg \<Rightarrow> ret (Failing msg, [])
      | Inr doc \<Rightarrow> ret (MakingProject doc, [''Creating project '' @ quoted lib (id_Project doc) @ ellipsis]))"
| "workerStep lib i document done (MakingProject doc) =
     bnd (attempt (underCtx done (CreateProject (projectFor doc)))) (\<lambda>r.
     case r of
       Inl e \<Rightarrow> ret (Failing (''create project: '' @ say lib e), [])
     | Inr proj \<Rightarrow> ret (MakingTask doc proj Map.empty 0 (id_Tasks doc), []))"
| "workerStep lib i document done (MakingTask doc proj idMap n []) =
     ret (Wiring doc proj idMap n 0 (edgesOf doc idMap), [''Writing dependency edges'' @ ellipsis])"
| "workerStep lib i document done (MakingTask doc proj idMap n (it # rest)) =
     (if done then ret (Aborting, [])
      else ret (Creating doc proj idMap n it rest, [''Creating task '' @ quoted lib (it_Name it) @ ellipsis]))"
| "workerStep lib i document done (Creating doc proj idMap n it rest) =
     bnd (attempt (underCtx done (CreateTask (taskOf it proj)))) (\<lambda>r.
     case r of
       Inl e \<Rightarrow> ret (Failing (''create task '' @ it_Name it @ '': '' @ say lib e), [])
     | Inr t \<Rightarrow>
         let shortKey = TrimPrefix (it_Name it) (id_TaskPrefix doc)
         in ret (Joining doc proj (idMap(shortKey \<mapsto> t_ID t)) (Suc n) (t_ID t) it rest, []))"
| "workerStep lib i document done (Joining doc proj idMap n taskID it rest) =
     bnd (attempt (underCtx done (AddTaskToProject taskID (p_ID proj)))) (\<lambda>r.
     case r of
       Inl e \<Rightarrow> ret (Failing (''add task '' @ it_Name it @ '' to project: '' @ say lib e), [])
     | Inr _ \<Rightarrow> ret (MakingTask doc proj idMap n rest, []))"
| "workerStep lib i document done (Wiring doc proj idMap n k []) =
     ret (Reporting proj n k, [''Done: '' @ dec n @ '' tasks, '' @ dec k @ '' deps.''])"
| "workerStep lib i document done (Wiring doc proj idMap n k ((name, fromID, dep) # rest)) =
     (case idMap dep of
        None \<Rightarrow> ret (Wiring doc proj idMap n k rest, [])
      | Some toID \<Rightarrow>
          bnd (attempt (underCtx done (CreateRelationship (relOf RelLabelDependsOn fromID toID)))) (\<lambda>r.
          case r of
            Inl e \<Rightarrow> ret (Failing (''depends_on '' @ name @ arrow @ dep @ '': '' @ say lib e), [])
          | Inr _ \<Rightarrow> ret (Wiring doc proj idMap n (Suc k) rest, [])))"
| "workerStep lib i document done (Reporting proj n k) =
     bnd (attempt (completeImportJob i n k (p_ProjectName proj))) (\<lambda>_. ret (Leaving, []))"
| "workerStep lib i document done (Failing msg) =
     bnd (attempt (updateImportJobStatus i JobFailed msg)) (\<lambda>_. ret (Leaving, []))"
| "workerStep lib i document done Aborting =
     bnd (attempt (updateImportJobStatus i JobCancelled [])) (\<lambda>_. ret (Leaving, []))"
| "workerStep lib i document done Leaving = ret (Leaving, [])"

section \<open>The service\<close>

text \<open>
  The worker of a job, and the state the calls share: the tables, the workers that run (\<open>importJobs\<close>), and
  the cancellations under way - whose check has passed (\<open>False\<close>) or whose signal is out (\<open>True\<close>), but whose
  row is not written yet.
\<close>

record import_worker =
  iw_Document :: string
  iw_Steps :: "string list"
  iw_Cancelled :: bool
  iw_Phase :: import_phase

record import_sys =
  sy_World :: world
  sy_Jobs :: "string \<rightharpoonup> import_worker"
  sy_Cancels :: "(string \<times> bool) list"

definition onWorld :: "'a tm \<Rightarrow> import_sys \<Rightarrow> (err + 'a) \<times> import_sys" where
  "onWorld m y = (let (r, s) = m (sy_World y) in (r, y\<lparr>sy_World := s\<rparr>))"

text \<open>The insert and the start of the worker are one step: the id is not known to anyone before.\<close>

definition StartImportProject :: "import_lib \<Rightarrow> string \<Rightarrow> import_sys \<Rightarrow> (err + import_job) \<times> import_sys" where
  "StartImportProject lib document y =
     (case validateImportDoc lib document of
        Inl e \<Rightarrow> (Inl e, y)
      | Inr _ \<Rightarrow>
          (case onWorld newImportJob y of
             (Inl e, y') \<Rightarrow> (Inl e, y')
           | (Inr job, y') \<Rightarrow>
               (Inr job, y'\<lparr>sy_Jobs := (sy_Jobs y')(ij_ID job \<mapsto>
                  \<lparr>iw_Document = document, iw_Steps = [], iw_Cancelled = False, iw_Phase = Starting\<rparr>)\<rparr>)))"

definition GetImportProjectStatus :: "bool \<Rightarrow> string \<Rightarrow> import_sys \<Rightarrow> (err + import_job) \<times> import_sys" where
  "GetImportProjectStatus done i y =
     (case onWorld (underCtx done (takeQ importJobsT (\<lambda>j. ij_ID j = i) ErrImportJobNotFound)) y of
        (Inl e, y') \<Rightarrow> (Inl e, y')
      | (Inr job, y') \<Rightarrow>
          (Inr (case sy_Jobs y' i of None \<Rightarrow> job | Some w \<Rightarrow> job\<lparr>ij_ProgressSteps := iw_Steps w\<rparr>), y'))"

text \<open>The three parts of \<open>CancelImportProject\<close>, and the call that runs them in a row.\<close>

definition cancelCheck :: "bool \<Rightarrow> string \<Rightarrow> import_sys \<Rightarrow> (err + unit) \<times> import_sys" where
  "cancelCheck done i y =
     (case GetImportProjectStatus done i y of
        (Inl e, y') \<Rightarrow> (Inl e, y')
      | (Inr job, y') \<Rightarrow> if terminalJob (ij_Status job) then (Inl ErrImportJobNotCancellable, y') else (Inr (), y'))"

definition cancelSignal :: "string \<Rightarrow> import_sys \<Rightarrow> import_sys" where
  "cancelSignal i y =
     (case sy_Jobs y i of None \<Rightarrow> y | Some w \<Rightarrow> y\<lparr>sy_Jobs := (sy_Jobs y)(i \<mapsto> w\<lparr>iw_Cancelled := True\<rparr>)\<rparr>)"

definition CancelImportProject :: "bool \<Rightarrow> string \<Rightarrow> import_sys \<Rightarrow> (err + unit) \<times> import_sys" where
  "CancelImportProject done i y =
     (case cancelCheck done i y of
        (Inl e, y') \<Rightarrow> (Inl e, y')
      | (Inr _, y') \<Rightarrow> onWorld (updateImportJobStatus i JobCancelled []) (cancelSignal i y'))"

text \<open>The worker moves: a step of its machine, and at the end its removal.\<close>

definition workerMove :: "import_lib \<Rightarrow> string \<Rightarrow> import_worker \<Rightarrow> import_sys \<Rightarrow> import_sys" where
  "workerMove lib i w y =
     (if iw_Phase w = Leaving then y\<lparr>sy_Jobs := (sy_Jobs y)(i := None)\<rparr>
      else case workerStep lib i (iw_Document w) (iw_Cancelled w) (iw_Phase w) (sy_World y) of
        (Inl _, s) \<Rightarrow> y\<lparr>sy_World := s\<rparr>
      | (Inr (phase, lines), s) \<Rightarrow>
          y\<lparr>sy_World := s, sy_Jobs := (sy_Jobs y)(i \<mapsto> w\<lparr>iw_Phase := phase, iw_Steps := iw_Steps w @ lines\<rparr>)\<rparr>)"

text \<open>What can happen next, and to whom; \<open>Others\<close> is any request that leaves the jobs alone.\<close>

datatype import_act = Start | Work string | Check string | Signal string | Write string | Others

inductive import_step :: "import_lib \<Rightarrow> import_sys \<Rightarrow> import_act \<Rightarrow> import_sys \<Rightarrow> bool" for lib where
  started: "StartImportProject lib document y = (r, y') \<Longrightarrow> import_step lib y Start y'"
| worked: "sy_Jobs y i = Some w \<Longrightarrow> import_step lib y (Work i) (workerMove lib i w y)"
| checked: "cancelCheck done i y = (Inr (), y') \<Longrightarrow>
    import_step lib y (Check i) (y'\<lparr>sy_Cancels := (i, False) # sy_Cancels y'\<rparr>)"
| signalled: "(i, False) \<in> set (sy_Cancels y) \<Longrightarrow>
    import_step lib y (Signal i)
      ((cancelSignal i y)\<lparr>sy_Cancels := (i, True) # remove1 (i, False) (sy_Cancels y)\<rparr>)"
| written: "(i, True) \<in> set (sy_Cancels y) \<Longrightarrow>
    onWorld (updateImportJobStatus i JobCancelled []) y = (r, y') \<Longrightarrow>
    import_step lib y (Write i) (y'\<lparr>sy_Cancels := remove1 (i, True) (sy_Cancels y)\<rparr>)"
| others: "d_importJobs (w_db s) = d_importJobs (w_db (sy_World y)) \<Longrightarrow>
    (w_faults (sy_World y) = [] \<longrightarrow> w_faults s = []) \<Longrightarrow> import_step lib y Others (y\<lparr>sy_World := s\<rparr>)"

inductive import_run :: "import_lib \<Rightarrow> import_sys \<Rightarrow> import_act list \<Rightarrow> import_sys \<Rightarrow> bool" for lib where
  here: "import_run lib y [] y"
| there: "import_step lib y a y' \<Longrightarrow> import_run lib y' as y'' \<Longrightarrow> import_run lib y (a # as) y''"

inductive_cases import_stepE: "import_step lib y a y'"

section \<open>The blocking call\<close>

text \<open>
  One poll of \<open>ImportProject\<close>: nothing yet, or the answer of the call. A failing read of the tasks is
  ignored, as is a project that cannot be found.
\<close>

definition importResult :: "import_job \<Rightarrow> import_result tm" where
  "importResult job =
     bnd (attempt (GetProjectByName (ij_ProjectName job))) (\<lambda>found.
     case found of
       Inl _ \<Rightarrow> ret \<lparr>ir_Project = None, ir_Tasks = [], ir_DepsCreated = ij_DepsCreated job, ir_TasksCreated = ij_TasksCreated job\<rparr>
     | Inr proj \<Rightarrow>
         bnd (attempt (ListTasksInProject (p_ID proj))) (\<lambda>tasks.
         ret \<lparr>ir_Project = Some proj, ir_Tasks = (case tasks of Inl _ \<Rightarrow> [] | Inr ts \<Rightarrow> ts),
              ir_DepsCreated = ij_DepsCreated job, ir_TasksCreated = ij_TasksCreated job\<rparr>))"

definition pollImport :: "bool \<Rightarrow> string \<Rightarrow> import_sys \<Rightarrow> (err + import_result) option" where
  "pollImport done i y =
     (case GetImportProjectStatus done i y of
        (Inl e, _) \<Rightarrow> Some (Inl e)
      | (Inr current, y') \<Rightarrow>
          if ij_Status current = JobCompleted then Some (fst (onWorld (underCtx done (importResult current)) y'))
          else if ij_Status current = JobFailed then Some (Inl ErrInvalidImport)
          else if ij_Status current = JobCancelled then Some (Inl ErrImportCancelled)
          else None)"

text \<open>
  The loop: \<open>env n\<close> is poll \<open>n\<close>: whether the wait before it ended with the caller's context, whether that
  context is done when the status is read, and the service then. When the wait ends so, the call tries to
  cancel the job under that same context and answers the context's error.
\<close>

partial_function (option) awaitImport ::
  "string \<Rightarrow> (nat \<Rightarrow> bool \<times> bool \<times> import_sys) \<Rightarrow> nat \<Rightarrow> ((err + import_result) \<times> import_sys) option" where
  "awaitImport i env n =
     (case env n of (expired, done, y) \<Rightarrow>
      if expired then Some (Inl ErrContextDone, snd (CancelImportProject True i y))
      else case pollImport done i y of
        Some r \<Rightarrow> Some (r, y)
      | None \<Rightarrow> awaitImport i env (Suc n))"

text \<open>The call: the service after the start is what the environment begins with.\<close>

definition ImportProject ::
  "import_lib \<Rightarrow> string \<Rightarrow> import_sys \<Rightarrow> (import_sys \<Rightarrow> nat \<Rightarrow> bool \<times> bool \<times> import_sys) \<Rightarrow>
   ((err + import_result) \<times> import_sys) option" where
  "ImportProject lib document y env =
     (case StartImportProject lib document y of
        (Inl e, y') \<Rightarrow> Some (Inl e, y')
      | (Inr job, y') \<Rightarrow> awaitImport (ij_ID job) (env y') 0)"

end
