(* ===== verification/Import_Jobs.thy ===== *)
theory Import_Jobs
  imports Imports
begin

text \<open>
  What the import promises: which documents it accepts, what a worker may count on in each phase, how many
  steps it takes, and that no job is left hanging whatever the order of the calls.
\<close>

section \<open>Documents that are accepted\<close>

definition shortKey :: "import_doc \<Rightarrow> import_task \<Rightarrow> string" where
  "shortKey doc t = TrimPrefix (it_Name t) (id_TaskPrefix doc)"

definition references :: "import_doc \<Rightarrow> string list" where
  "references doc = concat (map it_DependsOn (id_Tasks doc))"

lemma shortKeysOf_iff:
  "shortKeysOf p ts m = Some m' \<Longrightarrow> dom m' = dom m \<union> (\<lambda>t. TrimPrefix (it_Name t) p) ` set ts"
  "shortKeysOf p ts m \<noteq> None \<longleftrightarrow> (\<forall>t \<in> set ts. it_Name t \<noteq> []) \<and> distinct (map (\<lambda>t. TrimPrefix (it_Name t) p) ts) \<and>
     (\<forall>t \<in> set ts. m (TrimPrefix (it_Name t) p) = None)"
proof (induction ts arbitrary: m)
  case (Cons t ts)
  { case 1 from this Cons.IH(1) show ?case by (auto simp: Let_def split: if_splits) }
  { case 2 show ?case using Cons.IH(2) by (auto simp: Let_def) (metis image_eqI)+ }
qed simp_all

lemma validDoc_iff:
  "validDoc doc \<longleftrightarrow> id_Project doc \<noteq> [] \<and> id_Tasks doc \<noteq> [] \<and> (\<forall>t \<in> set (id_Tasks doc). it_Name t \<noteq> []) \<and>
     distinct (map (shortKey doc) (id_Tasks doc)) \<and> set (references doc) \<subseteq> shortKey doc ` set (id_Tasks doc)"
proof (cases "shortKeysOf (id_TaskPrefix doc) (id_Tasks doc) Map.empty")
  case None
  then show ?thesis
    using shortKeysOf_iff(2) [of "id_TaskPrefix doc" "id_Tasks doc" Map.empty] by (auto simp: validDoc_def shortKey_def [abs_def])
next
  case (Some m)
  have "dom m = shortKey doc ` set (id_Tasks doc)" using shortKeysOf_iff(1) [OF Some] by (simp add: shortKey_def)
  then have "m dep \<noteq> None \<longleftrightarrow> dep \<in> shortKey doc ` set (id_Tasks doc)" for dep by (metis domIff)
  then have "list_all (refersTo m) (id_Tasks doc) \<longleftrightarrow> set (references doc) \<subseteq> shortKey doc ` set (id_Tasks doc)"
    unfolding list_all_iff refersTo_def references_def by auto
  then show ?thesis
    using shortKeysOf_iff(2) [of "id_TaskPrefix doc" "id_Tasks doc" Map.empty] Some by (simp add: validDoc_def shortKey_def [abs_def])
qed

text \<open>
  C37. A document is accepted exactly when it decodes, names a project and at least one task, every task has a name, no
  two tasks have the same short key, and every reference is the short key of one of its tasks.
\<close>

theorem validateImportDoc_exact:
  "validateImportDoc lib document = Inr () \<longleftrightarrow>
     (\<exists>doc. unmarshal lib document = Inr doc \<and> id_Project doc \<noteq> [] \<and> id_Tasks doc \<noteq> [] \<and>
        [] \<notin> it_Name ` set (id_Tasks doc) \<and> distinct (map (shortKey doc) (id_Tasks doc)) \<and>
        set (references doc) \<subseteq> shortKey doc ` set (id_Tasks doc))"
proof -
  have "[] \<in> it_Name ` A \<longleftrightarrow> (\<exists>t \<in> A. it_Name t = [])" for A by force
  then show ?thesis by (auto simp: validateImportDoc_def validDoc_iff split: sum.split)
qed

section \<open>The steps of a worker\<close>

lemma tried:
  "bnd (attempt m) (\<lambda>r. case r of Inl e \<Rightarrow> f e | Inr x \<Rightarrow> g x) s = (Inr y, t) \<longleftrightarrow>
     (\<exists>e s'. m s = (Inl e, s') \<and> f e s' = (Inr y, t)) \<or> (\<exists>x s'. m s = (Inr x, s') \<and> g x s' = (Inr y, t))"
  "bnd (attempt m) (\<lambda>_. ret z) s = (Inr y, t) \<longleftrightarrow> y = z \<and> t = snd (m s)"
  by (auto simp: bnd_def attempt_def ret_def split: prod.splits sum.splits)

lemma workerStep_total: "\<exists>phase' lines t. workerStep lib i document done phase s = (Inr (phase', lines), t)"
proof -
  have "surely (workerStep lib i document done phase)"
    by (cases "(lib, i, document, done, phase)" rule: workerStep.cases)
      (auto simp: Let_def split: sum.split option.split intro!: surely_intros)
  from surelyD [OF this] show ?thesis by fastforce
qed

lemma steady_underCtx [steady_intros]: "steady m \<Longrightarrow> steady (underCtx done m)"
  unfolding underCtx_def by (intro steady_intros)

lemma steady_imports [steady_intros]:
  "steady newImportJob" "steady (updateImportJobStatus i st msg)" "steady (completeImportJob i n k name)"
  "steady (CreateProject p)" "steady (AddTaskToProject a b)"
  unfolding newImportJob_def updateImportJobStatus_def completeImportJob_def CreateProject_def AddTaskToProject_def Let_def
  by (intro steady_intros)+

lemma steady_workerStep [steady_intros]: "steady (workerStep lib i document done phase)"
  by (cases "(lib, i, document, done, phase)" rule: workerStep.cases)
    (auto simp: Let_def split: sum.split option.split intro!: steady_intros)

text \<open>What the three calls that build the project leave of the jobs: everything.\<close>

definition jobsAre :: "import_job list \<Rightarrow> db \<Rightarrow> bool" where
  "jobsAre js d \<longleftrightarrow> d_importJobs d = js"

lemma jobsAre_ignores [keeps_intros]:
  "ignores tasksT (jobsAre js)" "ignores sequencesT (jobsAre js)" "ignores tagsT (jobsAre js)"
  "ignores taggingsT (jobsAre js)" "ignores projectsT (jobsAre js)"
  by (simp_all add: ignores_def jobsAre_def)

lemma jobsAre_edges: "jobsAre js (writeFK c i v d) = jobsAre js d" "jobsAre js (addJoin j a b now d) = jobsAre js d"
  by (cases c; simp add: jobsAre_def writeCol_def) (cases j; simp add: jobsAre_def)

lemma keeps_underCtx [keeps_intros]: "keeps I m \<Longrightarrow> keeps I (underCtx done m)"
  unfolding underCtx_def by (intro keeps_intros)

lemma keeps_jobs [keeps_intros]:
  "keeps (jobsAre js) (CreateProject p)" "keeps (jobsAre js) (CreateTask task)" "keeps (jobsAre js) (AddTaskToProject a b)"
  "keeps (jobsAre js) (CreateRelationship rel)"
proof -
  show rel: "keeps (jobsAre js) (CreateRelationship rel)" for rel
    by (rule keeps_CreateRelationship) (simp_all add: jobsAre_edges)
  show "keeps (jobsAre js) (CreateProject p)" unfolding CreateProject_def Let_def by (intro keeps_intros)
  show "keeps (jobsAre js) (AddTaskToProject a b)" unfolding AddTaskToProject_def by (intro keeps_intros rel)
  show "keeps (jobsAre js) (CreateTask task)" by (intro keeps_CreateTask keeps_intros) (simp_all add: writeCol_def jobsAre_def)
qed

text \<open>The phases that write the job's own row; every other step leaves the jobs alone.\<close>

fun writesJob :: "import_phase \<Rightarrow> bool" where
  "writesJob Starting = True"
| "writesJob (Reporting proj n k) = True"
| "writesJob (Failing msg) = True"
| "writesJob Aborting = True"
| "writesJob _ = False"

lemma workerStep_jobs:
  assumes "workerStep lib i document done phase s = (r, t)" and "\<not> writesJob phase"
  shows "d_importJobs (w_db t) = d_importJobs (w_db s)"
proof -
  have "keeps (jobsAre js) (workerStep lib i document done phase)" for js
    using assms(2) by (cases "(lib, i, document, done, phase)" rule: workerStep.cases)
      (auto simp: Let_def split: sum.split option.split intro!: keeps_intros)
  from keepsD [OF this [of "d_importJobs (w_db s)"], of s] assms(1) show ?thesis by (simp add: jobsAre_def)
qed

section \<open>How long a worker works\<close>

text \<open>
  A bound on the moves left: three for each task that is left, one for each reference, and those between. The
  phases before the document is read count the whole document.
\<close>

fun work :: "import_lib \<Rightarrow> string \<Rightarrow> import_phase \<Rightarrow> nat" where
  "work lib document Starting =
     (case unmarshal lib document of Inl _ \<Rightarrow> 4 | Inr doc \<Rightarrow> 7 + length (references doc) + 3 * length (id_Tasks doc))"
| "work lib document Parsing =
     (case unmarshal lib document of Inl _ \<Rightarrow> 3 | Inr doc \<Rightarrow> 6 + length (references doc) + 3 * length (id_Tasks doc))"
| "work lib document (MakingProject doc) = 5 + length (references doc) + 3 * length (id_Tasks doc)"
| "work lib document (MakingTask doc proj m n rest) = 4 + length (references doc) + 3 * length rest"
| "work lib document (Creating doc proj m n it rest) = 6 + length (references doc) + 3 * length rest"
| "work lib document (Joining doc proj m n taskID it rest) = 5 + length (references doc) + 3 * length rest"
| "work lib document (Wiring doc proj m n k edges) = 3 + length edges"
| "work lib document (Reporting proj n k) = 2"
| "work lib document (Failing msg) = 2"
| "work lib document Aborting = 2"
| "work lib document Leaving = 1"

lemma length_edgesOf: "length (edgesOf doc m) = length (references doc)"
  unfolding edgesOf_def references_def by (induction "id_Tasks doc") (simp_all add: length_concat comp_def)

lemma work_pos [simp]: "work lib document phase \<noteq> 0"
  by (cases phase) (auto split: sum.split)

lemma work_decreases:
  assumes "workerStep lib i document done phase s = (Inr (phase', lines), t)" and "phase \<noteq> Leaving"
  shows "work lib document phase' < work lib document phase"
  using assms
  by (cases "(lib, i, document, done, phase)" rule: workerStep.cases)
    (auto simp: Let_def tried ret_Inr length_edgesOf split: sum.splits option.splits if_splits)

text \<open>What is left of the work of a job in a state of the service.\<close>

definition workLeft :: "import_lib \<Rightarrow> string \<Rightarrow> import_sys \<Rightarrow> nat" where
  "workLeft lib i y = (case sy_Jobs y i of None \<Rightarrow> 0 | Some w \<Rightarrow> work lib (iw_Document w) (iw_Phase w))"

lemma workLeft_move:
  assumes "sy_Jobs y i = Some w"
  shows "workLeft lib i (workerMove lib i w y) < workLeft lib i y"
proof (cases "iw_Phase w = Leaving")
  case True
  then show ?thesis using assms by (simp add: workLeft_def workerMove_def)
next
  case False
  obtain ph lines s where run: "workerStep lib i (iw_Document w) (iw_Cancelled w) (iw_Phase w) (sy_World y) = (Inr (ph, lines), s)"
    using workerStep_total by metis
  from work_decreases [OF run False] run False assms show ?thesis by (simp add: workLeft_def workerMove_def)
qed

lemma workLeft_other_move: "i \<noteq> j \<Longrightarrow> workLeft lib i (workerMove lib j w y) = workLeft lib i y"
  using workerStep_total [of lib j "iw_Document w" "iw_Cancelled w" "iw_Phase w" "sy_World y"]
  by (auto simp: workLeft_def workerMove_def)

definition jobIds :: "import_sys \<Rightarrow> string set" where
  "jobIds y = ij_ID ` set (d_importJobs (w_db (sy_World y)))"

lemma newImportJob_Inr:
  assumes "newImportJob s = (Inr job, t)"
  shows "d_importJobs (w_db t) = d_importJobs (w_db s) @ [job] \<and> ij_Status job = JobPending \<and>
    ij_ID job \<notin> ij_ID ` set (d_importJobs (w_db s))"
proof -
  from assms obtain now s1 i s2 u where now: "nowStr s = (Inr now, s1)" and i: "newSpecID s1 = (Inr i, s2)"
    and job: "job = job0\<lparr>ij_ID := i, ij_Status := JobPending, ij_CreatedAt := now, ij_UpdatedAt := now\<rparr>"
    and ins: "insertQ importJobsT importJobClash job s2 = (Inr u, t)"
    unfolding newImportJob_def Let_def bnd_Inr seq_Inr ret_Inr by blast
  have "w_db s2 = w_db s" using nowStr_run [OF now] i by (auto simp: newSpecID_Inr)
  with insertQ_run [OF ins] show ?thesis by (auto simp: job importJobClash_def)
qed

lemma newImportJob_Inl: "newImportJob s = (Inl e, t) \<Longrightarrow> w_db t = w_db s"
  by (auto simp: newImportJob_def Let_def bnd_Inl seq_Inl ret_Inl nowStr_Inr newSpecID_Inr errs dest!: statement_Inl(5))

section \<open>What happens to the rows of the jobs\<close>

definition jobView :: "db \<Rightarrow> (string \<times> job_status) list" where
  "jobView d = map (\<lambda>j. (ij_ID j, ij_Status j)) (d_importJobs d)"

definition setView :: "string \<Rightarrow> job_status \<Rightarrow> (string \<times> job_status) list \<Rightarrow> (string \<times> job_status) list" where
  "setView i st = map (\<lambda>(j, st0). (j, if j = i then st else st0))"

lemma setView_ids [simp]: "map fst (setView i st v) = map fst v"
  by (simp add: setView_def comp_def case_prod_beta)

lemma setView_iff: "(j, x) \<in> set (setView i st v) \<longleftrightarrow> (if j = i then x = st \<and> i \<in> fst ` set v else (j, x) \<in> set v)"
  by (induction v) (auto simp: setView_def)

lemma jobIds_view: "jobIds y = set (map fst (jobView (w_db (sy_World y))))"
  by (auto simp: jobIds_def jobView_def)

lemma jobView_update:
  assumes "\<And>j. ij_ID (f j) = ij_ID j" and "\<And>j. ij_Status (f j) = st"
  shows "jobView (d_importJobs_update (updWhere (\<lambda>j. ij_ID j = i) f) d) = setView i st (jobView d)"
  using assms by (simp add: jobView_def setView_def updWhere_def)

text \<open>A write of a job's status: done, or refused by the database.\<close>

lemma status_writes:
  "updateImportJobStatus i st msg s = (r, t) \<Longrightarrow>
     jobView (w_db t) = setView i st (jobView (w_db s)) \<and> r = Inr () \<or> w_db t = w_db s \<and> w_faults s \<noteq> []"
  "completeImportJob i n k name s = (r, t) \<Longrightarrow>
     jobView (w_db t) = setView i JobCompleted (jobView (w_db s)) \<and> r = Inr () \<or> w_db t = w_db s \<and> w_faults s \<noteq> []"
  by (auto simp: updateImportJobStatus_def completeImportJob_def bnd_def seq_def nowStr_def nowT_def ret_def updateQ_def sql_def
      jobView_update split: if_splits)

lemmas status_written = status_writes [OF surjective_pairing]

text \<open>The effect of a step on the rows, and where the worker stands after it.\<close>

lemma workerStep_view:
  assumes run: "workerStep lib i document done phase s = (Inr (phase', lines), t)"
  shows "jobView (w_db t) = jobView (w_db s) \<or> (\<exists>st. jobView (w_db t) = setView i st (jobView (w_db s)))"
proof (cases "writesJob phase")
  case False
  from workerStep_jobs [OF run this] show ?thesis by (simp add: jobView_def)
next
  case True
  with run show ?thesis
    by (cases phase)
      (auto simp: tried underCtx_def fail_def ret_Inr split: if_splits dest: status_writes(1)
        intro: status_written(1) [THEN disjE] status_written(2) [THEN disjE])
qed

lemma workerStep_calm:
  assumes run: "workerStep lib i document done phase s = (Inr (phase', lines), t)" and calm: "w_faults s = []"
    and "phase \<noteq> Leaving"
  shows "if phase = Starting then
      (if done then phase' = Leaving \<and> jobView (w_db t) = jobView (w_db s)
       else phase' \<noteq> Leaving \<and> jobView (w_db t) = setView i JobRunning (jobView (w_db s)))
    else if writesJob phase then
      phase' = Leaving \<and> (\<exists>st. terminalJob st \<and> jobView (w_db t) = setView i st (jobView (w_db s)))
    else phase' \<noteq> Leaving \<and> jobView (w_db t) = jobView (w_db s)"
proof (cases "writesJob phase")
  case False
  have "phase' \<noteq> Leaving"
    using run False assms(3) by (cases "(lib, i, document, done, phase)" rule: workerStep.cases)
      (auto simp: Let_def tried ret_Inr split: sum.splits option.splits if_splits)
  with workerStep_jobs [OF run False] False show ?thesis by (cases phase) (auto simp: jobView_def)
next
  case True
  have st: "jobView (w_db (snd (updateImportJobStatus i st msg s))) = setView i st (jobView (w_db s)) \<and>
      fst (updateImportJobStatus i st msg s) = Inr ()"
    "jobView (w_db (snd (completeImportJob i n k name s))) = setView i JobCompleted (jobView (w_db s))" for st msg n k name
    using status_written(1) [of i st msg s] status_written(2) [of i n k name s] calm by auto
  from True run show ?thesis
    by (cases phase) (use st calm in \<open>auto simp: tried underCtx_def fail_def ret_Inr terminalJob_def split: if_splits
        dest: status_writes(1)\<close>)
qed

section \<open>Every job is attended to\<close>

text \<open>
  \<open>attended\<close>: no statement fails; a row that is still open has its worker, or a cancellation that will write it;
  and a worker that was told to stop has the cancellation still to come, or its row is closed already.
\<close>

definition openRows :: "import_sys \<Rightarrow> string set" where
  "openRows y = {i. \<exists>st. (i, st) \<in> set (jobView (w_db (sy_World y))) \<and> \<not> terminalJob st}"

definition working :: "import_sys \<Rightarrow> string \<Rightarrow> bool" where
  "working y i \<longleftrightarrow> (\<exists>w. sy_Jobs y i = Some w \<and> iw_Phase w \<noteq> Leaving)"

definition attended :: "import_sys \<Rightarrow> bool" where
  "attended y \<longleftrightarrow> w_faults (sy_World y) = [] \<and>
     (\<forall>i \<in> openRows y. working y i \<or> i \<in> fst ` set (sy_Cancels y)) \<and>
     (\<forall>i w. sy_Jobs y i = Some w \<longrightarrow> iw_Cancelled w \<longrightarrow> (i, True) \<in> set (sy_Cancels y) \<or> i \<notin> openRows y)"

lemma openRows_same: "jobView (w_db (sy_World y')) = jobView (w_db (sy_World y)) \<Longrightarrow> openRows y' = openRows y"
  by (simp add: openRows_def)

lemma openRows_set:
  assumes "jobView (w_db (sy_World y')) = setView i st (jobView (w_db (sy_World y)))"
  shows "openRows y' \<subseteq> openRows y \<union> {i}" and "terminalJob st \<Longrightarrow> i \<notin> openRows y'"
    and "j \<noteq> i \<Longrightarrow> j \<in> openRows y' \<longleftrightarrow> j \<in> openRows y"
  using assms by (auto simp: openRows_def setView_iff)

lemma attended_worked:
  assumes att: "attended y" and w: "sy_Jobs y i = Some w"
  shows "attended (workerMove lib i w y)"
proof (cases "iw_Phase w = Leaving")
  case True
  then have "\<not> working y i" using w by (simp add: working_def)
  with att True w show ?thesis by (auto simp: attended_def workerMove_def openRows_def working_def)
next
  case False
  obtain ph lines s where run: "workerStep lib i (iw_Document w) (iw_Cancelled w) (iw_Phase w) (sy_World y) = (Inr (ph, lines), s)"
    using workerStep_total by metis
  define z where "z = workerMove lib i w y"
  have z: "sy_World z = s" "sy_Cancels z = sy_Cancels y"
    "sy_Jobs z j = (if j = i then Some (w\<lparr>iw_Phase := ph, iw_Steps := iw_Steps w @ lines\<rparr>) else sy_Jobs y j)" for j
    using run False by (simp_all add: z_def workerMove_def)
  have calm: "w_faults (sy_World y) = []" using att by (simp add: attended_def)
  have calm': "w_faults s = []" by (rule steadyD(1) [OF steady_workerStep run calm])
  note eff = workerStep_calm [OF run calm False]
  have others: "working z j = working y j" if "j \<noteq> i" for j using that by (simp add: z working_def)
  have here: "working z i \<longleftrightarrow> ph \<noteq> Leaving" by (simp add: z working_def)
  have cancelled: "\<exists>w'. sy_Jobs y j = Some w' \<and> iw_Cancelled w' = iw_Cancelled v" if "sy_Jobs z j = Some v" for j v
    using that w by (auto simp: z split: if_splits)
  have close: "attended z" if rows: "\<And>j. j \<in> openRows z \<Longrightarrow> j \<in> openRows y \<or> j = i \<and> \<not> iw_Cancelled w"
    and leaving: "ph = Leaving \<Longrightarrow> i \<in> openRows z \<Longrightarrow> iw_Cancelled w"
  proof -
    have "working z j \<or> j \<in> fst ` set (sy_Cancels z)" if j: "j \<in> openRows z" for j
    proof (cases "j = i")
      case True
      have "(i, True) \<in> set (sy_Cancels z)" if "ph = Leaving"
      proof -
        have c: "iw_Cancelled w" by (rule leaving [OF that]) (use j True in simp)
        with rows [OF j] True have "i \<in> openRows y" by simp
        with att w c show ?thesis unfolding attended_def z by blast
      qed
      with here True show ?thesis by (cases "ph = Leaving") force+
    next
      case False
      with rows [OF j] have "j \<in> openRows y" by simp
      with att others [OF False] show ?thesis unfolding attended_def z by simp
    qed
    moreover have "(j, True) \<in> set (sy_Cancels z) \<or> j \<notin> openRows z" if v: "sy_Jobs z j = Some v" "iw_Cancelled v" for j v
    proof (rule disjCI)
      assume "\<not> j \<notin> openRows z"
      then have j: "j \<in> openRows y \<or> j = i \<and> \<not> iw_Cancelled w" by (intro rows) simp
      obtain v' where v': "sy_Jobs y j = Some v'" "iw_Cancelled v'" using cancelled [OF v(1)] v(2) by auto
      with j w have "j \<in> openRows y" by auto
      with att v' show "(j, True) \<in> set (sy_Cancels z)" unfolding attended_def z by blast
    qed
    ultimately show ?thesis using calm' by (simp add: attended_def z)
  qed
  consider (same) "jobView (w_db s) = jobView (w_db (sy_World y))" "ph \<noteq> Leaving \<or> iw_Cancelled w"
    | (run) "jobView (w_db s) = setView i JobRunning (jobView (w_db (sy_World y)))" "ph \<noteq> Leaving" "\<not> iw_Cancelled w"
    | (fin) st where "jobView (w_db s) = setView i st (jobView (w_db (sy_World y)))" "terminalJob st"
  proof (cases "iw_Phase w = Starting")
    case True
    with eff that(1,2) show ?thesis by (cases "iw_Cancelled w") simp_all
  next
    case not_starting: False
    with eff that(1,3) show ?thesis by (cases "writesJob (iw_Phase w)") auto
  qed
  then have "attended z"
  proof cases
    case same
    have "openRows z = openRows y" by (rule openRows_same) (simp add: z same)
    then show ?thesis using same(2) by (intro close) auto
  next
    case run
    show ?thesis using openRows_set(1) [of z i JobRunning y] run by (intro close) (auto simp: z)
  next
    case fin
    show ?thesis using openRows_set(1,2) [of z i st y] fin by (intro close) (auto simp: z)
  qed
  then show ?thesis by (simp add: z_def)
qed

text \<open>The other steps, and what each leaves of the rows.\<close>

lemma attendedI:
  assumes "w_faults (sy_World y') = []"
    and "\<And>j. j \<in> openRows y' \<Longrightarrow> working y' j \<or> j \<in> fst ` set (sy_Cancels y')"
    and "\<And>j v. sy_Jobs y' j = Some v \<Longrightarrow> iw_Cancelled v \<Longrightarrow> j \<in> openRows y' \<Longrightarrow> (j, True) \<in> set (sy_Cancels y')"
  shows "attended y'"
  using assms unfolding attended_def by blast

lemma attendedD:
  assumes "attended y"
  shows "w_faults (sy_World y) = []"
    and "j \<in> openRows y \<Longrightarrow> working y j \<or> j \<in> fst ` set (sy_Cancels y)"
    and "sy_Jobs y j = Some v \<Longrightarrow> iw_Cancelled v \<Longrightarrow> j \<in> openRows y \<Longrightarrow> (j, True) \<in> set (sy_Cancels y)"
  using assms unfolding attended_def by blast+

lemma onWorld_sel:
  assumes "onWorld m y = (r, y')"
  shows "m (sy_World y) = (r, sy_World y')" "sy_Jobs y' = sy_Jobs y" "sy_Cancels y' = sy_Cancels y"
  using assms by (auto simp: onWorld_def split: prod.splits)

lemma StartImportProject_cases:
  assumes "StartImportProject lib document y = (r, y')"
  shows "(\<exists>e. r = Inl e) \<and> sy_Jobs y' = sy_Jobs y \<and> sy_Cancels y' = sy_Cancels y \<and>
      w_db (sy_World y') = w_db (sy_World y) \<and> (w_faults (sy_World y) = [] \<longrightarrow> w_faults (sy_World y') = []) \<or>
    (\<exists>job. r = Inr job \<and> validateImportDoc lib document = Inr () \<and> sy_Cancels y' = sy_Cancels y \<and>
      sy_Jobs y' = (sy_Jobs y)(ij_ID job \<mapsto> \<lparr>iw_Document = document, iw_Steps = [], iw_Cancelled = False, iw_Phase = Starting\<rparr>) \<and>
      jobView (w_db (sy_World y')) = jobView (w_db (sy_World y)) @ [(ij_ID job, JobPending)] \<and> ij_ID job \<notin> jobIds y \<and>
      (w_faults (sy_World y) = [] \<longrightarrow> w_faults (sy_World y') = []))"
proof (cases "validateImportDoc lib document")
  case (Inl e)
  then show ?thesis using assms by (auto simp: StartImportProject_def)
next
  case (Inr u)
  obtain q z where q: "onWorld newImportJob y = (q, z)" by fastforce
  note z = onWorld_sel [OF q] and calm = steadyD(1) [OF steady_imports(1) onWorld_sel(1) [OF q]]
  show ?thesis
  proof (cases q)
    case (Inl e)
    with assms Inr q z calm newImportJob_Inl [of "sy_World y" e "sy_World z"] show ?thesis by (auto simp: StartImportProject_def)
  next
    case (Inr job)
    with newImportJob_Inr [of "sy_World y" job "sy_World z"] z have new: "d_importJobs (w_db (sy_World z)) = d_importJobs (w_db (sy_World y)) @ [job]"
      "ij_Status job = JobPending" "ij_ID job \<notin> jobIds y" by (simp_all add: jobIds_def)
    have y': "r = Inr job" "y' = z\<lparr>sy_Jobs := (sy_Jobs z)(ij_ID job \<mapsto>
        \<lparr>iw_Document = document, iw_Steps = [], iw_Cancelled = False, iw_Phase = Starting\<rparr>)\<rparr>"
      using assms Inr \<open>validateImportDoc lib document = Inr u\<close> q by (simp_all add: StartImportProject_def)
    show ?thesis using new z calm \<open>validateImportDoc lib document = Inr u\<close> by (simp add: y' jobView_def)
  qed
qed

lemma attended_started:
  assumes att: "attended y" and run: "StartImportProject lib document y = (r, y')"
  shows "attended y'"
  using StartImportProject_cases [OF run]
proof (elim disjE exE conjE)
  assume same: "sy_Jobs y' = sy_Jobs y" "sy_Cancels y' = sy_Cancels y" "w_db (sy_World y') = w_db (sy_World y)"
    and calm: "w_faults (sy_World y) = [] \<longrightarrow> w_faults (sy_World y') = []"
  have "openRows y' = openRows y" by (rule openRows_same) (simp add: same)
  with att calm show ?thesis by (simp add: attended_def working_def same)
next
  fix job
  let ?i = "ij_ID job"
  assume new: "sy_Cancels y' = sy_Cancels y"
      "sy_Jobs y' = (sy_Jobs y)(?i \<mapsto> \<lparr>iw_Document = document, iw_Steps = [], iw_Cancelled = False, iw_Phase = Starting\<rparr>)"
      "jobView (w_db (sy_World y')) = jobView (w_db (sy_World y)) @ [(?i, JobPending)]" "?i \<notin> jobIds y"
    and calm: "w_faults (sy_World y) = [] \<longrightarrow> w_faults (sy_World y') = []"
  have rows: "j \<in> openRows y' \<Longrightarrow> j \<noteq> ?i \<Longrightarrow> j \<in> openRows y" for j by (auto simp: openRows_def new)
  have here: "working y' ?i" "\<not> (sy_Jobs y' ?i = Some v \<and> iw_Cancelled v)" for v by (auto simp: working_def new)
  have others: "j \<noteq> ?i \<Longrightarrow> working y' j = working y j" "j \<noteq> ?i \<Longrightarrow> sy_Jobs y' j = sy_Jobs y j" for j
    by (simp_all add: working_def new)
  show ?thesis
  proof (rule attendedI)
    show "w_faults (sy_World y') = []" using calm attendedD(1) [OF att] by simp
  next
    fix j assume "j \<in> openRows y'"
    then show "working y' j \<or> j \<in> fst ` set (sy_Cancels y')"
      using rows [of j] here(1) others(1) [of j] attendedD(2) [OF att, of j] new(1) by (cases "j = ?i") simp_all
  next
    fix j v assume v: "sy_Jobs y' j = Some v" "iw_Cancelled v" "j \<in> openRows y'"
    then have "j \<noteq> ?i" using here(2) by blast
    with v rows [of j] others(2) [of j] attendedD(3) [OF att, of j v] new(1) show "(j, True) \<in> set (sy_Cancels y')" by simp
  qed
qed

lemma cancelCheck_same:
  assumes "cancelCheck done i y = (r, y')"
  shows "sy_Jobs y' = sy_Jobs y \<and> sy_Cancels y' = sy_Cancels y \<and> w_db (sy_World y') = w_db (sy_World y) \<and>
    (w_faults (sy_World y) = [] \<longrightarrow> w_faults (sy_World y') = [])"
proof -
  let ?read = "underCtx done (takeQ importJobsT (\<lambda>j. ij_ID j = i) ErrImportJobNotFound)"
  obtain q z where q: "onWorld ?read y = (q, z)" by fastforce
  then have "y' = z" using assms
    by (auto simp: cancelCheck_def GetImportProjectStatus_def split: sum.splits if_splits)
  moreover have steady: "steady ?read" by (intro steady_intros)
  moreover have keeps: "keeps I ?read" for I by (intro keeps_intros)
  have "w_faults (sy_World y) = [] \<Longrightarrow> w_faults (sy_World z) = []" "w_db (sy_World z) = w_db (sy_World y)"
    using steadyD(1) [OF steady onWorld_sel(1) [OF q]] keeps_reads [OF keeps onWorld_sel(1) [OF q]] by blast+
  ultimately show ?thesis using onWorld_sel(2,3) [OF q] by simp
qed

lemma attended_checked:
  assumes "attended y" and "cancelCheck done i y = (r, y')"
  shows "attended (y'\<lparr>sy_Cancels := (i, False) # sy_Cancels y'\<rparr>)"
proof -
  note same = cancelCheck_same [OF assms(2)]
  have "openRows (y'\<lparr>sy_Cancels := c\<rparr>) = openRows y" for c by (rule openRows_same) (simp add: same)
  with assms(1) same show ?thesis by (simp add: attended_def working_def) blast
qed

lemma attended_signalled:
  assumes "attended y"
  shows "attended ((cancelSignal i y)\<lparr>sy_Cancels := (i, True) # remove1 (i, False) (sy_Cancels y)\<rparr>)" (is "attended ?z")
proof -
  have rows: "openRows ?z = openRows y" by (rule openRows_same) (simp add: cancelSignal_def split: option.split)
  have work: "working ?z j = working y j" for j by (auto simp: working_def cancelSignal_def split: option.split)
  have kept: "(j, b) \<in> set (sy_Cancels ?z)" if "(j, b) \<in> set (sy_Cancels y)" "(j, b) \<noteq> (i, False)" for j b
    using that by (auto simp: in_set_remove1)
  have cancels: "fst ` set (sy_Cancels y) \<subseteq> fst ` set (sy_Cancels ?z)"
  proof
    fix j assume "j \<in> fst ` set (sy_Cancels y)"
    then obtain b where b: "(j, b) \<in> set (sy_Cancels y)" by force
    show "j \<in> fst ` set (sy_Cancels ?z)"
    proof (cases "(j, b) = (i, False)")
      case False
      from kept [OF b this] show ?thesis by force
    qed force
  qed
  have jobs: "j = i \<or> sy_Jobs ?z j = sy_Jobs y j" for j by (simp add: cancelSignal_def split: option.split)
  show ?thesis
  proof (rule attendedI)
    show "w_faults (sy_World ?z) = []" using attendedD(1) [OF assms] by (simp add: cancelSignal_def split: option.split)
  next
    fix j assume "j \<in> openRows ?z"
    then show "working ?z j \<or> j \<in> fst ` set (sy_Cancels ?z)"
      using attendedD(2) [OF assms, of j] cancels unfolding rows work by blast
  next
    fix j v assume v: "sy_Jobs ?z j = Some v" "iw_Cancelled v" "j \<in> openRows ?z"
    show "(j, True) \<in> set (sy_Cancels ?z)"
    proof (cases "j = i")
      case False
      with jobs [of j] v(1) have "sy_Jobs y j = Some v" by simp
      from kept [OF attendedD(3) [OF assms this v(2)]] v(3) show ?thesis unfolding rows by simp
    qed simp
  qed
qed

lemma attended_written:
  assumes att: "attended y" and run: "onWorld (updateImportJobStatus i JobCancelled []) y = (r, y')"
  shows "attended (y'\<lparr>sy_Cancels := remove1 (i, True) (sy_Cancels y)\<rparr>)" (is "attended ?z")
proof -
  note y' = onWorld_sel [OF run] and calm = attendedD(1) [OF att]
  have "jobView (w_db (sy_World ?z)) = setView i JobCancelled (jobView (w_db (sy_World y)))"
    using status_writes(1) [OF y'(1)] calm by auto
  note rows = openRows_set [OF this]
  have closed: "j \<in> openRows ?z \<Longrightarrow> j \<in> openRows y \<and> j \<noteq> i" for j
    using rows(2) rows(3) [of j] by (auto simp: terminalJob_def)
  show ?thesis
  proof (rule attendedI)
    show "w_faults (sy_World ?z) = []" using steadyD(1) [OF steady_imports(2) y'(1) calm] by simp
  next
    fix j assume "j \<in> openRows ?z"
    with closed have j: "j \<in> openRows y" "j \<noteq> i" by blast+
    have "working ?z j = working y j" by (simp add: working_def y')
    moreover have "j \<in> fst ` set (sy_Cancels ?z)" if c: "j \<in> fst ` set (sy_Cancels y)"
    proof -
      from c obtain b where "(j, b) \<in> set (sy_Cancels y)" by force
      with j(2) have "(j, b) \<in> set (sy_Cancels ?z)" by (simp add: in_set_remove1)
      then show ?thesis by force
    qed
    ultimately show "working ?z j \<or> j \<in> fst ` set (sy_Cancels ?z)" using attendedD(2) [OF att j(1)] by blast
  next
    fix j v assume v: "sy_Jobs ?z j = Some v" "iw_Cancelled v" "j \<in> openRows ?z"
    with closed have "j \<in> openRows y" "j \<noteq> i" by blast+
    with attendedD(3) [OF att _ v(2), of j] v(1) y' show "(j, True) \<in> set (sy_Cancels ?z)" by (simp add: in_set_remove1)
  qed
qed

lemma attended_others:
  assumes "attended y" and "d_importJobs (w_db s) = d_importJobs (w_db (sy_World y))"
    and "w_faults (sy_World y) = [] \<longrightarrow> w_faults s = []"
  shows "attended (y\<lparr>sy_World := s\<rparr>)"
proof -
  have "openRows (y\<lparr>sy_World := s\<rparr>) = openRows y" by (rule openRows_same) (simp add: jobView_def assms(2))
  with assms(1,3) show ?thesis by (simp add: attended_def working_def)
qed

lemma attended_step: "import_step lib y a y' \<Longrightarrow> attended y \<Longrightarrow> attended y'"
  by (erule import_stepE)
    (auto intro: attended_started attended_worked attended_checked attended_signalled attended_written attended_others)

lemma attended_run: "import_run lib y as y' \<Longrightarrow> attended y \<Longrightarrow> attended y'"
  by (induction rule: import_run.induct) (auto intro: attended_step)

text \<open>
  C32. No import is left hanging: from a service without jobs, whatever the order in which calls start jobs and
  cancel them, the workers move and other requests run - with no failing statement - every job whose row
  is not completed, failed or cancelled has a worker that has not left, or a cancellation that will still
  write it. So when the workers have left and the cancellations are through, every job is over.
\<close>

theorem import_jobs_attended:
  assumes run: "import_run lib y acts y'" and calm: "w_faults (sy_World y) = []"
    and idle: "sy_Jobs y = Map.empty" "d_importJobs (w_db (sy_World y)) = []" "sy_Cancels y = []"
    and job: "job \<in> set (d_importJobs (w_db (sy_World y')))" "\<not> terminalJob (ij_Status job)"
  shows "(\<exists>w. sy_Jobs y' (ij_ID job) = Some w \<and> iw_Phase w \<noteq> Leaving) \<or> (\<exists>b. (ij_ID job, b) \<in> set (sy_Cancels y'))"
proof -
  have "attended y" using calm idle by (simp add: attended_def openRows_def jobView_def)
  with attended_run [OF run] have "attended y'" by blast
  moreover have "ij_ID job \<in> openRows y'" using job by (force simp: openRows_def jobView_def)
  ultimately show ?thesis using attendedD(2) [of y' "ij_ID job"] by (auto simp: working_def)
qed

text \<open>A document of two tasks, the second depending on the first.\<close>

definition twoTasks :: import_doc where
  "twoTasks = \<lparr>id_Project = ''Demo'', id_TaskPrefix = ''DM-'', id_Tasks =
     [\<lparr>it_Name = ''DM-001'', it_Title = ''one'', it_Priority = ''high'', it_DependsOn = [], it_Tags = [], it_Description = [],
       it_SeparateBranch = False, it_BranchName = []\<rparr>,
      \<lparr>it_Name = ''DM-002'', it_Title = ''two'', it_Priority = [], it_DependsOn = [''001''], it_Tags = [], it_Description = [],
       it_SeparateBranch = False, it_BranchName = []\<rparr>]\<rparr>"

definition demoLib :: import_lib where
  "demoLib = \<lparr>unmarshal = (\<lambda>d. if d = ''demo'' then Inr twoTasks else Inl ''bad''), say = errorText, quoted = (\<lambda>s. s)\<rparr>"

definition idleService :: import_sys where
  "idleService = \<lparr>sy_World = calmWorld, sy_Jobs = Map.empty, sy_Cancels = []\<rparr>"

lemma demo_valid: "validateImportDoc demoLib ''demo'' = Inr ()"
  by (simp add: validateImportDoc_def demoLib_def validDoc_def twoTasks_def TrimPrefix_def Let_def refersTo_def)

lemma demo_started: "\<exists>job y. StartImportProject demoLib ''demo'' idleService = (Inr job, y) \<and>
    d_importJobs (w_db (sy_World y)) = [job] \<and> ij_Status job = JobPending \<and> w_faults (sy_World y) = []"
proof -
  have "succeeds newImportJob calmWorld"
    by (simp add: succeeds_def newImportJob_def tm_basic Let_def insertQ_def sql_def calmWorld_def worldOf_def emptyDb_def)
  then obtain job s where run: "newImportJob calmWorld = (Inr job, s)" using succeedsD by blast
  have "w_faults s = []" by (rule steadyD(1) [OF steady_imports(1) run]) (simp add: calmWorld_def)
  with newImportJob_Inr [OF run] run show ?thesis
    by (simp add: StartImportProject_def demo_valid onWorld_def idleService_def) (simp add: calmWorld_def emptyDb_def)
qed

theorem import_jobs_attended_witness:
  "\<exists>job y. StartImportProject demoLib ''demo'' idleService = (Inr job, y) \<and>
     ((\<exists>w. sy_Jobs y (ij_ID job) = Some w \<and> iw_Phase w \<noteq> Leaving) \<or> (\<exists>b. (ij_ID job, b) \<in> set (sy_Cancels y)))"
proof -
  from demo_started obtain job y where start: "StartImportProject demoLib ''demo'' idleService = (Inr job, y)"
    and row: "d_importJobs (w_db (sy_World y)) = [job]" "ij_Status job = JobPending" by blast
  have run: "import_run demoLib idleService [Start] y" by (rule import_run.there [OF import_step.started [OF start] import_run.here])
  have "(\<exists>w. sy_Jobs y (ij_ID job) = Some w \<and> iw_Phase w \<noteq> Leaving) \<or> (\<exists>b. (ij_ID job, b) \<in> set (sy_Cancels y))"
    by (rule import_jobs_attended [OF run]) (simp_all add: idleService_def calmWorld_def emptyDb_def row terminalJob_def)
  with start show ?thesis by blast
qed

section \<open>Every worker ends\<close>

lemma workerMove_ids: "jobIds (workerMove lib i w y) = jobIds y"
proof (cases "iw_Phase w = Leaving")
  case False
  obtain ph lines s where run: "workerStep lib i (iw_Document w) (iw_Cancelled w) (iw_Phase w) (sy_World y) = (Inr (ph, lines), s)"
    using workerStep_total by metis
  from workerStep_view [OF run] run False show ?thesis by (auto simp: workerMove_def jobIds_view simp del: set_map)
qed (simp add: workerMove_def jobIds_def)

lemma workLeft_jobs: "(case sy_Jobs y' i of None \<Rightarrow> None | Some w \<Rightarrow> Some (iw_Document w, iw_Phase w)) =
    (case sy_Jobs y i of None \<Rightarrow> None | Some w \<Rightarrow> Some (iw_Document w, iw_Phase w)) \<Longrightarrow> workLeft lib i y' = workLeft lib i y"
  by (auto simp: workLeft_def split: option.splits)

lemma work_step:
  assumes "import_step lib y a y'" and known: "i \<in> jobIds y"
  shows "i \<in> jobIds y' \<and> workLeft lib i y' + (if a = Work i then 1 else 0) \<le> workLeft lib i y"
  using assms(1)
proof (cases rule: import_step.cases)
  case (started document r)
  show ?thesis using StartImportProject_cases [OF started(2)] known started(1)
    by (elim disjE exE conjE) (auto simp: jobIds_view workLeft_def image_iff)
next
  case (worked j w)
  show ?thesis
  proof (cases "i = j")
    case True
    with worked workLeft_move [OF worked(3)] known show ?thesis by (simp add: workerMove_ids Suc_le_eq)
  next
    case False
    with worked workLeft_other_move [OF False] known show ?thesis by (simp add: workerMove_ids)
  qed
next
  case (checked ctx j z)
  note same = cancelCheck_same [OF checked(3)]
  show ?thesis using known same by (simp add: checked jobIds_def workLeft_def)
next
  case (signalled j)
  have "workLeft lib i y' = workLeft lib i y" by (rule workLeft_jobs) (simp add: signalled cancelSignal_def split: option.split)
  moreover have "jobIds y' = jobIds y" by (simp add: signalled jobIds_def cancelSignal_def split: option.split)
  ultimately show ?thesis using known by (simp add: signalled)
next
  case (written j r z)
  note z = onWorld_sel [OF written(4)]
  have "jobIds y' = jobIds y" using status_writes(1) [OF z(1)] by (auto simp: written(2) jobIds_view simp del: set_map)
  with known show ?thesis by (simp add: written(1,2) workLeft_def z)
next
  case (others s)
  with known show ?thesis by (simp add: jobIds_def workLeft_def)
qed

lemma work_run:
  assumes "import_run lib y acts y'" and "i \<in> jobIds y"
  shows "i \<in> jobIds y' \<and> workLeft lib i y' + count_list acts (Work i) \<le> workLeft lib i y"
  using assms by (induction rule: import_run.induct) (auto dest!: work_step split: if_splits)

text \<open>
  C33. Every import ends: whatever else happens in whatever order, the worker of a started job moves at most
  three times for each task of its document, once for each reference and seven times more; as long as it
  is there it can move, and when it has moved that often it is gone.
\<close>

theorem import_worker_ends:
  assumes start: "StartImportProject lib document y0 = (Inr job, y)" and doc: "unmarshal lib document = Inr doc"
    and run: "import_run lib y acts y'"
  shows "count_list acts (Work (ij_ID job)) \<le> 7 + length (references doc) + 3 * length (id_Tasks doc) \<and>
    (sy_Jobs y' (ij_ID job) \<noteq> None \<longrightarrow> (\<exists>y''. import_step lib y' (Work (ij_ID job)) y'')) \<and>
    (count_list acts (Work (ij_ID job)) = 7 + length (references doc) + 3 * length (id_Tasks doc) \<longrightarrow>
       sy_Jobs y' (ij_ID job) = None)"
proof -
  let ?i = "ij_ID job" and ?n = "7 + length (references doc) + 3 * length (id_Tasks doc)"
  have "?i \<in> jobIds y" "workLeft lib ?i y = ?n"
    using StartImportProject_cases [OF start] doc by (auto simp: jobIds_view workLeft_def)
  with work_run [OF run] have left: "workLeft lib ?i y' + count_list acts (Work ?i) \<le> ?n" by metis
  have "sy_Jobs y' ?i = None" if "workLeft lib ?i y' = 0"
    using that by (cases "sy_Jobs y' ?i") (simp_all add: workLeft_def)
  moreover have "\<exists>y''. import_step lib y' (Work ?i) y''" if "sy_Jobs y' ?i \<noteq> None"
    using that import_step.worked by blast
  ultimately show ?thesis using left by auto
qed

theorem import_worker_ends_witness:
  "\<exists>job y. StartImportProject demoLib ''demo'' idleService = (Inr job, y) \<and>
     (\<forall>y' acts. import_run demoLib y acts y' \<longrightarrow> count_list acts (Work (ij_ID job)) \<le> 14)"
proof -
  from demo_started obtain job y where start: "StartImportProject demoLib ''demo'' idleService = (Inr job, y)" by blast
  have doc: "unmarshal demoLib ''demo'' = Inr twoTasks" "length (references twoTasks) = 1" "length (id_Tasks twoTasks) = 2"
    by (simp_all add: demoLib_def references_def twoTasks_def)
  from import_worker_ends [OF start doc(1)] start doc(2,3) show ?thesis by fastforce
qed

section \<open>What a worker may count on\<close>

text \<open>
  The state of a worker in each phase: the document is the one it was started with; the tasks made so far are a
  prefix of the document's, \<open>idMap\<close> has their short keys and no other, and counts are those of what was done.
\<close>

fun phase_ok :: "import_lib \<Rightarrow> string \<Rightarrow> import_phase \<Rightarrow> bool" where
  "phase_ok lib document (MakingProject doc) \<longleftrightarrow> unmarshal lib document = Inr doc"
| "phase_ok lib document (MakingTask doc proj m n rest) \<longleftrightarrow> unmarshal lib document = Inr doc \<and>
     n + length rest = length (id_Tasks doc) \<and> rest = drop n (id_Tasks doc) \<and> dom m = shortKey doc ` set (take n (id_Tasks doc))"
| "phase_ok lib document (Creating doc proj m n it rest) \<longleftrightarrow> unmarshal lib document = Inr doc \<and>
     n + length rest < length (id_Tasks doc) \<and> it # rest = drop n (id_Tasks doc) \<and> dom m = shortKey doc ` set (take n (id_Tasks doc))"
| "phase_ok lib document (Joining doc proj m n taskID it rest) \<longleftrightarrow> unmarshal lib document = Inr doc \<and>
     n + length rest = length (id_Tasks doc) \<and> rest = drop n (id_Tasks doc) \<and> dom m = shortKey doc ` set (take n (id_Tasks doc)) \<and>
     m (shortKey doc it) = Some taskID"
| "phase_ok lib document (Wiring doc proj m n k edges) \<longleftrightarrow> unmarshal lib document = Inr doc \<and>
     n = length (id_Tasks doc) \<and> dom m = shortKey doc ` set (id_Tasks doc) \<and> k + length edges = length (references doc) \<and>
     edges = drop k (edgesOf doc m)"
| "phase_ok lib document (Reporting proj n k) \<longleftrightarrow>
     (\<exists>doc. unmarshal lib document = Inr doc \<and> n = length (id_Tasks doc) \<and> k = length (references doc))"
| "phase_ok lib document _ \<longleftrightarrow> True"

lemma edgesOf_deps: "map (\<lambda>(name, fromID, dep). dep) (edgesOf doc m) = references doc"
  unfolding edgesOf_def references_def by (simp add: map_concat comp_def)

lemma drop_Cons_length: "x # xs = drop n ys \<Longrightarrow> n < length ys \<and> xs = drop (Suc n) ys \<and> take (Suc n) ys = take n ys @ [x]"
  by (metis Cons_nth_drop_Suc drop_all leI list.discI list.inject take_Suc_conv_app_nth)

lemma wired_all:
  assumes "phase_ok lib document (Wiring doc proj m n k ((name, fromID, dep) # rest))" and "validDoc doc"
  shows "\<exists>toID. m dep = Some toID"
proof -
  have "(name, fromID, dep) \<in> set (edgesOf doc m)" using assms(1) by simp (metis in_set_dropD list.set_intros(1))
  then have "dep \<in> set (references doc)" unfolding edgesOf_deps [of doc m, symmetric] by force
  then have "dep \<in> dom m" using assms by (auto simp: validDoc_iff)
  then show ?thesis by blast
qed

lemma phase_ok_step:
  assumes run: "workerStep lib i document done phase s = (Inr (phase', lines), t)" and ok: "phase_ok lib document phase"
    and valid: "validateImportDoc lib document = Inr ()"
  shows "phase_ok lib document phase'"
proof -
  have doc: "validDoc doc" if "unmarshal lib document = Inr doc" for doc
    using valid that by (auto simp: validateImportDoc_def split: if_splits)
  show ?thesis
  proof (cases phase)
    case (MakingTask doc proj m n rest)
    with run ok show ?thesis by (cases rest) (auto simp: ret_Inr edgesOf_deps [symmetric] length_edgesOf split: if_splits)
  next
    case (Creating doc proj m n it rest)
    with ok have "it # rest = drop n (id_Tasks doc)" by simp
    note drop_Cons_length [OF this]
    with Creating run ok show ?thesis by (auto simp: tried ret_Inr Let_def shortKey_def)
  next
    case (Wiring doc proj m n k edges)
    show ?thesis
    proof (cases edges)
      case Nil
      with Wiring run ok show ?thesis by (auto simp: ret_Inr)
    next
      case (Cons e rest)
      obtain name fromID dep where e: "e = (name, fromID, dep)" by (cases e)
      have here: "phase_ok lib document (Wiring doc proj m n k ((name, fromID, dep) # rest))" using ok unfolding Wiring Cons e .
      have "unmarshal lib document = Inr doc" using here by simp
      from wired_all [OF here doc [OF this]] obtain toID where to: "m dep = Some toID" ..
      have "rest = drop (Suc k) (edgesOf doc m)" using ok Wiring Cons drop_Cons_length [of e rest k "edgesOf doc m"] by simp
      with Wiring Cons e to run ok show ?thesis by (auto simp: tried ret_Inr)
    qed
  qed (use run ok in \<open>auto simp: tried ret_Inr split: sum.splits if_splits\<close>)
qed

lemma workers_ok_step:
  assumes "import_step lib y a y'" and ok: "\<And>i w. sy_Jobs y i = Some w \<Longrightarrow>
      validateImportDoc lib (iw_Document w) = Inr () \<and> phase_ok lib (iw_Document w) (iw_Phase w)"
    and w: "sy_Jobs y' i = Some w"
  shows "validateImportDoc lib (iw_Document w) = Inr () \<and> phase_ok lib (iw_Document w) (iw_Phase w)"
  using assms(1)
proof (cases rule: import_step.cases)
  case (started document r)
  show ?thesis using StartImportProject_cases [OF started(2)] w ok by (auto split: if_splits)
next
  case (worked j v)
  show ?thesis
  proof (cases "iw_Phase v = Leaving")
    case True
    with worked w ok show ?thesis by (auto simp: workerMove_def split: if_splits)
  next
    case False
    obtain ph lines s where run: "workerStep lib j (iw_Document v) (iw_Cancelled v) (iw_Phase v) (sy_World y) = (Inr (ph, lines), s)"
      using workerStep_total by metis
    from ok [OF worked(3)] phase_ok_step [OF run] run worked w ok False show ?thesis
      by (auto simp: workerMove_def split: if_splits)
  qed
next
  case (checked ctx j z)
  with cancelCheck_same [OF checked(3)] w ok show ?thesis by simp
next
  case (signalled j)
  with w ok show ?thesis by (auto simp: cancelSignal_def split: option.splits if_splits)
next
  case (written j r z)
  with onWorld_sel(2) [OF written(4)] w ok show ?thesis by simp
next
  case (others s)
  with w ok show ?thesis by simp
qed

lemma workers_ok_run:
  assumes "import_run lib y acts y'" and "\<And>i w. sy_Jobs y i = Some w \<Longrightarrow>
      validateImportDoc lib (iw_Document w) = Inr () \<and> phase_ok lib (iw_Document w) (iw_Phase w)"
    and "sy_Jobs y' i = Some w"
  shows "validateImportDoc lib (iw_Document w) = Inr () \<and> phase_ok lib (iw_Document w) (iw_Phase w)"
  using assms by (induction arbitrary: i w rule: import_run.induct) (blast dest: workers_ok_step)+

text \<open>
  C34. A worker's state fits its document in every state the service can reach: the document it holds was accepted, the
  tasks done are the first ones of the document, \<open>idMap\<close> has exactly their short keys; no reference is
  ever dropped for want of a task; and what it reports at the end is one task for each of the document's
  and one edge for each reference.
\<close>

theorem import_workers_typed:
  assumes run: "import_run lib y acts y'" and idle: "sy_Jobs y = Map.empty" and w: "sy_Jobs y' i = Some w"
  shows "\<exists>doc. unmarshal lib (iw_Document w) = Inr doc \<and> validDoc doc \<and> phase_ok lib (iw_Document w) (iw_Phase w) \<and>
    (\<forall>doc' proj m n k name fromID dep rest.
       iw_Phase w = Wiring doc' proj m n k ((name, fromID, dep) # rest) \<longrightarrow> m dep \<noteq> None) \<and>
    (\<forall>proj n k. iw_Phase w = Reporting proj n k \<longrightarrow> n = length (id_Tasks doc) \<and> k = length (references doc))"
proof -
  from workers_ok_run [OF run _ w] idle have ok: "validateImportDoc lib (iw_Document w) = Inr ()"
    "phase_ok lib (iw_Document w) (iw_Phase w)" by simp_all
  from ok(1) obtain doc where doc: "unmarshal lib (iw_Document w) = Inr doc" "validDoc doc"
    by (auto simp: validateImportDoc_def split: sum.splits if_splits)
  have "m dep \<noteq> None" if "iw_Phase w = Wiring doc' proj m n k ((name, fromID, dep) # rest)" for doc' proj m n k name fromID dep rest
  proof -
    from ok(2) have here: "phase_ok lib (iw_Document w) (Wiring doc' proj m n k ((name, fromID, dep) # rest))" unfolding that .
    then have "doc' = doc" using doc by simp
    with wired_all [OF here] doc show ?thesis by auto
  qed
  moreover have "n = length (id_Tasks doc) \<and> k = length (references doc)" if "iw_Phase w = Reporting proj n k" for proj n k
    using ok(2) doc unfolding that by simp
  ultimately show ?thesis using doc ok(2) by blast
qed

theorem import_workers_typed_witness:
  "\<exists>job y w. StartImportProject demoLib ''demo'' idleService = (Inr job, y) \<and> sy_Jobs y (ij_ID job) = Some w \<and>
     unmarshal demoLib (iw_Document w) = Inr twoTasks \<and> validDoc twoTasks"
proof -
  from demo_started obtain job y where start: "StartImportProject demoLib ''demo'' idleService = (Inr job, y)" by blast
  have run: "import_run demoLib idleService [Start] y" by (rule import_run.there [OF import_step.started [OF start] import_run.here])
  from StartImportProject_cases [OF start] obtain w where w: "sy_Jobs y (ij_ID job) = Some w" "iw_Document w = ''demo''" by auto
  from import_workers_typed [OF run _ w(1)] w start show ?thesis by (fastforce simp: idleService_def demoLib_def)
qed

section \<open>What a cancellation achieves\<close>

text \<open>The rest of a worker's life with nothing in between: \<open>runImport\<close> from where it stands.\<close>

function runImport :: "import_lib \<Rightarrow> string \<Rightarrow> import_sys \<Rightarrow> import_sys" where
  "runImport lib i y = (case sy_Jobs y i of None \<Rightarrow> y | Some w \<Rightarrow> runImport lib i (workerMove lib i w y))"
  by auto

termination
  by (relation "measure (\<lambda>(lib, i, y). workLeft lib i y)") (auto intro: workLeft_move)

declare runImport.simps [simp del]

text \<open>The last word on a cancelled job, by the phase its worker was in.\<close>

fun fate :: "import_phase \<Rightarrow> job_status" where
  "fate Starting = JobCancelled"
| "fate Parsing = JobFailed"
| "fate (MakingProject doc) = JobFailed"
| "fate (MakingTask doc proj m n []) = (if references doc = [] then JobCompleted else JobFailed)"
| "fate (MakingTask doc proj m n (it # rest)) = JobCancelled"
| "fate (Creating doc proj m n it rest) = JobFailed"
| "fate (Joining doc proj m n taskID it rest) = JobFailed"
| "fate (Wiring doc proj m n k []) = JobCompleted"
| "fate (Wiring doc proj m n k (e # rest)) = JobFailed"
| "fate (Reporting proj n k) = JobCompleted"
| "fate (Failing msg) = JobFailed"
| "fate Aborting = JobCancelled"
| "fate Leaving = JobCancelled"

lemma fate_step:
  assumes run: "workerStep lib i document True phase s = (Inr (phase', lines), t)" and calm: "w_faults s = []"
    and ok: "phase_ok lib document phase" and valid: "validateImportDoc lib document = Inr ()" and "phase \<noteq> Leaving"
  shows "if phase' = Leaving then phase = Starting \<and> jobView (w_db t) = jobView (w_db s) \<or>
       jobView (w_db t) = setView i (fate phase) (jobView (w_db s))
     else fate phase' = fate phase \<and> jobView (w_db t) = jobView (w_db s)"
proof (cases "writesJob phase")
  case True
  have st: "jobView (w_db (snd (updateImportJobStatus i st msg s))) = setView i st (jobView (w_db s))"
    "jobView (w_db (snd (completeImportJob i n k name s))) = setView i JobCompleted (jobView (w_db s))" for st msg n k name
    using status_written(1) [of i st msg s] status_written(2) [of i n k name s] calm by auto
  from True run show ?thesis
    by (cases phase) (use st in \<open>auto simp: tried underCtx_def fail_def ret_Inr\<close>)
next
  case False
  have doc: "\<exists>doc. unmarshal lib document = Inr doc" using valid by (auto simp: validateImportDoc_def split: sum.splits)
  have "fate phase' = fate phase \<and> phase' \<noteq> Leaving"
  proof (cases phase)
    case (MakingTask d proj m n rest)
    with run length_edgesOf [of d m] show ?thesis by (cases rest; cases "edgesOf d m") (auto simp: ret_Inr)
  next
    case (Wiring d proj m n k edges)
    show ?thesis
    proof (cases edges)
      case (Cons e rest)
      obtain name fromID dep where e: "e = (name, fromID, dep)" by (cases e)
      have here: "phase_ok lib document (Wiring d proj m n k ((name, fromID, dep) # rest))" using ok unfolding Wiring Cons e .
      moreover have "validDoc d" using valid here by (auto simp: validateImportDoc_def split: if_splits)
      ultimately obtain toID where "m dep = Some toID" using wired_all by blast
      with run Wiring Cons e show ?thesis by (auto simp: tried underCtx_def fail_def ret_Inr)
    qed (use run Wiring in \<open>auto simp: ret_Inr\<close>)
  qed (use run False doc assms(5) in \<open>auto simp: tried underCtx_def fail_def ret_Inr\<close>)
  with workerStep_jobs [OF run False] show ?thesis by (simp add: jobView_def)
qed

lemma workerMove_sel:
  assumes "workerStep lib i (iw_Document w) (iw_Cancelled w) (iw_Phase w) (sy_World y) = (Inr (ph, lines), s)"
    and "iw_Phase w \<noteq> Leaving"
  shows "workerMove lib i w y = y\<lparr>sy_World := s, sy_Jobs := (sy_Jobs y)(i \<mapsto> w\<lparr>iw_Phase := ph, iw_Steps := iw_Steps w @ lines\<rparr>)\<rparr>"
  using assms by (simp add: workerMove_def)

lemma runImport_leaving:
  assumes "sy_Jobs y i = Some w" and "iw_Phase w = Leaving"
  shows "runImport lib i y = y\<lparr>sy_Jobs := (sy_Jobs y)(i := None)\<rparr>"
  using assms by (subst runImport.simps, simp, subst runImport.simps) (simp add: workerMove_def)

lemma runImport_ids: "map fst (jobView (w_db (sy_World (runImport lib i y)))) = map fst (jobView (w_db (sy_World y)))"
proof (induction lib i y rule: runImport.induct)
  case (1 lib i y)
  show ?case
  proof (cases "sy_Jobs y i")
    case (Some w)
    have move: "map fst (jobView (w_db (sy_World (workerMove lib i w y)))) = map fst (jobView (w_db (sy_World y)))"
    proof (cases "iw_Phase w = Leaving")
      case False
      obtain ph lines s where run: "workerStep lib i (iw_Document w) (iw_Cancelled w) (iw_Phase w) (sy_World y) = (Inr (ph, lines), s)"
        using workerStep_total by metis
      from workerStep_view [OF run] workerMove_sel [OF run False] show ?thesis by auto
    qed (simp add: workerMove_def)
    with 1 [OF Some] Some show ?thesis by (subst runImport.simps) simp
  qed (subst runImport.simps, simp)
qed

lemma runImport_fate:
  assumes "sy_Jobs y i = Some w" and "iw_Cancelled w" and "w_faults (sy_World y) = []"
    and "phase_ok lib (iw_Document w) (iw_Phase w)" and "validateImportDoc lib (iw_Document w) = Inr ()"
    and "\<And>st. (i, st) \<in> set (jobView (w_db (sy_World y))) \<Longrightarrow> st = JobCancelled"
  shows "sy_Jobs (runImport lib i y) i = None \<and>
    (\<forall>st. (i, st) \<in> set (jobView (w_db (sy_World (runImport lib i y)))) \<longrightarrow> st = fate (iw_Phase w))"
  using assms
proof (induction lib i y arbitrary: w rule: runImport.induct)
  case (1 lib i y)
  note w = 1(2) and valid = 1(6) and cancelled = 1(3) and calm = 1(4) and ok = 1(5) and rows = 1(7)
  show ?case
  proof (cases "iw_Phase w = Leaving")
    case True
    with runImport_leaving [OF w True] rows show ?thesis by simp
  next
    case False
    obtain ph lines s where run: "workerStep lib i (iw_Document w) True (iw_Phase w) (sy_World y) = (Inr (ph, lines), s)"
      using workerStep_total by metis
    define v where "v = w\<lparr>iw_Phase := ph, iw_Steps := iw_Steps w @ lines\<rparr>"
    define z where "z = y\<lparr>sy_World := s, sy_Jobs := (sy_Jobs y)(i \<mapsto> v)\<rparr>"
    have move: "workerMove lib i w y = z"
      using workerMove_sel [of lib i w y ph lines s] run False cancelled by (simp add: z_def v_def)
    have step: "runImport lib i y = runImport lib i z" by (subst runImport.simps) (simp add: w move)
    have z: "sy_Jobs z i = Some v" "sy_World z = s" by (simp_all add: z_def)
    note eff = fate_step [OF run calm ok valid False]
    show ?thesis
    proof (cases "ph = Leaving")
      case True
      then have "runImport lib i z = z\<lparr>sy_Jobs := (sy_Jobs z)(i := None)\<rparr>" by (intro runImport_leaving [OF z(1)]) (simp add: v_def)
      moreover have "st = fate (iw_Phase w)" if "(i, st) \<in> set (jobView (w_db s))" for st
        using that eff True rows by (auto simp: setView_iff)
      ultimately show ?thesis unfolding step by (simp add: z)
    next
      case running: False
      have "sy_Jobs (runImport lib i z) i = None \<and>
        (\<forall>st. (i, st) \<in> set (jobView (w_db (sy_World (runImport lib i z)))) \<longrightarrow> st = fate (iw_Phase v))"
      proof (rule 1(1) [OF w, unfolded move])
        show "sy_Jobs z i = Some v" by (rule z)
        show "iw_Cancelled v" using cancelled by (simp add: v_def)
        show "w_faults (sy_World z) = []" using steadyD(1) [OF steady_workerStep run calm] by (simp add: z)
        show "phase_ok lib (iw_Document v) (iw_Phase v)" using phase_ok_step [OF run ok valid] by (simp add: v_def)
        show "validateImportDoc lib (iw_Document v) = Inr ()" using valid by (simp add: v_def)
        show "st = JobCancelled" if "(i, st) \<in> set (jobView (w_db (sy_World z)))" for st
          using that eff running rows by (simp add: z)
      qed
      with eff running show ?thesis unfolding step by (simp add: v_def)
    qed
  qed
qed

lemma CancelImportProject_Inr:
  assumes cancel: "CancelImportProject done i y = (Inr (), y')" and w: "sy_Jobs y i = Some w" and calm: "w_faults (sy_World y) = []"
  shows "sy_Jobs y' i = Some (w\<lparr>iw_Cancelled := True\<rparr>) \<and> w_faults (sy_World y') = [] \<and>
    jobView (w_db (sy_World y')) = setView i JobCancelled (jobView (w_db (sy_World y)))"
proof -
  obtain q z where check: "cancelCheck done i y = (q, z)" by fastforce
  with cancel have q: "q = Inr ()" by (cases q) (auto simp: CancelImportProject_def)
  with cancel check have wr: "onWorld (updateImportJobStatus i JobCancelled []) (cancelSignal i z) = (Inr (), y')"
    by (simp add: CancelImportProject_def)
  note same = cancelCheck_same [OF check] and y' = onWorld_sel [OF wr]
  have sig: "sy_World (cancelSignal i z) = sy_World z" "sy_Jobs (cancelSignal i z) i = Some (w\<lparr>iw_Cancelled := True\<rparr>)"
    using same w by (simp_all add: cancelSignal_def)
  have calm': "w_faults (sy_World z) = []" using same calm by simp
  have "jobView (w_db (sy_World y')) = setView i JobCancelled (jobView (w_db (sy_World z)))"
    using status_writes(1) [OF y'(1)] calm' sig by auto
  with same sig y' steadyD(1) [OF steady_imports(2) y'(1)] calm' show ?thesis by simp
qed

text \<open>
  C35. What a cancellation that was accepted achieves depends on where the worker stands, and \<open>fate\<close> is the status the
  job ends with: a worker at its start or at the head of the loop over the tasks leaves the job cancelled; one
  inside a call of the loop, or with references left, fails the job; one that has written its last
  reference completes it. In the last two cases the row that said cancelled is overwritten.
\<close>

theorem import_cancel_fate:
  assumes cancel: "CancelImportProject False i y = (Inr (), y')" and w: "sy_Jobs y i = Some w"
    and calm: "w_faults (sy_World y) = []"
    and ok: "phase_ok lib (iw_Document w) (iw_Phase w)" "validateImportDoc lib (iw_Document w) = Inr ()"
  shows "(\<forall>job \<in> set (d_importJobs (w_db (sy_World y'))). ij_ID job = i \<longrightarrow> ij_Status job = JobCancelled) \<and>
    sy_Jobs (runImport lib i y') i = None \<and>
    (\<forall>job \<in> set (d_importJobs (w_db (sy_World (runImport lib i y')))). ij_ID job = i \<longrightarrow> ij_Status job = fate (iw_Phase w))"
proof -
  from CancelImportProject_Inr [OF cancel w calm] have y': "sy_Jobs y' i = Some (w\<lparr>iw_Cancelled := True\<rparr>)"
      "w_faults (sy_World y') = []"
    and rows: "\<And>st. (i, st) \<in> set (jobView (w_db (sy_World y'))) \<Longrightarrow> st = JobCancelled"
    by (auto simp: setView_iff)
  have view: "(ij_ID job, ij_Status job) \<in> set (jobView d)" if "job \<in> set (d_importJobs d)" for job d
    using that by (auto simp: jobView_def)
  have "sy_Jobs (runImport lib i y') i = None \<and>
    (\<forall>st. (i, st) \<in> set (jobView (w_db (sy_World (runImport lib i y')))) \<longrightarrow> st = fate (iw_Phase w))"
    using runImport_fate [OF y'(1) _ y'(2) _ _ rows, of lib] ok by simp
  with rows view show ?thesis by metis
qed

text \<open>Cancelled after the last reference was written: the job is completed all the same.\<close>

definition lateCancel :: import_sys where
  "lateCancel = \<lparr>sy_World = worldOf (emptyDb\<lparr>d_importJobs := [job0\<lparr>ij_ID := ''j'', ij_Status := JobRunning\<rparr>]\<rparr>),
     sy_Jobs = [''j'' \<mapsto> \<lparr>iw_Document = ''demo'', iw_Steps = [], iw_Cancelled = False,
       iw_Phase = Reporting (projectFor twoTasks) 2 1\<rparr>], sy_Cancels = []\<rparr>"

lemma map_single: "map f xs = [y] \<Longrightarrow> \<exists>x. xs = [x] \<and> f x = y"
  by (cases xs) auto

theorem import_cancel_fate_witness:
  "\<exists>y'. CancelImportProject False ''j'' lateCancel = (Inr (), y') \<and>
     map ij_Status (d_importJobs (w_db (sy_World y'))) = [JobCancelled] \<and>
     map ij_Status (d_importJobs (w_db (sy_World (runImport demoLib ''j'' y')))) = [JobCompleted]"
proof -
  have calm: "w_faults (sy_World lateCancel) = []" by (simp add: lateCancel_def)
  obtain r y' where cancel0: "CancelImportProject False ''j'' lateCancel = (r, y')" by fastforce
  have "fst (CancelImportProject False ''j'' lateCancel) = Inr ()"
    by (simp add: CancelImportProject_def cancelCheck_def GetImportProjectStatus_def onWorld_def underCtx_def takeQ_calm
        lateCancel_def terminalJob_def job0_def cancelSignal_def updateImportJobStatus_def bnd_def seq_def nowStr_def nowT_def
        ret_def updateQ_calm)
  with cancel0 have cancel: "CancelImportProject False ''j'' lateCancel = (Inr (), y')" by simp
  obtain w where w: "sy_Jobs lateCancel ''j'' = Some w" "iw_Document w = ''demo''" "iw_Phase w = Reporting (projectFor twoTasks) 2 1"
    by (simp add: lateCancel_def)
  have ok: "phase_ok demoLib (iw_Document w) (iw_Phase w)" "validateImportDoc demoLib (iw_Document w) = Inr ()"
    unfolding w(2,3) by (simp_all add: demo_valid) (simp add: demoLib_def references_def twoTasks_def)
  note fate = import_cancel_fate [OF cancel w(1) calm ok]
  have view: "map fst (jobView d) = map ij_ID (d_importJobs d)" for d by (simp add: jobView_def)
  have ids: "map ij_ID (d_importJobs (w_db (sy_World y'))) = [''j'']"
    using CancelImportProject_Inr [OF cancel w(1) calm] unfolding view [symmetric] by (simp add: lateCancel_def jobView_def setView_def)
  then have ids': "map ij_ID (d_importJobs (w_db (sy_World (runImport demoLib ''j'' y')))) = [''j'']"
    using runImport_ids [of demoLib "''j''" y'] unfolding view by simp
  from map_single [OF ids] obtain j1 where j1: "d_importJobs (w_db (sy_World y')) = [j1]" "ij_ID j1 = ''j''" by blast
  from map_single [OF ids'] obtain j2 where j2: "d_importJobs (w_db (sy_World (runImport demoLib ''j'' y'))) = [j2]" "ij_ID j2 = ''j''"
    by blast
  from fate j1 j2 w(3) have "ij_Status j1 = JobCancelled" "ij_Status j2 = JobCompleted" by simp_all
  with cancel j1 j2 show ?thesis by (intro exI [of _ y']) simp
qed

section \<open>The blocking call returns\<close>

lemma awaitImport_returns:
  assumes "m \<le> n" and "fst (env n) \<or> pollImport (fst (snd (env n))) i (snd (snd (env n))) \<noteq> None"
  shows "\<exists>x. awaitImport i env m = Some x"
  using assms
proof (induction "n - m" arbitrary: m)
  case 0
  then have "m = n" by simp
  with 0 show ?case by (subst awaitImport.simps) (auto split: prod.split option.split)
next
  case (Suc k)
  then have "\<exists>x. awaitImport i env (Suc m) = Some x" by (intro Suc.hyps(1)) auto
  then show ?case by (subst awaitImport.simps) (auto split: prod.split option.split)
qed

text \<open>A job that is over is seen to be so, if only the read does not fail; and a read that fails ends the wait too.\<close>

lemma pollImport_over:
  assumes "i \<in> jobIds y" and "i \<notin> openRows y"
  shows "pollImport done i y \<noteq> None"
proof -
  let ?m = "underCtx done (takeQ importJobsT (\<lambda>j. ij_ID j = i) ErrImportJobNotFound)"
  obtain r z where run: "onWorld ?m y = (r, z)" by fastforce
  show ?thesis
  proof (cases r)
    case (Inl e)
    with run show ?thesis by (simp add: pollImport_def GetImportProjectStatus_def)
  next
    case (Inr job)
    have "takeQ importJobsT (\<lambda>j. ij_ID j = i) ErrImportJobNotFound (sy_World y) = (Inr job, sy_World z)"
      using onWorld_sel(1) [OF run] Inr by (auto simp: underCtx_def fail_def split: if_splits)
    from takeQ_run [OF this] have row: "job \<in> set (d_importJobs (w_db (sy_World y)))" "ij_ID job = i" by (auto dest: find_Some_in)
    then have "(i, ij_Status job) \<in> set (jobView (w_db (sy_World y)))" by (force simp: jobView_def)
    with assms(2) have "terminalJob (ij_Status job)" unfolding openRows_def by blast
    with run Inr show ?thesis
      by (auto simp: pollImport_def GetImportProjectStatus_def terminalJob_def split: option.split)
  qed
qed

text \<open>
  C38. The blocking import returns: when no statement fails, nobody else cancels the job, and between two polls the worker
  gets to move as long as it is there, the call answers after finitely many polls, whatever the other requests
  of the service do in between.
\<close>

theorem ImportProject_returns:
  assumes start: "StartImportProject lib document y = (Inr job, y')" and att: "attended y"
    and reach: "import_run lib y' acts0 (snd (snd (env y' 0)))"
      "\<And>n. import_run lib (snd (snd (env y' n))) (acts n) (snd (snd (env y' (Suc n))))"
    and fair: "\<And>n. sy_Jobs (snd (snd (env y' n))) (ij_ID job) \<noteq> None \<Longrightarrow> Work (ij_ID job) \<in> set (acts n)"
    and alone: "\<And>n. ij_ID job \<notin> fst ` set (sy_Cancels (snd (snd (env y' n))))"
  shows "\<exists>x. ImportProject lib document y env = Some x"
proof -
  let ?i = "ij_ID job" and ?y = "\<lambda>n. snd (snd (env y' n))"
  have att0: "attended y'" by (rule attended_started [OF att start])
  have ids0: "?i \<in> jobIds y'" using StartImportProject_cases [OF start] by (auto simp: jobIds_view)
  have inv: "attended (?y n) \<and> ?i \<in> jobIds (?y n)" for n
  proof (induction n)
    case 0
    from attended_run [OF reach(1) att0] work_run [OF reach(1) ids0] show ?case by blast
  next
    case (Suc n)
    from attended_run [OF reach(2) [of n]] work_run [OF reach(2) [of n]] Suc show ?case by blast
  qed
  have "\<exists>n. ?i \<notin> openRows (?y n)"
  proof (rule ccontr)
    assume none: "\<nexists>n. ?i \<notin> openRows (?y n)"
    have less: "workLeft lib ?i (?y (Suc n)) < workLeft lib ?i (?y n)" for n
    proof -
      have "working (?y n) ?i" using attendedD(2) [of "?y n" ?i] inv [of n] none alone [of n] by blast
      then have "Work ?i \<in> set (acts n)" by (intro fair) (auto simp: working_def)
      then have "0 < count_list (acts n) (Work ?i)" by (metis count_notin count_list_0_iff neq0_conv)
      with work_run [OF reach(2) [of n], of ?i] inv [of n] show ?thesis by linarith
    qed
    have "workLeft lib ?i (?y n) + n \<le> workLeft lib ?i (?y 0)" for n
    proof (induction n)
      case (Suc n)
      with less [of n] show ?case by linarith
    qed simp
    from this [of "Suc (workLeft lib ?i (?y 0))"] show False by simp
  qed
  then obtain n where over: "?i \<notin> openRows (?y n)" by blast
  have "pollImport (fst (snd (env y' n))) ?i (?y n) \<noteq> None" by (rule pollImport_over [OF _ over]) (use inv [of n] in simp)
  with awaitImport_returns [of 0 n "env y'" ?i] have "\<exists>x. awaitImport ?i (env y') 0 = Some x" by blast
  with start show ?thesis by (simp add: ImportProject_def)
qed

text \<open>An environment that moves the worker once before each poll.\<close>

definition oneMove :: "import_lib \<Rightarrow> string \<Rightarrow> import_sys \<Rightarrow> import_sys" where
  "oneMove lib i y = (case sy_Jobs y i of None \<Rightarrow> y | Some w \<Rightarrow> workerMove lib i w y)"

lemma oneMove_cancels: "sy_Cancels ((oneMove lib i ^^ n) y) = sy_Cancels y"
proof (induction n)
  case (Suc n)
  have "sy_Cancels (oneMove lib i z) = sy_Cancels z" for z
    using workerStep_total by (auto simp: oneMove_def workerMove_def split: option.split prod.split sum.split)
  with Suc show ?case by simp
qed simp

lemma oneMove_run: "import_run lib y (if sy_Jobs y i = None then [] else [Work i]) (oneMove lib i y)"
  by (cases "sy_Jobs y i") (auto simp: oneMove_def intro: import_run.intros import_step.worked)

theorem ImportProject_returns_witness:
  "\<exists>job. fst (StartImportProject demoLib ''demo'' idleService) = Inr job \<and>
     (\<exists>x. ImportProject demoLib ''demo'' idleService (\<lambda>y n. (False, False, (oneMove demoLib (ij_ID job) ^^ n) y)) = Some x)"
proof -
  from demo_started obtain job y where start: "StartImportProject demoLib ''demo'' idleService = (Inr job, y)" by blast
  let ?env = "\<lambda>(y :: import_sys) (n :: nat). (False, False, (oneMove demoLib (ij_ID job) ^^ n) y)"
  let ?acts = "\<lambda>n. if sy_Jobs ((oneMove demoLib (ij_ID job) ^^ n) y) (ij_ID job) = None then [] else [Work (ij_ID job)]"
  have att: "attended idleService"
    by (simp add: attended_def idleService_def calmWorld_def emptyDb_def openRows_def jobView_def)
  have "\<exists>x. ImportProject demoLib ''demo'' idleService ?env = Some x"
  proof (rule ImportProject_returns [OF start att, where acts = ?acts and ?acts0.0 = "[]"])
    show "import_run demoLib y [] (snd (snd (?env y 0)))" by (simp add: import_run.here)
    show "import_run demoLib (snd (snd (?env y n))) (?acts n) (snd (snd (?env y (Suc n))))" for n
      using oneMove_run [of demoLib "(oneMove demoLib (ij_ID job) ^^ n) y" "ij_ID job"] by simp
    show "Work (ij_ID job) \<in> set (?acts n)" if "sy_Jobs (snd (snd (?env y n))) (ij_ID job) \<noteq> None" for n
      using that by simp
    have "sy_Cancels y = []" using StartImportProject_cases [OF start] by (auto simp: idleService_def)
    then show "ij_ID job \<notin> fst ` set (sy_Cancels (snd (snd (?env y n))))" for n by (simp add: oneMove_cancels)
  qed
  with start show ?thesis by auto
qed

text \<open>
  The cancellation a caller's deadline is meant to send does not arrive: under a context that is done the read
  of the job fails before the worker is signalled, so nothing changes and the import goes on.
\<close>

lemma CancelImportProject_expired: "CancelImportProject True i y = (Inl ErrContextDone, y)"
  by (simp add: CancelImportProject_def cancelCheck_def GetImportProjectStatus_def onWorld_def underCtx_def fail_def)

lemma ImportProject_deadline:
  assumes "StartImportProject lib document y = (Inr job, y')" and "fst (env y' 0)"
  shows "ImportProject lib document y env = Some (Inl ErrContextDone, snd (snd (env y' 0)))"
  using assms by (cases "env y' 0") (simp add: ImportProject_def, subst awaitImport.simps, simp add: CancelImportProject_expired)

end
