(* ===== verification/Integrity.thy ===== *)
theory Integrity
  imports Board_Rank State_Path Failure_Budget Unblock Step_Limit Watchdog Case_Votes Run_Closure Generated Sourced
    Overdue Repeating Identity Import_Jobs
begin

text \<open>
  What the database schema of this package does not promise and every request keeps: primary keys and
  edges are unique, no row points at a task, project, tag, case or template that is not stored, a task
  that is over says when, the flag of a run agrees with its status, a task has one open stretch of
  assignment, and votes are sound. The tables declare no foreign keys: that the pointers hold is the
  code's doing, by reading the target before it writes the pointer.
\<close>

section \<open>Pointers\<close>

datatype target = ToTask string | ToProject string | ToTag string | ToCase string | ToTemplate string

definition stored :: "db \<Rightarrow> target set" where
  "stored d = ToTask ` set (map t_ID (d_tasks d)) \<union> ToProject ` set (map p_ID (d_projects d)) \<union>
     ToTag ` set (map tg_ID (d_tags d)) \<union> ToCase ` set (map c_ID (d_cases d)) \<union>
     ToTemplate ` set (map rr_ID (d_repeating d))"

text \<open>The target table of the second end of a join row; the first end is always a task.\<close>

fun farEnd :: "join_table \<Rightarrow> string \<Rightarrow> target" where
  "farEnd JMembership b = ToProject b"
| "farEnd JTagging b = ToTag b"
| "farEnd _ b = ToTask b"

definition joinTargets :: "db \<Rightarrow> target set" where
  "joinTargets d = (\<Union>j. \<Union>p \<in> set (joinPairs j d). {ToTask (fst p), farEnd j (snd p)})"

lemma joinTargets_iff:
  "x \<in> joinTargets d \<longleftrightarrow> (\<exists>j a b. (a, b) \<in> set (joinPairs j d) \<and> (x = ToTask a \<or> x = farEnd j b))"
  unfolding joinTargets_def by fastforce

lemma joinPairs_other [simp]:
  "joinPairs j (d_tasks_update a d) = joinPairs j d" "joinPairs j (d_todos_update b d) = joinPairs j d"
  "joinPairs j (d_agents_update c d) = joinPairs j d" "joinPairs j (d_projects_update e d) = joinPairs j d"
  "joinPairs j (d_tags_update f d) = joinPairs j d" "joinPairs j (d_deliverables_update g d) = joinPairs j d"
  "joinPairs j (d_criteria_update h d) = joinPairs j d" "joinPairs j (d_runs_update i d) = joinPairs j d"
  "joinPairs j (d_sequences_update k d) = joinPairs j d" "joinPairs j (d_assignments_update l d) = joinPairs j d"
  "joinPairs j (d_cases_update m d) = joinPairs j d" "joinPairs j (d_caseTasks_update n d) = joinPairs j d"
  "joinPairs j (d_caseVotes_update p d) = joinPairs j d" "joinPairs j (d_generated_update q d) = joinPairs j d"
  "joinPairs j (d_sourced_update r d) = joinPairs j d" "joinPairs j (d_repeating_update s d) = joinPairs j d"
  "joinPairs j (d_periods_update t d) = joinPairs j d" "joinPairs j (d_importJobs_update u d) = joinPairs j d"
  by (cases j; simp)+

definition rowTargets :: "db \<Rightarrow> target set" where
  "rowTargets d =
     ToTask ` (set (map as_TaskID (d_assignments d)) \<union> set (map ct_TaskID (d_caseTasks d)) \<union>
       set (map gt_TaskID (d_generated d)) \<union> set (map so_TaskID (d_sourced d)) \<union> set (map rp_TaskID (d_periods d))) \<union>
     ToCase ` (set (map ct_CaseID (d_caseTasks d)) \<union> set (map v_CaseID (d_caseVotes d))) \<union>
     ToTemplate ` set (map rp_RepeatingTaskID (d_periods d))"

definition rowKeysUnique :: "db \<Rightarrow> bool" where
  "rowKeysUnique d \<longleftrightarrow>
     distinct (map t_ID (d_tasks d)) \<and> distinct (map td_ID (d_todos d)) \<and> distinct (map ag_ID (d_agents d)) \<and>
     distinct (map p_ID (d_projects d)) \<and> distinct (map tg_ID (d_tags d)) \<and> distinct (map r_ID (d_runs d)) \<and>
     distinct (map as_ID (d_assignments d)) \<and> distinct (map c_ID (d_cases d)) \<and>
     distinct (map ct_TaskID (d_caseTasks d)) \<and> distinct (map gt_SubjectKey (d_generated d)) \<and>
     distinct (map so_ItemKey (d_sourced d)) \<and> distinct (map rr_ID (d_repeating d)) \<and>
     distinct (map rp_PeriodKey (d_periods d)) \<and> distinct (map cs_EntityType (d_sequences d))"

definition edgesUnique :: "db \<Rightarrow> bool" where
  "edgesUnique d \<longleftrightarrow> (\<forall>j. distinct (joinPairs j d))"

text \<open>
  \<open>intact js K\<close>: the tables are as they should be, the import jobs are \<open>js\<close> and the targets \<open>K\<close> are stored.
  Targets are never removed, so what a request has read it may still point at when it writes.
\<close>

definition intact :: "import_job list \<Rightarrow> target set \<Rightarrow> db \<Rightarrow> bool" where
  "intact js K d \<longleftrightarrow> d_importJobs d = js \<and> K \<union> joinTargets d \<union> rowTargets d \<subseteq> stored d \<and>
     rowKeysUnique d \<and> edgesUnique d \<and> tasksDone d \<and> runsUnderWay d \<and> oneOpen d \<and> votesOk d"

lemma intactD:
  assumes "intact js K d"
  shows "d_importJobs d = js" "K \<subseteq> stored d" "joinTargets d \<subseteq> stored d" "rowTargets d \<subseteq> stored d"
    "rowKeysUnique d" "edgesUnique d" "tasksDone d" "runsUnderWay d" "oneOpen d" "votesOk d"
  using assms by (simp_all add: intact_def)

lemma intact_insert: "intact js (insert x K) d \<longleftrightarrow> intact js K d \<and> x \<in> stored d"
  by (auto simp: intact_def)

section \<open>Statements\<close>

text \<open>What each table asks of a statement.\<close>

named_theorems intact_intros \<open>introduction rules for preservation of \<open>intact\<close>\<close>

lemma intact_same:
  assumes "intact js K d" and "d_importJobs d' = d_importJobs d" "stored d' = stored d"
    and "joinTargets d' = joinTargets d" "edgesUnique d' = edgesUnique d"
    and "rowTargets d' = rowTargets d" "rowKeysUnique d' = rowKeysUnique d"
    and "tasksDone d \<Longrightarrow> tasksDone d'" "runsUnderWay d \<Longrightarrow> runsUnderWay d'" "oneOpen d \<Longrightarrow> oneOpen d'" "votesOk d \<Longrightarrow> votesOk d'"
  shows "intact js K d'"
  using assms by (simp add: intact_def)

lemmas intact_fields = stored_def joinTargets_def edgesUnique_def rowTargets_def rowKeysUnique_def map_updWhere_on
  tasksDone_def runsUnderWay_def oneOpen_def openStretches_def votesOk_def

lemma ball_updWhere:
  "(\<And>r. P r \<Longrightarrow> J r \<Longrightarrow> J (f r)) \<Longrightarrow> \<forall>r \<in> set rs. J r \<Longrightarrow> \<forall>r \<in> set (updWhere P f rs). J r"
  by (auto simp: set_updWhere)

lemma intact_tasks [intact_intros]:
  assumes "\<And>r. P r \<Longrightarrow> t_ID (f r) = t_ID r"
    and "\<And>r. P r \<Longrightarrow> isTerminalStatus (t_Status r) \<longrightarrow> t_CompletedAt r \<noteq> [] \<Longrightarrow>
      isTerminalStatus (t_Status (f r)) \<longrightarrow> t_CompletedAt (f r) \<noteq> []"
  shows "keeps (intact js K) (updateQ tasksT P f)"
  by (rule keeps_updateQ, erule intact_same)
    (simp_all add: intact_fields assms(1) del: list.set_map, erule ball_updWhere [rotated], rule assms(2))

lemma intact_runs [intact_intros]:
  assumes "\<And>r. P r \<Longrightarrow> r_ID (f r) = r_ID r"
    and "\<And>r. P r \<Longrightarrow> r_UnderWay r = (\<not> IsTerminal (r_Status r)) \<Longrightarrow> r_UnderWay (f r) = (\<not> IsTerminal (r_Status (f r)))"
  shows "keeps (intact js K) (updateQ runsT P f)"
  by (rule keeps_updateQ, erule intact_same)
    (simp_all add: intact_fields assms(1) del: list.set_map, erule ball_updWhere [rotated], rule assms(2))

lemma intact_cases [intact_intros]:
  assumes "\<And>r. c_ID (f r) = c_ID r" and "\<And>r. c_RequesterID (f r) = c_RequesterID r"
  shows "keeps (intact js K) (updateQ casesT P f)"
  by (rule keeps_updateQ, erule intact_same)
    (simp_all add: votesOk_cases [OF _ assms], simp_all add: intact_fields assms del: list.set_map)

lemma intact_todos [intact_intros]:
  "(\<And>r. P r \<Longrightarrow> td_ID (f r) = td_ID r) \<Longrightarrow> keeps (intact js K) (updateQ todosT P f)"
  by (rule keeps_updateQ, erule intact_same) (simp_all add: intact_fields del: list.set_map)

lemma intact_agents [intact_intros]:
  "(\<And>r. P r \<Longrightarrow> ag_ID (f r) = ag_ID r) \<Longrightarrow> keeps (intact js K) (updateQ agentsT P f)"
  by (rule keeps_updateQ, erule intact_same) (simp_all add: intact_fields del: list.set_map)

lemma intact_projects [intact_intros]:
  "(\<And>r. P r \<Longrightarrow> p_ID (f r) = p_ID r) \<Longrightarrow> keeps (intact js K) (updateQ projectsT P f)"
  by (rule keeps_updateQ, erule intact_same) (simp_all add: intact_fields del: list.set_map)

lemma intact_repeating [intact_intros]:
  "(\<And>r. P r \<Longrightarrow> rr_ID (f r) = rr_ID r) \<Longrightarrow> keeps (intact js K) (updateQ repeatingT P f)"
  by (rule keeps_updateQ, erule intact_same) (simp_all add: intact_fields del: list.set_map)

lemma intact_criteria [intact_intros]: "keeps (intact js K) (updateQ criteriaT P f)"
  by (rule keeps_updateQ, erule intact_same) (simp_all add: intact_fields del: list.set_map)

lemma intact_sequences [intact_intros]:
  "(\<And>r. P r \<Longrightarrow> cs_EntityType (f r) = cs_EntityType r) \<Longrightarrow> keeps (intact js K) (updateQ sequencesT P f)"
  by (rule keeps_updateQ, erule intact_same) (simp_all add: intact_fields del: list.set_map)

lemma intact_writeFK: "intact js K d \<Longrightarrow> intact js K (writeFK c i v d)"
  by (erule intact_same)
    (simp_all add: tasksDone_writeFK oneOpen_writeFK joinTargets_def edgesUnique_def del: writeFK.simps,
     (cases c; simp add: stored_def rowTargets_def rowKeysUnique_def runsUnderWay_def votesOk_def writeCol_def map_updWhere
        del: list.set_map)+)

text \<open>An insert adds a target, or points at targets that are stored; a delete takes a pointer away.\<close>

lemma intact_grow:
  assumes "intact js K d" and "d_importJobs d' = d_importJobs d" "stored d \<subseteq> stored d'"
    and "joinTargets d' = joinTargets d" "edgesUnique d' = edgesUnique d" "rowTargets d' = rowTargets d"
    and "rowKeysUnique d \<Longrightarrow> rowKeysUnique d'"
    and "tasksDone d \<Longrightarrow> tasksDone d'" "runsUnderWay d \<Longrightarrow> runsUnderWay d'" "oneOpen d \<Longrightarrow> oneOpen d'" "votesOk d \<Longrightarrow> votesOk d'"
  shows "intact js K d'"
  using assms unfolding intact_def by auto

lemma intact_point:
  assumes "intact js K d" and "d_importJobs d' = d_importJobs d" "stored d' = stored d"
    and "joinTargets d' \<subseteq> joinTargets d \<union> K" "edgesUnique d \<Longrightarrow> edgesUnique d'" "rowTargets d' \<subseteq> rowTargets d \<union> K"
    and "rowKeysUnique d \<Longrightarrow> rowKeysUnique d'"
    and "tasksDone d \<Longrightarrow> tasksDone d'" "runsUnderWay d \<Longrightarrow> runsUnderWay d'" "oneOpen d \<Longrightarrow> oneOpen d'" "votesOk d \<Longrightarrow> votesOk d'"
  shows "intact js K d'"
  using assms unfolding intact_def by auto

lemma intact_task_insert [intact_intros]:
  "(isTerminalStatus (t_Status t) \<Longrightarrow> t_CompletedAt t \<noteq> []) \<Longrightarrow> keeps (intact js K) (insertQ tasksT taskClash t)"
  by (rule keeps_insertQ, erule intact_grow) (auto simp: intact_fields taskClash_def)

lemma intact_run_insert [intact_intros]:
  "r_UnderWay r = (\<not> IsTerminal (r_Status r)) \<Longrightarrow> keeps (intact js K) (insertQ runsT runClash r)"
  by (rule keeps_insertQ, erule intact_grow) (auto simp: intact_fields runClash_def)

lemma intact_case_insert [intact_intros]: "keeps (intact js K) (insertQ casesT caseClash c)"
  by (rule keeps_insertQ, erule intact_grow) (simp_all add: votesOk_case_added, auto simp: intact_fields caseClash_def)

lemma intact_vertex_inserts [intact_intros]:
  "keeps (intact js K) (insertQ todosT todoClash a)"
  "keeps (intact js K) (insertQ agentsT agentClash b)"
  "keeps (intact js K) (insertQ projectsT projectClash p)"
  "keeps (intact js K) (insertQ tagsT tagClash g)"
  "keeps (intact js K) (insertQ repeatingT repeatingClash r)"
  by (rule keeps_insertQ, erule intact_grow;
      auto simp: intact_fields todoClash_def agentClash_def projectClash_def tagClash_def repeatingClash_def)+

lemma intact_row_inserts [intact_intros]:
  "ToTask (ct_TaskID l) \<in> K \<Longrightarrow> ToCase (ct_CaseID l) \<in> K \<Longrightarrow> keeps (intact js K) (insertQ caseTasksT linkClash l)"
  "ToTask (gt_TaskID g) \<in> K \<Longrightarrow> keeps (intact js K) (insertQ generatedT generatedClash g)"
  "ToTask (so_TaskID x) \<in> K \<Longrightarrow> keeps (intact js K) (insertQ sourcedT sourcedClash x)"
  "ToTask (rp_TaskID p) \<in> K \<Longrightarrow> ToTemplate (rp_RepeatingTaskID p) \<in> K \<Longrightarrow>
     keeps (intact js K) (insertQ periodsT periodClash p)"
  by (rule keeps_insertQ, erule intact_point;
      auto simp: intact_fields linkClash_def generatedClash_def sourcedClash_def periodClash_def)+

lemma intact_drop:
  assumes "intact js K d" and "\<And>j. set (joinPairs j d') \<subseteq> set (joinPairs j d)" and "edgesUnique d \<Longrightarrow> edgesUnique d'"
    and "d_importJobs d' = d_importJobs d" "stored d' = stored d" "rowTargets d' \<subseteq> rowTargets d" "rowKeysUnique d' = rowKeysUnique d"
    and "tasksDone d' = tasksDone d" "runsUnderWay d' = runsUnderWay d" "oneOpen d' = oneOpen d" "votesOk d \<Longrightarrow> votesOk d'"
  shows "intact js K d'"
  using assms(1)
proof (rule intact_point)
  show "joinTargets d' \<subseteq> joinTargets d \<union> K" using assms(2) by (fastforce simp: joinTargets_def)
qed (use assms in auto)

lemma joinPairs_deleted:
  "set (joinPairs j (d_taggings_update (delWhere P) d)) \<subseteq> set (joinPairs j d)"
  "set (joinPairs j (d_memberships_update (delWhere P') d)) \<subseteq> set (joinPairs j d)"
  by (cases j; auto simp: delWhere_def)+

lemma edgesUnique_deleted:
  "edgesUnique d \<Longrightarrow> edgesUnique (d_taggings_update (delWhere P) d)"
  "edgesUnique d \<Longrightarrow> edgesUnique (d_memberships_update (delWhere P') d)"
proof -
  assume one: "edgesUnique d"
  have "distinct (joinPairs j (d_taggings_update (delWhere P) d))" for j
    using one [unfolded edgesUnique_def, THEN spec, of j] by (cases j) (auto simp: delWhere_def distinct_map_filter)
  then show "edgesUnique (d_taggings_update (delWhere P) d)" by (simp add: edgesUnique_def)
  have "distinct (joinPairs j (d_memberships_update (delWhere P') d))" for j
    using one [unfolded edgesUnique_def, THEN spec, of j] by (cases j) (auto simp: delWhere_def distinct_map_filter)
  then show "edgesUnique (d_memberships_update (delWhere P') d)" by (simp add: edgesUnique_def)
qed

lemma votesOk_deleted: "votesOk d \<Longrightarrow> votesOk (d_caseVotes_update (delWhere P) d)"
  by (auto simp: votesOk_def delWhere_def distinct_map_filter)

lemma intact_deletes [intact_intros]:
  "keeps (intact js K) (deleteQ taggingsT P)" "keeps (intact js K) (deleteQ membershipsT P')"
  "keeps (intact js K) (deleteQ caseVotesT P'')"
  by (rule keeps_deleteQ, erule intact_drop;
      simp add: joinPairs_deleted edgesUnique_deleted votesOk_deleted;
      auto simp: stored_def rowTargets_def rowKeysUnique_def tasksDone_def runsUnderWay_def oneOpen_def openStretches_def
        votesOk_def edgesUnique_def delWhere_def)+

section \<open>What a request may rely on\<close>

text \<open>\<open>ends I m Q\<close>: when \<open>m\<close> returns \<open>x\<close> from tables with \<open>I\<close>, the tables have \<open>Q x\<close> then.\<close>

definition ends :: "(db \<Rightarrow> bool) \<Rightarrow> 'a tm \<Rightarrow> ('a \<Rightarrow> db \<Rightarrow> bool) \<Rightarrow> bool" where
  "ends I m Q \<longleftrightarrow> (\<forall>s x t. I (w_db s) \<longrightarrow> m s = (Inr x, t) \<longrightarrow> Q x (w_db t))"

lemma endsI: "(\<And>s x t. I (w_db s) \<Longrightarrow> m s = (Inr x, t) \<Longrightarrow> Q x (w_db t)) \<Longrightarrow> ends I m Q"
  by (simp add: ends_def)

lemma endsD: "ends I m Q \<Longrightarrow> I (w_db s) \<Longrightarrow> m s = (Inr x, t) \<Longrightarrow> Q x (w_db t)"
  by (simp add: ends_def)

lemma ends_keeps: "keeps I m \<Longrightarrow> ends I m (\<lambda>_. I)"
  unfolding keeps_def ends_def by (metis snd_conv)

lemma ends_weaken: "ends I m Q \<Longrightarrow> (\<And>x d. Q x d \<Longrightarrow> R x d) \<Longrightarrow> ends I m R"
  unfolding ends_def by blast

lemma ends_ret: "(\<And>d. I d \<Longrightarrow> Q x d) \<Longrightarrow> ends I (ret x) Q"
  by (auto simp: ends_def ret_Inr)

lemma ends_fail: "ends I (fail e) Q"
  by (auto simp: ends_def fail_Inr)

lemma ends_bnd: "ends I m Q \<Longrightarrow> (\<And>x. ends (Q x) (f x) R) \<Longrightarrow> ends I (bnd m f) R"
  unfolding ends_def bnd_Inr by blast

lemma ends_seq: "ends I m (\<lambda>_. J) \<Longrightarrow> ends J m' R \<Longrightarrow> ends I (seq m m') R"
  by (simp add: seq_def ends_bnd)

lemma ends_first: "keeps I m \<Longrightarrow> (\<And>x. ends I (f x) R) \<Longrightarrow> ends I (bnd m f) R"
  by (rule ends_bnd [OF ends_keeps])

lemma ends_first_seq: "keeps I m \<Longrightarrow> ends I m' R \<Longrightarrow> ends I (seq m m') R"
  by (simp add: seq_def ends_first)

text \<open>A target once found or written stays: what follows runs with one more.\<close>

lemma keeps_with:
  assumes "keeps (intact js K) m" and "ends (intact js K) m (\<lambda>x d. y x \<in> stored d)"
    and "\<And>x. keeps (intact js (insert (y x) K)) (f x)"
  shows "keeps (intact js K) (bnd m f)"
proof (rule keepsI)
  fix s :: world
  assume ok: "intact js K (w_db s)"
  obtain r t where r: "m s = (r, t)" by fastforce
  with keepsD [OF assms(1) ok] have t: "intact js K (w_db t)" by simp
  show "intact js K (w_db (snd (bnd m f s)))"
  proof (cases r)
    case (Inr x)
    with endsD [OF assms(2) ok] r t have "intact js (insert (y x) K) (w_db t)" by (simp add: intact_insert)
    from keepsD [OF assms(3) this] r Inr show ?thesis by (simp add: bnd_def intact_insert)
  qed (use r t in \<open>simp add: bnd_def\<close>)
qed

lemma keeps_with_seq:
  "keeps (intact js K) m \<Longrightarrow> ends (intact js K) m (\<lambda>_ d. y \<in> stored d) \<Longrightarrow> keeps (intact js (insert y K)) m' \<Longrightarrow>
   keeps (intact js K) (seq m m')"
  unfolding seq_def by (rule keeps_with)

lemma ends_stays: "keeps (intact js (insert y K)) m \<Longrightarrow> ends (intact js (insert y K)) m (\<lambda>_ d. y \<in> stored d)"
  by (rule ends_weaken [OF ends_keeps]) (simp_all add: intact_insert)

lemma ends_with:
  "ends (intact js K) m (\<lambda>x d. y x \<in> stored d) \<Longrightarrow> keeps (intact js K) m \<Longrightarrow> (\<And>x. ends (intact js (insert (y x) K)) (f x) R) \<Longrightarrow>
   ends (intact js K) (bnd m f) R"
  by (rule ends_bnd [where Q = "\<lambda>x. intact js (insert (y x) K)"])
    (rule endsI, auto simp: intact_insert dest: endsD [OF ends_keeps] endsD)

text \<open>The reads that find a target.\<close>

lemma ends_GetTask: "ends I (GetTask i) (\<lambda>_ d. ToTask i \<in> stored d)"
proof (rule endsI)
  fix s x t assume run: "GetTask i s = (Inr x, t)"
  from GetTask_Inr [OF run] keeps_reads [OF keeps_GetTask run] show "ToTask i \<in> stored (w_db t)"
    by (auto simp: stored_def liveTask_def dest!: find_Some_in)
qed

lemma ends_GetCase: "ends I (GetCase i) (\<lambda>_ d. ToCase i \<in> stored d)"
  by (rule endsI) (auto simp: GetCase_def stored_def dest!: takeQ_run find_Some_in)

lemma ends_GetRepeatingTask: "ends I (GetRepeatingTask i) (\<lambda>rec d. ToTemplate (rr_ID rec) \<in> stored d)"
  by (rule endsI) (auto simp: GetRepeatingTask_def stored_def dest!: takeQ_run find_Some_in)

lemma checkOthers_never: "checkOthers Ts want i e s \<noteq> (Inr u, t)"
  by (induction Ts arbitrary: s) (auto simp: fail_Inr bnd_Inr split: if_splits)

lemma ends_checkEndpoint: "ends I (checkEndpoint i T e) (\<lambda>_ d. i \<in> set (idsOf T d))"
  by (rule endsI) (auto simp: checkEndpoint_def rowExists_def bnd_Inr sql_Inr ret_Inr checkOthers_never split: if_splits)

section \<open>Relationships, codes and tags\<close>

lemma intact_addJoin:
  assumes "intact js K d" and "(a, b) \<notin> set (joinPairs j d)" and "ToTask a \<in> K" and "farEnd j b \<in> K"
  shows "intact js K (addJoin j a b now d)"
  using assms(1)
proof (rule intact_point)
  show "edgesUnique d \<Longrightarrow> edgesUnique (addJoin j a b now d)"
    using assms(2) by (auto simp: edgesUnique_def joinPairs_addJoin)
  show "joinTargets (addJoin j a b now d) \<subseteq> joinTargets d \<union> K"
    unfolding subset_iff Un_iff joinTargets_iff joinPairs_addJoin using assms(3, 4) by (auto split: if_splits; blast)
qed (cases j; simp add: stored_def rowTargets_def rowKeysUnique_def tasksDone_def runsUnderWay_def oneOpen_def
    openStretches_def votesOk_def)+

lemma intact_delJoin: "intact js K d \<Longrightarrow> intact js K (delJoin j a b d)"
  by (erule intact_drop;
      (simp add: edgesUnique_def joinPairs_delJoin; fail | auto simp: joinPairs_delJoin split: if_splits; fail |
       cases j; simp add: stored_def rowTargets_def rowKeysUnique_def tasksDone_def runsUnderWay_def oneOpen_def
         openStretches_def votesOk_def))

lemma intact_createJoin:
  assumes "relSpecs (rel_Label rel) = Some sp" and "rs_kind sp = JoinTable j"
  shows "keeps (intact js K) (createJoin rel sp j)"
proof -
  let ?a = "rel_FromID rel" and ?b = "rel_ToID rel"
  let ?y = "farEnd j ?b"
  have tables: "joinFromEndpointTable (rel_Label rel) = VTask"
      "joinToEndpointTable (rel_Label rel) = (case j of JMembership \<Rightarrow> VProject | JTagging \<Rightarrow> VTag | _ \<Rightarrow> VTask)"
    using assms by (cases "rel_Label rel"; auto)+
  have first: "ends I (checkEndpoint ?a (joinFromEndpointTable (rel_Label rel)) e) (\<lambda>_ d. ToTask ?a \<in> stored d)" for I e
    unfolding tables by (rule ends_weaken [OF ends_checkEndpoint]) (auto simp: stored_def)
  have second: "ends I (checkEndpoint ?b (joinToEndpointTable (rel_Label rel)) e) (\<lambda>_ d. ?y \<in> stored d)" for I e
    unfolding tables by (rule ends_weaken [OF ends_checkEndpoint]) (cases j; auto simp: stored_def)
  show ?thesis unfolding createJoin_def
    by (rule keeps_with_seq [OF keeps_checkEndpoint first], rule keeps_with_seq [OF keeps_checkEndpoint second],
        intro keeps_intros keeps_sql) (auto intro: intact_addJoin)
qed

lemma intact_relationships [intact_intros]:
  "keeps (intact js K) (CreateRelationship rel)" "keeps (intact js K) (DeleteRelationship a b l)"
proof -
  have "keeps (intact js K) (createFK rel c i e1 T j e2)" for c i e1 T j e2
    unfolding createFK_def by (intro keeps_intros keeps_sql) (auto intro: intact_writeFK simp del: writeFK.simps)
  then show "keeps (intact js K) (CreateRelationship rel)" unfolding CreateRelationship_def
    by (auto split: option.split rel_kind.split intro!: keeps_fail intact_createJoin)
  show "keeps (intact js K) (DeleteRelationship a b l)"
    by (rule keeps_DeleteRelationship) (auto intro: intact_writeFK intact_delJoin simp del: writeFK.simps delJoin.simps)
qed

lemma intact_nextCode [intact_intros]: "keeps (intact js K) (nextCode et p)"
proof -
  have "intact js K (d\<lparr>d_sequences := d_sequences d @ [\<lparr>cs_EntityType = et, cs_NextNumber = 1\<rparr>]\<rparr>)"
    if "intact js K d" "\<not> list_ex (\<lambda>r. cs_EntityType r = et) (d_sequences d)" for d
    using that(1) by (rule intact_point) (use that(2) in \<open>auto simp: intact_fields list_ex_iff\<close>)
  then show ?thesis unfolding nextCode_def
    by (auto split: list.split intro!: keeps_bnd keeps_seq keeps_unless keeps_selectQ keeps_ret keeps_fail keeps_sql intact_sequences)
qed

lemma ends_transaction: "ends I m Q \<Longrightarrow> ends I (transaction m) Q"
  unfolding ends_def by (metis transaction_Inr)

lemma ends_attempt: "keeps I m \<Longrightarrow> ends I m Q \<Longrightarrow> ends I (attempt m) (\<lambda>r. case r of Inl _ \<Rightarrow> I | Inr x \<Rightarrow> Q x)"
  by (rule endsI) (auto simp: attempt_Inr split: sum.split dest: endsD, metis keepsD snd_conv)

text \<open>The rules of the control structures and of the reads; those for tables an invariant ignores do not apply here.\<close>

lemmas flow_intros = keeps_bnd keeps_seq keeps_attempt keeps_ret keeps_fail keeps_lift keeps_nowT keeps_nowStr
  keeps_newSpecID keeps_unless keeps_whenM keeps_if keeps_case_option keeps_case_sum keeps_forEach keeps_collect
  keeps_mapTM keeps_selectQ keeps_takeQ keeps_lookupQ keeps_transaction keeps_heldTx keeps_publish keeps_taskStates keeps_draw3
  keeps_loadTagNames keeps_GetTask keeps_ListTasks keeps_findActiveBlockers keeps_TraverseRelationships
  keeps_blockerGate keeps_GetCase keeps_ListCases keeps_caseOfTask keeps_caseLinks keeps_GetTaskIfLive keeps_liveCaseTasks
  keeps_agent_reads keeps_GetWorkflowRun keeps_GetWorkflowRunByName keeps_GetTaskTodo keeps_publishRunStatusEvent
  keeps_nowNano keeps_findUnmetDependencies keeps_caseVote keeps_votesOn keeps_vote_reads keeps_foreignGuard keeps_reread
  keeps_readCounter keeps_stale_reads keeps_repeating

lemma keeps_stamp: "(\<And>x. x \<noteq> [] \<Longrightarrow> keeps I (f x)) \<Longrightarrow> keeps I (bnd nowStr f)"
  by (simp add: keeps_def nowStr_def bnd_def nowT_def ret_def)

section \<open>Tasks and cases\<close>

lemma intact_closeCase [intact_intros]: "keeps (intact js K) (closeCaseIfSettled i)"
  unfolding closeCaseIfSettled_def by (intro flow_intros intact_intros) simp_all

lemma intact_setTaskTags [intact_intros]: "keeps (intact js K) (setTaskTags i names)"
  unfolding setTaskTags_def upsertTagByName_def by (intro flow_intros intact_intros)

lemma intact_LinkTaskToRun [intact_intros]: "keeps (intact js K) (LinkTaskToRun r i)" "keeps (intact js K) (LinkTodoToRun r i)"
  unfolding LinkTaskToRun_def LinkTodoToRun_def by (intro flow_intros intact_intros)+

lemma intact_CreateTask [intact_intros]: "keeps (intact js K) (CreateTask task)"
  unfolding CreateTask_def Let_def by (intro flow_intros intact_intros) (simp_all add: isTerminalStatus_def)

lemma intact_UpdateTask [intact_intros]: "keeps (intact js K) (UpdateTask task)"
  unfolding UpdateTask_def applyUpdate_def afterUpdate_def announceUpdate_def Let_def
  by (intro keeps_stamp flow_intros intact_intros) (simp_all add: liveTask_def mergedTask_def)

lemma intact_DeleteTask [intact_intros]: "keeps (intact js K) (DeleteTask i)"
  unfolding DeleteTask_def by (intro flow_intros intact_intros) simp_all

lemma intact_MoveTaskToState [intact_intros]: "keeps (intact js K) (MoveTaskToState i state)"
proof -
  have "keeps (intact js K) (walkPath task path)" for task path
    by (induction path arbitrary: task) (simp_all add: keeps_ret keeps_bnd intact_UpdateTask)
  then show ?thesis unfolding MoveTaskToState_def by (intro flow_intros)
qed

lemma intact_PlaceTask [intact_intros]: "keeps (intact js K) (PlaceTask i a b)"
proof -
  have "keeps (intact js K) (place i a b)"
    unfolding place_def renumber_def assignRank_def setRank_def Let_def
    by (auto intro!: flow_intros intact_intros split: prod.split)
  then show ?thesis unfolding PlaceTask_def by (intro flow_intros)
qed

text \<open>A new task is there to be pointed at.\<close>

lemma ends_CreateTask: "ends (intact js K) (CreateTask task) (\<lambda>x d. ToTask (t_ID x) \<in> stored d)"
proof -
  have row: "ends (intact js K) (insertQ tasksT taskClash (taskRow t)) (\<lambda>_. intact js (insert (ToTask (t_ID t)) K))"
    if "\<not> isTerminalStatus (t_Status t)" for t
  proof (rule endsI)
    fix s u r assume ok: "intact js K (w_db s)" and run: "insertQ tasksT taskClash (taskRow t) s = (Inr u, r)"
    have "keeps (intact js K) (insertQ tasksT taskClash (taskRow t))" by (intro intact_intros) (use that in simp)
    from keepsD [OF this ok] insertQ_run [OF run] run
    show "intact js (insert (ToTask (t_ID t)) K) (w_db r)" by (simp add: intact_insert stored_def)
  qed
  show ?thesis unfolding CreateTask_def Let_def
    by (intro ends_first flow_intros ends_seq [OF row] ends_first_seq intact_intros ends_ret) (simp_all add: isTerminalStatus_def intact_insert)
qed

lemma intact_UnblockTask [intact_intros]: "keeps (intact js K) (UnblockTask i note)"
  unfolding UnblockTask_def by (intro flow_intros intact_intros)

lemma intact_cancelTask [intact_intros]: "keeps (intact js K) (cancelTask task reason)"
  unfolding cancelTask_def by (intro keeps_stamp flow_intros intact_intros) (simp_all add: cancelledTask_def)

lemma intact_OpenCase [intact_intros]: "keeps (intact js K) (OpenCase requester c)"
  unfolding OpenCase_def Let_def by (intro flow_intros intact_intros)

lemma intact_EndCase [intact_intros]: "keeps (intact js K) (EndCase i st reply)"
  unfolding EndCase_def cancelOpenTask_def by (intro flow_intros intact_intros) (simp_all add: endedCase_def)

lemma intact_LinkCaseTask [intact_intros]: "keeps (intact js K) (LinkCaseTask i j)"
  unfolding LinkCaseTask_def
  by (rule keeps_with [OF keeps_GetCase ends_GetCase], rule keeps_seq [OF keeps_unless],
      rule keeps_with_seq [OF keeps_GetTask ends_GetTask], intro flow_intros intact_intros) simp_all

lemma intact_vote:
  assumes "c_RequesterID c \<noteq> member"
  shows "keeps (\<lambda>d. intact js K d \<and> List.find (\<lambda>c. c_ID c = i) (d_cases d) = Some c)
    (insertQ caseVotesT voteClash
      \<lparr>v_VoteKey = caseVoteKey i member, v_CaseID = i, v_MemberID = member, v_CastBy = castBy, v_VotedAt = now\<rparr>)"
    (is "keeps ?I (insertQ _ _ ?v)")
proof (rule keeps_insertQ)
  fix d assume ok: "?I d" and clash: "\<forall>v \<in> set (fst caseVotesT d). \<not> voteClash ?v v"
  then have stored: "ToCase i \<in> stored d" by (auto simp: stored_def dest!: find_Some_in)
  with ok have "intact js (insert (ToCase i) K) d" by (simp add: intact_insert)
  then have "intact js (insert (ToCase i) K) (d_caseVotes_update (\<lambda>vs. vs @ [?v]) d)"
    by (rule intact_point) (use assms ok clash in \<open>auto simp: intact_fields voteClash_def\<close>)
  with ok show "?I (snd caseVotesT (\<lambda>vs. vs @ [?v]) d)" by (simp add: intact_insert)
qed

lemma intact_VoteCase [intact_intros]: "keeps (intact js K) (VoteCase i member castBy kind)"
  by (intro keeps_VoteCase keeps_recordVote intact_vote)

lemma intact_TakeBackVote [intact_intros]: "keeps (intact js K) (TakeBackVote i member)"
  unfolding TakeBackVote_def by (intro flow_intros intact_intros)

section \<open>Assignment\<close>

text \<open>A hand-over closes the open stretch before it opens its own; the rest of \<open>intact\<close> holds at each statement.\<close>

definition intactBut :: "import_job list \<Rightarrow> target set \<Rightarrow> db \<Rightarrow> bool" where
  "intactBut js K d \<longleftrightarrow> d_importJobs d = js \<and> K \<union> joinTargets d \<union> rowTargets d \<subseteq> stored d \<and>
     rowKeysUnique d \<and> edgesUnique d \<and> tasksDone d \<and> runsUnderWay d \<and> votesOk d"

lemma intact_split: "intact js K = (\<lambda>d. intactBut js K d \<and> oneOpen d)"
  by (rule ext) (auto simp: intact_def intactBut_def)

lemma keeps_conj: "keeps I m \<Longrightarrow> keeps J m \<Longrightarrow> keeps (\<lambda>d. I d \<and> J d) m"
  by (simp add: keeps_def)

lemma intactBut_point:
  assumes "intactBut js K d" and "d_importJobs d' = d_importJobs d" "stored d' = stored d"
    and "joinTargets d' = joinTargets d" "edgesUnique d' = edgesUnique d" "rowTargets d' \<subseteq> rowTargets d \<union> K"
    and "rowKeysUnique d \<Longrightarrow> rowKeysUnique d'" "tasksDone d \<Longrightarrow> tasksDone d'" "runsUnderWay d' = runsUnderWay d" "votesOk d' = votesOk d"
  shows "intactBut js K d'"
  using assms unfolding intactBut_def by auto

lemma intactBut_close: "keeps (intactBut js K) (updateQ assignmentsT P (\<lambda>a. a\<lparr>as_UnassignedAt := now\<rparr>))"
  by (rule keeps_updateQ, erule intactBut_point) (simp_all add: intact_fields map_updWhere del: list.set_map)

lemma intactBut_hold: "keeps (intactBut js K) (updateQ tasksT Q (\<lambda>t. t\<lparr>t_AssignedTo := a, t_AssigneeKind := k\<rparr>))"
  by (rule keeps_updateQ, erule intactBut_point)
    (simp_all add: intact_fields map_updWhere del: list.set_map, erule ball_updWhere [rotated], simp)

lemma intactBut_open: "ToTask (as_TaskID r) \<in> K \<Longrightarrow> keeps (intactBut js K) (insertQ assignmentsT assignmentClash r)"
  by (rule keeps_insertQ, erule intactBut_point) (auto simp: intact_fields assignmentClash_def)

lemma intact_handOver [intact_intros]:
  assumes "ToTask i \<in> K"
  shows "keeps (intact js K) (handOver i k a)"
  unfolding intact_split
proof (rule keeps_conj [OF _ handOver_oneOpen])
  show "keeps (intactBut js K) (handOver i k a)"
    unfolding handOver_def closeCurrentAssignment_def
    by (intro flow_intros intactBut_close intactBut_hold intactBut_open) (simp add: assms)
qed

lemma keeps_stampNano: "(\<And>x. x \<noteq> [] \<Longrightarrow> keeps I (f x)) \<Longrightarrow> keeps I (bnd nowNano f)"
  by (simp add: keeps_def nowNano_def bnd_def nowT_def ret_def)

lemma intact_close [intact_intros]: "now \<noteq> [] \<Longrightarrow> keeps (intact js K) (closeCurrentAssignment i now)"
  unfolding intact_split
  by (rule keeps_conj [OF _ closeCurrentAssignment_oneOpen], unfold closeCurrentAssignment_def)
    (intro flow_intros intactBut_close)

lemma intact_setTaskStatus [intact_intros]: "\<not> isTerminalStatus st \<Longrightarrow> keeps (intact js K) (setTaskStatus i st)"
  unfolding setTaskStatus_def by (intro flow_intros intact_intros) (simp_all add: withStatus_def)

lemma intact_AssignTaskToHolder [intact_intros]: "keeps (intact js K) (AssignTaskToHolder i k a)"
  unfolding AssignTaskToHolder_def
  by (intro keeps_seq keeps_unless, rule keeps_with [OF keeps_GetTask ends_GetTask], intro flow_intros intact_intros) simp

lemma intact_UnassignTask [intact_intros]: "keeps (intact js K) (UnassignTask i)"
  unfolding UnassignTask_def by (intro keeps_stampNano flow_intros intact_intros) simp_all

lemma intact_AssignTask [intact_intros]: "keeps (intact js K) (AssignTask i key r)"
  unfolding AssignTask_def chainRun_def setTaskWorkflowRunID_def dispatchTask_def
  by (rule keeps_with [OF keeps_GetTask ends_GetTask], intro flow_intros intact_intros) (simp_all add: isTerminalStatus_def)

lemma intact_UnblockDependents [intact_intros]: "keeps (intact js K) (UnblockDependents i)"
  unfolding UnblockDependents_def maybeUnblockDependent_def
  by (intro flow_intros intact_intros) (simp_all add: isTerminalStatus_def)

lemma intact_UpsertAgent [intact_intros]: "keeps (intact js K) (UpsertAgent a)"
  unfolding UpsertAgent_def Let_def by (intro flow_intros intact_intros) (simp_all add: mergedAgent_def)

section \<open>Runs\<close>

lemma intact_saveRun [intact_intros]: "keeps (intact js K) (saveRun run)"
  unfolding saveRun_def by (intro flow_intros intact_intros) (simp_all add: withUnderWay_def)

lemma intact_setRunStatus [intact_intros]: "keeps (intact js K) (setRunStatus i st reason)"
  unfolding setRunStatus_def Let_def by (intro flow_intros intact_intros)

lemma intact_openWorkflowRun [intact_intros]: "keeps (intact js K) (openWorkflowRun run)"
  unfolding openWorkflowRun_def Let_def by (intro flow_intros intact_intros) (simp add: IsTerminal_def)

lemma intact_cascade [intact_intros]: "keeps (intact js K) (cascadeTaskCancellation i reason)"
  unfolding cascadeTaskCancellation_def cancelUnfinished_def by (intro flow_intros intact_intros)

lemma intact_run_ops [intact_intros]:
  "keeps (intact js K) (CreateWorkflowRun n e a)" "keeps (intact js K) (StartWorkflowRun n c v e a)"
  "keeps (intact js K) (UpdateWorkflowRunStatus i st reason)"
  "keeps (intact js K) (CancelWorkflowRun i reason by' until)" "keeps (intact js K) (FinalizeWorkflowRunCancellation i)"
  "keeps (intact js K) (StopWorkflowRun i by' reason version)"
  "keeps (intact js K) (BeginWorkflowRunStep i c l w)" "keeps (intact js K) (AnswerWorkflowRunStep i)"
  unfolding CreateWorkflowRun_def StartWorkflowRun_def UpdateWorkflowRunStatus_def CancelWorkflowRun_def
    FinalizeWorkflowRunCancellation_def StopWorkflowRun_def restartRun_def BeginWorkflowRunStep_def AnswerWorkflowRunStep_def Let_def
  by (intro flow_intros intact_intros)+

lemma intact_run_marks [intact_intros]:
  "keeps (intact js K) (TouchWorkflowRunLastEventAt i ts)" "keeps (intact js K) (MarkTimeoutPublished i)"
  "keeps (intact js K) (SetFailureBudget i b)" "keeps (intact js K) (CreateRecoveryWorkflowRun n e a p r)"
  unfolding TouchWorkflowRunLastEventAt_def MarkTimeoutPublished_def SetFailureBudget_def CreateRecoveryWorkflowRun_def
  by ((intro flow_intros intact_intros; simp)+)

lemma intact_IncrementFailureBudget [intact_intros]: "keeps (intact js K) (IncrementFailureBudget i c)"
  unfolding IncrementFailureBudget_def writeCounter_def Let_def
  by (intro keeps_chargeAttempts, unfold writeCounter_def Let_def, intro flow_intros intact_intros) simp_all

lemma intact_CloseWorkflowRunsPastLimit [intact_intros]: "keeps (intact js K) (CloseWorkflowRunsPastLimit asOf)"
proof -
  have "keeps (intact js K) (closePastLimit moment run)" for moment run
    unfolding closePastLimit_def openCancelRun_def Let_def by (intro flow_intros intact_intros)
  then have "keeps (intact js K) (closeDue moment runs)" for moment runs by (intro keeps_closeDue)
  then show ?thesis unfolding CloseWorkflowRunsPastLimit_def by (intro flow_intros)
qed

lemma intact_rollback [intact_intros]:
  "keeps (intact js K) (DeleteWorkflowRunArtifacts i)" "keeps (intact js K) (RollbackWorkflowRun i reason)"
proof -
  show art: "keeps (intact js K) (DeleteWorkflowRunArtifacts i)"
    unfolding DeleteWorkflowRunArtifacts_def compensate_def publishTaskRolledBack_def
    by (intro flow_intros intact_intros) (simp_all add: resetRow_def isTerminalStatus_def)
  show "keeps (intact js K) (RollbackWorkflowRun i reason)"
    unfolding RollbackWorkflowRun_def by (intro flow_intros intact_intros art)
qed

lemma intact_timeouts [intact_intros]:
  "keeps (intact js K) (HandleRunTimeout i)" "keeps (intact js K) (HandleTaskTimeout j i)"
  unfolding HandleRunTimeout_def HandleTaskTimeout_def failTask_def by (intro flow_intros intact_intros)+

section \<open>Steps, projects, keyed tasks and templates\<close>

lemma intact_todo_ops [intact_intros]:
  "keeps (intact js K) (CreateTaskTodo todo)" "keeps (intact js K) (DispatchTaskTodo i)"
  "keeps (intact js K) (UpdateTaskTodoStatus i st)" "keeps (intact js K) (WriteAcceptanceCriteriaResult i r n)"
  unfolding CreateTaskTodo_def DispatchTaskTodo_def UpdateTaskTodoStatus_def WriteAcceptanceCriteriaResult_def Let_def
  by (intro flow_intros intact_intros; simp)+

lemma keeps_project_reads:
  "keeps I (GetProject i)" "keeps I (GetProjectByName n)" "keeps I (ListTasksInProject i)"
  unfolding GetProject_def GetProjectByName_def ListTasksInProject_def by (intro flow_intros)+

lemma intact_project_ops [intact_intros]:
  "keeps (intact js K) (CreateProject p)" "keeps (intact js K) (UpdateProject p)" "keeps (intact js K) (DeleteProject i)"
  "keeps (intact js K) (AddTaskToProject i j)" "keeps (intact js K) (RemoveTaskFromProject i j)"
  unfolding CreateProject_def UpdateProject_def DeleteProject_def AddTaskToProject_def RemoveTaskFromProject_def Let_def
  by (intro flow_intros intact_intros keeps_project_reads; simp)+

lemma intact_CreateTaskInProject [intact_intros]: "keeps (intact js K) (CreateTaskInProject n task)"
  unfolding CreateTaskInProject_def Let_def by (intro flow_intros intact_intros keeps_project_reads)

lemma intact_GenerateTasks [intact_intros]: "keeps (intact js K) (GenerateTasks req)"
proof -
  have "keeps (intact js K) (generateOne r subject)" for r subject
    unfolding generateOne_def generatedTask_def Let_def
    by (intro flow_intros keeps_with [OF intact_CreateTask ends_CreateTask] intact_intros) simp
  then show ?thesis unfolding GenerateTasks_def by (intro flow_intros)
qed

lemma intact_OpenSourcedTasks [intact_intros]: "keeps (intact js K) (OpenSourcedTasks req)"
proof -
  have "keeps (intact js K) (openOne source it)" for source it
    unfolding openOne_def sourcedTask_def Let_def
    by (intro flow_intros keeps_with [OF intact_CreateTask ends_CreateTask] intact_intros) simp
  then show ?thesis unfolding OpenSourcedTasks_def by (intro flow_intros)
qed

lemma intact_templates [intact_intros]:
  "keeps (intact js K) (CreateRepeatingTask lib r)" "keeps (intact js K) (StartRepeatingTask lib n)"
  "keeps (intact js K) (StopRepeatingTask i)"
  unfolding CreateRepeatingTask_def StartRepeatingTask_def StopRepeatingTask_def Let_def
  by (intro flow_intros intact_intros; simp)+

lemma keeps_lifted: "(\<And>x. r = Inr x \<Longrightarrow> keeps I (f x)) \<Longrightarrow> keeps I (bnd (lift r) f)"
  by (cases r) (simp_all add: keeps_def bnd_def lift_def)

lemma intact_MakeRepeatingTaskDue [intact_intros]: "keeps (intact js K) (MakeRepeatingTaskDue lib i moment)"
proof -
  have period: "keeps (intact js K) (makeOnce r occ)" if "ToTemplate (rt_ID r) \<in> K" for r :: "('z, 'r, 'd) repeating_task" and K occ
    unfolding makeOnce_def makePeriod_def Let_def
    by (intro flow_intros keeps_with [OF intact_CreateTask ends_CreateTask] intact_intros) (simp_all add: that)
  show ?thesis unfolding MakeRepeatingTaskDue_def
    by (rule keeps_with [OF keeps_repeating(1) ends_GetRepeatingTask], intro keeps_lifted flow_intros period)
      (simp add: RepeatingTaskFromRecord_fields)
qed

section \<open>Imports\<close>

text \<open>What the steps of a worker write beside the row of their job.\<close>

lemma intact_jobRow:
  "intact js K d \<Longrightarrow> intact (f js) K (d_importJobs_update f d)"
  by (simp add: intact_def stored_def joinTargets_def rowTargets_def rowKeysUnique_def edgesUnique_def tasksDone_def
      runsUnderWay_def oneOpen_def openStretches_def votesOk_def)

definition sound :: "db \<Rightarrow> bool" where
  "sound d \<longleftrightarrow> intact (d_importJobs d) {} d \<and> distinct (map ij_ID (d_importJobs d))"

lemma sound_keeps: "(\<And>js. keeps (intact js {}) m) \<Longrightarrow> keeps sound m"
  unfolding keeps_def sound_def by (metis intactD(1))

lemma sound_jobs:
  "keeps sound (insertQ importJobsT importJobClash j)"
  "(\<And>j. ij_ID (f j) = ij_ID j) \<Longrightarrow> keeps sound (updateQ importJobsT P f)"
  by (rule keeps_insertQ; auto simp: sound_def importJobClash_def intro: intact_jobRow)
    (rule keeps_updateQ; simp add: sound_def map_updWhere intact_jobRow)

end
