(* ===== verification/Manager.thy ===== *)
theory Manager
  imports Integrity
begin

text \<open>
  The interface \<open>TaskManager\<close> of \<open>task.go\<close>: one constructor for each method, in the groups and the order of
  the source, and the method it calls. A request keeps of the answer only whether there was an error; the
  import calls, which share state beside the tables, are steps of the whole service in \<open>Service\<close>.
\<close>

text \<open>What a manager is built with beside its store: the schedules, the identities and the grace.\<close>

record ('z, 'r, 'd) manager_lib =
  ml_recur :: "('z, 'r, 'd) recur"
  ml_identity :: identity_lib
  ml_grace :: int

definition answered :: "'a tm \<Rightarrow> unit tm" where
  "answered m = bnd m (\<lambda>_. ret ())"

section \<open>Tasks, relationships and agents\<close>

datatype task_request =
    ReqStableIdentity string string
  | ReqResolve string
  | ReqCreateTask task
  | ReqGetTask string
  | ReqUpdateTask task
  | ReqDeleteTask string
  | ReqListTasks task_filter
  | ReqListOverdueTasks overdue_filter
  | ReqListTaskStates
  | ReqMoveTaskToState string string
  | ReqPlaceTask string string string

fun serveTask :: "('z, 'r, 'd) manager_lib \<Rightarrow> task_request \<Rightarrow> unit tm" where
  "serveTask lib (ReqStableIdentity object i) = answered (StableIdentity (ml_identity lib) object i)"
| "serveTask lib (ReqResolve raw) = answered (Resolve (ml_identity lib) raw)"
| "serveTask lib (ReqCreateTask task) = answered (CreateTask task)"
| "serveTask lib (ReqGetTask i) = answered (GetTask i)"
| "serveTask lib (ReqUpdateTask task) = answered (UpdateTask task)"
| "serveTask lib (ReqDeleteTask i) = answered (DeleteTask i)"
| "serveTask lib (ReqListTasks f) = answered (ListTasks f)"
| "serveTask lib (ReqListOverdueTasks f) = answered (ListOverdueTasks (ml_grace lib) f)"
| "serveTask lib ReqListTaskStates = answered ListTaskStates"
| "serveTask lib (ReqMoveTaskToState i state) = answered (MoveTaskToState i state)"
| "serveTask lib (ReqPlaceTask i after before) = answered (PlaceTask i after before)"

datatype graph_request =
    ReqCreateRelationship relationship
  | ReqDeleteRelationship string string rel_label
  | ReqTraverseRelationships string rel_label direction
  | ReqUpsertAgent agent
  | ReqGetAgent string
  | ReqGetAgentByAgentID string
  | ReqListAgents

fun serveGraph :: "graph_request \<Rightarrow> unit tm" where
  "serveGraph (ReqCreateRelationship rel) = answered (CreateRelationship rel)"
| "serveGraph (ReqDeleteRelationship a b label) = answered (DeleteRelationship a b label)"
| "serveGraph (ReqTraverseRelationships v label dir) = answered (TraverseRelationships v label dir)"
| "serveGraph (ReqUpsertAgent agent) = answered (UpsertAgent agent)"
| "serveGraph (ReqGetAgent key) = answered (GetAgent key)"
| "serveGraph (ReqGetAgentByAgentID key) = answered (GetAgentByAgentID key)"
| "serveGraph ReqListAgents = answered ListAgents"

section \<open>Assignment, templates and keyed tasks\<close>

datatype ('z, 'r, 'd) holder_request =
    ReqAssignTask string string string
  | ReqUnassignTask string
  | ReqAssignTaskToHolder string assignee_kind string
  | ReqCreateRepeatingTask "('z, 'r, 'd) repeating_task"
  | ReqStartRepeatingTask new_repeating_task
  | ReqGetRepeatingTask string
  | ReqListRepeatingTasks repeating_filter
  | ReqListRunningRepeatingTasks
  | ReqStopRepeatingTask string
  | ReqMakeRepeatingTaskDue string instant
  | ReqOpenSourcedTasks sourced_request
  | ReqGenerateTasks generate_request
  | ReqListTaskAssignments string
  | ReqListHeldTasks holder_query
  | ReqUnblockDependents string

fun serveHolder :: "('z, 'r, 'd) manager_lib \<Rightarrow> ('z, 'r, 'd) holder_request \<Rightarrow> unit tm" where
  "serveHolder lib (ReqAssignTask i agent run) = answered (AssignTask i agent run)"
| "serveHolder lib (ReqUnassignTask i) = answered (UnassignTask i)"
| "serveHolder lib (ReqAssignTaskToHolder i kind holder) = answered (AssignTaskToHolder i kind holder)"
| "serveHolder lib (ReqCreateRepeatingTask r) = answered (CreateRepeatingTask (ml_recur lib) r)"
| "serveHolder lib (ReqStartRepeatingTask n) = answered (StartRepeatingTask (ml_recur lib) n)"
| "serveHolder lib (ReqGetRepeatingTask i) = answered (GetRepeatingTask i)"
| "serveHolder lib (ReqListRepeatingTasks f) = answered (ListRepeatingTasks f)"
| "serveHolder lib ReqListRunningRepeatingTasks = answered ListRunningRepeatingTasks"
| "serveHolder lib (ReqStopRepeatingTask i) = answered (StopRepeatingTask i)"
| "serveHolder lib (ReqMakeRepeatingTaskDue i moment) = answered (MakeRepeatingTaskDue (ml_recur lib) i moment)"
| "serveHolder lib (ReqOpenSourcedTasks req) = answered (OpenSourcedTasks req)"
| "serveHolder lib (ReqGenerateTasks req) = answered (GenerateTasks req)"
| "serveHolder lib (ReqListTaskAssignments i) = answered (ListTaskAssignments i)"
| "serveHolder lib (ReqListHeldTasks q) = answered (ListHeldTasks q)"
| "serveHolder lib (ReqUnblockDependents i) = answered (UnblockDependents i)"

section \<open>Projects and cases\<close>

datatype project_request =
    ReqCreateProject project
  | ReqGetProject string
  | ReqGetProjectByName string
  | ReqUpdateProject project
  | ReqDeleteProject string
  | ReqListProjects
  | ReqAddTaskToProject string string
  | ReqRemoveTaskFromProject string string
  | ReqListTasksInProject string
  | ReqListProjectsForTask string
  | ReqGetTaskByName string string
  | ReqCreateTaskInProject string task

fun serveProject :: "project_request \<Rightarrow> unit tm" where
  "serveProject (ReqCreateProject p) = answered (CreateProject p)"
| "serveProject (ReqGetProject i) = answered (GetProject i)"
| "serveProject (ReqGetProjectByName n) = answered (GetProjectByName n)"
| "serveProject (ReqUpdateProject p) = answered (UpdateProject p)"
| "serveProject (ReqDeleteProject i) = answered (DeleteProject i)"
| "serveProject ReqListProjects = answered ListProjects"
| "serveProject (ReqAddTaskToProject i p) = answered (AddTaskToProject i p)"
| "serveProject (ReqRemoveTaskFromProject i p) = answered (RemoveTaskFromProject i p)"
| "serveProject (ReqListTasksInProject p) = answered (ListTasksInProject p)"
| "serveProject (ReqListProjectsForTask i) = answered (ListProjectsForTask i)"
| "serveProject (ReqGetTaskByName p n) = answered (GetTaskByName p n)"
| "serveProject (ReqCreateTaskInProject p task) = answered (CreateTaskInProject p task)"

datatype case_request =
    ReqOpenCase string case_rec
  | ReqGetCase string
  | ReqListCases case_filter
  | ReqLinkCaseTask string string
  | ReqListCaseTasks string
  | ReqEndCase string case_status string
  | ReqListMyCases string case_filter
  | ReqVoteCase string string string string
  | ReqTakeBackVote string string
  | ReqListCaseVotes string
  | ReqListCasesByVotes case_filter

fun serveCase :: "case_request \<Rightarrow> unit tm" where
  "serveCase (ReqOpenCase requester c) = answered (OpenCase requester c)"
| "serveCase (ReqGetCase i) = answered (GetCase i)"
| "serveCase (ReqListCases f) = answered (ListCases f)"
| "serveCase (ReqLinkCaseTask i task) = answered (LinkCaseTask i task)"
| "serveCase (ReqListCaseTasks i) = answered (ListCaseTasks i)"
| "serveCase (ReqEndCase i status reply) = answered (EndCase i status reply)"
| "serveCase (ReqListMyCases requester f) = answered (ListMyCases requester f)"
| "serveCase (ReqVoteCase i member castBy kind) = answered (VoteCase i member castBy kind)"
| "serveCase (ReqTakeBackVote i member) = answered (TakeBackVote i member)"
| "serveCase (ReqListCaseVotes i) = answered (ListCaseVotes i)"
| "serveCase (ReqListCasesByVotes f) = answered (ListCasesByVotes f)"

section \<open>Steps\<close>

datatype step_request =
    ReqUnblockTask string string
  | ReqCreateTaskTodo task_todo
  | ReqDispatchTaskTodo string
  | ReqGetTaskTodo string
  | ReqUpdateTaskTodoStatus string todo_status

fun serveStep :: "step_request \<Rightarrow> unit tm" where
  "serveStep (ReqUnblockTask i note) = answered (UnblockTask i note)"
| "serveStep (ReqCreateTaskTodo todo) = answered (CreateTaskTodo todo)"
| "serveStep (ReqDispatchTaskTodo i) = answered (DispatchTaskTodo i)"
| "serveStep (ReqGetTaskTodo i) = answered (GetTaskTodo i)"
| "serveStep (ReqUpdateTaskTodoStatus i status) = answered (UpdateTaskTodoStatus i status)"

section \<open>Runs\<close>

datatype run_request =
    ReqCreateWorkflowRun string string string
  | ReqStartWorkflowRun string string int string string
  | ReqListWorkflowRunsUnderWay string
  | ReqListWorkflowRunsClosed string
  | ReqStopWorkflowRun string string string int
  | ReqBeginWorkflowRunStep string string int string
  | ReqAnswerWorkflowRunStep string
  | ReqCloseWorkflowRunsPastLimit string
  | ReqCreateRecoveryWorkflowRun string string string string string
  | ReqSetFailureBudget string int
  | ReqIncrementFailureBudget string string
  | ReqGetWorkflowRun string
  | ReqGetWorkflowRunByName string
  | ReqListWorkflowRuns string
  | ReqLinkTaskToRun string string
  | ReqLinkTodoToRun string string
  | ReqGetWorkflowRunClosure string

fun serveRun :: "run_request \<Rightarrow> unit tm" where
  "serveRun (ReqCreateWorkflowRun name trigger initiator) = answered (CreateWorkflowRun name trigger initiator)"
| "serveRun (ReqStartWorkflowRun name code version trigger initiator) =
     answered (StartWorkflowRun name code version trigger initiator)"
| "serveRun (ReqListWorkflowRunsUnderWay code) = answered (ListWorkflowRunsUnderWay code)"
| "serveRun (ReqListWorkflowRunsClosed code) = answered (ListWorkflowRunsClosed code)"
| "serveRun (ReqStopWorkflowRun i by' reason version) = answered (StopWorkflowRun i by' reason version)"
| "serveRun (ReqBeginWorkflowRunStep i step limit code) = answered (BeginWorkflowRunStep i step limit code)"
| "serveRun (ReqAnswerWorkflowRunStep i) = answered (AnswerWorkflowRunStep i)"
| "serveRun (ReqCloseWorkflowRunsPastLimit asOf) = answered (CloseWorkflowRunsPastLimit asOf)"
| "serveRun (ReqCreateRecoveryWorkflowRun name trigger initiator parent rootID) =
     answered (CreateRecoveryWorkflowRun name trigger initiator parent rootID)"
| "serveRun (ReqSetFailureBudget i budget) = answered (SetFailureBudget i budget)"
| "serveRun (ReqIncrementFailureBudget rootID child) = answered (IncrementFailureBudget rootID child)"
| "serveRun (ReqGetWorkflowRun i) = answered (GetWorkflowRun i)"
| "serveRun (ReqGetWorkflowRunByName name) = answered (GetWorkflowRunByName name)"
| "serveRun (ReqListWorkflowRuns name) = answered (ListWorkflowRuns name)"
| "serveRun (ReqLinkTaskToRun i task) = answered (LinkTaskToRun i task)"
| "serveRun (ReqLinkTodoToRun i todo) = answered (LinkTodoToRun i todo)"
| "serveRun (ReqGetWorkflowRunClosure i) = answered (GetWorkflowRunClosure i)"

text \<open>How a run ends, the watchdog, and the lists below them.\<close>

datatype ending_request =
    ReqUpdateWorkflowRunStatus string run_status string
  | ReqRollbackWorkflowRun string string
  | ReqDeleteWorkflowRunArtifacts string
  | ReqCancelWorkflowRun string string string instant
  | ReqFinalizeWorkflowRunCancellation string
  | ReqTouchWorkflowRunLastEventAt string string
  | ReqListWorkflowRunsStaleSince instant
  | ReqListWorkflowRunsStepStaleSince instant
  | ReqMarkTimeoutPublished string
  | ReqHandleRunTimeout string
  | ReqHandleTaskTimeout string string
  | ReqListTasksForRun string
  | ReqListTaskTodos string
  | ReqListDeliverablesForTask string
  | ReqListAcceptanceCriteriaForTask string
  | ReqWriteAcceptanceCriteriaResult string string string

fun serveEnding :: "ending_request \<Rightarrow> unit tm" where
  "serveEnding (ReqUpdateWorkflowRunStatus i status reason) = answered (UpdateWorkflowRunStatus i status reason)"
| "serveEnding (ReqRollbackWorkflowRun i reason) = answered (RollbackWorkflowRun i reason)"
| "serveEnding (ReqDeleteWorkflowRunArtifacts i) = answered (DeleteWorkflowRunArtifacts i)"
| "serveEnding (ReqCancelWorkflowRun i reason by' until) = answered (CancelWorkflowRun i reason by' until)"
| "serveEnding (ReqFinalizeWorkflowRunCancellation i) = answered (FinalizeWorkflowRunCancellation i)"
| "serveEnding (ReqTouchWorkflowRunLastEventAt i ts) = answered (TouchWorkflowRunLastEventAt i ts)"
| "serveEnding (ReqListWorkflowRunsStaleSince cutoff) = answered (ListWorkflowRunsStaleSince cutoff)"
| "serveEnding (ReqListWorkflowRunsStepStaleSince cutoff) = answered (ListWorkflowRunsStepStaleSince cutoff)"
| "serveEnding (ReqMarkTimeoutPublished i) = answered (MarkTimeoutPublished i)"
| "serveEnding (ReqHandleRunTimeout i) = answered (HandleRunTimeout i)"
| "serveEnding (ReqHandleTaskTimeout i run) = answered (HandleTaskTimeout i run)"
| "serveEnding (ReqListTasksForRun i) = answered (ListTasksForRun i)"
| "serveEnding (ReqListTaskTodos i) = answered (ListTaskTodos i)"
| "serveEnding (ReqListDeliverablesForTask i) = answered (ListDeliverablesForTask i)"
| "serveEnding (ReqListAcceptanceCriteriaForTask i) = answered (ListAcceptanceCriteriaForTask i)"
| "serveEnding (ReqWriteAcceptanceCriteriaResult i result notes) = answered (WriteAcceptanceCriteriaResult i result notes)"

datatype ('z, 'r, 'd) request =
    OnTask task_request
  | OnGraph graph_request
  | OnHolder "('z, 'r, 'd) holder_request"
  | OnProject project_request
  | OnCase case_request
  | OnStep step_request
  | OnRun run_request
  | OnEnding ending_request

fun serve :: "('z, 'r, 'd) manager_lib \<Rightarrow> ('z, 'r, 'd) request \<Rightarrow> unit tm" where
  "serve lib (OnTask q) = serveTask lib q"
| "serve lib (OnGraph q) = serveGraph q"
| "serve lib (OnHolder q) = serveHolder lib q"
| "serve lib (OnProject q) = serveProject q"
| "serve lib (OnCase q) = serveCase q"
| "serve lib (OnStep q) = serveStep q"
| "serve lib (OnRun q) = serveRun q"
| "serve lib (OnEnding q) = serveEnding q"

text \<open>The requests that only look something up.\<close>

fun lookup :: "('z, 'r, 'd) request \<Rightarrow> bool" where
  "lookup (OnTask q) = (case q of ReqStableIdentity _ _ \<Rightarrow> True | ReqResolve _ \<Rightarrow> True | ReqGetTask _ \<Rightarrow> True
     | ReqListTasks _ \<Rightarrow> True | ReqListOverdueTasks _ \<Rightarrow> True | ReqListTaskStates \<Rightarrow> True | _ \<Rightarrow> False)"
| "lookup (OnGraph q) = (case q of ReqTraverseRelationships _ _ _ \<Rightarrow> True | ReqGetAgent _ \<Rightarrow> True
     | ReqGetAgentByAgentID _ \<Rightarrow> True | ReqListAgents \<Rightarrow> True | _ \<Rightarrow> False)"
| "lookup (OnHolder q) = (case q of ReqGetRepeatingTask _ \<Rightarrow> True | ReqListRepeatingTasks _ \<Rightarrow> True
     | ReqListRunningRepeatingTasks \<Rightarrow> True | ReqListTaskAssignments _ \<Rightarrow> True | ReqListHeldTasks _ \<Rightarrow> True | _ \<Rightarrow> False)"
| "lookup (OnProject q) = (case q of ReqGetProject _ \<Rightarrow> True | ReqGetProjectByName _ \<Rightarrow> True | ReqListProjects \<Rightarrow> True
     | ReqListTasksInProject _ \<Rightarrow> True | ReqListProjectsForTask _ \<Rightarrow> True | ReqGetTaskByName _ _ \<Rightarrow> True | _ \<Rightarrow> False)"
| "lookup (OnCase q) = (case q of ReqGetCase _ \<Rightarrow> True | ReqListCases _ \<Rightarrow> True | ReqListCaseTasks _ \<Rightarrow> True
     | ReqListMyCases _ _ \<Rightarrow> True | ReqListCaseVotes _ \<Rightarrow> True | ReqListCasesByVotes _ \<Rightarrow> True | _ \<Rightarrow> False)"
| "lookup (OnStep q) = (case q of ReqGetTaskTodo _ \<Rightarrow> True | _ \<Rightarrow> False)"
| "lookup (OnRun q) = (case q of ReqListWorkflowRunsUnderWay _ \<Rightarrow> True | ReqListWorkflowRunsClosed _ \<Rightarrow> True
     | ReqGetWorkflowRun _ \<Rightarrow> True | ReqGetWorkflowRunByName _ \<Rightarrow> True | ReqListWorkflowRuns _ \<Rightarrow> True
     | ReqGetWorkflowRunClosure _ \<Rightarrow> True | _ \<Rightarrow> False)"
| "lookup (OnEnding q) = (case q of ReqListWorkflowRunsStaleSince _ \<Rightarrow> True | ReqListWorkflowRunsStepStaleSince _ \<Rightarrow> True
     | ReqListTasksForRun _ \<Rightarrow> True | ReqListTaskTodos _ \<Rightarrow> True | ReqListDeliverablesForTask _ \<Rightarrow> True
     | ReqListAcceptanceCriteriaForTask _ \<Rightarrow> True | _ \<Rightarrow> False)"

section \<open>Lookups change nothing\<close>

lemma answered_intros:
  "keeps I m \<Longrightarrow> keeps I (answered m)" "silent m \<Longrightarrow> silent (answered m)" "steady m \<Longrightarrow> steady (answered m)"
  unfolding answered_def by (intro keeps_bnd keeps_ret silent_intros steady_intros; assumption)+

lemma keeps_identities: "keeps I (StableIdentity lib ob i)" "keeps I (Resolve lib raw)"
proof -
  have row: "keeps I (identityRowExists ob i)" for ob i
    unfolding identityRowExists_def rowsOf_def by (intro flow_intros)
  have "keeps I (firstOwner obs i)" for obs i
    by (induction obs) (auto intro!: flow_intros row)
  then show "keeps I (StableIdentity lib ob i)" "keeps I (Resolve lib raw)"
    unfolding StableIdentity_def Resolve_def by (auto split: option.split prod.split intro!: flow_intros row)
qed

lemma keeps_ListCasesByVotes: "keeps I (ListCasesByVotes f)"
  unfolding ListCasesByVotes_def storedVotesByCase_def by (intro flow_intros keeps_sql) simp

lemma keeps_GetWorkflowRunClosure: "keeps I (GetWorkflowRunClosure i)"
proof -
  have "keeps I (walkTask j acc)" for j acc
    unfolding walkTask_def walkEdges_def by (intro flow_intros)
  then have "keeps I (walkTasks is acc)" for "is" acc
    by (induction "is" arbitrary: acc) (auto intro!: flow_intros)
  then show ?thesis
    unfolding GetWorkflowRunClosure_def taskOrSkip_def todoOrSkip_def Let_def by (intro flow_intros)
qed

lemma keeps_lists:
  "keeps I (ListOverdueTasks g f)" "keeps I ListTaskStates"
  "keeps I (ListRepeatingTasks rf)" "keeps I ListRunningRepeatingTasks" "keeps I (ListTaskAssignments i)"
  "keeps I (ListHeldTasks hq)" "keeps I ListProjects" "keeps I (ListProjectsForTask i)" "keeps I (GetTaskByName p n)"
  "keeps I (ListCaseTasks i)" "keeps I (ListMyCases i cf)" "keeps I (ListCaseVotes i)"
  "keeps I (ListWorkflowRunsUnderWay c)" "keeps I (ListWorkflowRunsClosed c)" "keeps I (ListWorkflowRuns n)"
  "keeps I (ListTaskTodos i)" "keeps I (ListDeliverablesForTask i)" "keeps I (ListAcceptanceCriteriaForTask i)"
  unfolding ListOverdueTasks_def withTags_def ListTaskStates_def ListRepeatingTasks_def ListRunningRepeatingTasks_def
    ListTaskAssignments_def ListHeldTasks_def ListProjects_def ListProjectsForTask_def GetTaskByName_def ListCaseTasks_def
    ListMyCases_def ListCaseVotes_def ListWorkflowRunsUnderWay_def ListWorkflowRunsClosed_def ListWorkflowRuns_def
    ListTaskTodos_def ListDeliverablesForTask_def ListAcceptanceCriteriaForTask_def Let_def
  by (intro flow_intros keeps_project_reads)+

lemma lookup_keeps: "lookup q \<Longrightarrow> keeps I (serve lib q)"
  by (cases "(lib, q)" rule: serve.cases)
    (auto split: task_request.splits graph_request.splits holder_request.splits project_request.splits case_request.splits
       step_request.splits run_request.splits ending_request.splits
       intro!: answered_intros flow_intros keeps_identities keeps_ListCasesByVotes keeps_GetWorkflowRunClosure keeps_lists
         keeps_project_reads)

lemma serve_intact: "keeps (intact js K) (serve lib q)"
proof (cases "lookup q")
  case False
  then show ?thesis
    by (cases "(lib, q)" rule: serve.cases)
      (auto split: task_request.splits graph_request.splits holder_request.splits project_request.splits case_request.splits
         step_request.splits run_request.splits ending_request.splits
         intro!: answered_intros intact_intros)
qed (rule lookup_keeps)

lemma silent_case_option [silent_intros]:
  "(x = None \<Longrightarrow> silent m) \<Longrightarrow> (\<And>y. x = Some y \<Longrightarrow> silent (f y)) \<Longrightarrow> silent (case x of None \<Rightarrow> m | Some y \<Rightarrow> f y)"
  by (cases x) simp_all

lemma silent_case_reads [silent_intros]: "silent (GetCase i)" "silent (GetTaskIfLive i)" "silent (caseLinks i)" "silent (ListCases f)"
  unfolding GetCase_def GetTaskIfLive_def caseLinks_def ListCases_def by (intro silent_intros)+

lemma silent_project_reads [silent_intros]:
  "silent (GetProject i)" "silent (GetProjectByName n)" "silent (ListTasksInProject i)"
  unfolding GetProject_def GetProjectByName_def ListTasksInProject_def by (intro silent_intros)+

lemma silent_identities: "silent (StableIdentity lib ob i)" "silent (Resolve lib raw)"
proof -
  have row: "silent (identityRowExists ob i)" for ob i
    unfolding identityRowExists_def rowsOf_def by (intro silent_intros)
  have "silent (firstOwner obs i)" for obs i
    by (induction obs) (auto intro!: silent_intros row)
  then show "silent (StableIdentity lib ob i)" "silent (Resolve lib raw)"
    unfolding StableIdentity_def Resolve_def by (auto split: option.split prod.split intro!: silent_intros row)
qed

lemma silent_GetWorkflowRunClosure: "silent (GetWorkflowRunClosure i)"
proof -
  have "silent (walkTask j acc)" for j acc
    unfolding walkTask_def walkEdges_def by (intro silent_intros)
  then have "silent (walkTasks is acc)" for "is" acc
    by (induction "is" arbitrary: acc) (auto intro!: silent_intros)
  then show ?thesis
    unfolding GetWorkflowRunClosure_def taskOrSkip_def todoOrSkip_def Let_def by (intro silent_intros)
qed

lemma silent_lists:
  "silent (ListOverdueTasks g f)" "silent ListTaskStates"
  "silent (ListRepeatingTasks rf)" "silent ListRunningRepeatingTasks" "silent (ListTaskAssignments i)"
  "silent (ListHeldTasks hq)" "silent ListProjects" "silent (ListProjectsForTask i)" "silent (GetTaskByName p n)"
  "silent (ListCaseTasks i)" "silent (ListMyCases i cf)" "silent (ListCaseVotes i)" "silent (ListCasesByVotes cf)"
  "silent (ListWorkflowRunsUnderWay c)" "silent (ListWorkflowRunsClosed c)" "silent (ListWorkflowRuns n)"
  "silent (ListTaskTodos i)" "silent (ListDeliverablesForTask i)" "silent (ListAcceptanceCriteriaForTask i)"
  "silent (ListWorkflowRunsStaleSince m)" "silent (ListWorkflowRunsStepStaleSince m)" "silent (ListTasksForRun i)"
  unfolding ListOverdueTasks_def withTags_def ListTaskStates_def ListRepeatingTasks_def ListRunningRepeatingTasks_def
    ListTaskAssignments_def ListHeldTasks_def ListProjects_def ListProjectsForTask_def GetTaskByName_def ListCaseTasks_def
    ListMyCases_def ListCaseVotes_def ListCasesByVotes_def storedVotesByCase_def
    ListWorkflowRunsUnderWay_def ListWorkflowRunsClosed_def ListWorkflowRuns_def
    ListTaskTodos_def ListDeliverablesForTask_def ListAcceptanceCriteriaForTask_def Let_def
    ListWorkflowRunsStaleSince_def ListWorkflowRunsStepStaleSince_def ListTasksForRun_def
  by (intro silent_intros)+

lemma lookup_silent: "lookup q \<Longrightarrow> silent (serve lib q)"
  by (cases "(lib, q)" rule: serve.cases)
    (auto split: task_request.splits graph_request.splits holder_request.splits project_request.splits case_request.splits
       step_request.splits run_request.splits ending_request.splits
       intro!: answered_intros silent_intros silent_identities silent_GetWorkflowRunClosure silent_lists)

section \<open>No request wears out what the world supplies\<close>

lemma steady_identities [steady_intros]: "steady (StableIdentity lib ob i)" "steady (Resolve lib raw)"
proof -
  have row [steady_intros]: "steady (identityRowExists ob i)" for ob i
    unfolding identityRowExists_def rowsOf_def by (intro steady_intros)
  have "steady (firstOwner obs i)" for obs i
    by (induction obs) (auto intro!: steady_intros)
  then show "steady (StableIdentity lib ob i)" "steady (Resolve lib raw)"
    unfolding StableIdentity_def Resolve_def by (auto split: option.split prod.split intro!: steady_intros)
qed

lemma steady_board [steady_intros]: "steady (PlaceTask i a b)" "steady (MoveTaskToState i state)"
proof -
  show "steady (PlaceTask i a b)"
    unfolding PlaceTask_def place_def renumber_def assignRank_def setRank_def Let_def
    by (auto intro!: steady_intros split: prod.split)
  have "steady (walkPath task path)" for task path
    by (induction path arbitrary: task) (auto intro!: steady_intros)
  then show "steady (MoveTaskToState i state)" unfolding MoveTaskToState_def by (intro steady_intros)
qed

lemma steady_project_ops [steady_intros]:
  "steady (GetProject i)" "steady (GetProjectByName n)" "steady (ListTasksInProject i)" "steady (UpdateProject p)"
  "steady (DeleteProject i)" "steady ListProjects" "steady (RemoveTaskFromProject i j)"
  "steady (ListProjectsForTask i)" "steady (GetTaskByName p' n)" "steady (CreateTaskInProject n task)"
  unfolding GetProject_def GetProjectByName_def ListTasksInProject_def UpdateProject_def DeleteProject_def ListProjects_def
    RemoveTaskFromProject_def ListProjectsForTask_def GetTaskByName_def CreateTaskInProject_def Let_def
  by (intro steady_intros)+

lemma steady_case_ops [steady_intros]:
  "steady (OpenCase requester c)" "steady (ListCases f)" "steady (LinkCaseTask i j)" "steady (ListCaseTasks i)"
  "steady (ListMyCases i f)" "steady (VoteCase i member castBy kind)" "steady (TakeBackVote i member)"
  "steady (ListCaseVotes i)" "steady (ListCasesByVotes f)"
  unfolding OpenCase_def ListCases_def LinkCaseTask_def ListCaseTasks_def ListMyCases_def VoteCase_def TakeBackVote_def
    ListCaseVotes_def ListCasesByVotes_def openCaseToVoteOn_def recordVote_def rankedCase_def votesOn_def caseVote_def
    storedVotesByCase_def Let_def
  by (intro steady_intros)+

lemma steady_lists [steady_intros]:
  "steady (ListOverdueTasks g f)" "steady ListTaskStates" "steady (ListTaskAssignments i)" "steady (ListHeldTasks hq)"
  "steady (ListRepeatingTasks rf)" "steady ListRunningRepeatingTasks" "steady (ListWorkflowRunsUnderWay c)"
  "steady (ListWorkflowRunsClosed c)" "steady (ListWorkflowRuns n)" "steady (ListTaskTodos i)"
  "steady (ListDeliverablesForTask i)" "steady (ListAcceptanceCriteriaForTask i)"
  "steady (ListWorkflowRunsStaleSince m)" "steady (ListWorkflowRunsStepStaleSince m)" "steady (ListTasksForRun i)"
  unfolding ListOverdueTasks_def withTags_def ListTaskStates_def ListTaskAssignments_def ListHeldTasks_def
    ListRepeatingTasks_def ListRunningRepeatingTasks_def ListWorkflowRunsUnderWay_def ListWorkflowRunsClosed_def
    ListWorkflowRuns_def ListTaskTodos_def ListDeliverablesForTask_def ListAcceptanceCriteriaForTask_def
    ListWorkflowRunsStaleSince_def ListWorkflowRunsStepStaleSince_def ListTasksForRun_def Let_def
  by (intro steady_intros)+

lemma steady_keyed_ops [steady_intros]:
  "steady (CreateRepeatingTask lib r)" "steady (StartRepeatingTask lib n)" "steady (MakeRepeatingTaskDue lib i moment)"
  "steady (OpenSourcedTasks sreq)" "steady (GenerateTasks greq)" "steady (UnblockDependents i)"
  unfolding CreateRepeatingTask_def StartRepeatingTask_def MakeRepeatingTaskDue_def makeOnce_def OpenSourcedTasks_def
    GenerateTasks_def UnblockDependents_def Let_def
  by (intro steady_intros)+

lemma steady_GetWorkflowRunClosure [steady_intros]: "steady (GetWorkflowRunClosure i)"
proof -
  have "steady (walkTask j acc)" for j acc
    unfolding walkTask_def walkEdges_def by (intro steady_intros)
  then have "steady (walkTasks is acc)" for "is" acc
    by (induction "is" arbitrary: acc) (auto intro!: steady_intros)
  then show ?thesis
    unfolding GetWorkflowRunClosure_def taskOrSkip_def todoOrSkip_def Let_def by (intro steady_intros)
qed

lemma steady_run_status [steady_intros]: "steady (CreateWorkflowRun n e a)" "steady (UpdateWorkflowRunStatus i st reason)"
    "steady (TouchWorkflowRunLastEventAt i ts)"
  unfolding CreateWorkflowRun_def UpdateWorkflowRunStatus_def TouchWorkflowRunLastEventAt_def by (intro steady_intros)+

lemma steady_chargeAttempts [steady_intros]: "steady (chargeAttempts k i c)"
  by (induction k) (auto simp: readCounter_def writeCounter_def Let_def intro!: steady_intros)

lemma steady_budget [steady_intros]:
  "steady (SetFailureBudget i b)" "steady (IncrementFailureBudget i c)" "steady (CreateRecoveryWorkflowRun n e a p r)"
  unfolding SetFailureBudget_def IncrementFailureBudget_def CreateRecoveryWorkflowRun_def by (intro steady_intros)+

lemma steady_watch [steady_intros]:
  "steady (CloseWorkflowRunsPastLimit asOf)" "steady (HandleRunTimeout i)" "steady (HandleTaskTimeout j i)"
  "steady (MarkTimeoutPublished i)" "steady (WriteAcceptanceCriteriaResult i r n)"
proof -
  have "steady (closeDue moment runs)" for moment runs
    by (induction runs) (auto intro!: steady_intros)
  then show "steady (CloseWorkflowRunsPastLimit asOf)"
    unfolding CloseWorkflowRunsPastLimit_def reread_def by (intro steady_intros)
qed (unfold HandleRunTimeout_def HandleTaskTimeout_def MarkTimeoutPublished_def WriteAcceptanceCriteriaResult_def failTask_def,
  (intro steady_intros)+)

lemma serve_steady: "steady (serve lib q)"
proof (cases q)
  case (OnTask x)
  then show ?thesis by (cases x) (auto intro!: answered_intros steady_intros)
next
  case (OnGraph x)
  then show ?thesis by (cases x) (auto intro!: answered_intros steady_intros)
next
  case (OnHolder x)
  then show ?thesis by (cases x) (auto intro!: answered_intros steady_intros)
next
  case (OnProject x)
  then show ?thesis by (cases x) (auto intro!: answered_intros steady_intros)
next
  case (OnCase x)
  then show ?thesis by (cases x) (auto intro!: answered_intros steady_intros)
next
  case (OnStep x)
  then show ?thesis by (cases x) (auto intro!: answered_intros steady_intros)
next
  case (OnRun x)
  then show ?thesis by (cases x) (auto intro!: answered_intros steady_intros)
next
  case (OnEnding x)
  then show ?thesis by (cases x) (auto intro!: answered_intros steady_intros)
qed

text \<open>
  Lookups look: a request that only reads changes no table and publishes nothing, whichever of its
  statements fail.
\<close>

lemma lookup_only:
  assumes "lookup q"
  shows "w_db (snd (serve lib q s)) = w_db s \<and> w_published (snd (serve lib q s)) = w_published s"
proof -
  obtain r t where run: "serve lib q s = (r, t)" by fastforce
  from keeps_reads [OF lookup_keeps [OF assms] run] silentD [OF lookup_silent [OF assms] run] run show ?thesis by simp
qed

end
