(* ===== verification/Service.thy ===== *)
theory Service
  imports Manager
begin

text \<open>
  The service as a whole: requests of the interface \<open>TaskManager\<close>, the imports and their workers, one step
  after another, on one set of tables. The state is \<open>import_sys\<close>. What every run of it keeps is \<open>sound\<close>, and every
  run is one of the import model, in which the requests are what happens beside the imports.
\<close>

section \<open>Steps\<close>

text \<open>
  \<open>supplied\<close> is any change of what the world supplies (ids, the clock, the setting, the publisher) and any call
  that only reads, such as a status query of an import or a cancellation that is refused.
\<close>

inductive service_step ::
  "('z, 'r, 'd) manager_lib \<Rightarrow> import_lib \<Rightarrow> import_sys \<Rightarrow> import_sys \<Rightarrow> bool" for lib il where
  requested: "serve lib q (sy_World y) = (r, s) \<Longrightarrow> service_step lib il y (y\<lparr>sy_World := s\<rparr>)"
| imported: "import_step il y a y' \<Longrightarrow> a \<noteq> Others \<Longrightarrow> service_step lib il y y'"
| supplied: "w_db s = w_db (sy_World y) \<Longrightarrow> w_published s = w_published (sy_World y) \<Longrightarrow>
    (w_faults (sy_World y) = [] \<longrightarrow> w_faults s = []) \<Longrightarrow>
    service_step lib il y (y\<lparr>sy_World := s\<rparr>)"

inductive service_run ::
  "('z, 'r, 'd) manager_lib \<Rightarrow> import_lib \<Rightarrow> import_sys \<Rightarrow> import_sys \<Rightarrow> bool" for lib il where
  still: "service_run lib il y y"
| moved: "service_step lib il y y' \<Longrightarrow> service_run lib il y' y'' \<Longrightarrow> service_run lib il y y''"

inductive_cases service_stepE: "service_step lib il y y'"

text \<open>A service nobody has used: only rows no operation of the package creates may be there.\<close>

definition fresh :: "import_sys \<Rightarrow> bool" where
  "fresh y \<longleftrightarrow> (\<exists>ds cs. w_db (sy_World y) = emptyDb\<lparr>d_deliverables := ds, d_criteria := cs\<rparr>) \<and>
     sy_Jobs y = Map.empty \<and> sy_Cancels y = []"

section \<open>What the steps keep\<close>

lemma sound_serve: "keeps sound (serve lib q)"
  by (rule sound_keeps) (rule serve_intact)

lemma sound_serveD: "serve lib q s = (r, t) \<Longrightarrow> sound (w_db s) \<Longrightarrow> sound (w_db t)"
  using keepsD [OF sound_serve, of s lib q] by simp

lemma sound_newImportJob: "keeps sound newImportJob"
  unfolding newImportJob_def Let_def by (intro flow_intros sound_jobs)

lemma sound_updateImportJobStatus: "keeps sound (updateImportJobStatus i st msg)"
  unfolding updateImportJobStatus_def by (intro flow_intros sound_jobs) simp

lemma sound_completeImportJob: "keeps sound (completeImportJob i n k name)"
  unfolding completeImportJob_def by (intro flow_intros sound_jobs) simp

lemma sound_calls:
  "keeps sound (CreateProject p)" "keeps sound (CreateTask task)" "keeps sound (AddTaskToProject a b)"
  "keeps sound (CreateRelationship rel)"
  by (rule sound_keeps, rule intact_intros)+

lemma sound_workerStep: "keeps sound (workerStep il i document done phase)"
  by (cases "(il, i, document, done, phase)" rule: workerStep.cases)
    (auto simp: Let_def split: sum.split option.split
      intro!: flow_intros keeps_underCtx sound_updateImportJobStatus sound_completeImportJob sound_calls)

lemma sound_onWorld: "keeps sound m \<Longrightarrow> onWorld m y = (r, y') \<Longrightarrow> sound (w_db (sy_World y)) \<Longrightarrow> sound (w_db (sy_World y'))"
  by (auto simp: onWorld_def keeps_def split: prod.splits)

lemma sound_import:
  assumes "import_step il y a y'" and "a \<noteq> Others" and ok: "sound (w_db (sy_World y))"
  shows "sound (w_db (sy_World y'))"
  using assms(1)
proof (cases rule: import_step.cases)
  case (started document r)
  then show ?thesis using ok unfolding StartImportProject_def
    by (auto split: sum.splits prod.splits dest: sound_onWorld [OF sound_newImportJob])
next
  case (worked i w)
  then show ?thesis using ok keepsD [OF sound_workerStep, of "sy_World y" il i "iw_Document w" "iw_Cancelled w" "iw_Phase w"]
    unfolding workerMove_def by (auto split: sum.splits prod.splits)
next
  case (checked ctx i y1)
  then have "w_db (sy_World y1) = w_db (sy_World y)" using cancelCheck_same by blast
  then show ?thesis using checked ok by simp
next
  case (signalled i)
  then show ?thesis using ok by (simp add: cancelSignal_def split: option.split)
next
  case (written i r y1)
  then show ?thesis using sound_onWorld [OF sound_updateImportJobStatus] ok by simp
qed (use assms(2) in simp)

lemma sound_step: "service_step lib il y y' \<Longrightarrow> sound (w_db (sy_World y)) \<Longrightarrow> sound (w_db (sy_World y'))"
  by (erule service_stepE) (auto dest: sound_import sound_serveD)

lemma sound_run: "service_run lib il y y' \<Longrightarrow> sound (w_db (sy_World y)) \<Longrightarrow> sound (w_db (sy_World y'))"
  by (induction rule: service_run.induct) (auto dest: sound_step)

lemma sound_fresh: "fresh y \<Longrightarrow> sound (w_db (sy_World y))"
proof -
  have "joinPairs j (emptyDb\<lparr>d_deliverables := ds, d_criteria := cs\<rparr>) = []" for j ds cs
    by (cases j) (simp_all add: emptyDb_def)
  then show "fresh y \<Longrightarrow> sound (w_db (sy_World y))"
    by (auto simp: fresh_def sound_def intact_def joinTargets_def rowTargets_def rowKeysUnique_def edgesUnique_def
        tasksDone_def runsUnderWay_def oneOpen_def openStretches_def votesOk_def emptyDb_def)
qed

text \<open>The jobs are not touched by a request, so it is one of the other requests of the import model.\<close>

lemma serve_jobs:
  assumes "serve lib q s = (r, t)" and "sound (w_db s)"
  shows "d_importJobs (w_db t) = d_importJobs (w_db s)"
proof -
  have "intact (d_importJobs (w_db s)) {} (w_db s)" using assms(2) by (simp add: sound_def)
  from keepsD [OF serve_intact this, of lib q] assms(1) show ?thesis by (auto dest: intactD(1))
qed

lemma service_step_import:
  assumes "service_step lib il y y'" and "sound (w_db (sy_World y))"
  shows "\<exists>a. import_step il y a y'"
  using assms(1)
proof (cases rule: service_step.cases)
  case (requested q r s)
  with steadyD(1) [OF serve_steady requested(2)] serve_jobs [OF requested(2) assms(2)] show ?thesis
    using import_step.others [of s y il] by blast
next
  case (imported a)
  then show ?thesis by blast
next
  case (supplied s)
  with import_step.others [of s y il] show ?thesis by auto
qed

text \<open>An unused service, a manager for it, and a run of it: a task is created, then an import is started.\<close>

definition demoManager :: "(unit, string, instant) manager_lib" where
  "demoManager = \<lparr>ml_recur = dailyCalendar, ml_identity = slashNames, ml_grace = 0\<rparr>"

lemma fresh_idle: "fresh idleService"
proof -
  have "emptyDb = emptyDb\<lparr>d_deliverables := [], d_criteria := []\<rparr>" by (simp add: emptyDb_def)
  then show ?thesis unfolding fresh_def idleService_def calmWorld_def by auto
qed

lemma demo_run:
  "\<exists>y. service_run demoManager demoLib idleService y \<and> map t_Title (d_tasks (w_db (sy_World y))) = [''a''] \<and>
     d_importJobs (w_db (sy_World y)) \<noteq> []"
proof -
  have "\<exists>out t. CreateTask (task0\<lparr>t_Title := ''a''\<rparr>) calmWorld = (Inr out, t) \<and> w_faults t = []"
    by (simp add: CreateTask_def loadTagNames_def tm_defs calm calmWorld_def worldOf_def emptyDb_def taskClash_def task0_def)
  then obtain out t where made: "CreateTask (task0\<lparr>t_Title := ''a''\<rparr>) calmWorld = (Inr out, t)" and calm: "w_faults t = []"
    by blast
  have tasks: "map t_Title (d_tasks (w_db t)) = [''a'']" "d_importJobs (w_db t) = []"
    using CreateTask_plain [OF made] by (auto simp: task0_def calmWorld_def emptyDb_def)
  let ?y = "idleService\<lparr>sy_World := t\<rparr>"
  have one: "service_step demoManager demoLib idleService ?y"
    using service_step.requested [of demoManager "OnTask (ReqCreateTask (task0\<lparr>t_Title := ''a''\<rparr>))" idleService "Inr ()" t demoLib]
      made by (simp add: idleService_def answered_def bnd_def ret_def)
  have "\<exists>job s. newImportJob t = (Inr job, s) \<and> d_importJobs (w_db s) \<noteq> [] \<and> d_tasks (w_db s) = d_tasks (w_db t)"
    using calm tasks(2) by (simp add: newImportJob_def Let_def tm_basic insertQ_calm)
  then obtain job s where "newImportJob t = (Inr job, s)" and rows: "d_importJobs (w_db s) \<noteq> []" "d_tasks (w_db s) = d_tasks (w_db t)"
    by blast
  then obtain z where start: "StartImportProject demoLib ''demo'' ?y = (Inr job, z)" and z: "sy_World z = s"
    by (simp add: StartImportProject_def demo_valid onWorld_def)
  have two: "service_step demoManager demoLib ?y z"
    using service_step.imported [OF import_step.started [OF start]] by simp
  from service_run.moved [OF one service_run.moved [OF two service_run.still]] z rows tasks(1) show ?thesis by auto
qed

text \<open>What the properties of rollback, cancellation and the board ask of the tables holds in every state of the service.\<close>

lemma service_tasksUnique: "fresh y \<Longrightarrow> service_run lib il y y' \<Longrightarrow> tasksUnique (w_db (sy_World y'))"
  using sound_run [OF _ sound_fresh] by (fastforce simp: sound_def intact_def rowKeysUnique_def tasksUnique_def)

section \<open>Properties\<close>



text \<open>
  C36. The service refines the import model: every run of the service from an unused state is a run of the
  import model, with each request of the interface one of its other requests. What is proved of imports for
  every sequence of steps holds in the service.
\<close>

theorem service_refines_imports:
  assumes "fresh y" and "service_run lib il y y'"
  shows "\<exists>acts. import_run il y acts y'"
proof -
  have "\<exists>acts. import_run il y acts y'" if "service_run lib il y y'" "sound (w_db (sy_World y))" for y
    using that
  proof (induction rule: service_run.induct)
    case (moved y z y'')
    from service_step_import [OF moved(1, 4)] obtain a where "import_step il y a z" ..
    with moved(3) sound_step [OF moved(1, 4)] import_run.there show ?case by blast
  qed (auto intro: import_run.here)
  with assms(2) sound_fresh [OF assms(1)] show ?thesis by blast
qed

theorem service_refines_imports_witness:
  "\<exists>y acts. service_run demoManager demoLib idleService y \<and> import_run demoLib idleService acts y \<and>
     d_importJobs (w_db (sy_World y)) \<noteq> []"
proof -
  obtain y where run: "service_run demoManager demoLib idleService y" "d_importJobs (w_db (sy_World y)) \<noteq> []"
    using demo_run by blast
  from service_refines_imports [OF fresh_idle run(1)] run show ?thesis by blast
qed

end
