(* ===== verification/Conduct.thy ===== *)
theory Conduct
  imports Service
begin

text \<open>
  What leaves the service: the events it publishes and the errors it answers, for every method, whichever
  statements fail. One judgement over the operations carries both, \<open>conducts E m\<close>, with a rule for each
  construct of the monad.
\<close>

section \<open>Events and errors that may leave\<close>

text \<open>
  \<open>lawful\<close>: what a subscriber may take from an event without asking back. \<open>refusable\<close>: the errors a declared
  operation may answer; the rest are internal or belong to the identities and the imports.
\<close>

fun lawful :: "event \<Rightarrow> bool" where
  "lawful (TaskStatusChanged _ from to _) \<longleftrightarrow> CanTransitionTo from to"
| "lawful (TaskCompleted _ status moment _) \<longleftrightarrow> isTerminalStatus status \<and> moment \<noteq> []"
| "lawful (TaskUpdated _ changed _) \<longleftrightarrow> changed \<noteq> []"
| "lawful (TaskHandedOver _ kind holder _) \<longleftrightarrow> kind \<in> {AssigneeActor, AssigneeRole} \<and> holder \<noteq> []"
| "lawful (CaseOpened _ requester _ _) \<longleftrightarrow> requester \<noteq> []"
| "lawful (CaseClosed _ status moment) \<longleftrightarrow> status \<in> {CaseStatusDone, CaseStatusCancelled} \<and> moment \<noteq> []"
| "lawful _ \<longleftrightarrow> True"

fun refusable :: "err \<Rightarrow> bool" where
  "refusable ErrTaskAlreadyExists \<longleftrightarrow> False"
| "refusable ErrProjectAlreadyExists \<longleftrightarrow> False"
| "refusable ErrAgentAlreadyExists \<longleftrightarrow> False"
| "refusable ErrGeneratedTaskNotFound \<longleftrightarrow> False"
| "refusable ErrSourcedTaskNotFound \<longleftrightarrow> False"
| "refusable ErrOverdueGrace \<longleftrightarrow> False"
| "refusable ErrNoStableIdentity \<longleftrightarrow> False"
| "refusable ErrIdentityNotFound \<longleftrightarrow> False"
| "refusable ErrIdentityNotOwned \<longleftrightarrow> False"
| "refusable ErrIdentityMalformed \<longleftrightarrow> False"
| "refusable ErrInvalidImport \<longleftrightarrow> False"
| "refusable ErrImportJobNotFound \<longleftrightarrow> False"
| "refusable ErrImportJobNotCancellable \<longleftrightarrow> False"
| "refusable ErrImportCancelled \<longleftrightarrow> False"
| "refusable ErrContextDone \<longleftrightarrow> False"
| "refusable _ \<longleftrightarrow> True"

definition conducts :: "(err \<Rightarrow> bool) \<Rightarrow> 'a tm \<Rightarrow> bool" where
  "conducts E m \<longleftrightarrow> (\<forall>s. set (w_published (snd (m s))) \<subseteq> set (w_published s) \<union> Collect lawful \<and>
     (\<forall>e. fst (m s) = Inl e \<longrightarrow> E e))"

named_theorems conduct_intros \<open>introduction rules for what an operation publishes and answers\<close>

section \<open>One rule for each construct\<close>

lemma conductsI:
  assumes "\<And>s r t. m s = (r, t) \<Longrightarrow> set (w_published t) \<subseteq> set (w_published s) \<union> Collect lawful"
    and "\<And>s e t. m s = (Inl e, t) \<Longrightarrow> E e"
  shows "conducts E m"
  unfolding conducts_def using assms by (metis prod.collapse)

lemma conductsD:
  assumes "conducts E m" and "m s = (r, t)"
  shows "set (w_published t) \<subseteq> set (w_published s) \<union> Collect lawful" "r = Inl e \<Longrightarrow> E e"
  using assms unfolding conducts_def by (metis fst_conv snd_conv)+

lemma conducts_any: "conducts E m \<Longrightarrow> conducts (\<lambda>_. True) m"
  by (simp add: conducts_def)

lemma conducts_bnd:
  assumes m: "conducts E m" and f: "\<And>x. conducts E (f x)"
  shows "conducts E (bnd m f)"
proof (rule conductsI)
  fix s r t
  assume run: "bnd m f s = (r, t)"
  obtain x s1 where x: "m s = (x, s1)" by fastforce
  with run conductsD(1) [OF m x] show "set (w_published t) \<subseteq> set (w_published s) \<union> Collect lawful"
    by (cases x) (auto simp: bnd_def dest: conductsD(1) [OF f])
next
  fix s e t
  assume run: "bnd m f s = (Inl e, t)"
  obtain x s1 where x: "m s = (x, s1)" by fastforce
  with run conductsD(2) [OF m x] show "E e"
    by (cases x) (auto simp: bnd_def dest: conductsD(2) [OF f])
qed

text \<open>What was tried and failed failed with an error that may leave.\<close>

lemma conducts_tried:
  assumes m: "conducts E m" and f: "\<And>r. (\<And>e. r = Inl e \<Longrightarrow> E e) \<Longrightarrow> conducts E (f r)"
  shows "conducts E (bnd (attempt m) f)"
proof (rule conductsI)
  fix s r t
  assume run: "bnd (attempt m) f s = (r, t)"
  obtain x s1 where x: "m s = (x, s1)" by fastforce
  have "conducts E (f x)" using f conductsD(2) [OF m x] by blast
  moreover have "f x s1 = (r, t)" using run x by (simp add: bnd_def attempt_def)
  ultimately show "set (w_published t) \<subseteq> set (w_published s) \<union> Collect lawful"
    using conductsD(1) [OF m x] conductsD(1) by blast
next
  fix s e t
  assume run: "bnd (attempt m) f s = (Inl e, t)"
  obtain x s1 where x: "m s = (x, s1)" by fastforce
  have "conducts E (f x)" using f conductsD(2) [OF m x] by blast
  moreover have "f x s1 = (Inl e, t)" using run x by (simp add: bnd_def attempt_def)
  ultimately show "E e" using conductsD(2) by blast
qed

lemma conducts_seq: "conducts E m \<Longrightarrow> conducts E m' \<Longrightarrow> conducts E (seq m m')"
  by (simp add: seq_def conducts_bnd)

lemma conducts_attempt: "conducts E m \<Longrightarrow> conducts E (attempt m)"
  by (simp add: conducts_def attempt_def split_beta)

lemma conducts_unless: "(\<not> ok \<Longrightarrow> E e) \<Longrightarrow> conducts E (unless ok e)"
  by (simp add: conducts_def unless_def ret_def fail_def)

lemma conducts_guarded:
  assumes "\<not> ok \<Longrightarrow> E e" and "ok \<Longrightarrow> conducts E m"
  shows "conducts E (seq (unless ok e) m)"
  using assms by (cases ok) (simp_all add: conducts_def unless_def seq_def bnd_def ret_def fail_def)

lemma conducts_basic:
  "conducts E (ret x)" "conducts E nowT" "conducts E nowStr" "conducts E newSpecID" "conducts E draw3"
  by (simp_all add: conducts_def tm_basic)

lemma conducts_fail: "E e \<Longrightarrow> conducts E (fail e)"
  by (simp add: conducts_def fail_def)

lemma conducts_lift: "(\<And>e. r = Inl e \<Longrightarrow> E e) \<Longrightarrow> conducts E (lift r)"
  by (auto simp: conducts_def lift_def)

lemma conducts_publish: "lawful ev \<Longrightarrow> conducts E (publish ev)"
  by (simp add: conducts_def publish_def)

text \<open>The clock never reads as empty, so a time it gave is one.\<close>

lemma conducts_now:
  assumes "\<And>now. now \<noteq> [] \<Longrightarrow> conducts E (f now)"
  shows "conducts E (bnd nowStr f)"
proof (rule conductsI)
  have f: "conducts E (f (fmtRFC3339 x))" for x using assms by simp
  show "set (w_published t) \<subseteq> set (w_published s) \<union> Collect lawful" if "bnd nowStr f s = (r, t)" for s r t
    using that conductsD(1) [OF f] by (fastforce simp: nowStr_def bnd_def nowT_def ret_def)
  show "E e" if "bnd nowStr f s = (Inl e, t)" for s e t
    using that conductsD(2) [OF f] by (simp add: nowStr_def bnd_def nowT_def ret_def)
qed

lemma conducts_taskStates: "conducts refusable taskStates"
proof (rule conductsI)
  fix s :: world and e t
  assume "taskStates s = (Inl e, t)"
  then show "refusable e" using StoredTaskStates_error [of "w_setting s" e] by (auto simp: taskStates_def)
qed (simp add: taskStates_def)

lemma conducts_sql:
  assumes "E ErrDatabase" and "\<And>d e d'. f d = (Inl e, d') \<Longrightarrow> E e"
  shows "conducts E (sql f)"
  using assms by (auto simp: conducts_def sql_def split: prod.splits)

lemma conducts_statements:
  "E ErrDatabase \<Longrightarrow> conducts E (selectQ T P)" "E ErrDatabase \<Longrightarrow> conducts E (updateQ T P g)"
  "E ErrDatabase \<Longrightarrow> conducts E (deleteQ T P)"
  "E ErrDatabase \<Longrightarrow> E e \<Longrightarrow> conducts E (takeQ T P e)"
  "E ErrDatabase \<Longrightarrow> E ErrUniqueKey \<Longrightarrow> conducts E (insertQ T clash row)"
  unfolding selectQ_def updateQ_def deleteQ_def takeQ_def insertQ_def
  by (auto intro!: conducts_sql split: if_splits option.splits)

lemma conducts_transaction:
  assumes m: "conducts E m" and db: "E ErrDatabase"
  shows "conducts E (transaction m)"
proof (rule conductsI)
  fix s r t
  assume run: "transaction m s = (r, t)"
  obtain x s1 where x: "m s = (x, s1)" by fastforce
  have "w_published t = w_published s1" using run x
    by (auto simp: transaction_def sql_def split: sum.splits prod.splits if_splits)
  with conductsD(1) [OF m x] show "set (w_published t) \<subseteq> set (w_published s) \<union> Collect lawful" by simp
next
  fix s e t
  assume run: "transaction m s = (Inl e, t)"
  obtain x s1 where x: "m s = (x, s1)" by fastforce
  with run db conductsD(2) [OF m x] show "E e"
    by (auto simp: transaction_def sql_def split: sum.splits prod.splits if_splits)
qed

lemma conducts_heldTx:
  assumes m: "conducts E m" and db: "E ErrDatabase"
  shows "conducts E (heldTx m)"
proof (rule conductsI)
  fix s r t
  assume run: "heldTx m s = (r, t)"
  show "set (w_published t) \<subseteq> set (w_published s) \<union> Collect lawful"
  proof (cases r)
    case (Inl e)
    have "w_published t = w_published s" using heldTx_Inl [OF run [unfolded Inl]] by simp
    then show ?thesis by simp
  next
    case (Inr x)
    obtain s1 where s1: "m (held s) = (Inr x, s1)"
      and t: "w_published t = w_published s @ (if w_publisherNil s then [] else w_published s1)"
      using heldTx_Inr [OF run [unfolded Inr]] by blast
    have "set (w_published s1) \<subseteq> Collect lawful" using conductsD(1) [OF m s1] by simp
    with t show ?thesis by auto
  qed
next
  fix s e t
  assume run: "heldTx m s = (Inl e, t)"
  obtain r s2 where tx: "transaction m (held s) = (r, s2)" by fastforce
  with run have "r = Inl e" by (auto simp: heldTx_def seq_def bnd_def forEach_publish ret_def split: sum.splits)
  with conductsD(2) [OF conducts_transaction [OF m db] tx] show "E e" by simp
qed

lemma conducts_lookupQ: "E ErrDatabase \<Longrightarrow> conducts E (lookupQ T P e)"
  unfolding lookupQ_def takeQ_def
  by (auto simp: conducts_def bnd_def attempt_def ret_def fail_def sql_def split: sum.splits prod.splits option.splits)

lemma conducts_whenM: "(b \<Longrightarrow> conducts E m) \<Longrightarrow> conducts E (whenM b m)"
  by (simp add: whenM_def conducts_basic)

lemma conducts_if: "(b \<Longrightarrow> conducts E m) \<Longrightarrow> (\<not> b \<Longrightarrow> conducts E m') \<Longrightarrow> conducts E (if b then m else m')"
  by simp

lemma conducts_case_sum:
  "(\<And>e. x = Inl e \<Longrightarrow> conducts E (f e)) \<Longrightarrow> (\<And>y. x = Inr y \<Longrightarrow> conducts E (g y)) \<Longrightarrow>
   conducts E (case x of Inl e \<Rightarrow> f e | Inr y \<Rightarrow> g y)"
  by (cases x) simp_all

lemma conducts_case_option:
  "(x = None \<Longrightarrow> conducts E m) \<Longrightarrow> (\<And>y. x = Some y \<Longrightarrow> conducts E (f y)) \<Longrightarrow>
   conducts E (case x of None \<Rightarrow> m | Some y \<Rightarrow> f y)"
  by (cases x) simp_all

lemma conducts_loops:
  "(\<And>x. x \<in> set xs \<Longrightarrow> conducts E (f x)) \<Longrightarrow> conducts E (forEach xs f)"
  "(\<And>x. x \<in> set xs \<Longrightarrow> conducts E (g x)) \<Longrightarrow> conducts E (collect xs g)"
  "(\<And>x. x \<in> set xs \<Longrightarrow> conducts E (h x)) \<Longrightarrow> conducts E (mapTM h xs)"
  by (induction xs) (simp_all add: conducts_basic conducts_seq conducts_bnd)

text \<open>The special cases come first: a guard and a clock tell the code behind them something.\<close>

lemmas conduct_rules =
  conducts_guarded conducts_tried conducts_now conducts_bnd conducts_seq conducts_attempt conducts_unless conducts_basic
  conducts_fail conducts_lift conducts_publish conducts_taskStates conducts_statements conducts_transaction conducts_heldTx
  conducts_lookupQ conducts_whenM conducts_if conducts_case_sum conducts_case_option conducts_loops

section \<open>Tasks and edges\<close>

lemma refusable_relSpecs: "relSpecs l = Some spec \<Longrightarrow> refusable (rs_fromNotFound spec) \<and> refusable (rs_toNotFound spec)"
  by (cases l) auto

lemma conducts_checkOthers: "refusable e \<Longrightarrow> conducts refusable (checkOthers Ts want i e)"
  by (induction Ts) (auto simp: rowExists_def intro!: conduct_rules conducts_sql)

lemma conducts_checkEndpoint: "refusable e \<Longrightarrow> conducts refusable (checkEndpoint i want e)"
  unfolding checkEndpoint_def rowExists_def by (intro conduct_rules conducts_sql conducts_checkOthers) simp_all

lemma conducts_edges: "conducts refusable (createdEdge rel now)" "conducts refusable (existingEdge rel)"
  unfolding createdEdge_def existingEdge_def by (intro conduct_rules; simp)+

lemma conducts_createFK:
  "refusable e \<Longrightarrow> refusable e' \<Longrightarrow> conducts refusable (createFK rel c i e T j e')"
  unfolding createFK_def
  by (intro conduct_rules conducts_sql conducts_checkEndpoint conducts_edges) (auto split: option.splits)

lemma conducts_createJoin:
  "refusable (rs_fromNotFound spec) \<Longrightarrow> refusable (rs_toNotFound spec) \<Longrightarrow> conducts refusable (createJoin rel spec j)"
  unfolding createJoin_def
  by (intro conduct_rules conducts_sql conducts_checkEndpoint conducts_edges) (auto split: if_splits)

lemma conducts_CreateRelationship [conduct_intros]: "conducts refusable (CreateRelationship rel)"
  unfolding CreateRelationship_def
  by (auto split: option.split rel_kind.split dest!: refusable_relSpecs
      intro!: conducts_createFK conducts_createJoin conducts_fail)

lemma conducts_DeleteRelationship [conduct_intros]: "conducts refusable (DeleteRelationship a b l)"
  unfolding DeleteRelationship_def deleteFK_def
  by (auto split: option.splits rel_kind.split intro!: conduct_rules conducts_sql)

lemma conducts_TraverseRelationships [conduct_intros]: "conducts refusable (TraverseRelationships v l dir)"
  unfolding TraverseRelationships_def traverseFK_def traverseJoin_def
  by (auto split: option.split rel_kind.split intro!: conduct_rules conducts_sql)

lemma conducts_loadTagNames [conduct_intros]: "conducts refusable (loadTagNames i)"
  unfolding loadTagNames_def by (intro conduct_rules) simp_all

lemma conducts_task_reads [conduct_intros]:
  "conducts refusable (GetTask i)" "conducts refusable (ListTasks f)"
  unfolding GetTask_def ListTasks_def by (intro conduct_rules conduct_intros; simp)+

lemma conducts_findActiveBlockers [conduct_intros]: "conducts refusable (findActiveBlockers i)"
  unfolding findActiveBlockers_def by (intro conduct_rules conduct_intros) auto

lemma conducts_case_reads [conduct_intros]:
  "conducts refusable (GetCase i)" "conducts refusable (ListCases f)" "conducts refusable (ListMyCases m f)"
  "conducts refusable (caseOfTask i)" "conducts refusable (caseLinks i)" "conducts refusable (GetTaskIfLive i)"
  unfolding GetCase_def ListCases_def ListMyCases_def caseOfTask_def caseLinks_def GetTaskIfLive_def
  by ((intro conduct_rules conduct_intros; auto)+)

lemma conducts_liveCaseTasks [conduct_intros]: "conducts refusable (liveCaseTasks i)" "conducts refusable (ListCaseTasks i)"
  unfolding liveCaseTasks_def ListCaseTasks_def by (intro conduct_rules conduct_intros; auto)+

lemma conducts_closeCaseIfSettled [conduct_intros]: "conducts refusable (closeCaseIfSettled i)"
  unfolding closeCaseIfSettled_def by (intro conduct_rules conduct_intros) auto

lemma conducts_nextCode [conduct_intros]: "conducts refusable (nextCode et p)"
  unfolding nextCode_def by (auto split: list.split intro!: conduct_rules conducts_sql)

lemma conducts_upsertTagByName [conduct_intros]: "conducts refusable (upsertTagByName name)"
  unfolding upsertTagByName_def Let_def by (intro conduct_rules conduct_intros) auto

lemma conducts_setTaskTags [conduct_intros]: "conducts refusable (setTaskTags i names)"
  unfolding setTaskTags_def Let_def by (intro conduct_rules conduct_intros) auto

lemma conducts_run_reads [conduct_intros]:
  "conducts refusable (GetWorkflowRun i)" "conducts refusable (GetWorkflowRunByName n)" "conducts refusable (ListWorkflowRuns n)"
  "conducts refusable (GetTaskTodo j)"
  unfolding GetWorkflowRun_def GetWorkflowRunByName_def ListWorkflowRuns_def GetTaskTodo_def
  by (intro conduct_rules conduct_intros; auto)+

lemma conducts_links [conduct_intros]: "conducts refusable (LinkTaskToRun r i)" "conducts refusable (LinkTodoToRun r j)"
  unfolding LinkTaskToRun_def LinkTodoToRun_def by (intro conduct_rules conduct_intros; simp)+

lemma conducts_nextRank [conduct_intros]: "conducts refusable nextRank"
  unfolding nextRank_def by (intro conduct_rules) simp

lemma conducts_CreateTask [conduct_intros]: "conducts refusable (CreateTask task)"
  unfolding CreateTask_def Let_def by (intro conduct_rules conduct_intros) auto

lemma conducts_announceUpdate:
  assumes "t_Status current = t_Status out \<or> CanTransitionTo (t_Status current) (t_Status out)" and "now \<noteq> []"
  shows "conducts refusable (announceUpdate current out now)"
  using assms unfolding announceUpdate_def Let_def by (intro conduct_rules conduct_intros) auto

lemma conducts_applyUpdate:
  assumes "t_Status current = t_Status task \<or> CanTransitionTo (t_Status current) (t_Status task)"
  shows "conducts refusable (applyUpdate current task)"
  using assms unfolding applyUpdate_def afterUpdate_def Let_def
  by (intro conduct_rules conduct_intros conducts_announceUpdate) (auto simp: mergedTask_def)

lemma conducts_UpdateTask [conduct_intros]: "conducts refusable (UpdateTask task)"
  unfolding UpdateTask_def blockerGate_def
  by (intro conduct_rules conduct_intros conducts_applyUpdate) auto

lemma conducts_DeleteTask [conduct_intros]: "conducts refusable (DeleteTask i)"
  unfolding DeleteTask_def by (intro conduct_rules conduct_intros) auto

section \<open>Boards, runs and their ends\<close>

lemma conducts_board [conduct_intros]:
  "conducts refusable (PlaceTask i a b)" "conducts refusable ListTaskStates" "conducts refusable (MoveTaskToState i state)"
proof -
  have place: "insertionIndex rest x y = Inl e \<Longrightarrow> refusable e" for rest x y e
    by (auto simp: insertionIndex_def neighbour_def split: sum.splits if_splits option.splits)
  show "conducts refusable (PlaceTask i a b)"
    unfolding PlaceTask_def place_def renumber_def assignRank_def setRank_def Let_def
    by (auto intro!: conduct_rules conduct_intros dest: place split: prod.split)
  have "conducts refusable (walkPath task path)" for task path
    by (induction path arbitrary: task) (auto intro!: conduct_rules conduct_intros)
  then show "conducts refusable (MoveTaskToState i state)"
    unfolding MoveTaskToState_def by (auto intro!: conduct_rules conduct_intros split: option.split)
  show "conducts refusable ListTaskStates" unfolding ListTaskStates_def by (intro conduct_rules)
qed

lemma conducts_openWorkflowRun [conduct_intros]:
  "conducts refusable (openWorkflowRun run)" "conducts refusable (CreateWorkflowRun n e a)"
  unfolding CreateWorkflowRun_def openWorkflowRun_def Let_def by (intro conduct_rules conduct_intros; auto)+

lemma conducts_saveRun [conduct_intros]: "conducts refusable (saveRun run)" "conducts refusable (publishRunStatusEvent run now reason)"
  unfolding saveRun_def publishRunStatusEvent_def by (auto intro!: conduct_rules split: run_status.split)

lemma conducts_setRunStatus [conduct_intros]:
  "conducts refusable (setRunStatus i st reason)" "conducts refusable (UpdateWorkflowRunStatus i st reason)"
  "conducts refusable (TouchWorkflowRunLastEventAt i ts)"
  unfolding UpdateWorkflowRunStatus_def setRunStatus_def TouchWorkflowRunLastEventAt_def Let_def
  by (intro conduct_rules conduct_intros; auto)+

lemma conducts_GetWorkflowRunClosure [conduct_intros]: "conducts refusable (GetWorkflowRunClosure i)"
proof -
  have "conducts refusable (walkTask j acc)" for j acc
    unfolding walkTask_def walkEdges_def by (intro conduct_rules conduct_intros)
  then have "conducts refusable (walkTasks is acc)" for "is" acc
    by (induction "is" arbitrary: acc) (auto intro!: conduct_rules)
  then show ?thesis
    unfolding GetWorkflowRunClosure_def taskOrSkip_def todoOrSkip_def Let_def by (intro conduct_rules conduct_intros)
qed

lemma conducts_rollback [conduct_intros]:
  "conducts refusable (DeleteWorkflowRunArtifacts i)" "conducts refusable (RollbackWorkflowRun i reason)"
proof -
  have artifacts [conduct_intros]: "conducts refusable (DeleteWorkflowRunArtifacts i)" for i
    unfolding DeleteWorkflowRunArtifacts_def compensate_def foreignGuard_def publishTaskRolledBack_def
    by (intro conduct_rules conduct_intros) auto
  then show "conducts refusable (DeleteWorkflowRunArtifacts i)" .
  show "conducts refusable (RollbackWorkflowRun i reason)"
    unfolding RollbackWorkflowRun_def by (intro conduct_rules conduct_intros artifacts) auto
qed

lemma conducts_cascade [conduct_intros]:
  "conducts refusable (cancelTask task reason)" "conducts refusable (cascadeTaskCancellation i reason)"
proof -
  have cancel: "conducts refusable (cancelTask task reason)" for task
    unfolding cancelTask_def by (intro conduct_rules conduct_intros) auto
  then show "conducts refusable (cancelTask task reason)" .
  show "conducts refusable (cascadeTaskCancellation i reason)"
    unfolding cascadeTaskCancellation_def cancelUnfinished_def by (intro conduct_rules conduct_intros cancel)
qed

lemma conducts_cancel_ops [conduct_intros]:
  "conducts refusable (CancelWorkflowRun i reason m u)" "conducts refusable (FinalizeWorkflowRunCancellation i)"
  "conducts refusable (StartWorkflowRun n c v e a)" "conducts refusable (ListWorkflowRunsUnderWay c)"
  "conducts refusable (ListWorkflowRunsClosed c)" "conducts refusable (StopWorkflowRun i b' reason v)"
  unfolding CancelWorkflowRun_def FinalizeWorkflowRunCancellation_def StartWorkflowRun_def ListWorkflowRunsUnderWay_def
    ListWorkflowRunsClosed_def StopWorkflowRun_def restartRun_def Let_def
  by (intro conduct_rules conduct_intros; auto)+

lemma conducts_chargeAttempts: "conducts refusable (chargeAttempts k i c)"
  by (induction k) (auto simp: readCounter_def writeCounter_def Let_def intro!: conduct_rules conduct_intros)

lemma conducts_budget [conduct_intros]:
  "conducts refusable (SetFailureBudget i b)" "conducts refusable (IncrementFailureBudget i c)"
  "conducts refusable (CreateRecoveryWorkflowRun n e a p r)"
  unfolding SetFailureBudget_def IncrementFailureBudget_def CreateRecoveryWorkflowRun_def
  by (intro conduct_rules conduct_intros conducts_chargeAttempts; auto)+

lemma conducts_steps [conduct_intros]:
  "conducts refusable (BeginWorkflowRunStep i st l c)" "conducts refusable (AnswerWorkflowRunStep i)"
  "conducts refusable (CloseWorkflowRunsPastLimit asOf)"
proof -
  have "conducts refusable (closePastLimit moment run)" for moment run
    unfolding closePastLimit_def openCancelRun_def Let_def by (intro conduct_rules conduct_intros) auto
  then have "conducts refusable (closeDue moment runs)" for moment runs
    by (induction runs) (auto intro!: conduct_rules)
  then show "conducts refusable (CloseWorkflowRunsPastLimit asOf)"
    unfolding CloseWorkflowRunsPastLimit_def reread_def by (intro conduct_rules conduct_intros) auto
qed (unfold BeginWorkflowRunStep_def AnswerWorkflowRunStep_def Let_def, (intro conduct_rules conduct_intros; auto)+)

lemma conducts_watch [conduct_intros]:
  "conducts refusable (ListWorkflowRunsStaleSince m)" "conducts refusable (ListWorkflowRunsStepStaleSince m)"
  "conducts refusable (MarkTimeoutPublished i)" "conducts refusable (ListTasksForRun i)"
  "conducts refusable (HandleRunTimeout i)" "conducts refusable (HandleTaskTimeout j i)"
  unfolding ListWorkflowRunsStaleSince_def ListWorkflowRunsStepStaleSince_def MarkTimeoutPublished_def ListTasksForRun_def
    HandleRunTimeout_def HandleTaskTimeout_def failTask_def
  by (intro conduct_rules conduct_intros; auto)+

section \<open>Cases, agents, projects and steps\<close>

lemma conducts_case_ops [conduct_intros]:
  "conducts refusable (OpenCase requester c)" "conducts refusable (LinkCaseTask i j)" "conducts refusable (EndCase i st r)"
  unfolding OpenCase_def LinkCaseTask_def EndCase_def cancelOpenTask_def Let_def
  by (intro conduct_rules conduct_intros; auto)+

lemma conducts_votes [conduct_intros]:
  "conducts refusable (VoteCase i member castBy kind)" "conducts refusable (TakeBackVote i member)"
  "conducts refusable (ListCaseVotes i)" "conducts refusable (ListCasesByVotes f)"
  unfolding VoteCase_def TakeBackVote_def ListCaseVotes_def ListCasesByVotes_def openCaseToVoteOn_def recordVote_def
    caseVote_def rankedCase_def votesOn_def storedVotesByCase_def Let_def
  by (intro conduct_rules conduct_intros conducts_sql; auto split: option.split)+

lemma conducts_agents [conduct_intros]:
  "conducts refusable (GetAgentByAgentID key)" "conducts refusable (GetAgent key)" "conducts refusable ListAgents"
  "conducts refusable (UpsertAgent agent)"
  unfolding UpsertAgent_def GetAgent_def GetAgentByAgentID_def ListAgents_def Let_def
  by (intro conduct_rules conduct_intros; auto)+

lemma conducts_projects [conduct_intros]:
  "conducts refusable (CreateProject p)" "conducts refusable (GetProject i)" "conducts refusable (GetProjectByName n)"
  "conducts refusable (UpdateProject p)" "conducts refusable (DeleteProject i)" "conducts refusable ListProjects"
  "conducts refusable (AddTaskToProject j i)" "conducts refusable (RemoveTaskFromProject j i)"
  "conducts refusable (ListTasksInProject i)" "conducts refusable (ListProjectsForTask j)"
  unfolding CreateProject_def UpdateProject_def DeleteProject_def GetProject_def GetProjectByName_def ListProjects_def
    AddTaskToProject_def RemoveTaskFromProject_def ListTasksInProject_def ListProjectsForTask_def Let_def
  by (intro conduct_rules conduct_intros; auto)+

lemma conducts_named [conduct_intros]:
  "conducts refusable (GetTaskByName p n)" "conducts refusable (CreateTaskInProject n task)"
  unfolding GetTaskByName_def CreateTaskInProject_def Let_def by (intro conduct_rules conduct_intros; auto)+

lemma conducts_todos [conduct_intros]:
  "conducts refusable (CreateTaskTodo todo)" "conducts refusable (DispatchTaskTodo i)"
  "conducts refusable (UpdateTaskTodoStatus i todost)" "conducts refusable (ListTaskTodos i)"
  "conducts refusable (ListDeliverablesForTask i)" "conducts refusable (ListAcceptanceCriteriaForTask i)"
  "conducts refusable (WriteAcceptanceCriteriaResult i res notes)"
  unfolding CreateTaskTodo_def DispatchTaskTodo_def UpdateTaskTodoStatus_def ListTaskTodos_def ListDeliverablesForTask_def
    ListAcceptanceCriteriaForTask_def WriteAcceptanceCriteriaResult_def Let_def
  by (intro conduct_rules conduct_intros; auto)+

section \<open>Holders, templates and keyed tasks\<close>

lemma conducts_holders [conduct_intros]:
  "conducts refusable (handOver i kind holder)" "conducts refusable (AssignTaskToHolder i kind holder)"
  "conducts refusable (UnassignTask i)" "conducts refusable (ListTaskAssignments i)" "conducts refusable (ListHeldTasks hq)"
  unfolding AssignTaskToHolder_def UnassignTask_def ListTaskAssignments_def ListHeldTasks_def handOver_def
    closeCurrentAssignment_def nowNano_def
  by (intro conduct_rules conduct_intros; auto)+

lemma conducts_dependents [conduct_intros]:
  "conducts refusable (findUnmetDependencies i)" "conducts refusable (setTaskStatus i st)"
  "conducts refusable (setTaskWorkflowRunID i r)"
  unfolding findUnmetDependencies_def setTaskStatus_def setTaskWorkflowRunID_def
  by (intro conduct_rules conduct_intros; auto)+

lemma conducts_assignments [conduct_intros]:
  "conducts refusable (AssignTask i agent r)" "conducts refusable (UnblockDependents i)" "conducts refusable (UnblockTask i note)"
  unfolding AssignTask_def chainRun_def dispatchTask_def UnblockDependents_def maybeUnblockDependent_def UnblockTask_def
  by (intro conduct_rules conduct_intros; auto)+

lemma conducts_keyed [conduct_intros]: "conducts refusable (GenerateTasks greq)" "conducts refusable (OpenSourcedTasks sreq)"
proof -
  have "normalizeGenerateTasks greq = Inl e \<Longrightarrow> refusable e" for e
    by (auto simp: normalizeGenerateTasks_def Let_def split: if_splits option.splits)
  then show "conducts refusable (GenerateTasks greq)"
    unfolding GenerateTasks_def generateOne_def generatedTask_def Let_def by (intro conduct_rules conduct_intros) auto
  have "normalizeItems items seen = Inl e \<Longrightarrow> refusable e" for items seen e
    by (induction items arbitrary: seen) (auto simp: Let_def split: if_splits option.splits sum.splits)
  then have "normalizeSourcedItems sreq = Inl e \<Longrightarrow> refusable e" for e
    by (auto simp: normalizeSourcedItems_def split: if_splits)
  then show "conducts refusable (OpenSourcedTasks sreq)"
    unfolding OpenSourcedTasks_def openOne_def sourcedTask_def Let_def by (intro conduct_rules conduct_intros) auto
qed

lemma refusable_templates:
  "parseInstant x = Inl e \<Longrightarrow> refusable e" "RepeatingTaskFromRecord lib rec = Inl e \<Longrightarrow> refusable e"
  "Validate lib r = Inl e \<Longrightarrow> refusable e" "OccurrenceAt lib r moment = Inl e \<Longrightarrow> refusable e"
  "RepeatingTaskFromNew lib n = Inl e \<Longrightarrow> refusable e"
proof -
  have inst: "parseInstant x = Inl e \<Longrightarrow> refusable e" for x e
    by (auto simp: parseInstant_def split: if_splits option.splits)
  have dates: "parseDates lib ds = Inl e \<Longrightarrow> refusable e" for ds e
    by (induction ds) (auto split: option.splits sum.splits)
  have rule: "parseRuleOf lib x = Inl e \<Longrightarrow> refusable e" for x e
    by (auto simp: parseRuleOf_def split: if_splits option.splits)
  have rec: "RepeatingTaskFromRecord lib rec = Inl e \<Longrightarrow> refusable e" for rec e
    by (auto simp: RepeatingTaskFromRecord_def split: option.splits sum.splits dest: inst dates rule)
  have val: "Validate lib r = Inl e \<Longrightarrow> refusable e" for e
    by (auto simp: Validate_def split: if_splits)
  show "parseInstant x = Inl e \<Longrightarrow> refusable e" by (rule inst)
  show "RepeatingTaskFromRecord lib rec = Inl e \<Longrightarrow> refusable e" by (rule rec)
  show "Validate lib r = Inl e \<Longrightarrow> refusable e" by (rule val)
  show "OccurrenceAt lib r moment = Inl e \<Longrightarrow> refusable e"
    by (auto simp: OccurrenceAt_def split: sum.splits if_splits option.splits dest: val)
  show "RepeatingTaskFromNew lib n = Inl e \<Longrightarrow> refusable e"
    by (auto simp: RepeatingTaskFromNew_def split: if_splits dest: rec)
qed

lemma conducts_template_rows [conduct_intros]:
  "conducts refusable (GetRepeatingTask i)" "conducts refusable (ListRepeatingTasks rf)"
  "conducts refusable ListRunningRepeatingTasks" "conducts refusable (StopRepeatingTask i)"
  unfolding StopRepeatingTask_def GetRepeatingTask_def ListRepeatingTasks_def ListRunningRepeatingTasks_def
  by (intro conduct_rules; auto)+

lemma conducts_CreateRepeatingTask [conduct_intros]:
  "conducts refusable (CreateRepeatingTask lib r)" "conducts refusable (StartRepeatingTask lib n)"
  unfolding StartRepeatingTask_def CreateRepeatingTask_def Let_def
  by (intro conduct_rules; auto dest: refusable_templates)+

lemma conducts_MakeRepeatingTaskDue [conduct_intros]: "conducts refusable (MakeRepeatingTaskDue lib i moment)"
  unfolding MakeRepeatingTaskDue_def makeOnce_def makePeriod_def periodMade_def Let_def
  by (intro conduct_rules conduct_intros) (auto dest: refusable_templates)

lemma conducts_ListOverdueTasks [conduct_intros]: "conducts refusable (ListOverdueTasks grace f)"
  unfolding ListOverdueTasks_def withTags_def Let_def
  by (intro conduct_rules conduct_intros) (auto simp: asOfTime_def split: if_splits option.splits)

section \<open>The service\<close>

lemma conducts_answered: "conducts E m \<Longrightarrow> conducts E (answered m)"
  unfolding answered_def by (intro conduct_rules)

text \<open>The two requests of identities answer with the errors of the shared package.\<close>

definition names :: "('z, 'r, 'd) request \<Rightarrow> bool" where
  "names q \<longleftrightarrow> (case q of OnTask r \<Rightarrow> (case r of ReqStableIdentity _ _ \<Rightarrow> True | ReqResolve _ \<Rightarrow> True | _ \<Rightarrow> False) | _ \<Rightarrow> False)"

lemma conducts_serve: "\<not> names q \<Longrightarrow> conducts refusable (serve lib q)"
proof (cases q)
  case (OnTask x)
  assume "\<not> names q"
  with OnTask show ?thesis by (cases x) (auto simp: names_def intro!: conducts_answered conduct_intros)
next
  case (OnGraph x)
  then show ?thesis by (cases x) (auto intro!: conducts_answered conduct_intros)
next
  case (OnHolder x)
  then show ?thesis by (cases x) (auto intro!: conducts_answered conduct_intros)
next
  case (OnProject x)
  then show ?thesis by (cases x) (auto intro!: conducts_answered conduct_intros)
next
  case (OnCase x)
  then show ?thesis by (cases x) (auto intro!: conducts_answered conduct_intros)
next
  case (OnStep x)
  then show ?thesis by (cases x) (auto intro!: conducts_answered conduct_intros)
next
  case (OnRun x)
  then show ?thesis by (cases x) (auto intro!: conducts_answered conduct_intros)
next
  case (OnEnding x)
  then show ?thesis by (cases x) (auto intro!: conducts_answered conduct_intros)
qed

lemma conducts_serve_any: "conducts (\<lambda>_. True) (serve lib q)"
proof (cases "names q")
  case True
  then have "lookup q" by (auto simp: names_def split: request.splits task_request.splits)
  with lookup_silent [of q lib] show ?thesis by (auto simp: conducts_def silent_def)
qed (blast intro: conducts_any conducts_serve)

lemma conducts_jobs:
  "conducts refusable newImportJob" "conducts refusable (updateImportJobStatus i st msg)"
  "conducts refusable (completeImportJob i n k name)"
  unfolding newImportJob_def updateImportJobStatus_def completeImportJob_def Let_def by (intro conduct_rules; simp)+

lemma conducts_workerStep: "conducts (\<lambda>_. True) (workerStep il i document done phase)"
  by (cases "(il, i, document, done, phase)" rule: workerStep.cases)
    (auto simp: Let_def underCtx_def split: sum.split option.split
      intro!: conduct_rules conducts_any [OF conducts_jobs(2)] conducts_any [OF conducts_jobs(3)]
        conducts_any [OF conducts_projects(1)] conducts_any [OF conducts_projects(7)] conducts_any [OF conducts_CreateTask]
        conducts_any [OF conducts_CreateRelationship])

lemma says_onWorld:
  assumes "conducts E m" and "onWorld m y = (r, y')"
  shows "set (w_published (sy_World y')) \<subseteq> set (w_published (sy_World y)) \<union> Collect lawful"
  using assms conductsD(1) [OF assms(1)] by (fastforce simp: onWorld_def split: prod.splits)

lemma says_import:
  assumes "import_step il y a y'" and "a \<noteq> Others"
  shows "set (w_published (sy_World y')) \<subseteq> set (w_published (sy_World y)) \<union> Collect lawful"
  using assms(1)
proof (cases rule: import_step.cases)
  case (started document r)
  then show ?thesis unfolding StartImportProject_def
    by (auto split: sum.splits prod.splits dest!: says_onWorld [OF conducts_jobs(1)])
next
  case (worked i w)
  then show ?thesis using conductsD(1) [OF conducts_workerStep, of il i "iw_Document w" "iw_Cancelled w" "iw_Phase w" "sy_World y"]
    unfolding workerMove_def by (auto split: sum.splits prod.splits)
next
  case (checked ctx i y1)
  obtain r where "onWorld (underCtx ctx (takeQ importJobsT (\<lambda>j. ij_ID j = i) ErrImportJobNotFound)) y = (r, y1)"
    using checked by (auto simp: cancelCheck_def GetImportProjectStatus_def split: sum.splits prod.splits if_splits)
  moreover have "conducts (\<lambda>_. True) (underCtx ctx (takeQ importJobsT (\<lambda>j. ij_ID j = i) ErrImportJobNotFound))"
    unfolding underCtx_def by (intro conduct_rules) simp_all
  ultimately show ?thesis using checked says_onWorld by fastforce
next
  case (signalled i)
  then show ?thesis by (simp add: cancelSignal_def split: option.split)
next
  case (written i r y1)
  then show ?thesis using says_onWorld [OF conducts_jobs(2)] by fastforce
qed (use assms(2) in simp)

lemma says_step: "service_step lib il y y' \<Longrightarrow>
    set (w_published (sy_World y')) \<subseteq> set (w_published (sy_World y)) \<union> Collect lawful"
  by (erule service_stepE) (use says_import conductsD(1) [OF conducts_serve_any] in \<open>fastforce+\<close>)

section \<open>Properties\<close>

text \<open>
  C3. Events can be taken at their word: whatever requests and imports a service goes through and whichever
  statements fail, every event it publishes is lawful. A change of status is one the transition table allows,
  a completion names a terminal status and a time, an update names what changed, a hand-over a holder, and
  an opened or closed case its requester or its outcome with the time.
\<close>

theorem events_lawful:
  assumes "service_run lib il y y'" and "e \<in> set (w_published (sy_World y'))" and "e \<notin> set (w_published (sy_World y))"
  shows "lawful e"
proof -
  have "set (w_published (sy_World y')) \<subseteq> set (w_published (sy_World y)) \<union> Collect lawful"
    using assms(1) by (induction rule: service_run.induct) (auto dest: says_step)
  with assms(2,3) show ?thesis by blast
qed

theorem events_lawful_witness:
  "\<exists>y i. service_run demoManager demoLib idleService y \<and> CaseOpened i ''m'' [] [] \<in> set (w_published (sy_World y)) \<and>
     lawful (CaseOpened i ''m'' [] [])"
proof -
  let ?c = "\<lparr>c_ID = [], c_RequesterID = [], c_SubjectKind = [], c_SubjectID = [], c_Title = [], c_Status = CaseStatusOpen,
    c_OpenedAt = [], c_ClosedAt = [], c_Reply = [], c_CreatedAt = [], c_UpdatedAt = []\<rparr>"
  have "\<exists>c t i. OpenCase ''m'' ?c calmWorld = (Inr c, t) \<and> w_published t = [CaseOpened i ''m'' [] []]"
    by (simp add: OpenCase_def tm_defs calm calmWorld_def worldOf_def emptyDb_def Let_def)
  then obtain c t i where run: "OpenCase ''m'' ?c calmWorld = (Inr c, t)" and ev: "w_published t = [CaseOpened i ''m'' [] []]"
    by blast
  let ?y = "idleService\<lparr>sy_World := t\<rparr>"
  have "service_step demoManager demoLib idleService ?y"
    using service_step.requested [of demoManager "OnCase (ReqOpenCase ''m'' ?c)" idleService "Inr ()" t demoLib] run
    by (simp add: idleService_def answered_def bnd_def ret_def)
  then have steps: "service_run demoManager demoLib idleService ?y" by (blast intro: service_run.intros)
  have mem: "CaseOpened i ''m'' [] [] \<in> set (w_published (sy_World ?y))"
    "CaseOpened i ''m'' [] [] \<notin> set (w_published (sy_World idleService))"
    using ev by (simp_all add: idleService_def calmWorld_def)
  show ?thesis by (intro exI [of _ ?y] exI [of _ i] conjI steps mem(1) events_lawful [OF steps mem])
qed

end
