(* ===== verification/Operations.thy ===== *)
theory Operations
  imports Failures Sort_Multiset
begin

text \<open>
  The addresses of the service: the declared table \<open>taskmanager.operations.json\<close> that \<open>operations.go\<close> embeds, and
  \<open>routes/routes.go\<close>, which gives each declared error name the package's error and turns the table into routes.
  The decoder of the document and the builder of the handlers are the third-party \<open>dispatch\<close> package; the
  document is the value it decodes to, with the fields this package reads.
\<close>

section \<open>The declared table\<close>

datatype http_method = MethodGet | MethodPost | MethodPut | MethodDelete

record operation =
  op_Name :: string
  op_Method :: http_method
  op_Path :: string
  op_Call :: string
  op_Action :: string

definition declared :: "string \<Rightarrow> http_method \<Rightarrow> string \<Rightarrow> string \<Rightarrow> string \<Rightarrow> operation" where
  "declared name method path call action =
     \<lparr>op_Name = name, op_Method = method, op_Path = path, op_Call = call, op_Action = action\<rparr>"

text \<open>The object \<open>operations\<close> of the document, in its order.\<close>

definition declaredOperations :: "operation list" where
  "declaredOperations = [
    declared ''create_task'' MethodPost ''/tasks'' ''CreateTask'' ''taskmanager.task.create'',
    declared ''list_tasks'' MethodGet ''/tasks'' ''ListTasks'' ''taskmanager.task.list'',
    declared ''list_overdue_tasks'' MethodGet ''/overdue-tasks''
      ''ListOverdueTasks'' ''taskmanager.task.list_overdue'',
    declared ''get_task'' MethodGet ''/tasks/{taskID}'' ''GetTask'' ''taskmanager.task.read'',
    declared ''update_task'' MethodPut ''/tasks/{taskID}'' ''UpdateTask'' ''taskmanager.task.update'',
    declared ''list_task_states'' MethodGet ''/task-states'' ''ListTaskStates'' ''taskmanager.task_state.list'',
    declared ''move_task_to_state'' MethodPost ''/tasks/{taskID}/move'' ''MoveTaskToState'' ''taskmanager.task.move'',
    declared ''place_task'' MethodPost ''/tasks/{taskID}/place'' ''PlaceTask'' ''taskmanager.task.place'',
    declared ''delete_task'' MethodDelete ''/tasks/{taskID}'' ''DeleteTask'' ''taskmanager.task.delete'',
    declared ''unblock_task'' MethodPost ''/tasks/{taskID}/unblock'' ''UnblockTask'' ''taskmanager.task.unblock'',
    declared ''get_task_by_name'' MethodGet ''/projects/{projectName}/tasks/by-name/{taskName}''
      ''GetTaskByName'' ''taskmanager.task.read_by_name'',
    declared ''create_task_in_project'' MethodPost ''/projects/{projectName}/tasks''
      ''CreateTaskInProject'' ''taskmanager.task.create_in_project'',
    declared ''assign_task'' MethodPost ''/tasks/{taskID}/assign'' ''AssignTask'' ''taskmanager.task.assign'',
    declared ''unassign_task'' MethodPost ''/tasks/{taskID}/unassign'' ''UnassignTask'' ''taskmanager.task.unassign'',
    declared ''assign_task_to_holder'' MethodPost ''/tasks/{taskID}/assign-holder''
      ''AssignTaskToHolder'' ''taskmanager.task.assign_holder'',
    declared ''list_task_assignments'' MethodGet ''/tasks/{taskID}/assignments''
      ''ListTaskAssignments'' ''taskmanager.task.list_assignments'',
    declared ''unblock_dependents'' MethodPost ''/tasks/{taskID}/unblock-dependents''
      ''UnblockDependents'' ''taskmanager.task.unblock_dependents'',
    declared ''upsert_agent'' MethodPost ''/agents'' ''UpsertAgent'' ''taskmanager.agent.upsert'',
    declared ''list_agents'' MethodGet ''/agents'' ''ListAgents'' ''taskmanager.agent.list'',
    declared ''get_agent_by_agent_id'' MethodGet ''/agents/by-agent-id/{agentID}''
      ''GetAgentByAgentID'' ''taskmanager.agent.read_by_agent_id'',
    declared ''get_agent'' MethodGet ''/agents/{idOrSlug}'' ''GetAgent'' ''taskmanager.agent.read'',
    declared ''create_project'' MethodPost ''/projects'' ''CreateProject'' ''taskmanager.project.create'',
    declared ''list_projects'' MethodGet ''/projects'' ''ListProjects'' ''taskmanager.project.list'',
    declared ''get_project'' MethodGet ''/projects/{projectID}'' ''GetProject'' ''taskmanager.project.read'',
    declared ''update_project'' MethodPut ''/projects/{projectID}'' ''UpdateProject'' ''taskmanager.project.update'',
    declared ''delete_project'' MethodDelete ''/projects/{projectID}''
      ''DeleteProject'' ''taskmanager.project.delete'',
    declared ''list_tasks_in_project'' MethodGet ''/projects/{projectID}/tasks''
      ''ListTasksInProject'' ''taskmanager.project.list_tasks'',
    declared ''add_task_to_project'' MethodPost ''/projects/{projectID}/tasks/{taskID}''
      ''AddTaskToProject'' ''taskmanager.project.add_task'',
    declared ''remove_task_from_project'' MethodDelete ''/projects/{projectID}/tasks/{taskID}''
      ''RemoveTaskFromProject'' ''taskmanager.project.remove_task'',
    declared ''list_projects_for_task'' MethodGet ''/tasks/{taskID}/projects''
      ''ListProjectsForTask'' ''taskmanager.project.list_for_task'',
    declared ''create_relationship'' MethodPost ''/relationships''
      ''CreateRelationship'' ''taskmanager.relationship.create'',
    declared ''delete_relationship'' MethodDelete ''/relationships''
      ''DeleteRelationship'' ''taskmanager.relationship.delete'',
    declared ''traverse_relationships'' MethodGet ''/relationships/traverse''
      ''TraverseRelationships'' ''taskmanager.relationship.traverse'',
    declared ''import_project'' MethodPost ''/projects/import'' ''ImportProject'' ''taskmanager.import.run'',
    declared ''start_import_project'' MethodPost ''/projects/import/jobs''
      ''StartImportProject'' ''taskmanager.import.start'',
    declared ''get_import_project_status'' MethodGet ''/projects/import/jobs/{jobID}''
      ''GetImportProjectStatus'' ''taskmanager.import.read'',
    declared ''cancel_import_project'' MethodPost ''/projects/import/jobs/{jobID}/cancel''
      ''CancelImportProject'' ''taskmanager.import.cancel'',
    declared ''list_deliverables_for_task'' MethodGet ''/tasks/{taskID}/deliverables''
      ''ListDeliverablesForTask'' ''taskmanager.deliverable.list'',
    declared ''list_acceptance_criteria_for_task'' MethodGet ''/tasks/{taskID}/acceptance-criteria''
      ''ListAcceptanceCriteriaForTask'' ''taskmanager.acceptance_criteria.list'',
    declared ''write_acceptance_criteria_result'' MethodPut ''/acceptance-criteria/{criteriaID}/result''
      ''WriteAcceptanceCriteriaResult'' ''taskmanager.acceptance_criteria.write_result'',
    declared ''create_task_todo'' MethodPost ''/todos'' ''CreateTaskTodo'' ''taskmanager.task_todo.create'',
    declared ''get_task_todo'' MethodGet ''/todos/{todoID}'' ''GetTaskTodo'' ''taskmanager.task_todo.read'',
    declared ''dispatch_task_todo'' MethodPost ''/todos/{todoID}/dispatch''
      ''DispatchTaskTodo'' ''taskmanager.task_todo.dispatch'',
    declared ''update_task_todo_status'' MethodPut ''/todos/{todoID}/status''
      ''UpdateTaskTodoStatus'' ''taskmanager.task_todo.set_status'',
    declared ''list_task_todos'' MethodGet ''/workflow-runs/{runID}/todos''
      ''ListTaskTodos'' ''taskmanager.task_todo.list'',
    declared ''create_workflow_run'' MethodPost ''/workflow-runs''
      ''CreateWorkflowRun'' ''taskmanager.workflow_run.create'',
    declared ''start_workflow_run'' MethodPost ''/workflow-runs/start''
      ''StartWorkflowRun'' ''taskmanager.workflow_run.start'',
    declared ''list_workflow_runs_under_way'' MethodGet ''/workflow-runs/under-way''
      ''ListWorkflowRunsUnderWay'' ''taskmanager.workflow_run.list_under_way'',
    declared ''list_workflow_runs_closed'' MethodGet ''/workflow-runs/closed''
      ''ListWorkflowRunsClosed'' ''taskmanager.workflow_run.list_closed'',
    declared ''stop_workflow_run'' MethodPost ''/workflow-runs/{runID}/stop''
      ''StopWorkflowRun'' ''taskmanager.workflow_run.stop'',
    declared ''begin_workflow_run_step'' MethodPost ''/workflow-runs/{runID}/step''
      ''BeginWorkflowRunStep'' ''taskmanager.workflow_run.begin_step'',
    declared ''answer_workflow_run_step'' MethodPost ''/workflow-runs/{runID}/step/answered''
      ''AnswerWorkflowRunStep'' ''taskmanager.workflow_run.answer_step'',
    declared ''close_workflow_runs_past_limit'' MethodPost ''/workflow-runs/close-past-limit''
      ''CloseWorkflowRunsPastLimit'' ''taskmanager.workflow_run.close_past_limit'',
    declared ''create_recovery_workflow_run'' MethodPost ''/workflow-runs/recovery''
      ''CreateRecoveryWorkflowRun'' ''taskmanager.workflow_run.create_recovery'',
    declared ''list_workflow_runs'' MethodGet ''/workflow-runs''
      ''ListWorkflowRuns'' ''taskmanager.workflow_run.list'',
    declared ''list_workflow_runs_stale_since'' MethodPost ''/workflow-runs/stale''
      ''ListWorkflowRunsStaleSince'' ''taskmanager.workflow_run.list_stale'',
    declared ''list_workflow_runs_step_stale_since'' MethodPost ''/workflow-runs/step-stale''
      ''ListWorkflowRunsStepStaleSince'' ''taskmanager.workflow_run.list_step_stale'',
    declared ''get_workflow_run'' MethodGet ''/workflow-runs/{runID}''
      ''GetWorkflowRun'' ''taskmanager.workflow_run.read'',
    declared ''update_workflow_run_status'' MethodPut ''/workflow-runs/{runID}/status''
      ''UpdateWorkflowRunStatus'' ''taskmanager.workflow_run.set_status'',
    declared ''get_workflow_run_closure'' MethodGet ''/workflow-runs/{runID}/closure''
      ''GetWorkflowRunClosure'' ''taskmanager.workflow_run.read_closure'',
    declared ''list_tasks_for_run'' MethodGet ''/workflow-runs/{runID}/tasks''
      ''ListTasksForRun'' ''taskmanager.workflow_run.list_tasks'',
    declared ''link_task_to_run'' MethodPost ''/workflow-runs/{runID}/tasks/{taskID}/link''
      ''LinkTaskToRun'' ''taskmanager.workflow_run.link_task'',
    declared ''link_todo_to_run'' MethodPost ''/workflow-runs/{runID}/todos/{todoID}/link''
      ''LinkTodoToRun'' ''taskmanager.workflow_run.link_todo'',
    declared ''set_failure_budget'' MethodPut ''/workflow-runs/{runID}/failure-budget''
      ''SetFailureBudget'' ''taskmanager.workflow_run.set_failure_budget'',
    declared ''increment_failure_budget'' MethodPost ''/workflow-runs/{rootRunID}/failure-budget/increment''
      ''IncrementFailureBudget'' ''taskmanager.workflow_run.increment_failure_budget'',
    declared ''rollback_workflow_run'' MethodPost ''/workflow-runs/{runID}/rollback''
      ''RollbackWorkflowRun'' ''taskmanager.workflow_run.rollback'',
    declared ''delete_workflow_run_artifacts'' MethodDelete ''/workflow-runs/{runID}/artifacts''
      ''DeleteWorkflowRunArtifacts'' ''taskmanager.workflow_run.delete_artifacts'',
    declared ''cancel_workflow_run'' MethodPost ''/workflow-runs/{runID}/cancel''
      ''CancelWorkflowRun'' ''taskmanager.workflow_run.cancel'',
    declared ''finalize_workflow_run_cancellation'' MethodPost ''/workflow-runs/{runID}/finalize-cancel''
      ''FinalizeWorkflowRunCancellation'' ''taskmanager.workflow_run.finalize_cancel'',
    declared ''touch_workflow_run_last_event_at'' MethodPut ''/workflow-runs/{runID}/last-event-at''
      ''TouchWorkflowRunLastEventAt'' ''taskmanager.workflow_run.touch'',
    declared ''mark_timeout_published'' MethodPost ''/workflow-runs/{runID}/mark-timeout-published''
      ''MarkTimeoutPublished'' ''taskmanager.workflow_run.mark_timeout_published'',
    declared ''handle_run_timeout'' MethodPost ''/workflow-runs/{runID}/handle-timeout''
      ''HandleRunTimeout'' ''taskmanager.workflow_run.handle_timeout'',
    declared ''handle_task_timeout'' MethodPost ''/workflow-runs/{runID}/tasks/{taskOrTodoID}/handle-timeout''
      ''HandleTaskTimeout'' ''taskmanager.workflow_run.handle_task_timeout'',
    declared ''open_case'' MethodPost ''/cases'' ''OpenCase'' ''taskmanager.case.open'',
    declared ''get_case'' MethodGet ''/cases/{caseID}'' ''GetCase'' ''taskmanager.case.read'',
    declared ''list_cases'' MethodGet ''/cases'' ''ListCases'' ''taskmanager.case.list'',
    declared ''open_sourced_tasks'' MethodPost ''/sourced-tasks''
      ''OpenSourcedTasks'' ''taskmanager.sourced_task.open'',
    declared ''generate_tasks'' MethodPost ''/generated-tasks''
      ''GenerateTasks'' ''taskmanager.generated_task.create'',
    declared ''create_repeating_task'' MethodPost ''/repeating-tasks''
      ''StartRepeatingTask'' ''taskmanager.repeating_task.create'',
    declared ''get_repeating_task'' MethodGet ''/repeating-tasks/{repeatingTaskID}''
      ''GetRepeatingTask'' ''taskmanager.repeating_task.read'',
    declared ''list_repeating_tasks'' MethodGet ''/repeating-tasks''
      ''ListRepeatingTasks'' ''taskmanager.repeating_task.list'',
    declared ''stop_repeating_task'' MethodPost ''/repeating-tasks/{repeatingTaskID}/stop''
      ''StopRepeatingTask'' ''taskmanager.repeating_task.stop'',
    declared ''link_case_task'' MethodPut ''/cases/{caseID}/tasks/{taskID}''
      ''LinkCaseTask'' ''taskmanager.case.link_task'',
    declared ''list_case_tasks'' MethodGet ''/cases/{caseID}/tasks'' ''ListCaseTasks'' ''taskmanager.case.list_tasks'',
    declared ''end_case'' MethodPost ''/cases/{caseID}/end'' ''EndCase'' ''taskmanager.case.end'',
    declared ''vote_case'' MethodPost ''/cases/{caseID}/votes'' ''VoteCase'' ''taskmanager.case.vote'',
    declared ''take_back_vote'' MethodDelete ''/cases/{caseID}/votes/{memberID}''
      ''TakeBackVote'' ''taskmanager.case.take_back_vote'',
    declared ''list_case_votes'' MethodGet ''/cases/{caseID}/votes'' ''ListCaseVotes'' ''taskmanager.case.list_votes'',
    declared ''list_cases_by_votes'' MethodGet ''/cases/ranked''
      ''ListCasesByVotes'' ''taskmanager.case.list_by_votes'',
    declared ''list_my_cases'' MethodGet ''/cases/mine'' ''ListMyCases'' ''taskmanager.case.list_mine'']"

text \<open>The object \<open>errors\<close>: the status a refusal carries.\<close>

definition declaredErrors :: "(string \<times> nat) list" where
  "declaredErrors = [
    (''ErrUnknownTaskState'', 400), (''ErrNoPathToState'', 409),
    (''ErrInvalidPlacement'', 400), (''ErrCaseNotFound'', 404),
    (''ErrRepeatingTaskNotFound'', 404), (''ErrInvalidRepeatingTask'', 400),
    (''ErrInvalidSourcedTasks'', 400), (''ErrInvalidGeneratedTasks'', 400),
    (''ErrTooManySubjects'', 413), (''ErrCaseNotOpen'', 409),
    (''ErrTaskAlreadyInCase'', 409), (''ErrInvalidCase'', 400),
    (''ErrCaseHasOpenTask'', 409), (''ErrInvalidVote'', 400),
    (''ErrVoterNotMember'', 403), (''ErrVoteNotFound'', 404),
    (''ErrRequesterVoteStays'', 409), (''ErrTaskNotFound'', 404),
    (''ErrInvalidOverdueFilter'', 400), (''ErrInvalidAssignee'', 400),
    (''ErrAgentNotFound'', 404), (''ErrProjectNotFound'', 404),
    (''ErrTagNotFound'', 404), (''ErrTaskTodoNotFound'', 404),
    (''ErrWorkflowRunNotFound'', 404), (''ErrRelationshipNotFound'', 404),
    (''ErrImportJobNotFound'', 404), (''ErrDeliverableNotFound'', 404),
    (''ErrAcceptanceCriteriaNotFound'', 404), (''ErrTaskAlreadyExists'', 409),
    (''ErrProjectAlreadyExists'', 409), (''ErrWorkflowRunNameExists'', 409),
    (''ErrRollbackConflict'', 409), (''ErrRollbackNotInProgress'', 409),
    (''ErrFailureBudgetAlreadySet'', 409), (''ErrImportJobNotCancellable'', 409),
    (''ErrCannotCancelTerminalRun'', 409), (''ErrForeignRunDependency'', 409),
    (''ErrWorkflowRunMismatch'', 409), (''ErrBlocked'', 409),
    (''ErrInvalidStatusTransition'', 400), (''ErrInvalidTask'', 400),
    (''ErrInvalidRunStatusTransition'', 400), (''ErrInvalidRelationship'', 400),
    (''ErrInvalidImport'', 400), (''ErrNotRootWorkflowRun'', 400)]"

section \<open>Errors by name\<close>

text \<open>
  What \<open>errors.Is\<close> sees of an error: the details of a blocked task (\<open>BlockedError.Is\<close>) and of a foreign dependency, which
  is wrapped, are not compared.
\<close>

fun sentinelOf :: "err \<Rightarrow> err" where
  "sentinelOf (BlockedError _) = BlockedError []"
| "sentinelOf (ErrForeignRunDependency _ _ _) = ErrForeignRunDependency [] [] []"
| "sentinelOf e = e"

definition errorsIs :: "err \<Rightarrow> err \<Rightarrow> bool" where
  "errorsIs e target \<longleftrightarrow> sentinelOf e = target"

text \<open>The map \<open>sentinels\<close> of \<open>routes.go\<close>.\<close>

definition sentinels :: "(string \<times> err) list" where
  "sentinels = [
    (''ErrTaskNotFound'', ErrTaskNotFound),
    (''ErrInvalidOverdueFilter'', ErrInvalidOverdueFilter),
    (''ErrInvalidAssignee'', ErrInvalidAssignee),
    (''ErrAgentNotFound'', ErrAgentNotFound),
    (''ErrProjectNotFound'', ErrProjectNotFound),
    (''ErrTagNotFound'', ErrTagNotFound),
    (''ErrTaskTodoNotFound'', ErrTaskTodoNotFound),
    (''ErrWorkflowRunNotFound'', ErrWorkflowRunNotFound),
    (''ErrRelationshipNotFound'', ErrRelationshipNotFound),
    (''ErrImportJobNotFound'', ErrImportJobNotFound),
    (''ErrDeliverableNotFound'', ErrDeliverableNotFound),
    (''ErrAcceptanceCriteriaNotFound'', ErrAcceptanceCriteriaNotFound),
    (''ErrTaskAlreadyExists'', ErrTaskAlreadyExists),
    (''ErrProjectAlreadyExists'', ErrProjectAlreadyExists),
    (''ErrWorkflowRunNameExists'', ErrWorkflowRunNameExists),
    (''ErrRollbackConflict'', ErrRollbackConflict),
    (''ErrRollbackNotInProgress'', ErrRollbackNotInProgress),
    (''ErrFailureBudgetAlreadySet'', ErrFailureBudgetAlreadySet),
    (''ErrImportJobNotCancellable'', ErrImportJobNotCancellable),
    (''ErrCannotCancelTerminalRun'', ErrCannotCancelTerminalRun),
    (''ErrForeignRunDependency'', ErrForeignRunDependency [] [] []),
    (''ErrWorkflowRunMismatch'', ErrWorkflowRunMismatch),
    (''ErrBlocked'', BlockedError []),
    (''ErrInvalidStatusTransition'', ErrInvalidStatusTransition),
    (''ErrInvalidTask'', ErrInvalidTask),
    (''ErrInvalidRunStatusTransition'', ErrInvalidRunStatusTransition),
    (''ErrInvalidRelationship'', ErrInvalidRelationship),
    (''ErrInvalidImport'', ErrInvalidImport),
    (''ErrNotRootWorkflowRun'', ErrNotRootWorkflowRun),
    (''ErrCaseNotFound'', ErrCaseNotFound),
    (''ErrRepeatingTaskNotFound'', ErrRepeatingTaskNotFound),
    (''ErrInvalidRepeatingTask'', ErrInvalidRepeatingTask),
    (''ErrInvalidSourcedTasks'', ErrInvalidSourcedTasks),
    (''ErrInvalidGeneratedTasks'', ErrInvalidGeneratedTasks),
    (''ErrTooManySubjects'', ErrTooManySubjects),
    (''ErrCaseNotOpen'', ErrCaseNotOpen),
    (''ErrTaskAlreadyInCase'', ErrTaskAlreadyInCase),
    (''ErrInvalidCase'', ErrInvalidCase),
    (''ErrCaseHasOpenTask'', ErrCaseHasOpenTask),
    (''ErrInvalidVote'', ErrInvalidVote),
    (''ErrVoterNotMember'', ErrVoterNotMember),
    (''ErrVoteNotFound'', ErrVoteNotFound),
    (''ErrRequesterVoteStays'', ErrRequesterVoteStays),
    (''ErrUnknownTaskState'', ErrUnknownTaskState),
    (''ErrNoPathToState'', ErrNoPathToState),
    (''ErrInvalidPlacement'', ErrInvalidPlacement)]"

text \<open>The status a refusal carries, as the design document of the routes describes the two tables.\<close>

definition refusalStatus :: "err \<Rightarrow> nat option" where
  "refusalStatus e = (case List.find (\<lambda>p. errorsIs e (snd p)) sentinels of None \<Rightarrow> None | Some p \<Rightarrow> map_of declaredErrors (fst p))"

section \<open>Routes without handlers\<close>

text \<open>\<open>Shape\<close>: the names in order, each with its method, its full path and its action.\<close>

record route =
  rt_Method :: http_method
  rt_Path :: string
  rt_Action :: string

definition Shape :: "string \<Rightarrow> operation list \<Rightarrow> route list" where
  "Shape base ops =
     concat (map (\<lambda>name. case List.find (\<lambda>op. op_Name op = name) ops of
         None \<Rightarrow> []
       | Some op \<Rightarrow> [\<lparr>rt_Method = op_Method op, rt_Path = base @ op_Path op, rt_Action = op_Action op\<rparr>])
       (sort (map op_Name ops)))"

section \<open>Mounting\<close>

text \<open>
  \<open>BuildFor\<close>, \<open>RoutesFor\<close>, \<open>SplitFor\<close> and their short forms, and \<open>ToolsFor\<close> of \<open>tools.go\<close>. The parsed document, which may be an
  error, the builder and the partition by actions are the third-party \<open>dispatch\<close>; \<open>None\<close> is a panic.
\<close>

record ('a, 'c) mount =
  mt_Authorize :: "'a option"
  mt_Caller :: "'c option"

definition BuildFor ::
  "'e + 's \<Rightarrow> ('s \<Rightarrow> (string \<times> err) list \<Rightarrow> ('a, 'c) mount \<Rightarrow> 'm \<Rightarrow> 'e + 'r list) \<Rightarrow> 'm \<Rightarrow> ('a, 'c) mount \<Rightarrow> 'e + 'r list" where
  "BuildFor parsed dispatch tm m = (case parsed of Inl e \<Rightarrow> Inl e | Inr s \<Rightarrow> dispatch s sentinels m tm)"

definition RoutesFor ::
  "'e + 's \<Rightarrow> ('s \<Rightarrow> (string \<times> err) list \<Rightarrow> ('a, 'c) mount \<Rightarrow> 'm \<Rightarrow> 'e + 'r list) \<Rightarrow> 'm \<Rightarrow> ('a, 'c) mount \<Rightarrow> 'r list option" where
  "RoutesFor parsed dispatch tm m = (case BuildFor parsed dispatch tm m of Inl _ \<Rightarrow> None | Inr routes \<Rightarrow> Some routes)"

definition AnonymousActions :: "string list" where
  "AnonymousActions = []"

text \<open>The anonymous routes come from a build without an authorizer, the gated ones from the build for the mount.\<close>

definition SplitFor ::
  "'e + 's \<Rightarrow> ('s \<Rightarrow> (string \<times> err) list \<Rightarrow> ('a, 'c) mount \<Rightarrow> 'm \<Rightarrow> 'e + 'r list) \<Rightarrow>
   ('r list \<Rightarrow> string list \<Rightarrow> 'r list \<times> 'r list) \<Rightarrow> 'm \<Rightarrow> ('a, 'c) mount \<Rightarrow> ('r list \<times> 'r list) option" where
  "SplitFor parsed dispatch anonymous tm m =
     Option.bind (RoutesFor parsed dispatch tm \<lparr>mt_Authorize = None, mt_Caller = None\<rparr>) (\<lambda>open'.
     Option.bind (RoutesFor parsed dispatch tm m) (\<lambda>gated.
     Some (fst (anonymous open' AnonymousActions), snd (anonymous gated AnonymousActions))))"

definition OperatorRoutesFor ::
  "'e + 's \<Rightarrow> ('s \<Rightarrow> (string \<times> err) list \<Rightarrow> ('a, 'c) mount \<Rightarrow> 'm \<Rightarrow> 'e + 'r list) \<Rightarrow>
   ('r list \<Rightarrow> string list \<Rightarrow> 'r list \<times> 'r list) \<Rightarrow> 'm \<Rightarrow> ('a, 'c) mount \<Rightarrow> 'r list option" where
  "OperatorRoutesFor parsed dispatch anonymous tm m = map_option snd (SplitFor parsed dispatch anonymous tm m)"

text \<open>\<open>ToolsFor\<close> is the same with the builder of tools; \<open>ToolShape\<close> asks it of no manager.\<close>

definition ToolsFor ::
  "'e + 's \<Rightarrow> ('s \<Rightarrow> (string \<times> err) list \<Rightarrow> ('a, 'c) mount \<Rightarrow> 'm \<Rightarrow> 'e + 'tool list) \<Rightarrow> 'm \<Rightarrow> ('a, 'c) mount \<Rightarrow> 'tool list option" where
  "ToolsFor parsed tools tm m = (case BuildFor parsed tools tm m of Inl _ \<Rightarrow> None | Inr ts \<Rightarrow> Some ts)"

text \<open>
  Nothing is anonymous: a partition that leaves to the public only what is listed leaves it nothing, and every
  route of the mount is gated.
\<close>

lemma nothing_anonymous:
  assumes "\<And>rs. anonymous rs AnonymousActions = (filter (\<lambda>r. actionOf r \<in> set AnonymousActions) rs,
      filter (\<lambda>r. actionOf r \<notin> set AnonymousActions) rs)"
    and "SplitFor parsed dispatch anonymous tm m = Some (public, gated)"
  shows "public = [] \<and> RoutesFor parsed dispatch tm m = Some gated"
  using assms(2) assms(1) [unfolded AnonymousActions_def] by (auto simp: SplitFor_def AnonymousActions_def bind_eq_Some_conv)

section \<open>Addresses\<close>

text \<open>
  A path is its segments between slashes; a segment in braces stands for any one that is not empty. Of two
  patterns that both fit, the one that fits fewer addresses is served, and a table in which
  neither of two does may not be registered.
\<close>

datatype segment = Fixed string | Wild

fun splitPath :: "string \<Rightarrow> string list" where
  "splitPath [] = [[]]"
| "splitPath (c # cs) =
     (if c = CHR ''/'' then [] # splitPath cs
      else case splitPath cs of [] \<Rightarrow> [[c]] | part # rest \<Rightarrow> (c # part) # rest)"

definition segmentOf :: "string \<Rightarrow> segment" where
  "segmentOf part = (case part of c # _ \<Rightarrow> if c = CHR ''{'' then Wild else Fixed part | [] \<Rightarrow> Fixed part)"

definition pattern :: "operation \<Rightarrow> segment list" where
  "pattern op = map segmentOf (tl (splitPath (op_Path op)))"

fun fits :: "segment list \<Rightarrow> string list \<Rightarrow> bool" where
  "fits [] [] \<longleftrightarrow> True"
| "fits (Fixed a # ps) (x # xs) \<longleftrightarrow> a = x \<and> fits ps xs"
| "fits (Wild # ps) (x # xs) \<longleftrightarrow> x \<noteq> [] \<and> fits ps xs"
| "fits _ _ \<longleftrightarrow> False"

fun refinesSeg :: "segment \<Rightarrow> segment \<Rightarrow> bool" where
  "refinesSeg _ Wild \<longleftrightarrow> True"
| "refinesSeg (Fixed a) (Fixed b) \<longleftrightarrow> a = b"
| "refinesSeg Wild (Fixed _) \<longleftrightarrow> False"

fun clashes :: "segment list \<Rightarrow> segment list \<Rightarrow> bool" where
  "clashes [] [] \<longleftrightarrow> False"
| "clashes (Fixed a # ps) (Fixed b # qs) \<longleftrightarrow> a \<noteq> b \<or> clashes ps qs"
| "clashes (_ # ps) (_ # qs) \<longleftrightarrow> clashes ps qs"
| "clashes _ _ \<longleftrightarrow> True"

definition narrower :: "segment list \<Rightarrow> segment list \<Rightarrow> bool" where
  "narrower p q \<longleftrightarrow> list_all2 refinesSeg p q"

text \<open>No address fits both, or exactly one is narrower.\<close>

definition ordered :: "segment list \<Rightarrow> segment list \<Rightarrow> bool" where
  "ordered p q \<longleftrightarrow> clashes p q \<or> (narrower p q \<noteq> narrower q p)"

text \<open>The operation an address reaches: it fits, and it is narrower than every other one of the method that does.\<close>

definition reaches :: "operation list \<Rightarrow> http_method \<Rightarrow> string list \<Rightarrow> operation \<Rightarrow> bool" where
  "reaches ops method address op \<longleftrightarrow>
     (let candidates = filter (\<lambda>o'. op_Method o' = method \<and> fits (pattern o') address) ops
      in op \<in> set candidates \<and> list_all (\<lambda>o'. narrower (pattern op) (pattern o')) candidates)"

lemma fits_simps [simp]: "\<not> fits (s # ps) []" "\<not> fits [] (x # xs)"
  by (cases s) simp_all

lemma fits_clashes: "fits p xs \<Longrightarrow> fits q xs \<Longrightarrow> \<not> clashes p q"
proof (induction p xs arbitrary: q rule: fits.induct)
  case 1
  then show ?case by (cases q) simp_all
next
  case (2 a ps x xs)
  then obtain s qs where "q = s # qs" by (cases q) simp_all
  with 2 show ?case by (cases s) simp_all
next
  case (3 ps x xs)
  then obtain s qs where "q = s # qs" by (cases q) simp_all
  with 3 show ?case by (cases s) simp_all
qed simp_all

lemma narrower_refl: "narrower p p"
proof -
  have "refinesSeg s s" for s by (cases s) auto
  then show ?thesis by (simp add: narrower_def list.rel_refl)
qed

lemma narrower_trans: "narrower p q \<Longrightarrow> narrower q r \<Longrightarrow> narrower p r"
proof -
  have "refinesSeg a b \<Longrightarrow> refinesSeg b c \<Longrightarrow> refinesSeg a c" for a b c
    by (cases a; cases b; cases c) auto
  then show "narrower p q \<Longrightarrow> narrower q r \<Longrightarrow> narrower p r"
    unfolding narrower_def by (rule list_all2_trans)
qed

text \<open>Where any two are comparable there is a narrowest one.\<close>

lemma narrowest_exists:
  assumes "ops \<noteq> []" and "sorted_wrt (\<lambda>a b. narrower (pattern a) (pattern b) \<noteq> narrower (pattern b) (pattern a)) ops"
  shows "\<exists>op \<in> set ops. \<forall>o' \<in> set ops. narrower (pattern op) (pattern o')"
  using assms
proof (induction ops)
  case (Cons x xs)
  show ?case
  proof (cases "xs = []")
    case True
    then show ?thesis by (simp add: narrower_refl)
  next
    case False
    with Cons obtain op where op: "op \<in> set xs" "\<forall>o' \<in> set xs. narrower (pattern op) (pattern o')" by auto
    with Cons.prems(2) have "narrower (pattern op) (pattern x) \<or> narrower (pattern x) (pattern op)" by auto
    then show ?thesis
    proof
      assume "narrower (pattern op) (pattern x)"
      with op show ?thesis by auto
    next
      assume "narrower (pattern x) (pattern op)"
      with op narrower_trans [of "pattern x"] narrower_refl show ?thesis by auto
    qed
  qed
qed simp

lemma narrowest_unique:
  assumes "sorted_wrt (\<lambda>a b. narrower (pattern a) (pattern b) \<noteq> narrower (pattern b) (pattern a)) ops"
    and "x \<in> set ops" "y \<in> set ops" "narrower (pattern x) (pattern y)" "narrower (pattern y) (pattern x)"
  shows "x = y"
  using assms by (induction ops) auto

lemma sorted_candidates:
  assumes "sorted_wrt ordered (map pattern (filter (\<lambda>op. op_Method op = m) ops))"
  shows "sorted_wrt (\<lambda>a b. narrower (pattern a) (pattern b) \<noteq> narrower (pattern b) (pattern a))
     (filter (\<lambda>op. op_Method op = m \<and> fits (pattern op) address) ops)"
proof (rule sorted_wrt_mono_rel)
  have "sorted_wrt (\<lambda>a b. ordered (pattern a) (pattern b))
      (filter (\<lambda>op. fits (pattern op) address) (filter (\<lambda>op. op_Method op = m) ops))"
    using assms by (rule sorted_wrt_filter [OF sorted_wrt_map [THEN iffD1]])
  then show "sorted_wrt (\<lambda>a b. ordered (pattern a) (pattern b))
      (filter (\<lambda>op. op_Method op = m \<and> fits (pattern op) address) ops)"
    by (simp add: conj_commute)
qed (auto simp: ordered_def dest: fits_clashes)

lemma reaches_one:
  assumes "sorted_wrt ordered (map pattern (filter (\<lambda>op. op_Method op = m) ops))"
    and "op \<in> set ops" "op_Method op = m" "fits (pattern op) address"
  shows "\<exists>!op. reaches ops m address op"
proof -
  let ?cs = "filter (\<lambda>op. op_Method op = m \<and> fits (pattern op) address) ops"
  have ne: "?cs \<noteq> []" using assms(2-4) by (auto simp: filter_empty_conv)
  note chain = sorted_candidates [OF assms(1), of address]
  from narrowest_exists [OF ne chain] obtain least where least: "least \<in> set ?cs"
      "\<forall>o' \<in> set ?cs. narrower (pattern least) (pattern o')" by blast
  show ?thesis
  proof (rule ex1I [of _ least])
    show "reaches ops m address least" using least by (simp add: reaches_def Let_def list_all_iff)
    fix x assume "reaches ops m address x"
    then have x: "x \<in> set ?cs" "\<forall>o' \<in> set ?cs. narrower (pattern x) (pattern o')"
      by (simp_all add: reaches_def Let_def list_all_iff)
    show "x = least" by (rule narrowest_unique [OF chain x(1) least(1)]) (use x least in blast)+
  qed
qed

section \<open>The declared table holds together\<close>

lemma declared_gets: "sorted_wrt ordered (map pattern (filter (\<lambda>op. op_Method op = MethodGet) declaredOperations))"
  by code_simp

lemma declared_posts: "sorted_wrt ordered (map pattern (filter (\<lambda>op. op_Method op = MethodPost) declaredOperations))"
  by code_simp

lemma declared_puts: "sorted_wrt ordered (map pattern (filter (\<lambda>op. op_Method op = MethodPut) declaredOperations))"
  by code_simp

lemma declared_deletes: "sorted_wrt ordered (map pattern (filter (\<lambda>op. op_Method op = MethodDelete) declaredOperations))"
  by code_simp

lemma declared_ordered: "sorted_wrt ordered (map pattern (filter (\<lambda>op. op_Method op = m) declaredOperations))"
  by (cases m) (simp_all only: declared_gets declared_posts declared_puts declared_deletes)

text \<open>
  Addresses are not ambiguous: an address that fits a declared operation of its method reaches exactly one.
  Where two operations share addresses, as \<open>GET /cases/ranked\<close> and \<open>GET /cases/{caseID}\<close> do, one is narrower.
\<close>

lemma address_reaches_one:
  assumes "op \<in> set declaredOperations" and "fits (pattern op) address"
  shows "\<exists>!op'. reaches declaredOperations (op_Method op) address op'"
  using reaches_one [OF declared_ordered assms(1) refl assms(2)] .

lemma address_reaches_one_example:
  "\<exists>!op'. reaches declaredOperations MethodGet [''cases'', ''ranked''] op'"
proof -
  let ?op = "declared ''get_case'' MethodGet ''/cases/{caseID}'' ''GetCase'' ''taskmanager.case.read''"
  have "?op \<in> set declaredOperations" by (simp add: declaredOperations_def)
  moreover have "fits (pattern ?op) [''cases'', ''ranked'']" by code_simp
  ultimately show ?thesis using address_reaches_one [of ?op] by (simp add: declared_def)
qed

lemma ranked_is_not_a_case:
  "reaches declaredOperations MethodGet [''cases'', ''ranked'']
     (declared ''list_cases_by_votes'' MethodGet ''/cases/ranked'' ''ListCasesByVotes'' ''taskmanager.case.list_by_votes'')"
  by code_simp

text \<open>\<open>Shape\<close> lists every declared operation once, in the order of the names.\<close>

lemma find_name:
  assumes "distinct (map op_Name ops)" and "op \<in> set ops"
  shows "List.find (\<lambda>o'. op_Name o' = op_Name op) ops = Some op"
  using assms by (induction ops) (auto simp: image_iff)

lemma Shape_routes:
  assumes "distinct (map op_Name ops)"
  shows "\<exists>ordered. mset ordered = mset ops \<and> sorted (map op_Name ordered) \<and>
    Shape base ops = map (\<lambda>op. \<lparr>rt_Method = op_Method op, rt_Path = base @ op_Path op, rt_Action = op_Action op\<rparr>) ordered"
proof (intro exI conjI)
  let ?os = "sort_key op_Name ops"
  show "mset ?os = mset ops" "sorted (map op_Name ?os)" by simp_all
  have names: "sort (map op_Name ops) = map op_Name ?os"
    by (rule properties_for_sort) simp_all
  have "concat (map (\<lambda>name. case List.find (\<lambda>op. op_Name op = name) ops of None \<Rightarrow> [] | Some op \<Rightarrow> [f op]) (map op_Name os))
      = map f os" if "set os \<subseteq> set ops" for os and f :: "operation \<Rightarrow> route"
    using that by (induction os) (simp_all add: find_name [OF assms])
  from this [of ?os] show "Shape base ops =
      map (\<lambda>op. \<lparr>rt_Method = op_Method op, rt_Path = base @ op_Path op, rt_Action = op_Action op\<rparr>) ?os"
    unfolding Shape_def names by simp
qed

text \<open>Every declared error is one the package can hand out, and the other way round, each with a refusal status.\<close>

lemma sentinel_status:
  assumes "p \<in> set sentinels"
  shows "\<exists>code. map_of declaredErrors (fst p) = Some code \<and> 400 \<le> code \<and> code < 500"
proof -
  have "list_all (\<lambda>p. case map_of declaredErrors (fst p) of None \<Rightarrow> False | Some code \<Rightarrow> 400 \<le> code \<and> code < 500) sentinels"
    by code_simp
  with assms show ?thesis by (fastforce simp: list_all_iff split: option.splits)
qed

end
