(* ===== verification/Wire.thy ===== *)
theory Wire
  imports Conduct Operations
begin

text \<open>
  The interface as it is reached from outside: the declared operation that calls each method, what a \<open>GET\<close>
  may do, which errors a request answers, and what an event says.
\<close>

section \<open>The method a request calls\<close>

fun callOfTask :: "task_request \<Rightarrow> string" where
  "callOfTask (ReqStableIdentity _ _) = ''StableIdentity''"
| "callOfTask (ReqResolve _) = ''Resolve''"
| "callOfTask (ReqCreateTask _) = ''CreateTask''"
| "callOfTask (ReqGetTask _) = ''GetTask''"
| "callOfTask (ReqUpdateTask _) = ''UpdateTask''"
| "callOfTask (ReqDeleteTask _) = ''DeleteTask''"
| "callOfTask (ReqListTasks _) = ''ListTasks''"
| "callOfTask (ReqListOverdueTasks _) = ''ListOverdueTasks''"
| "callOfTask ReqListTaskStates = ''ListTaskStates''"
| "callOfTask (ReqMoveTaskToState _ _) = ''MoveTaskToState''"
| "callOfTask (ReqPlaceTask _ _ _) = ''PlaceTask''"

fun callOfGraph :: "graph_request \<Rightarrow> string" where
  "callOfGraph (ReqCreateRelationship _) = ''CreateRelationship''"
| "callOfGraph (ReqDeleteRelationship _ _ _) = ''DeleteRelationship''"
| "callOfGraph (ReqTraverseRelationships _ _ _) = ''TraverseRelationships''"
| "callOfGraph (ReqUpsertAgent _) = ''UpsertAgent''"
| "callOfGraph (ReqGetAgent _) = ''GetAgent''"
| "callOfGraph (ReqGetAgentByAgentID _) = ''GetAgentByAgentID''"
| "callOfGraph ReqListAgents = ''ListAgents''"

fun callOfHolder :: "('z, 'r, 'd) holder_request \<Rightarrow> string" where
  "callOfHolder (ReqAssignTask _ _ _) = ''AssignTask''"
| "callOfHolder (ReqUnassignTask _) = ''UnassignTask''"
| "callOfHolder (ReqAssignTaskToHolder _ _ _) = ''AssignTaskToHolder''"
| "callOfHolder (ReqCreateRepeatingTask _) = ''CreateRepeatingTask''"
| "callOfHolder (ReqStartRepeatingTask _) = ''StartRepeatingTask''"
| "callOfHolder (ReqGetRepeatingTask _) = ''GetRepeatingTask''"
| "callOfHolder (ReqListRepeatingTasks _) = ''ListRepeatingTasks''"
| "callOfHolder ReqListRunningRepeatingTasks = ''ListRunningRepeatingTasks''"
| "callOfHolder (ReqStopRepeatingTask _) = ''StopRepeatingTask''"
| "callOfHolder (ReqMakeRepeatingTaskDue _ _) = ''MakeRepeatingTaskDue''"
| "callOfHolder (ReqOpenSourcedTasks _) = ''OpenSourcedTasks''"
| "callOfHolder (ReqGenerateTasks _) = ''GenerateTasks''"
| "callOfHolder (ReqListTaskAssignments _) = ''ListTaskAssignments''"
| "callOfHolder (ReqListHeldTasks _) = ''ListHeldTasks''"
| "callOfHolder (ReqUnblockDependents _) = ''UnblockDependents''"

fun callOfProject :: "project_request \<Rightarrow> string" where
  "callOfProject (ReqCreateProject _) = ''CreateProject''"
| "callOfProject (ReqGetProject _) = ''GetProject''"
| "callOfProject (ReqGetProjectByName _) = ''GetProjectByName''"
| "callOfProject (ReqUpdateProject _) = ''UpdateProject''"
| "callOfProject (ReqDeleteProject _) = ''DeleteProject''"
| "callOfProject ReqListProjects = ''ListProjects''"
| "callOfProject (ReqAddTaskToProject _ _) = ''AddTaskToProject''"
| "callOfProject (ReqRemoveTaskFromProject _ _) = ''RemoveTaskFromProject''"
| "callOfProject (ReqListTasksInProject _) = ''ListTasksInProject''"
| "callOfProject (ReqListProjectsForTask _) = ''ListProjectsForTask''"
| "callOfProject (ReqGetTaskByName _ _) = ''GetTaskByName''"
| "callOfProject (ReqCreateTaskInProject _ _) = ''CreateTaskInProject''"

fun callOfCase :: "case_request \<Rightarrow> string" where
  "callOfCase (ReqOpenCase _ _) = ''OpenCase''"
| "callOfCase (ReqGetCase _) = ''GetCase''"
| "callOfCase (ReqListCases _) = ''ListCases''"
| "callOfCase (ReqLinkCaseTask _ _) = ''LinkCaseTask''"
| "callOfCase (ReqListCaseTasks _) = ''ListCaseTasks''"
| "callOfCase (ReqEndCase _ _ _) = ''EndCase''"
| "callOfCase (ReqListMyCases _ _) = ''ListMyCases''"
| "callOfCase (ReqVoteCase _ _ _ _) = ''VoteCase''"
| "callOfCase (ReqTakeBackVote _ _) = ''TakeBackVote''"
| "callOfCase (ReqListCaseVotes _) = ''ListCaseVotes''"
| "callOfCase (ReqListCasesByVotes _) = ''ListCasesByVotes''"

fun callOfStep :: "step_request \<Rightarrow> string" where
  "callOfStep (ReqUnblockTask _ _) = ''UnblockTask''"
| "callOfStep (ReqCreateTaskTodo _) = ''CreateTaskTodo''"
| "callOfStep (ReqDispatchTaskTodo _) = ''DispatchTaskTodo''"
| "callOfStep (ReqGetTaskTodo _) = ''GetTaskTodo''"
| "callOfStep (ReqUpdateTaskTodoStatus _ _) = ''UpdateTaskTodoStatus''"

fun callOfRun :: "run_request \<Rightarrow> string" where
  "callOfRun (ReqCreateWorkflowRun _ _ _) = ''CreateWorkflowRun''"
| "callOfRun (ReqStartWorkflowRun _ _ _ _ _) = ''StartWorkflowRun''"
| "callOfRun (ReqListWorkflowRunsUnderWay _) = ''ListWorkflowRunsUnderWay''"
| "callOfRun (ReqListWorkflowRunsClosed _) = ''ListWorkflowRunsClosed''"
| "callOfRun (ReqStopWorkflowRun _ _ _ _) = ''StopWorkflowRun''"
| "callOfRun (ReqBeginWorkflowRunStep _ _ _ _) = ''BeginWorkflowRunStep''"
| "callOfRun (ReqAnswerWorkflowRunStep _) = ''AnswerWorkflowRunStep''"
| "callOfRun (ReqCloseWorkflowRunsPastLimit _) = ''CloseWorkflowRunsPastLimit''"
| "callOfRun (ReqCreateRecoveryWorkflowRun _ _ _ _ _) = ''CreateRecoveryWorkflowRun''"
| "callOfRun (ReqSetFailureBudget _ _) = ''SetFailureBudget''"
| "callOfRun (ReqIncrementFailureBudget _ _) = ''IncrementFailureBudget''"
| "callOfRun (ReqGetWorkflowRun _) = ''GetWorkflowRun''"
| "callOfRun (ReqGetWorkflowRunByName _) = ''GetWorkflowRunByName''"
| "callOfRun (ReqListWorkflowRuns _) = ''ListWorkflowRuns''"
| "callOfRun (ReqLinkTaskToRun _ _) = ''LinkTaskToRun''"
| "callOfRun (ReqLinkTodoToRun _ _) = ''LinkTodoToRun''"
| "callOfRun (ReqGetWorkflowRunClosure _) = ''GetWorkflowRunClosure''"

fun callOfEnding :: "ending_request \<Rightarrow> string" where
  "callOfEnding (ReqUpdateWorkflowRunStatus _ _ _) = ''UpdateWorkflowRunStatus''"
| "callOfEnding (ReqRollbackWorkflowRun _ _) = ''RollbackWorkflowRun''"
| "callOfEnding (ReqDeleteWorkflowRunArtifacts _) = ''DeleteWorkflowRunArtifacts''"
| "callOfEnding (ReqCancelWorkflowRun _ _ _ _) = ''CancelWorkflowRun''"
| "callOfEnding (ReqFinalizeWorkflowRunCancellation _) = ''FinalizeWorkflowRunCancellation''"
| "callOfEnding (ReqTouchWorkflowRunLastEventAt _ _) = ''TouchWorkflowRunLastEventAt''"
| "callOfEnding (ReqListWorkflowRunsStaleSince _) = ''ListWorkflowRunsStaleSince''"
| "callOfEnding (ReqListWorkflowRunsStepStaleSince _) = ''ListWorkflowRunsStepStaleSince''"
| "callOfEnding (ReqMarkTimeoutPublished _) = ''MarkTimeoutPublished''"
| "callOfEnding (ReqHandleRunTimeout _) = ''HandleRunTimeout''"
| "callOfEnding (ReqHandleTaskTimeout _ _) = ''HandleTaskTimeout''"
| "callOfEnding (ReqListTasksForRun _) = ''ListTasksForRun''"
| "callOfEnding (ReqListTaskTodos _) = ''ListTaskTodos''"
| "callOfEnding (ReqListDeliverablesForTask _) = ''ListDeliverablesForTask''"
| "callOfEnding (ReqListAcceptanceCriteriaForTask _) = ''ListAcceptanceCriteriaForTask''"
| "callOfEnding (ReqWriteAcceptanceCriteriaResult _ _ _) = ''WriteAcceptanceCriteriaResult''"

fun callOf :: "('z, 'r, 'd) request \<Rightarrow> string" where
  "callOf (OnTask q) = callOfTask q"
| "callOf (OnGraph q) = callOfGraph q"
| "callOf (OnHolder q) = callOfHolder q"
| "callOf (OnProject q) = callOfProject q"
| "callOf (OnCase q) = callOfCase q"
| "callOf (OnStep q) = callOfStep q"
| "callOf (OnRun q) = callOfRun q"
| "callOf (OnEnding q) = callOfEnding q"

section \<open>A GET changes nothing\<close>

definition lookupCalls :: "string list" where
  "lookupCalls = [
     ''StableIdentity'', ''Resolve'', ''GetTask'', ''ListTasks'', ''ListOverdueTasks'', ''ListTaskStates'',
     ''TraverseRelationships'', ''GetAgent'', ''GetAgentByAgentID'', ''ListAgents'', ''GetRepeatingTask'',
     ''ListRepeatingTasks'', ''ListRunningRepeatingTasks'', ''ListTaskAssignments'', ''ListHeldTasks'',
     ''GetProject'', ''GetProjectByName'', ''ListProjects'', ''ListTasksInProject'', ''ListProjectsForTask'',
     ''GetTaskByName'', ''GetCase'', ''ListCases'', ''ListCaseTasks'', ''ListMyCases'', ''ListCaseVotes'',
     ''ListCasesByVotes'', ''GetTaskTodo'', ''ListWorkflowRunsUnderWay'', ''ListWorkflowRunsClosed'',
     ''GetWorkflowRun'', ''GetWorkflowRunByName'', ''ListWorkflowRuns'', ''GetWorkflowRunClosure'',
     ''ListWorkflowRunsStaleSince'', ''ListWorkflowRunsStepStaleSince'', ''ListTasksForRun'', ''ListTaskTodos'',
     ''ListDeliverablesForTask'', ''ListAcceptanceCriteriaForTask'']"

lemma lookup_iff: "lookup q \<longleftrightarrow> callOf q \<in> set lookupCalls"
proof (cases q)
  case (OnTask x)
  then show ?thesis by (cases x) (simp_all add: lookupCalls_def)
next
  case (OnGraph x)
  then show ?thesis by (cases x) (simp_all add: lookupCalls_def)
next
  case (OnHolder x)
  then show ?thesis by (cases x) (simp_all add: lookupCalls_def)
next
  case (OnProject x)
  then show ?thesis by (cases x) (simp_all add: lookupCalls_def)
next
  case (OnCase x)
  then show ?thesis by (cases x) (simp_all add: lookupCalls_def)
next
  case (OnStep x)
  then show ?thesis by (cases x) (simp_all add: lookupCalls_def)
next
  case (OnRun x)
  then show ?thesis by (cases x) (simp_all add: lookupCalls_def)
next
  case (OnEnding x)
  then show ?thesis by (cases x) (simp_all add: lookupCalls_def)
qed

text \<open>
  What is declared as \<open>GET\<close> only looks up; of what only looks up, two sweeps are declared as \<open>POST\<close>, so that
  they have a body. The status of an import has no request; \<open>GetImportProjectStatus\<close> is a read by its model.
\<close>

definition sweepCalls :: "string list" where
  "sweepCalls = [''ListWorkflowRunsStaleSince'', ''ListWorkflowRunsStepStaleSince'']"

lemma declared_reads:
  assumes "op \<in> set declaredOperations" and "op_Call op \<noteq> ''GetImportProjectStatus''"
  shows "op_Method op = MethodGet \<longleftrightarrow> op_Call op \<in> set lookupCalls \<and> op_Call op \<notin> set sweepCalls"
proof -
  have "list_all (\<lambda>op. op_Call op \<noteq> ''GetImportProjectStatus'' \<longrightarrow>
      (op_Method op = MethodGet \<longleftrightarrow> op_Call op \<in> set lookupCalls \<and> op_Call op \<notin> set sweepCalls)) declaredOperations"
    by code_simp
  with assms show ?thesis unfolding list_all_iff by blast
qed

lemma no_import_call: "callOf q \<noteq> ''GetImportProjectStatus''"
proof (cases q)
  case (OnTask x)
  then show ?thesis by (cases x) simp_all
next
  case (OnGraph x)
  then show ?thesis by (cases x) simp_all
next
  case (OnHolder x)
  then show ?thesis by (cases x) simp_all
next
  case (OnProject x)
  then show ?thesis by (cases x) simp_all
next
  case (OnCase x)
  then show ?thesis by (cases x) simp_all
next
  case (OnStep x)
  then show ?thesis by (cases x) simp_all
next
  case (OnRun x)
  then show ?thesis by (cases x) simp_all
next
  case (OnEnding x)
  then show ?thesis by (cases x) simp_all
qed

text \<open>
  C30. The declared methods tell reads from writes: a request that calls the method of an operation declared as
  \<open>GET\<close> changes no table and publishes nothing, whichever of its statements fail; and a request that only looks
  something up is declared as \<open>GET\<close>, the two sweeps of the watchdog apart.
\<close>

theorem get_changes_nothing:
  assumes "op \<in> set declaredOperations" and "op_Call op = callOf q"
  shows "(op_Method op = MethodGet \<longrightarrow> w_db (snd (serve lib q s)) = w_db s \<and> w_published (snd (serve lib q s)) = w_published s) \<and>
    (lookup q \<and> callOf q \<notin> set sweepCalls \<longrightarrow> op_Method op = MethodGet)"
proof -
  have "callOf q \<noteq> ''GetImportProjectStatus''" by (rule no_import_call)
  with declared_reads [OF assms(1)] assms(2) lookup_iff [of q] lookup_only show ?thesis by metis
qed

theorem get_changes_nothing_witness:
  "w_db (snd (serve demoManager (OnTask (ReqGetTask ''t'')) calmWorld)) = w_db calmWorld \<and>
   w_published (snd (serve demoManager (OnTask (ReqGetTask ''t'')) calmWorld)) = w_published calmWorld"
proof -
  let ?op = "declared ''get_task'' MethodGet ''/tasks/{taskID}'' ''GetTask'' ''taskmanager.task.read''"
  have "?op \<in> set declaredOperations" by (simp add: declaredOperations_def)
  from get_changes_nothing [OF this, of "OnTask (ReqGetTask ''t'')"] show ?thesis by (simp add: declared_def)
qed

section \<open>Refusals\<close>

text \<open>What is not a refusal but a breakdown: the database, a counter of it, or the setting.\<close>

fun breakdown :: "err \<Rightarrow> bool" where
  "breakdown ErrDatabase \<longleftrightarrow> True"
| "breakdown ErrUniqueKey \<longleftrightarrow> True"
| "breakdown ErrCounter \<longleftrightarrow> True"
| "breakdown ErrSettings \<longleftrightarrow> True"
| "breakdown (ErrTaskStates _) \<longleftrightarrow> True"
| "breakdown _ \<longleftrightarrow> False"

lemma refusable_named: "refusable e \<Longrightarrow> \<not> breakdown e \<Longrightarrow> sentinelOf e \<in> set (map snd sentinels)"
  by (cases e) (simp_all add: sentinels_def)

lemma refusal_status:
  assumes "refusable e" and "\<not> breakdown e"
  shows "\<exists>code. refusalStatus e = Some code \<and> 400 \<le> code \<and> code < 500"
proof -
  from refusable_named [OF assms] have "\<exists>p \<in> set sentinels. errorsIs e (snd p)" by (auto simp: errorsIs_def)
  then obtain p where p: "List.find (\<lambda>p. errorsIs e (snd p)) sentinels = Some p"
    by (metis (no_types, lifting) find_None_iff option.exhaust)
  then have "p \<in> set sentinels" by (metis find_Some_iff nth_mem)
  with p sentinel_status [of p] show ?thesis by (auto simp: refusalStatus_def)
qed

lemma names_calls: "names q \<Longrightarrow> callOf q \<in> {''StableIdentity'', ''Resolve''}"
  by (auto simp: names_def split: request.splits task_request.splits)

lemma declared_no_names: "op \<in> set declaredOperations \<Longrightarrow> op_Call op \<notin> {''StableIdentity'', ''Resolve''}"
proof -
  have "list_all (\<lambda>op. op_Call op \<noteq> ''StableIdentity'' \<and> op_Call op \<noteq> ''Resolve'') declaredOperations" by code_simp
  then show "op \<in> set declaredOperations \<Longrightarrow> op_Call op \<notin> {''StableIdentity'', ''Resolve''}" by (auto simp: list_all_iff)
qed

text \<open>
  C29. Every refusal has its status: when a request for a declared operation answers an error, the error is named in the
  table of sentinels and declared with a status between 400 and 499, or it is a breakdown of the database or the setting.
  No request answers that a task, a project or an agent already exists, though the interface promises two of these.
  An error that a rollback, a stop or a sweep returns beside its result is part of the result here.
\<close>

theorem errors_answered:
  assumes "op \<in> set declaredOperations" and "op_Call op = callOf q" and "serve lib q s = (Inl e, t)"
  shows "(breakdown e \<or> (\<exists>code. refusalStatus e = Some code \<and> 400 \<le> code \<and> code < 500)) \<and>
    e \<notin> {ErrTaskAlreadyExists, ErrProjectAlreadyExists, ErrAgentAlreadyExists}"
proof -
  have "\<not> names q" using declared_no_names [OF assms(1)] names_calls [of q] assms(2) by auto
  then have "refusable e" using conductsD(2) [OF conducts_serve assms(3)] by blast
  with refusal_status show ?thesis by auto
qed

theorem errors_answered_witness:
  "\<exists>t. serve demoManager (OnTask (ReqGetTask ''t'')) calmWorld = (Inl ErrTaskNotFound, t) \<and>
     (\<exists>code. refusalStatus ErrTaskNotFound = Some code \<and> 400 \<le> code \<and> code < 500)"
proof -
  let ?op = "declared ''get_task'' MethodGet ''/tasks/{taskID}'' ''GetTask'' ''taskmanager.task.read''"
  have "\<exists>t. serve demoManager (OnTask (ReqGetTask ''t'')) calmWorld = (Inl ErrTaskNotFound, t)"
    by (simp add: answered_def GetTask_def bnd_def takeQ_calm calmWorld_def emptyDb_def)
  then obtain t where run: "serve demoManager (OnTask (ReqGetTask ''t'')) calmWorld = (Inl ErrTaskNotFound, t)" by blast
  have "?op \<in> set declaredOperations" by (simp add: declaredOperations_def)
  from errors_answered [OF this _ run] run show ?thesis by (simp add: declared_def)
qed

end
