(* ===== verification/Topics.thy ===== *)
theory Topics
  imports Failures
begin

text \<open>
  The bus: every topic of \<open>events.go\<close>, \<open>case.go\<close> and \<open>assignee.go\<close>, those this package publishes under and those it
  only names, and the payloads that other services send or expect (\<open>events.go\<close>, \<open>failure_recovery.go\<close>). The
  payloads published here are the constructors of \<open>event\<close>.
\<close>

section \<open>Topics\<close>

datatype topic =
    TopicTaskCreated
  | TopicTaskUpdated
  | TopicTaskStatusChanged
  | TopicTaskCompleted
  | TopicTaskFailed
  | TopicTaskAssigned
  | TopicRelationshipCreated
  | TopicTodoDispatched
  | TopicTodoCompleted
  | TopicTaskUpdate
  | TopicTaskRolledBack
  | TopicTaskCancelled
  | TopicPipelineStarted
  | TopicTaskNeedsDirection
  | TopicTaskDirection
  | TopicTaskClassifyFailure
  | TopicTaskFailureClassified
  | TopicRunPaused
  | TopicRunResumed
  | TopicTaskPlanSplit
  | TopicReviewPassed
  | TopicReviewFailed
  | TopicRunInProgress
  | TopicRunCompleted
  | TopicRunFailed
  | TopicRunRolledBack
  | TopicRunRollingBack
  | TopicRunRollbackFailed
  | TopicRunCancelling
  | TopicRunCancelled
  | TopicRunClosed
  | TopicRunTimeout
  | TopicTaskTimeout
  | TopicTaskHandedOver
  | TopicCaseOpened
  | TopicCaseClosed

fun topicText :: "topic \<Rightarrow> string" where
  "topicText TopicTaskCreated = ''task.created''"
| "topicText TopicTaskUpdated = ''task.updated''"
| "topicText TopicTaskStatusChanged = ''task.status.changed''"
| "topicText TopicTaskCompleted = ''task.completed''"
| "topicText TopicTaskFailed = ''task.failed''"
| "topicText TopicTaskAssigned = ''task.assigned''"
| "topicText TopicRelationshipCreated = ''relationship.created''"
| "topicText TopicTodoDispatched = ''todo.dispatched''"
| "topicText TopicTodoCompleted = ''todo.completed''"
| "topicText TopicTaskUpdate = ''task.update''"
| "topicText TopicTaskRolledBack = ''task.rolled_back''"
| "topicText TopicTaskCancelled = ''task.cancelled''"
| "topicText TopicPipelineStarted = ''pipeline.started''"
| "topicText TopicTaskNeedsDirection = ''task.needs-direction''"
| "topicText TopicTaskDirection = ''task.direction''"
| "topicText TopicTaskClassifyFailure = ''task.classify-failure''"
| "topicText TopicTaskFailureClassified = ''task.failure-classified''"
| "topicText TopicRunPaused = ''run.paused''"
| "topicText TopicRunResumed = ''run.resumed''"
| "topicText TopicTaskPlanSplit = ''task.request-split''"
| "topicText TopicReviewPassed = ''review.passed''"
| "topicText TopicReviewFailed = ''review.failed''"
| "topicText TopicRunInProgress = ''run.in_progress''"
| "topicText TopicRunCompleted = ''run.completed''"
| "topicText TopicRunFailed = ''run.failed''"
| "topicText TopicRunRolledBack = ''run.rolled_back''"
| "topicText TopicRunRollingBack = ''run.rolling_back''"
| "topicText TopicRunRollbackFailed = ''run.rollback_failed''"
| "topicText TopicRunCancelling = ''run.cancelling''"
| "topicText TopicRunCancelled = ''run.cancelled''"
| "topicText TopicRunClosed = ''run.closed''"
| "topicText TopicRunTimeout = ''run.timeout''"
| "topicText TopicTaskTimeout = ''task.timeout''"
| "topicText TopicTaskHandedOver = ''task.handed_over''"
| "topicText TopicCaseOpened = ''case.opened''"
| "topicText TopicCaseClosed = ''case.closed''"

fun topicFor :: "event \<Rightarrow> topic" where
  "topicFor (TaskCreated _ _ _) = TopicTaskCreated"
| "topicFor (TaskUpdated _ _ _) = TopicTaskUpdated"
| "topicFor (TaskStatusChanged _ _ _ _) = TopicTaskStatusChanged"
| "topicFor (TaskCompleted _ _ _ _) = TopicTaskCompleted"
| "topicFor (TaskFailedEv _ _ _) = TopicTaskFailed"
| "topicFor (TaskRolledBack _ _) = TopicTaskRolledBack"
| "topicFor (TaskAssigned _ _ _ _ _ _ _) = TopicTaskAssigned"
| "topicFor (RelationshipCreated _ _ _) = TopicRelationshipCreated"
| "topicFor (TodoDispatched _ _ _ _ _ _ _ _ _ _ _ _) = TopicTodoDispatched"
| "topicFor (RunInProgressEv _ _) = TopicRunInProgress"
| "topicFor (RunCompletedEv _ _ _) = TopicRunCompleted"
| "topicFor (RunFailedEv _ _ _) = TopicRunFailed"
| "topicFor (RunRolledBackEv _ _ _) = TopicRunRolledBack"
| "topicFor (RunRollingBackEv _ _) = TopicRunRollingBack"
| "topicFor (RunRollbackFailedEv _ _ _) = TopicRunRollbackFailed"
| "topicFor (RunCancellingEv _ _ _ _) = TopicRunCancelling"
| "topicFor (RunCancelledEv _ _ _ _) = TopicRunCancelled"
| "topicFor (RunClosedEv _ _ _ _ _) = TopicRunClosed"
| "topicFor (TaskCancelledEv _ _ _) = TopicTaskCancelled"
| "topicFor (TaskHandedOver _ _ _ _) = TopicTaskHandedOver"
| "topicFor (CaseOpened _ _ _ _) = TopicCaseOpened"
| "topicFor (CaseClosed _ _ _) = TopicCaseClosed"

lemma topicText_inject [simp]: "topicText a = topicText b \<longleftrightarrow> a = b"
  by (cases a; cases b) simp_all

lemma topicOf_topicFor: "topicOf e = topicText (topicFor e)"
  by (cases e) simp_all

text \<open>
  Fourteen topics have no event: nothing in this package publishes under them, though the comment on the constants calls
  them the set it publishes, and that on \<open>TopicTodoCompleted\<close> says when it fires.
\<close>

definition namedOnly :: "topic set" where
  "namedOnly = {TopicTodoCompleted, TopicTaskUpdate, TopicPipelineStarted, TopicTaskNeedsDirection, TopicTaskDirection, TopicTaskClassifyFailure, TopicTaskFailureClassified, TopicRunPaused, TopicRunResumed, TopicTaskPlanSplit, TopicReviewPassed, TopicReviewFailed, TopicRunTimeout, TopicTaskTimeout}"

lemma published_topics: "range topicFor = - namedOnly"
proof -
  have "topicFor e \<notin> namedOnly" for e by (cases e) (simp_all add: namedOnly_def)
  moreover have "t \<in> range topicFor" if "t \<notin> namedOnly" for t
    using that by (cases t) (auto simp: namedOnly_def intro: range_eqI topicFor.simps [symmetric])
  ultimately show ?thesis by auto
qed

section \<open>Payloads of other services\<close>

record todo_completed =
  tdc_TodoID :: string
  tdc_ParentTaskID :: string
  tdc_Title :: string
  tdc_Status :: string
  tdc_TodoType :: string
  tdc_MaxRuns :: int
  tdc_RunCount :: int
  tdc_WorkflowRunID :: string

record plan_split_child =
  psc_TempID :: string
  psc_TaskName :: string
  psc_Title :: string
  psc_Description :: string
  psc_RoleName :: string
  psc_DependsOn :: "string list"

record plan_split =
  ps_TaskID :: string
  ps_WorkflowRunID :: string
  ps_Children :: "plan_split_child list"

record task_update =
  tup_TaskID :: string
  tup_BranchName :: string

record run_timeout =
  rto_WorkflowRunID :: string
  rto_LastEventAt :: string
  rto_InactivityWindow :: string
  rto_DetectedAt :: string

record step_timeout =
  sto_WorkflowRunID :: string
  sto_StepID :: string
  sto_CurrentStepStartedAt :: string
  sto_StepTimeout :: string
  sto_DetectedAt :: string

record classify_failure =
  cf_TaskID :: string
  cf_WorkflowRunID :: string
  cf_FailureCount :: int
  cf_LastFailureReason :: string
  cf_TaskDescription :: string
  cf_FailedTodoTitle :: string
  cf_FailedTodoInstructions :: string

record failure_classified =
  fcl_TaskID :: string
  fcl_WorkflowRunID :: string
  fcl_FailureType :: string
  fcl_Reasoning :: string

record failed_criterion =
  fcr_CriterionID :: string
  fcr_Title :: string
  fcr_Result :: string
  fcr_ResultNotes :: string

record review_outcome =
  ro_TaskID :: string
  ro_WorkflowRunID :: string
  ro_FailedCriteria :: "failed_criterion list"

section \<open>Directions\<close>

text \<open>\<open>failure_recovery.go\<close>: the form shown when a task needs a direction, and the direction given.\<close>

record form_option =
  fo_ID :: string
  fo_Label :: string
  fo_Description :: string
  fo_RequiresInput :: bool
  fo_InputLabel :: string
  fo_InputPlaceholder :: string
  fo_Suggestions :: "string list"

record direction_form =
  df_Title :: string
  df_Description :: string
  df_FailureOutput :: string
  df_Question :: string
  df_Options :: "form_option list"
  df_AllowFreetext :: bool
  df_FreetextLabel :: string

record needs_direction =
  nd_TaskID :: string
  nd_WorkflowRunID :: string
  nd_FailureCount :: int
  nd_LastFailureReason :: string
  nd_Form :: direction_form

datatype direction_option = DirectionRetry | DirectionSkip | DirectionMarkBlocked | DirectionCancel | DirectionOther string

fun directionText :: "direction_option \<Rightarrow> string" where
  "directionText DirectionRetry = ''retry-with-instructions''"
| "directionText DirectionSkip = ''skip''"
| "directionText DirectionMarkBlocked = ''mark-blocked''"
| "directionText DirectionCancel = ''cancel''"
| "directionText (DirectionOther text) = text"

record task_direction =
  tdr_TaskID :: string
  tdr_WorkflowRunID :: string
  tdr_SelectedOption :: direction_option
  tdr_Instructions :: string
  tdr_DirectedBy :: string

record run_paused =
  rpa_WorkflowRunID :: string
  rpa_PausedByTaskID :: string
  rpa_FailureCount :: int
  rpa_LastFailureReason :: string

record run_resumed =
  rre_WorkflowRunID :: string
  rre_ResumedByTaskID :: string
  rre_SelectedOption :: string

text \<open>What the constants name is told apart by its text, whatever else a payload may hold.\<close>

definition directionConstants :: "direction_option set" where
  "directionConstants = {DirectionRetry, DirectionSkip, DirectionMarkBlocked, DirectionCancel}"

lemma directionText_inject: "inj_on directionText directionConstants"
  by (auto simp: inj_on_def directionConstants_def)

end
