(* ===== verification/Settings.thy ===== *)
theory Settings
  imports Overdue
begin

text \<open>
  \<open>task_state.go\<close>, \<open>blueprint.go\<close>, \<open>testrun.go\<close> and the constructor in \<open>task.go\<close>: the board states of an instance, defined,
  overridden and cleared in the settings store; the specification of an instance; the making of a manager and its scoping to
  one test run. The store of settings is the third-party \<open>spec\<close> package;
  its functions are the record \<open>settings_lib\<close>, for one specification, on stores of type \<open>'b\<close> and values of type \<open>'v\<close>.
\<close>

section \<open>The settings store\<close>

text \<open>
  \<open>sl_Layers\<close> answers the definition and the override of an instance, \<open>sl_ResolveDeclared\<close> the value of the
  specification without them; \<open>sl_Decode\<close> is the strict decoding at the head of \<open>ParseTaskStates\<close>. \<open>None\<close> is an error.
\<close>

record ('b, 'v, 'c) settings_lib =
  sl_Declared :: "string \<Rightarrow> bool"
  sl_ResolveDeclared :: "string \<Rightarrow> 'v option"
  sl_ResolveStored :: "'b \<Rightarrow> string \<Rightarrow> 'v option"
  sl_Layers :: "'b \<Rightarrow> ((string \<rightharpoonup> 'v) \<times> (string \<rightharpoonup> 'v)) option"
  sl_PutDefinition :: "'b \<Rightarrow> (string \<rightharpoonup> 'v) \<Rightarrow> 'b option"
  sl_StoreOverride :: "'b \<Rightarrow> string \<Rightarrow> 'v \<Rightarrow> string \<Rightarrow> string \<Rightarrow> ('b \<times> 'c) option"
  sl_StoreClear :: "'b \<Rightarrow> string \<Rightarrow> string \<Rightarrow> string \<Rightarrow> ('b \<times> 'c \<times> bool) option"
  sl_Decode :: "'v \<Rightarrow> task_state list option"

definition taskStatesSetting :: string where
  "taskStatesSetting = ''task_states''"

definition parseSetting :: "('b, 'v, 'c) settings_lib \<Rightarrow> 'v \<Rightarrow> err + task_state list" where
  "parseSetting lib value =
     (case sl_Decode lib value of
        None \<Rightarrow> Inl ErrSettings
      | Some states \<Rightarrow> (case ParseTaskStates states of Inl e \<Rightarrow> Inl (ErrTaskStates e) | Inr ss \<Rightarrow> Inr ss))"

definition moduleTaskStates :: "('b, 'v, 'c) settings_lib \<Rightarrow> err + task_state list" where
  "moduleTaskStates lib =
     (if \<not> sl_Declared lib taskStatesSetting then Inr DefaultTaskStates
      else case sl_ResolveDeclared lib taskStatesSetting of None \<Rightarrow> Inl ErrSettings | Some value \<Rightarrow> parseSetting lib value)"

definition readTaskStates :: "('b, 'v, 'c) settings_lib \<Rightarrow> 'b \<Rightarrow> err + task_state list" where
  "readTaskStates lib b =
     (if \<not> sl_Declared lib taskStatesSetting then Inr DefaultTaskStates
      else case sl_ResolveStored lib b taskStatesSetting of None \<Rightarrow> Inl ErrSettings | Some value \<Rightarrow> parseSetting lib value)"

text \<open>What a manager on the store \<open>b\<close> sees as its setting: the same, as \<open>taskStates\<close> reads it.\<close>

definition settingOf :: "('b, 'v, 'c) settings_lib \<Rightarrow> 'b \<Rightarrow> states_setting" where
  "settingOf lib b =
     (if \<not> sl_Declared lib taskStatesSetting then Undeclared
      else case Option.bind (sl_ResolveStored lib b taskStatesSetting) (sl_Decode lib) of
        None \<Rightarrow> Unreadable | Some states \<Rightarrow> Declared states)"

lemma readTaskStates_setting: "readTaskStates lib b = StoredTaskStates (settingOf lib b)"
  by (simp add: readTaskStates_def settingOf_def parseSetting_def split: option.split)

section \<open>Defining, overriding, clearing\<close>

text \<open>The transaction of a definition is all there is: an error of a statement in it leaves the store as it was.\<close>

definition DefineTaskStates :: "('b, 'v, 'c) settings_lib \<Rightarrow> 'v \<Rightarrow> 'b \<Rightarrow> (err + unit) \<times> 'b" where
  "DefineTaskStates lib value b =
     (case parseSetting lib value of
        Inl e \<Rightarrow> (Inl e, b)
      | Inr _ \<Rightarrow>
          (case sl_Layers lib b of
             None \<Rightarrow> (Inl ErrSettings, b)
           | Some (definition', _) \<Rightarrow>
               (case sl_PutDefinition lib b (definition'(taskStatesSetting \<mapsto> value)) of
                  None \<Rightarrow> (Inl ErrSettings, b)
                | Some b' \<Rightarrow> (Inr (), b'))))"

definition OverrideTaskStates ::
  "('b, 'v, 'c) settings_lib \<Rightarrow> 'v \<Rightarrow> string \<Rightarrow> string \<Rightarrow> 'b \<Rightarrow> (err + 'c) \<times> 'b" where
  "OverrideTaskStates lib value who moment b =
     (case parseSetting lib value of
        Inl e \<Rightarrow> (Inl e, b)
      | Inr _ \<Rightarrow>
          (case sl_StoreOverride lib b taskStatesSetting value who moment of
             None \<Rightarrow> (Inl ErrSettings, b)
           | Some (b', change) \<Rightarrow> (Inr change, b')))"

definition ClearTaskStatesOverride ::
  "('b, 'v, 'c) settings_lib \<Rightarrow> string \<Rightarrow> string \<Rightarrow> 'b \<Rightarrow> (err + 'c \<times> bool) \<times> 'b" where
  "ClearTaskStatesOverride lib who moment b =
     (case sl_StoreClear lib b taskStatesSetting who moment of
        None \<Rightarrow> (Inl ErrSettings, b)
      | Some (b', change, cleared) \<Rightarrow> (Inr (change, cleared), b'))"

text \<open>A declaration that does not parse is refused before the store is touched.\<close>

lemma invalid_refused:
  assumes "parseSetting lib value = Inl e"
  shows "DefineTaskStates lib value b = (Inl e, b)" "OverrideTaskStates lib value who moment b = (Inl e, b)"
  using assms by (simp_all add: DefineTaskStates_def OverrideTaskStates_def)

section \<open>Layers\<close>

text \<open>
  What the package and its tests rely on of the store: the override of an instance wins over its definition, and that over
  the specification; each write touches its own layer.
\<close>

definition layered :: "('b, 'v, 'c) settings_lib \<Rightarrow> bool" where
  "layered lib \<longleftrightarrow>
     (\<forall>b d o' n. sl_Layers lib b = Some (d, o') \<longrightarrow> sl_Declared lib n \<longrightarrow>
        sl_ResolveStored lib b n =
          (case o' n of Some v \<Rightarrow> Some v | None \<Rightarrow> (case d n of Some v \<Rightarrow> Some v | None \<Rightarrow> sl_ResolveDeclared lib n))) \<and>
     (\<forall>b b' d o' m. sl_Layers lib b = Some (d, o') \<longrightarrow> sl_PutDefinition lib b m = Some b' \<longrightarrow> sl_Layers lib b' = Some (m, o')) \<and>
     (\<forall>b b' d o' n v w t c. sl_Layers lib b = Some (d, o') \<longrightarrow> sl_StoreOverride lib b n v w t = Some (b', c) \<longrightarrow>
        sl_Layers lib b' = Some (d, o'(n \<mapsto> v))) \<and>
     (\<forall>b b' d o' n w t c k. sl_Layers lib b = Some (d, o') \<longrightarrow> sl_StoreClear lib b n w t = Some (b', c, k) \<longrightarrow>
        sl_Layers lib b' = Some (d, o'(n := None)))"

lemma layeredD:
  assumes "layered lib" and "sl_Layers lib b = Some (d, o')"
  shows "sl_Declared lib n \<Longrightarrow> sl_ResolveStored lib b n =
      (case o' n of Some v \<Rightarrow> Some v | None \<Rightarrow> (case d n of Some v \<Rightarrow> Some v | None \<Rightarrow> sl_ResolveDeclared lib n))"
    "sl_PutDefinition lib b m = Some b' \<Longrightarrow> sl_Layers lib b' = Some (m, o')"
    "sl_StoreOverride lib b n v w t = Some (b', c) \<Longrightarrow> sl_Layers lib b' = Some (d, o'(n \<mapsto> v))"
    "sl_StoreClear lib b n w t = Some (b', c', k) \<Longrightarrow> sl_Layers lib b' = Some (d, o'(n := None))"
proof -
  note law = assms(1) [unfolded layered_def]
  note read = law [THEN conjunct1] and rest = law [THEN conjunct2]
  show "sl_Declared lib n \<Longrightarrow> sl_ResolveStored lib b n =
      (case o' n of Some v \<Rightarrow> Some v | None \<Rightarrow> (case d n of Some v \<Rightarrow> Some v | None \<Rightarrow> sl_ResolveDeclared lib n))"
    using read assms(2) by blast
  show "sl_PutDefinition lib b m = Some b' \<Longrightarrow> sl_Layers lib b' = Some (m, o')"
    using rest [THEN conjunct1] assms(2) by blast
  show "sl_StoreOverride lib b n v w t = Some (b', c) \<Longrightarrow> sl_Layers lib b' = Some (d, o'(n \<mapsto> v))"
    using rest [THEN conjunct2, THEN conjunct1] assms(2) by blast
  show "sl_StoreClear lib b n w t = Some (b', c', k) \<Longrightarrow> sl_Layers lib b' = Some (d, o'(n := None))"
    using rest [THEN conjunct2, THEN conjunct2] assms(2) by blast
qed

text \<open>An instance is readable when the specification and what the layers hold of the setting parse.\<close>

definition parses :: "('b, 'v, 'c) settings_lib \<Rightarrow> 'v \<Rightarrow> bool" where
  "parses lib value \<longleftrightarrow> (\<exists>states. parseSetting lib value = Inr states)"

definition readable :: "('b, 'v, 'c) settings_lib \<Rightarrow> 'b \<Rightarrow> bool" where
  "readable lib b \<longleftrightarrow> (\<exists>d o'. sl_Layers lib b = Some (d, o') \<and>
     (\<forall>v. d taskStatesSetting = Some v \<or> o' taskStatesSetting = Some v \<longrightarrow> parses lib v))"

lemma readable_read:
  assumes "layered lib" and "\<exists>states. moduleTaskStates lib = Inr states" and "readable lib b"
  shows "\<exists>states. readTaskStates lib b = Inr states"
proof (cases "sl_Declared lib taskStatesSetting")
  case True
  from assms(3) obtain d o' where lay: "sl_Layers lib b = Some (d, o')"
    and ok: "\<And>v. d taskStatesSetting = Some v \<or> o' taskStatesSetting = Some v \<Longrightarrow> parses lib v"
    unfolding readable_def by blast
  from assms(2) True obtain v0 where "sl_ResolveDeclared lib taskStatesSetting = Some v0" "parses lib v0"
    by (auto simp: moduleTaskStates_def parses_def split: option.splits)
  with layeredD(1) [OF assms(1) lay True] ok True show ?thesis
    by (auto simp: readTaskStates_def parses_def split: option.split)
qed (simp add: readTaskStates_def)

lemma readable_define:
  assumes "layered lib" and "readable lib b" and "DefineTaskStates lib value b = (r, b')"
  shows "readable lib b'"
proof (cases r)
  case (Inr u)
  from assms(2) obtain d o' where lay: "sl_Layers lib b = Some (d, o')"
    and ok: "\<And>v. d taskStatesSetting = Some v \<or> o' taskStatesSetting = Some v \<Longrightarrow> parses lib v"
    unfolding readable_def by blast
  from assms(3) Inr lay have val: "parses lib value"
    and put: "sl_PutDefinition lib b (d(taskStatesSetting \<mapsto> value)) = Some b'"
    by (auto simp: DefineTaskStates_def parses_def split: sum.splits option.splits)
  from layeredD(2) [OF assms(1) lay put] ok val show ?thesis by (auto simp: readable_def)
qed (use assms in \<open>auto simp: DefineTaskStates_def split: sum.splits option.splits\<close>)

lemma readable_override:
  assumes "layered lib" and "readable lib b" and "OverrideTaskStates lib value who moment b = (r, b')"
  shows "readable lib b'"
proof (cases r)
  case (Inr c)
  from assms(2) obtain d o' where lay: "sl_Layers lib b = Some (d, o')"
    and ok: "\<And>v. d taskStatesSetting = Some v \<or> o' taskStatesSetting = Some v \<Longrightarrow> parses lib v"
    unfolding readable_def by blast
  from assms(3) Inr have val: "parses lib value"
    and put: "sl_StoreOverride lib b taskStatesSetting value who moment = Some (b', c)"
    by (auto simp: OverrideTaskStates_def parses_def split: sum.splits option.splits)
  from layeredD(3) [OF assms(1) lay put] ok val show ?thesis by (auto simp: readable_def)
qed (use assms in \<open>auto simp: OverrideTaskStates_def split: sum.splits option.splits\<close>)

lemma readable_clear:
  assumes "layered lib" and "readable lib b" and "ClearTaskStatesOverride lib who moment b = (r, b')"
  shows "readable lib b'"
proof (cases r)
  case (Inr c)
  from assms(2) obtain d o' where lay: "sl_Layers lib b = Some (d, o')"
    and ok: "\<And>v. d taskStatesSetting = Some v \<or> o' taskStatesSetting = Some v \<Longrightarrow> parses lib v"
    unfolding readable_def by blast
  from assms(3) Inr obtain x k where "sl_StoreClear lib b taskStatesSetting who moment = Some (b', x, k)"
    by (auto simp: ClearTaskStatesOverride_def split: option.splits)
  from layeredD(4) [OF assms(1) lay this] ok show ?thesis by (auto simp: readable_def)
qed (use assms in \<open>auto simp: ClearTaskStatesOverride_def split: option.splits\<close>)

text \<open>Any sequence of the three.\<close>

datatype 'v settings_call = Define 'v | Override 'v string string | Clear string string

fun settingsCall :: "('b, 'v, 'c) settings_lib \<Rightarrow> 'v settings_call \<Rightarrow> 'b \<Rightarrow> 'b" where
  "settingsCall lib (Define value) b = snd (DefineTaskStates lib value b)"
| "settingsCall lib (Override value who moment) b = snd (OverrideTaskStates lib value who moment b)"
| "settingsCall lib (Clear who moment) b = snd (ClearTaskStatesOverride lib who moment b)"

fun settingsCalls :: "('b, 'v, 'c) settings_lib \<Rightarrow> 'v settings_call list \<Rightarrow> 'b \<Rightarrow> 'b" where
  "settingsCalls lib [] b = b"
| "settingsCalls lib (c # cs) b = settingsCalls lib cs (settingsCall lib c b)"

lemma readable_call: "layered lib \<Longrightarrow> readable lib b \<Longrightarrow> readable lib (settingsCall lib c b)"
  by (cases c) (auto intro: readable_define readable_override readable_clear prod.collapse [symmetric])

lemma readable_calls: "layered lib \<Longrightarrow> readable lib b \<Longrightarrow> readable lib (settingsCalls lib cs b)"
  by (induction cs arbitrary: b) (simp_all add: readable_call)

section \<open>Making a manager\<close>

text \<open>
  \<open>NewTaskManager\<close>: a database and a specification that may be nil, the third-party store on them, and the two
  settings that are checked once. \<open>Unbound\<close> is no manager at all; reading the states through it answers the default.
\<close>

datatype new_error = NilDatabase | NilSpec | NotMade err

record ('b, 's, 't, 'p) manager =
  mg_DB :: 'b
  mg_Store :: 't
  mg_Publisher :: "'p option"
  mg_Spec :: 's
  mg_OverdueGrace :: int

definition NewTaskManager ::
  "('s \<Rightarrow> ('b, 'v, 'c) settings_lib) \<Rightarrow> ('s \<Rightarrow> grace_setting) \<Rightarrow> ('b \<Rightarrow> 's \<Rightarrow> err + 't) \<Rightarrow>
   'b option \<Rightarrow> 's option \<Rightarrow> 'p option \<Rightarrow> new_error + ('b, 's, 't, 'p) manager" where
  "NewTaskManager libOf graceSetting newStore db' spec pub =
     (case db' of
        None \<Rightarrow> Inl NilDatabase
      | Some b \<Rightarrow>
          (case spec of
             None \<Rightarrow> Inl NilSpec
           | Some s \<Rightarrow>
               (case newStore b s of
                  Inl e \<Rightarrow> Inl (NotMade e)
                | Inr st \<Rightarrow>
                    (case moduleTaskStates (libOf s) of
                       Inl e \<Rightarrow> Inl (NotMade e)
                     | Inr _ \<Rightarrow>
                         (case moduleOverdueGrace (graceSetting s) of
                            Inl e \<Rightarrow> Inl (NotMade e)
                          | Inr grace \<Rightarrow> Inr \<lparr>mg_DB = b, mg_Store = st, mg_Publisher = pub, mg_Spec = s,
                              mg_OverdueGrace = grace\<rparr>)))))"

definition Unbound :: "('b, 's, 't, 'p) manager option" where
  "Unbound = None"

text \<open>The method \<open>taskStates\<close> of \<open>task_state.go\<close>, with its receiver that may be nil.\<close>

definition managerTaskStates ::
  "('s \<Rightarrow> ('b, 'v, 'c) settings_lib) \<Rightarrow> ('b, 's, 't, 'p) manager option \<Rightarrow> err + task_state list" where
  "managerTaskStates libOf m =
     (case m of None \<Rightarrow> Inr DefaultTaskStates | Some mg \<Rightarrow> readTaskStates (libOf (mg_Spec mg)) (mg_DB mg))"

lemma NewTaskManager_Inr:
  assumes "NewTaskManager libOf graceSetting newStore db' spec pub = Inr m"
  shows "db' = Some (mg_DB m) \<and> spec = Some (mg_Spec m) \<and> newStore (mg_DB m) (mg_Spec m) = Inr (mg_Store m) \<and>
    (\<exists>states. moduleTaskStates (libOf (mg_Spec m)) = Inr states) \<and>
    moduleOverdueGrace (graceSetting (mg_Spec m)) = Inr (mg_OverdueGrace m)"
  using assms by (auto simp: NewTaskManager_def split: option.splits sum.splits)

section \<open>The specification of an instance\<close>

text \<open>
  The blueprint and the example domain are embedded documents; parsing and printing JSON, and reading a blueprint or a
  specification, are arguments. Errors are texts of those.
\<close>

definition ParseSpec :: "'e + 'bp \<Rightarrow> ('bp \<Rightarrow> 'raw \<Rightarrow> 'e + 's) \<Rightarrow> 'raw \<Rightarrow> 'e + 's" where
  "ParseSpec blueprint parse raw = (case blueprint of Inl e \<Rightarrow> Inl e | Inr b \<Rightarrow> parse b raw)"

definition LoadSpec :: "'e + 'bp \<Rightarrow> ('bp \<Rightarrow> string \<Rightarrow> 'e + 's) \<Rightarrow> string \<Rightarrow> 'e + 's" where
  "LoadSpec blueprint load path = (case blueprint of Inl e \<Rightarrow> Inl e | Inr b \<Rightarrow> load b path)"

definition mountedDoc :: "(string \<Rightarrow> 'j) \<Rightarrow> (string \<rightharpoonup> 'j) \<Rightarrow> string \<Rightarrow> string \<Rightarrow> string \<rightharpoonup> 'j" where
  "mountedDoc str doc inst mount =
     (let doc1 = doc(''instance'' \<mapsto> str inst)
      in if mount \<noteq> [] then doc1(''mount'' \<mapsto> str mount) else doc1)"

definition SpecForMount ::
  "'e + (string \<rightharpoonup> 'j) \<Rightarrow> (string \<Rightarrow> 'j) \<Rightarrow> ((string \<rightharpoonup> 'j) \<Rightarrow> 'e + 'raw) \<Rightarrow> ('raw \<Rightarrow> 'e + 's) \<Rightarrow> string \<Rightarrow> string \<Rightarrow> 'e + 's" where
  "SpecForMount domain str marshal parseSpec inst mount =
     (case domain of
        Inl e \<Rightarrow> Inl e
      | Inr doc \<Rightarrow> (case marshal (mountedDoc str doc inst mount) of Inl e \<Rightarrow> Inl e | Inr raw \<Rightarrow> parseSpec raw))"

definition SpecFor ::
  "'e + (string \<rightharpoonup> 'j) \<Rightarrow> (string \<Rightarrow> 'j) \<Rightarrow> ((string \<rightharpoonup> 'j) \<Rightarrow> 'e + 'raw) \<Rightarrow> ('raw \<Rightarrow> 'e + 's) \<Rightarrow> string \<Rightarrow> 'e + 's" where
  "SpecFor domain str marshal parseSpec inst = SpecForMount domain str marshal parseSpec inst []"

text \<open>Only the instance and, when one is given, the mount differ from the embedded domain.\<close>

lemma mountedDoc_keeps: "k \<noteq> ''instance'' \<Longrightarrow> k \<noteq> ''mount'' \<or> mount = [] \<Longrightarrow> mountedDoc str doc inst mount k = doc k"
  by (auto simp: mountedDoc_def Let_def)

section \<open>One test run\<close>

text \<open>
  A manager scoped to a test run stamps the rows it writes and reads only rows so stamped (\<open>stamped\<close>, \<open>onTable\<close>); a row is a
  map from columns to texts, and the column of the run is a constant of \<open>spec\<close>.
\<close>

definition ForRun :: "('t \<Rightarrow> string \<Rightarrow> err + 't) \<Rightarrow> ('b, 's, 't, 'p) manager \<Rightarrow> string \<Rightarrow> err + ('b, 's, 't, 'p) manager" where
  "ForRun forRun m runID =
     (case forRun (mg_Store m) runID of Inl e \<Rightarrow> Inl e | Inr scoped \<Rightarrow> Inr (m\<lparr>mg_Store := scoped\<rparr>))"

definition onTable :: "string \<Rightarrow> string \<Rightarrow> (string \<rightharpoonup> string) list \<Rightarrow> (string \<rightharpoonup> string) list" where
  "onTable col runID rows = (if runID \<noteq> [] then filter (\<lambda>r. r col = Some runID) rows else rows)"

definition stamped :: "string \<Rightarrow> string \<Rightarrow> (string \<rightharpoonup> string) \<Rightarrow> string \<rightharpoonup> string" where
  "stamped col runID row = (if runID \<noteq> [] then row(col \<mapsto> runID) else row)"

lemma stamped_seen: "row \<in> set rows \<Longrightarrow> stamped col runID row \<in> set (onTable col runID (map (stamped col runID) rows))"
  by (auto simp: onTable_def stamped_def)

lemma stamped_unseen:
  "runID \<noteq> [] \<Longrightarrow> other \<noteq> [] \<Longrightarrow> other \<noteq> runID \<Longrightarrow> onTable col other (map (stamped col runID) rows) = []"
  by (auto simp: onTable_def stamped_def filter_empty_conv)

section \<open>Properties\<close>

text \<open>
  C39. The board states of a manager that was made are always there to read: from an instance whose stored layers parse,
  however they are defined, overridden and cleared afterwards, valid or not, and whichever writes of the store
  fail, reading them answers a list of states and never an error. It is the setting every quiet world of this
  development has.
\<close>

theorem settings_readable:
  assumes "NewTaskManager libOf graceSetting newStore db' spec pub = Inr m"
    and "layered (libOf (mg_Spec m))" and "readable (libOf (mg_Spec m)) (mg_DB m)"
    and "b = settingsCalls (libOf (mg_Spec m)) calls (mg_DB m)"
  shows "\<exists>states. managerTaskStates libOf (Some (m\<lparr>mg_DB := b\<rparr>)) = Inr states \<and>
    StoredTaskStates (settingOf (libOf (mg_Spec m)) b) = Inr states"
proof -
  have "\<exists>states. moduleTaskStates (libOf (mg_Spec m)) = Inr states" using NewTaskManager_Inr [OF assms(1)] by blast
  from readable_read [OF assms(2) this readable_calls [OF assms(2,3)]] assms(4) show ?thesis
    by (simp add: managerTaskStates_def readTaskStates_setting)
qed

text \<open>A store that keeps both layers, on values that need no decoding, and an instance of it.\<close>

definition twoLayers ::
  "((string \<rightharpoonup> task_state list) \<times> (string \<rightharpoonup> task_state list), task_state list, unit) settings_lib" where
  "twoLayers = \<lparr>sl_Declared = (\<lambda>_. True), sl_ResolveDeclared = (\<lambda>_. Some DefaultTaskStates),
     sl_ResolveStored = (\<lambda>(d, o') n. Some (case o' n of Some v \<Rightarrow> v | None \<Rightarrow> (case d n of Some v \<Rightarrow> v | None \<Rightarrow> DefaultTaskStates))),
     sl_Layers = Some, sl_PutDefinition = (\<lambda>(d, o') m. Some (m, o')),
     sl_StoreOverride = (\<lambda>(d, o') n v w t. Some ((d, o'(n \<mapsto> v)), ())),
     sl_StoreClear = (\<lambda>(d, o') n w t. Some ((d, o'(n := None)), (), o' n \<noteq> None)), sl_Decode = Some\<rparr>"

lemma layered_twoLayers: "layered twoLayers"
  by (auto simp: layered_def twoLayers_def split: option.split)

text \<open>An agency defines its backlog, then an empty override is refused.\<close>

definition backlogCalls :: "task_state list settings_call list" where
  "backlogCalls = [Define [\<lparr>ts_Name = ''Backlog'', ts_Statuses = [TaskStatusPending]\<rparr>], Override [] ''owner'' ''now'']"

theorem settings_readable_witness:
  "\<exists>m states. NewTaskManager (\<lambda>_ :: unit. twoLayers) (\<lambda>_. GraceInt 2) (\<lambda>_ _. Inr ()) (Some (Map.empty, Map.empty)) (Some ())
       (None :: unit option) = Inr m \<and>
     managerTaskStates (\<lambda>_. twoLayers) (Some (m\<lparr>mg_DB := settingsCalls twoLayers backlogCalls (Map.empty, Map.empty)\<rparr>)) = Inr states"
proof -
  have default: "ParseTaskStates DefaultTaskStates = Inr DefaultTaskStates" by code_simp
  let ?m = "\<lparr>mg_DB = (Map.empty, Map.empty) :: (string \<rightharpoonup> task_state list) \<times> (string \<rightharpoonup> task_state list),
    mg_Store = (), mg_Publisher = None :: unit option, mg_Spec = (), mg_OverdueGrace = 2 * hourNs\<rparr>"
  have made: "NewTaskManager (\<lambda>_. twoLayers) (\<lambda>_. GraceInt 2) (\<lambda>_ _. Inr ()) (Some (Map.empty, Map.empty)) (Some ()) None = Inr ?m"
    using moduleOverdueGrace_exact [of 2] default
    by (simp add: NewTaskManager_def moduleTaskStates_def twoLayers_def parseSetting_def)
  have "readable twoLayers (Map.empty, Map.empty)" by (simp add: readable_def twoLayers_def)
  with settings_readable [OF made, of "settingsCalls twoLayers backlogCalls (Map.empty, Map.empty)" backlogCalls] layered_twoLayers
  obtain states where "managerTaskStates (\<lambda>_. twoLayers)
      (Some (?m\<lparr>mg_DB := settingsCalls twoLayers backlogCalls (Map.empty, Map.empty)\<rparr>)) = Inr states" by auto
  with made show ?thesis by blast
qed

text \<open>What it answers is the definition, until the owner overrides it, and again when the override is cleared.\<close>

lemma backlog_read: "readTaskStates twoLayers (settingsCalls twoLayers backlogCalls (Map.empty, Map.empty)) =
    Inr [\<lparr>ts_Name = ''Backlog'', ts_Statuses = [TaskStatusPending]\<rparr>]"
proof -
  have "ParseTaskStates [\<lparr>ts_Name = ''Backlog'', ts_Statuses = [TaskStatusPending]\<rparr>] =
      Inr [\<lparr>ts_Name = ''Backlog'', ts_Statuses = [TaskStatusPending]\<rparr>]" "ParseTaskStates [] = Inl NoStatesDeclared"
    by code_simp+
  then show ?thesis
    by (simp add: readTaskStates_def backlogCalls_def DefineTaskStates_def OverrideTaskStates_def parseSetting_def
        twoLayers_def taskStatesSetting_def)
qed

end
