(* ===== verification/Spec2Isabelle.thy ===== *)
theory Spec2Isabelle
  imports Time_Roundtrip Wire Topics Settings
begin

text \<open>
  This development models \<open>mwanachama-backend-taskmanager\<close>, a Go package that keeps tasks, their steps,
  the workflow runs they belong to, the cases they serve, and the projects, tags, agents and holders
  around them in one SQL database, and publishes an event for what changes. All of its state is in the
  tables: a method of \<open>taskManager\<close> reads rows, decides, writes rows and publishes. The one piece of
  background work is the import of a document, a goroutine for each job; watchdog, sweep and ticks are
  methods a scheduler elsewhere calls.

  \<^bold>\<open>How a method is modelled.\<close> A method is a function from a \<open>world\<close> to Go's pair of a result or an error
  and the world after it (\<open>Store\<close>). The world holds the tables as lists of rows in storage order, and
  the supplies the code takes from outside: new ids, the clock, random bytes, the \<open>task_states\<close> setting
  and whether a publisher is set. A schedule of faults makes any database statement fail, so each
  \<open>if err != nil\<close> of the code is a branch of the model and a property without a hypothesis on the
  schedule holds whatever statements fail; \<open>quiet\<close> worlds are those in which none does. A statement is
  the pure operation of its SQL on the row list; a transaction restores the tables when its body or its
  commit fails; a unique index is the clash test of an insert. Errors are the package's sentinels
  (\<open>Failures\<close>); the text a call site wraps around one is kept only where the code stores it.

  \<^bold>\<open>The theories, by the files under \<open>src/\<close> they model.\<close>

  \<^item> \<open>Prelude\<close>: collections of rules, wrapping 64-bit integers, decimal printing, the pure table
    operations and a stable sort. \<open>Civil_Time\<close>: instants and the RFC 3339 texts of \<open>time\<close>.
  \<^item> \<open>Domain\<close>: \<open>models/*.go\<close>, the structs, the statuses with their transition tables, and the check of a
    declaration of board states. \<open>Failures\<close>: \<open>errors.go\<close> and the payloads of \<open>events.go\<close>.
  \<^item> \<open>Store\<close>: \<open>store.go\<close>, \<open>list_limit.go\<close>, \<open>task_state.go\<close>, the monad, the statements, and the calculus used
    everywhere: what a successful or failed run says of its parts, preservation of an invariant
    (\<open>keeps\<close>), operations that publish nothing (\<open>silent\<close>), leave the inputs alone (\<open>steady\<close>), never fail
    (\<open>surely\<close>) or succeed in quiet worlds (\<open>fine\<close>). The locale \<open>table\<close> states what a client relies on of
    a table and is interpreted for all twenty-two.
  \<^item> \<open>Relationships\<close>: \<open>relationship_impl.go\<close>. Twelve edge labels are kept in eight columns and four join
    tables; the three operations refine insertion, deletion and lookup on one set of pairs per label.
    The locale \<open>column\<close> extends \<open>table\<close>.
  \<^item> \<open>Code_Sequence\<close>: \<open>codesequence.go\<close>. \<open>Agents\<close>: \<open>agent.go\<close>. \<open>Projects\<close>: \<open>project.go\<close>. \<open>Todos\<close>: \<open>todo.go\<close>
    and \<open>deliverable.go\<close>.
  \<^item> \<open>Task_Reads\<close> and \<open>Task_Write\<close>: \<open>task_impl_task.go\<close>, creating, reading, updating and deleting tasks, with
    tags, blockers and events. \<open>Board_Rank\<close>: \<open>task_rank.go\<close>, the order of the cards on a board.
    \<open>State_Path\<close>: \<open>task_state_move.go\<close>, the search for a legal status path to a board state and the walk.
  \<^item> \<open>Run_Core\<close>: \<open>workflow_run.go\<close>, with \<open>Run_Closure\<close> for its closure. \<open>Run_Rollback\<close>:
    \<open>workflow_run_rollback.go\<close>. \<open>Run_Cancel\<close>: \<open>workflow_run_cancel.go\<close> and \<open>workflow_run_version.go\<close>.
    \<open>Failure_Budget\<close>: \<open>workflow_run_failure_budget.go\<close>. \<open>Step_Limit\<close>: \<open>workflow_run_step_limit.go\<close>.
    \<open>Watchdog\<close>: \<open>workflow_run_watchdog.go\<close>.
  \<^item> \<open>Case_Core\<close> and \<open>Case_End\<close>: \<open>case.go\<close>. \<open>Vote_Key\<close> and \<open>Case_Votes\<close>: \<open>case_vote.go\<close>, the digest that keys a
    vote written out on 32-bit words.
  \<^item> \<open>Assignment\<close>: \<open>assignment.go\<close> and \<open>assignee.go\<close>. \<open>Unblock\<close>: \<open>assignment_unblock.go\<close>.
  \<^item> \<open>Held_Events\<close>: \<open>inTx\<close> of \<open>store.go\<close>, a transaction that holds its events until the commit, and what the
    creation of a plain task writes. \<open>Keyed_Tasks\<close>: the locale \<open>keyed_opening\<close> of the requests that open one
    task for each key and find it again; \<open>Generated\<close> (\<open>generated.go\<close>) and \<open>Sourced\<close> (\<open>sourced.go\<close>) interpret
    it. \<open>Repeating\<close>: \<open>repeating.go\<close> and \<open>repeating_store.go\<close>, templates and the ticks that make their tasks.
    \<open>Overdue\<close>: \<open>overdue.go\<close>. \<open>Time_Roundtrip\<close>: the parser of \<open>Civil_Time\<close> inverts its printer.
    \<open>Sort_Multiset\<close>: what a sort keeps.
  \<^item> \<open>Identity\<close>: \<open>identity_owner.go\<close>.
  \<^item> \<open>Imports\<close> and \<open>Import_Jobs\<close>: \<open>import.go\<close>. The state of the service (\<open>import_sys\<close>) is the world, the workers
    that run (\<open>importJobs\<close> and their contexts) and the cancellations under way. A worker is a machine whose
    phases are the points between two statement groups of \<open>runImport\<close>; \<open>import_step\<close> interleaves calls,
    worker moves, the parts of a cancellation and other requests, and \<open>import_run\<close> closes it under
    sequences. \<open>ImportProject\<close> polls an environment, which is the service as it is at each poll.
  \<^item> \<open>Integrity\<close>: what every operation keeps of all the tables together (\<open>intact\<close>). \<open>Manager\<close>: the interface
    \<open>TaskManager\<close> of \<open>task.go\<close>, one request for each method. \<open>Service\<close>: the whole service, whose steps are
    requests, import calls, worker moves and changes of what the world supplies; its runs keep the tables
    sound and refine those of the import model. \<open>Conduct\<close>: a judgement over the same requests on the events
    they publish and the errors they answer.
  \<^item> \<open>Operations\<close>: \<open>taskmanager.operations.json\<close> and \<open>routes/*.go\<close>, the ninety declared operations, the
    sentinels with their statuses, the route table without handlers and the mounting of it. \<open>Wire\<close>: which
    request a declared operation calls, and what follows for its method and its refusals.
  \<^item> \<open>Topics\<close>: \<open>events.go\<close> and \<open>failure_recovery.go\<close>, all topics of the bus, and the payloads this package
    only names. \<open>Settings\<close>: \<open>task_state.go\<close>, \<open>blueprint.go\<close>, \<open>testrun.go\<close> and the constructor of a manager.

  \<^bold>\<open>How the parts interact.\<close> Writing a task (\<open>UpdateTask\<close>) asks the relationship dispatcher for its blockers,
  links it to its run, and, when it is over, may close the case it serves; cancelling a run, closing one
  past its limit, failing one by timeout and ending a case all go through the task writes; rolling a run
  back resets its tasks directly in one transaction, after asking whether a task of another run depends
  on one of them. Assigning a task writes the hand-over history and asks for its dependencies, and
  unblocking looks at the same dependencies from the other end.

  \<^bold>\<open>What the groups of lemmas show.\<close> Writes follow the transition table and are refused otherwise without
  effect; invariants of the tables hold whatever fails (over tasks say when, ids and names are unique,
  \<open>under_way\<close> says a run is not over, one open stretch per task, one vote per member); composed
  operations do all they promise in quiet worlds (a cancelled run has no task left, a released dependent
  had nothing else to wait for, a closed run was past its limit); the counters under concurrent charges
  are exact for every interleaving of their statements; searches and rankings equal their
  specifications; errors leave the tables as they were, or what they leave is stated. Requests that open
  tasks under a key open each key once, answer a replay with the first rows and lose a race without
  trace; a template's task is made once for each period; what is stored of a template is read back. For
  imports: which documents are accepted, what a worker may count on in each phase, that it ends, that no
  job is left without someone to finish it, what a cancellation achieves by the moment it comes, and
  that the blocking call returns. Of the service as a whole: in every state it can reach keys and edges are
  unique and no pointer dangles, though the schema declares no foreign keys; every event it publishes can be
  taken at its word (\<open>lawful\<close>); a declared \<open>GET\<close> changes nothing and every refusal has a declared status; an
  address reaches at most one declared operation of its method; and the board states of a manager stay
  readable however they are defined and overridden.

  \<^bold>\<open>Bounds.\<close> \<open>maxListPage\<close> is the code's page of 500 rows, and properties of a cascade ask that its tasks
  fit one page. \<open>maxBudgetAttempts\<close> is the code's bound of 16 on a retried charge; the retry loop is a
  recursion on it. The search over statuses runs over the finite list of statuses and ends because each
  round takes one status off the list of those not seen. The moves of an import worker decrease \<open>work\<close>, which
  a document of n tasks and m references starts at 7 + 3 n + m; \<open>runImport\<close> recurs on it. The polls of
  \<open>ImportProject\<close> may go on for ever, so its loop is a partial function and that it returns is proved from
  fairness of the schedule. Ranks and durations wrap at 64 bits; the
  counters of the database do not (their overflow is not modelled).

  \<^bold>\<open>Choices where Go or the database leave one open.\<close> A map is walked in the order of insertion; equal
  elements keep their order under a sort; text is compared by bytes. Estimated hours are rationals.

  \<^bold>\<open>Not modelled.\<close> The SQL engine and the encoding of rows (\<open>specstore\<close>, third-party): the operations are
  those of an unscoped manager, and the scoping to a test run is modelled as the stamping and filtering of
  rows alone (\<open>Settings\<close>). The HTTP dispatcher (\<open>dispatch\<close>, third-party), which decodes arguments, authorizes
  and writes answers: its inputs are modelled, not its handlers. The decoding of JSON; logging; the aliases
  of \<open>aliases.go\<close>; \<open>Provision\<close>, one call of the migration. What the code takes from elsewhere is an
  argument of the definitions that use it: schedules, rules, dates and zones (\<open>recur\<close>), the text of
  object names (\<open>identity_lib\<close>), the store of settings (\<open>settings_lib\<close>), the JSON decoder, wrapped error texts
  and quoting of an import (\<open>import_lib\<close>). A context that is done is modelled between two statement groups of
  an import, not inside one. Clashes of concurrent transactions outside imports and charges are not
  modelled, but the lost race of a tick is, as the run of its transaction in a state that holds the rival's row.
\<close>

end
